(* ===== verification/Prelude.thy ===== *)
theory Prelude
  imports Main "HOL-Library.AList" "HOL-Library.List_Lexorder" "HOL-Library.Char_ord"
begin

text \<open>
  What every component of the development shares.

  \<^item> Instants and durations as Go's \<open>time\<close> package has them: an instant is a number of
    nanoseconds since Go's zero time (1 January of year 1, UTC), so that \<open>IsZero\<close> and
    \<open>Truncate\<close> are plain arithmetic, and the difference of two instants saturates at the
    range of \<open>time.Duration\<close>. An instant's location and its monotonic reading are not
    modelled: there is one clock.
  \<^item> Go maps as association lists whose keys are distinct: lookup is \<open>map_of\<close>, an
    assignment \<open>AList.update\<close>, \<open>delete\<close> is \<open>AList.delete\<close>. The order of the list is
    the order in which a \<open>range\<close> loop visits the map, so a theorem about every list is a
    theorem about every visiting order.
  \<^item> The stored form of a time: the database columns hold whole seconds.
  \<^item> The collections of lemmas the components add to.
\<close>

named_theorems go_time \<open>instants, durations and stored times\<close>
named_theorems go_map \<open>Go maps as association lists\<close>

subsection \<open>Instants and durations\<close>

type_synonym time = int
type_synonym duration = int

definition nanosecond :: duration where "nanosecond = 1"
definition millisecond :: duration where "millisecond = 1000000"
definition second :: duration where "second = 1000000000"
definition minute :: duration where "minute = 60000000000"
definition hour :: duration where "hour = 3600000000000"

lemmas duration_units = nanosecond_def millisecond_def second_def minute_def hour_def

definition max_duration :: duration where "max_duration = 9223372036854775807"
definition min_duration :: duration where "min_duration = - 9223372036854775808"

text \<open>The zero \<open>time.Time\<close>, and \<open>t.IsZero()\<close>.\<close>

definition zero_time :: time where "zero_time = 0"

abbreviation is_zero :: "time \<Rightarrow> bool" where "is_zero t \<equiv> t = zero_time"

text \<open>\<open>t.Sub(u)\<close> saturates; \<open>t.Truncate(d)\<close> rounds down to a multiple of \<open>d\<close> since the
  zero time (\<open>d \<le> 0\<close> leaves \<open>t\<close> alone); \<open>t.Unix()\<close> counts seconds since 1970.\<close>

definition time_sub :: "time \<Rightarrow> time \<Rightarrow> duration" where
  "time_sub t u = max min_duration (min max_duration (t - u))"

definition time_truncate :: "duration \<Rightarrow> time \<Rightarrow> time" where
  "time_truncate d t = (if d \<le> 0 then t else t - t mod d)"

definition unix_epoch :: int where "unix_epoch = 62135596800"

definition time_unix :: "time \<Rightarrow> int" where
  "time_unix t = t div second - unix_epoch"

definition time_of_unix :: "int \<Rightarrow> time" where
  "time_of_unix s = (s + unix_epoch) * second"

lemma time_sub_ge [go_time]:
  assumes "min_duration < d" "d \<le> max_duration"
  shows "d \<le> time_sub t u \<longleftrightarrow> d \<le> t - u"
  using assms by (auto simp: time_sub_def)

lemma time_sub_gt [go_time]:
  assumes "min_duration \<le> d" "d < max_duration"
  shows "d < time_sub t u \<longleftrightarrow> d < t - u"
  using assms by (auto simp: time_sub_def)

lemma time_sub_le [go_time]:
  assumes "min_duration \<le> d" "d < max_duration"
  shows "time_sub t u \<le> d \<longleftrightarrow> t - u \<le> d"
  using time_sub_gt [OF assms, of t u] by linarith

lemma time_sub_lt [go_time]:
  assumes "min_duration < d" "d \<le> max_duration"
  shows "time_sub t u < d \<longleftrightarrow> t - u < d"
  using time_sub_ge [OF assms, of t u] by linarith

lemma time_truncate_le [go_time]: "time_truncate d t \<le> t"
  by (simp add: time_truncate_def)

lemma time_truncate_gt [go_time]: "0 < d \<Longrightarrow> t - d < time_truncate d t"
  using pos_mod_bound [of d t] by (simp add: time_truncate_def)

lemma time_truncate_mono [go_time]:
  assumes "t \<le> u"
  shows "time_truncate d t \<le> time_truncate d u"
proof (cases "0 < d")
  case True
  then have "t div d \<le> u div d" using assms by (simp add: zdiv_mono1)
  then have "d * (t div d) \<le> d * (u div d)" using True by simp
  with True show ?thesis by (simp add: time_truncate_def minus_mod_eq_mult_div)
qed (use assms in \<open>simp add: time_truncate_def\<close>)

lemma time_truncate_idem [go_time, simp]:
  "time_truncate d (time_truncate d t) = time_truncate d t"
  by (auto simp: time_truncate_def minus_mod_eq_mult_div)

lemma time_truncate_dvd [go_time]: "0 < d \<Longrightarrow> d dvd time_truncate d t"
  by (simp add: time_truncate_def minus_mod_eq_mult_div)

text \<open>Go's integer division truncates towards zero.\<close>

definition quot :: "int \<Rightarrow> int \<Rightarrow> int" where
  "quot a b = sgn a * sgn b * (\<bar>a\<bar> div \<bar>b\<bar>)"

lemma quot_nonneg [simp]: "0 \<le> a \<Longrightarrow> 0 < b \<Longrightarrow> quot a b = a div b"
  by (cases "a = 0") (simp_all add: quot_def)

subsection \<open>Stored times\<close>

text \<open>
  \<open>types.DateTime\<close> writes a time as \<open>YYYY-MM-DD hh:mm:ss\<close> in UTC and reads it back: the
  stored value is the whole second. The column compares as its text does, which for the years
  0000 to 9999 is the order of the seconds.
\<close>

type_synonym sqltime = int

definition to_sql :: "time \<Rightarrow> sqltime" where
  "to_sql t = t div second"

definition from_sql :: "sqltime \<Rightarrow> time" where
  "from_sql s = s * second"

lemma to_from_sql [simp, go_time]: "to_sql (from_sql s) = s"
  by (simp add: to_sql_def from_sql_def second_def)

lemma from_to_sql_le [go_time]: "from_sql (to_sql t) \<le> t"
  by (simp add: to_sql_def from_sql_def second_def)

lemma to_sql_mono [go_time]: "t \<le> u \<Longrightarrow> to_sql t \<le> to_sql u"
  by (simp add: to_sql_def second_def zdiv_mono1)

lemma from_sql_mono [go_time]: "from_sql s \<le> from_sql s' \<longleftrightarrow> s \<le> s'"
  by (simp add: from_sql_def second_def)

lemma to_sql_less [go_time]: "to_sql t < to_sql u \<Longrightarrow> t < u"
  using to_sql_mono [of u t] by linarith

lemma less_from_sql [go_time]: "t < from_sql s \<longleftrightarrow> to_sql t < s"
  by (auto simp: from_sql_def to_sql_def second_def)

lemma from_sql_le [go_time]: "from_sql s \<le> t \<longleftrightarrow> s \<le> to_sql t"
  using less_from_sql [of t s] by linarith

subsection \<open>Go maps\<close>

type_synonym ('k, 'v) gomap = "('k \<times> 'v) list"

abbreviation mget :: "('k, 'v) gomap \<Rightarrow> 'k \<Rightarrow> 'v option" where
  "mget m k \<equiv> map_of m k"

abbreviation mput :: "'k \<Rightarrow> 'v \<Rightarrow> ('k, 'v) gomap \<Rightarrow> ('k, 'v) gomap" where
  "mput \<equiv> AList.update"

abbreviation mdel :: "'k \<Rightarrow> ('k, 'v) gomap \<Rightarrow> ('k, 'v) gomap" where
  "mdel \<equiv> AList.delete"

abbreviation keys :: "('k, 'v) gomap \<Rightarrow> 'k list" where
  "keys m \<equiv> map fst m"

definition wf_map :: "('k, 'v) gomap \<Rightarrow> bool" where
  "wf_map m \<longleftrightarrow> distinct (keys m)"

text \<open>\<open>for k := range m { if !P(k) { delete(m, k) } }\<close>\<close>

definition mkeep :: "('k \<Rightarrow> bool) \<Rightarrow> ('k, 'v) gomap \<Rightarrow> ('k, 'v) gomap" where
  "mkeep P m = filter (\<lambda>kv. P (fst kv)) m"

lemma mget_mput [simp, go_map]: "mget (mput k v m) j = (if j = k then Some v else mget m j)"
  by (simp add: update_conv')

lemma mget_mdel [simp, go_map]: "mget (mdel k m) j = (if j = k then None else mget m j)"
  by (simp add: delete_conv')

lemma mget_mkeep [simp, go_map]: "mget (mkeep P m) j = (if P j then mget m j else None)"
  by (induction m) (auto simp: mkeep_def)

lemma wf_map_Nil [simp, intro]: "wf_map []"
  by (simp add: wf_map_def)

lemma find_SomeD: "find P xs = Some x \<Longrightarrow> x \<in> set xs \<and> P x"
  by (induction xs) (auto split: if_splits)

lemma mget_filter_keep: "mget m k = Some v \<Longrightarrow> P (k, v) \<Longrightarrow> mget (filter P m) k = Some v"
  by (induction m) (auto split: if_splits)

lemma wf_map_mput [simp, intro, go_map]: "wf_map m \<Longrightarrow> wf_map (mput k v m)"
  by (simp add: wf_map_def distinct_update)

lemma wf_map_mdel [simp, intro, go_map]: "wf_map m \<Longrightarrow> wf_map (mdel k m)"
  by (simp add: wf_map_def distinct_delete)

lemma wf_map_mkeep [simp, intro, go_map]: "wf_map m \<Longrightarrow> wf_map (mkeep P m)"
  unfolding wf_map_def mkeep_def by (induction m) auto

lemma mget_in_keys [go_map]: "mget m k = Some v \<Longrightarrow> k \<in> set (keys m)"
  by (metis map_of_eq_None_iff list.set_map option.simps(3))

lemma keys_mget [go_map]: "k \<in> set (keys m) \<longleftrightarrow> (\<exists>v. mget m k = Some v)"
  by (metis list.set_map map_of_eq_None_iff not_Some_eq)

lemma wf_map_mem [go_map]: "wf_map m \<Longrightarrow> (k, v) \<in> set m \<longleftrightarrow> mget m k = Some v"
  by (simp add: wf_map_def)

subsection \<open>Lists\<close>

text \<open>\<open>slices.DeleteFunc\<close> and the last element that satisfies a test.\<close>

lemma filter_mem_sorted [simp]: "sorted xs \<Longrightarrow> sorted (filter P xs)"
  by (rule sorted_wrt_filter)

text \<open>Lists that strictly increase under a key.\<close>

lemma strict_key_snoc:
  fixes f :: "'a \<Rightarrow> 'b::linorder"
  assumes "sorted_wrt (<) (map f xs)" "xs = [] \<or> f (last xs) < f x"
  shows "sorted_wrt (<) (map f (xs @ [x]))"
  using assms by (induction xs) (auto split: if_splits intro: less_trans)

lemma strict_key_last:
  fixes f :: "'a \<Rightarrow> 'b::linorder"
  shows "sorted_wrt (<) (map f xs) \<Longrightarrow> x \<in> set xs \<Longrightarrow> f x \<le> f (last xs)"
  by (induction xs) (auto intro: less_imp_le)

lemma strict_key_distinct:
  fixes f :: "'a \<Rightarrow> 'b::linorder"
  shows "sorted_wrt (<) (map f xs) \<Longrightarrow> distinct (map f (filter P xs))"
  by (simp add: strict_sorted_iff distinct_map_filter)

text \<open>A fold that keeps an invariant.\<close>

lemma fold_invariant:
  assumes "I s" "\<And>x s. x \<in> set xs \<Longrightarrow> I s \<Longrightarrow> I (f x s)"
  shows "I (fold f xs s)"
  using assms by (induction xs arbitrary: s) auto

lemma foldl_invariant:
  assumes "I s" "\<And>x s. x \<in> set xs \<Longrightarrow> I s \<Longrightarrow> I (f s x)"
  shows "I (foldl f s xs)"
  using assms by (induction xs arbitrary: s) auto

subsection \<open>Strings\<close>

text \<open>\<open>strings.HasPrefix\<close>, \<open>strings.HasSuffix\<close> and \<open>strings.CutPrefix\<close> on byte strings.\<close>

definition has_prefix :: "string \<Rightarrow> string \<Rightarrow> bool" where
  "has_prefix p s \<longleftrightarrow> take (length p) s = p"

definition has_suffix :: "string \<Rightarrow> string \<Rightarrow> bool" where
  "has_suffix p s \<longleftrightarrow> length p \<le> length s \<and> drop (length s - length p) s = p"

definition cut_prefix :: "string \<Rightarrow> string \<Rightarrow> string option" where
  "cut_prefix p s = (if has_prefix p s then Some (drop (length p) s) else None)"

lemma has_suffix_append [simp]: "has_suffix p (s @ p)"
  by (simp add: has_suffix_def)

lemma has_suffixD: "has_suffix p s \<Longrightarrow> \<exists>r. s = r @ p"
  by (metis append_take_drop_id has_suffix_def)

lemma has_prefix_append [simp]: "has_prefix p (p @ s)"
  by (simp add: has_prefix_def)

lemma has_prefixD: "has_prefix p s \<Longrightarrow> \<exists>r. s = p @ r"
  by (metis append_take_drop_id has_prefix_def)

text \<open>\<open>strings.TrimSpace\<close>: the encodings of the runes \<open>unicode.IsSpace\<close> holds for.\<close>

definition space_seqs :: "string list" where
  "space_seqs =
    [[CHR 0x09], [CHR 0x0A], [CHR 0x0B], [CHR 0x0C], [CHR 0x0D], [CHR 0x20],
     [CHR 0xC2, CHR 0x85], [CHR 0xC2, CHR 0xA0], [CHR 0xE1, CHR 0x9A, CHR 0x80]] @
    map (\<lambda>c. [CHR 0xE2, CHR 0x80, c])
      [CHR 0x80, CHR 0x81, CHR 0x82, CHR 0x83, CHR 0x84, CHR 0x85, CHR 0x86, CHR 0x87, CHR 0x88, CHR 0x89,
       CHR 0x8A, CHR 0xA8, CHR 0xA9, CHR 0xAF] @
    [[CHR 0xE2, CHR 0x81, CHR 0x9F], [CHR 0xE3, CHR 0x80, CHR 0x80]]"

function trim_seqs :: "string list \<Rightarrow> string \<Rightarrow> string" where
  "trim_seqs seqs s =
     (case find (\<lambda>p. p \<noteq> [] \<and> has_prefix p s) seqs of
        None \<Rightarrow> s | Some p \<Rightarrow> trim_seqs seqs (drop (length p) s))"
  by pat_completeness auto

termination trim_seqs
proof (relation "measure (\<lambda>(seqs, s). length s)")
  fix seqs :: "string list" and s p
  assume "find (\<lambda>p. p \<noteq> [] \<and> has_prefix p s) seqs = Some p"
  then have p: "p \<noteq> []" "take (length p) s = p" by (auto simp: find_Some_iff has_prefix_def)
  then have "s \<noteq> []" by auto
  with p(1) show "((seqs, drop (length p) s), (seqs, s)) \<in> measure (\<lambda>(seqs, s). length s)" by simp
qed simp

declare trim_seqs.simps [simp del]

definition trim_space :: "string \<Rightarrow> string" where
  "trim_space s = rev (trim_seqs (map rev space_seqs) (rev (trim_seqs space_seqs s)))"

subsection \<open>Decimal numbers\<close>

text \<open>Go's decimal form of a number, and its digits read back.\<close>

fun show_nat :: "nat \<Rightarrow> string" where
  "show_nat n = (if n < 10 then [char_of (48 + n)] else show_nat (n div 10) @ [char_of (48 + n mod 10)])"

declare show_nat.simps [simp del]

text \<open>\<open>strings.LastIndexByte\<close> and \<open>strconv.ParseUint(s, 10, 32)\<close>.\<close>

definition last_index :: "char \<Rightarrow> string \<Rightarrow> nat option" where
  "last_index c s =
     (let r = takeWhile (\<lambda>d. d \<noteq> c) (rev s) in if length r = length s then None else Some (length s - length r - 1))"

definition dec_digit :: "char \<Rightarrow> bool" where
  "dec_digit c \<longleftrightarrow> 48 \<le> (of_char c :: nat) \<and> (of_char c :: nat) \<le> 57"

definition dec_value :: "string \<Rightarrow> nat" where
  "dec_value s = foldl (\<lambda>v c. 10 * v + (of_char c - 48)) 0 s"

definition ParseUint32 :: "string \<Rightarrow> nat option" where
  "ParseUint32 s = (if s \<noteq> [] \<and> list_all dec_digit s \<and> dec_value s < 2 ^ 32 then Some (dec_value s) else None)"

subsection \<open>Calls that fail\<close>

text \<open>What becomes of a call to a store: it is applied and answered, it fails before anything happened,
  or it is applied and its answer is lost.\<close>

datatype fault = NoFault | FailBefore | FailAfter

definition pop_fault :: "fault list \<Rightarrow> fault \<times> fault list" where
  "pop_fault fs = (case fs of [] \<Rightarrow> (NoFault, []) | f # r \<Rightarrow> (f, r))"

text \<open>A statement that answers with a value, under a fault; \<open>None\<close> is an error.\<close>

definition attempt :: "fault \<Rightarrow> ('s \<Rightarrow> 'a \<times> 's) \<Rightarrow> 's \<Rightarrow> 'a option \<times> 's" where
  "attempt f m s =
     (case f of NoFault \<Rightarrow> (let (x, s') = m s in (Some x, s')) | FailBefore \<Rightarrow> (None, s)
      | FailAfter \<Rightarrow> (None, snd (m s)))"

lemma attempt_state: "snd (attempt f m s) \<in> {s, snd (m s)}"
  by (cases f) (auto simp: attempt_def split_beta)

lemma attempt_Some: "attempt f m s = (Some x, s') \<Longrightarrow> m s = (x, s')"
  by (cases f) (auto simp: attempt_def split_beta)

subsection \<open>Tables\<close>

text \<open>An UPDATE: the rows it changes and how many they are. SQL's comparison with NULL is not
  true.\<close>

definition sql_update :: "('r \<Rightarrow> bool) \<Rightarrow> ('r \<Rightarrow> 'r) \<Rightarrow> 'r list \<Rightarrow> nat \<times> 'r list" where
  "sql_update P f t = (length (filter P t), map (\<lambda>r. if P r then f r else r) t)"

definition sql_le :: "sqltime option \<Rightarrow> sqltime \<Rightarrow> bool" where
  "sql_le x t = (case x of None \<Rightarrow> False | Some s \<Rightarrow> s \<le> t)"

lemma sql_update_mem:
  "q' \<in> set (snd (sql_update P f t)) \<longleftrightarrow> (\<exists>q \<in> set t. q' = (if P q then f q else q))"
  by (auto simp: sql_update_def)

end
