(* ===== verification/Float64.thy ===== *)
theory Float64
  imports Prelude "HOL-Library.Log_Nat"
begin

text \<open>
  Go's \<open>float64\<close>: IEEE 754 binary64 with round to nearest, ties to even, as Go's compilers
  compute it. A finite value is the rational number it stands for; every operation computes
  the exact rational result and rounds it to the nearest representable one. The two zeros
  are one value here: no modelled code divides by a zero or looks at a sign bit.

  The lemmas are what the components need: rounding is monotone, so sums, quotients by a
  positive count and the comparisons built from them are monotone too, and small integers are
  exact.
\<close>

named_theorems go_float \<open>binary64 arithmetic\<close>

datatype f64 = NaN | NInf | Fin rat | PInf

subsection \<open>Rounding\<close>

definition round_even :: "rat \<Rightarrow> int" where
  "round_even x =
     (let f = \<lfloor>x\<rfloor>; r = x - of_int f
      in if r < 1 / 2 then f else if 1 / 2 < r then f + 1 else if even f then f else f + 1)"

text \<open>\<open>fexp x\<close> is the exponent \<open>e\<close> with \<open>2\<^sup>e \<le> x < 2\<^sup>e\<^sup>+\<^sup>1\<close>.\<close>

definition fexp :: "rat \<Rightarrow> int" where
  "fexp x =
     (let (a, b) = quotient_of x;
          e = bitlen a - bitlen b
      in if 2 powi e \<le> x then e else e - 1)"

text \<open>The distance of neighbouring values at \<open>x\<close>: 53 significant bits, and no finer than the
  least subnormal.\<close>

definition ulp_exp :: "rat \<Rightarrow> int" where
  "ulp_exp x = (if x = 0 then - 1074 else max (fexp \<bar>x\<bar> - 52) (- 1074))"

definition ulp :: "rat \<Rightarrow> rat" where
  "ulp x = 2 powi (ulp_exp x)"

definition nearest :: "rat \<Rightarrow> rat" where
  "nearest x = of_int (round_even (x / ulp x)) * ulp x"

definition f64_limit :: rat where "f64_limit = 2 ^ 1024"

definition rnd :: "rat \<Rightarrow> f64" where
  "rnd x =
     (let y = nearest x
      in if f64_limit \<le> y then PInf else if y \<le> - f64_limit then NInf else Fin y)"

text \<open>A value a program can hold.\<close>

fun is_f64 :: "f64 \<Rightarrow> bool" where
  "is_f64 (Fin x) = (rnd x = Fin x)"
| "is_f64 _ = True"

subsection \<open>Operations\<close>

fun fneg :: "f64 \<Rightarrow> f64" where
  "fneg NaN = NaN" | "fneg NInf = PInf" | "fneg PInf = NInf" | "fneg (Fin x) = Fin (- x)"

fun fadd :: "f64 \<Rightarrow> f64 \<Rightarrow> f64" where
  "fadd NaN _ = NaN"
| "fadd _ NaN = NaN"
| "fadd PInf NInf = NaN"
| "fadd NInf PInf = NaN"
| "fadd PInf _ = PInf"
| "fadd _ PInf = PInf"
| "fadd NInf _ = NInf"
| "fadd _ NInf = NInf"
| "fadd (Fin x) (Fin y) = rnd (x + y)"

definition inf_of_sign :: "rat \<Rightarrow> f64" where
  "inf_of_sign s = (if 0 < s then PInf else if s < 0 then NInf else NaN)"

fun fmul :: "f64 \<Rightarrow> f64 \<Rightarrow> f64" where
  "fmul NaN _ = NaN"
| "fmul _ NaN = NaN"
| "fmul PInf PInf = PInf"
| "fmul PInf NInf = NInf"
| "fmul NInf PInf = NInf"
| "fmul NInf NInf = PInf"
| "fmul PInf (Fin y) = inf_of_sign y"
| "fmul NInf (Fin y) = inf_of_sign (- y)"
| "fmul (Fin x) PInf = inf_of_sign x"
| "fmul (Fin x) NInf = inf_of_sign (- x)"
| "fmul (Fin x) (Fin y) = rnd (x * y)"

fun fdiv :: "f64 \<Rightarrow> f64 \<Rightarrow> f64" where
  "fdiv NaN _ = NaN"
| "fdiv _ NaN = NaN"
| "fdiv (Fin x) (Fin y) = (if y = 0 then inf_of_sign x else rnd (x / y))"
| "fdiv (Fin x) _ = Fin 0"
| "fdiv PInf (Fin y) = (if 0 \<le> y then PInf else NInf)"
| "fdiv NInf (Fin y) = (if 0 \<le> y then NInf else PInf)"
| "fdiv _ _ = NaN"

text \<open>\<open>a < b\<close> and \<open>a <= b\<close>; both are false when an operand is NaN.\<close>

fun fle :: "f64 \<Rightarrow> f64 \<Rightarrow> bool" where
  "fle NaN _ = False"
| "fle _ NaN = False"
| "fle NInf _ = True"
| "fle _ PInf = True"
| "fle (Fin x) (Fin y) = (x \<le> y)"
| "fle _ _ = False"

definition flt :: "f64 \<Rightarrow> f64 \<Rightarrow> bool" where
  "flt a b \<longleftrightarrow> a \<noteq> NaN \<and> b \<noteq> NaN \<and> \<not> fle b a"

text \<open>\<open>math.Max\<close>: an infinite positive operand wins, then a NaN.\<close>

definition fmax :: "f64 \<Rightarrow> f64 \<Rightarrow> f64" where
  "fmax a b =
     (if a = PInf \<or> b = PInf then PInf
      else if a = NaN \<or> b = NaN then NaN
      else if fle a b then b else a)"

text \<open>\<open>math.IsNaN(x) || math.IsInf(x, 0)\<close>, the conversion of an integer and \<open>math.Ceil\<close>.\<close>

fun is_finite :: "f64 \<Rightarrow> bool" where
  "is_finite (Fin _) = True"
| "is_finite _ = False"

definition f64_of_int :: "int \<Rightarrow> f64" where
  "f64_of_int n = rnd (of_int n)"

fun fceil :: "f64 \<Rightarrow> f64" where
  "fceil (Fin x) = Fin (of_int \<lceil>x\<rceil>)"
| "fceil v = v"

text \<open>The conversion to \<open>int\<close> truncates towards zero; outside the int range (and for the
  values that are no number) Go leaves the result to the implementation, here 0.\<close>

fun int_of_f64 :: "f64 \<Rightarrow> int" where
  "int_of_f64 (Fin x) = (if 0 \<le> x then \<lfloor>x\<rfloor> else \<lceil>x\<rceil>)"
| "int_of_f64 _ = 0"

subsection \<open>The exponent\<close>

lemma powi_pos [simp]: "0 < (2 :: rat) powi e"
  by (simp add: zero_less_power_int)

lemma powi_less [go_float]: "(2 :: rat) powi a < 2 powi b \<longleftrightarrow> a < b"
  by (metis linorder_neqE not_less_iff_gr_or_eq one_less_numeral_iff
      power_int_strict_increasing semiring_norm(76))

lemma powi_le [go_float]: "(2 :: rat) powi a \<le> 2 powi b \<longleftrightarrow> a \<le> b"
  by (meson linorder_not_less powi_less)

lemma bitlen_powi:
  assumes "0 < n"
  shows "(2 :: rat) powi (bitlen n - 1) \<le> of_int n" "of_int n < (2 :: rat) powi (bitlen n)"
proof -
  have b: "1 \<le> bitlen n" using assms bitlen_ge_iff_power [of 1 n] by simp
  have lo: "2 ^ nat (bitlen n - 1) \<le> n" and hi: "n < 2 ^ nat (bitlen n)"
    using bitlen_bounds [OF assms] by auto
  have "(2 :: rat) powi (bitlen n - 1) = of_int (2 ^ nat (bitlen n - 1))"
    using b by (simp add: power_int_nonneg_exp)
  also have "\<dots> \<le> of_int n" using lo by (simp only: of_int_le_iff)
  finally show "(2 :: rat) powi (bitlen n - 1) \<le> of_int n" .
  have "(of_int n :: rat) < of_int (2 ^ nat (bitlen n))" using hi by (simp only: of_int_less_iff)
  also have "\<dots> = 2 powi (bitlen n)" using b by (simp add: power_int_nonneg_exp)
  finally show "of_int n < (2 :: rat) powi (bitlen n)" .
qed

lemma fexp_bounds:
  assumes "0 < x"
  shows "2 powi (fexp x) \<le> x" "x < 2 powi (fexp x + 1)"
proof -
  obtain a b where q: "quotient_of x = (a, b)" by fastforce
  have b: "0 < b" using q by (rule quotient_of_denom_pos)
  have x: "x = of_int a / of_int b" using q by (rule quotient_of_div)
  have a: "0 < a" using assms b by (simp add: x zero_less_divide_iff)
  note A = bitlen_powi [OF a] and B = bitlen_powi [OF b]
  define e where "e = bitlen a - bitlen b"
  have lo: "2 powi (e - 1) \<le> x"
  proof -
    have "(2 :: rat) powi (e - 1) * of_int b \<le> 2 powi (e - 1) * 2 powi (bitlen b)"
      using B(2) by (intro mult_left_mono) (simp_all add: less_imp_le)
    also have "\<dots> = 2 powi (bitlen a - 1)" by (simp add: e_def flip: power_int_add)
    also have "\<dots> \<le> of_int a" by (rule A(1))
    finally show ?thesis using b by (simp add: x field_simps)
  qed
  have hi: "x < 2 powi (e + 1)"
  proof -
    have "of_int a < (2 :: rat) powi (bitlen a)" by (rule A(2))
    also have "\<dots> = 2 powi (e + 1) * 2 powi (bitlen b - 1)" by (simp add: e_def flip: power_int_add)
    also have "\<dots> \<le> 2 powi (e + 1) * of_int b" using B(1) by (intro mult_left_mono) (simp_all add: less_imp_le)
    finally show ?thesis using b by (simp add: x field_simps)
  qed
  have f: "fexp x = (if 2 powi e \<le> x then e else e - 1)" by (simp add: fexp_def q e_def)
  show "2 powi (fexp x) \<le> x" "x < 2 powi (fexp x + 1)" using lo hi by (auto simp: f)
qed

lemma fexp_unique:
  assumes "2 powi e \<le> x" "x < 2 powi (e + 1)"
  shows "fexp x = e"
proof -
  have x: "0 < x" using assms(1) powi_pos [of e] by linarith
  have "2 powi e < (2 :: rat) powi (fexp x + 1)" "2 powi (fexp x) < (2 :: rat) powi (e + 1)"
    using fexp_bounds [OF x] assms by linarith+
  then show ?thesis by (simp add: powi_less)
qed

lemma fexp_mono: "0 < x \<Longrightarrow> x \<le> y \<Longrightarrow> fexp x \<le> fexp y"
proof -
  assume x: "0 < x" "x \<le> y"
  have "2 powi (fexp x) < (2 :: rat) powi (fexp y + 1)"
    using fexp_bounds [of x] fexp_bounds [of y] x by linarith
  then show ?thesis by (simp add: powi_less)
qed

subsection \<open>Rounding is monotone and exact on the grid\<close>

lemma round_even_of_int [simp]: "round_even (of_int n) = n"
  by (simp add: round_even_def)

lemma round_even_bounds: "of_int (round_even x) \<le> x + 1 / 2" "x - 1 / 2 \<le> of_int (round_even x)"
  by (auto simp: round_even_def Let_def; linarith)+

lemma round_even_mono:
  assumes "x \<le> y"
  shows "round_even x \<le> round_even y"
proof -
  have f: "\<lfloor>x\<rfloor> \<le> \<lfloor>y\<rfloor>" using assms by (rule floor_mono)
  have up: "round_even x \<le> \<lfloor>x\<rfloor> + 1" and dn: "\<lfloor>y\<rfloor> \<le> round_even y"
    by (auto simp: round_even_def Let_def)
  show ?thesis
  proof (cases "\<lfloor>x\<rfloor> = \<lfloor>y\<rfloor>")
    case True
    with assms show ?thesis by (auto simp: round_even_def Let_def)
  next
    case False
    with f up dn show ?thesis by linarith
  qed
qed

lemma round_even_minus: "round_even (- x) = - round_even x"
proof (cases "of_int \<lfloor>x\<rfloor> = x")
  case True
  then show ?thesis by (metis of_int_minus round_even_of_int)
next
  case False
  then have c: "\<lfloor>- x\<rfloor> = - \<lfloor>x\<rfloor> - 1" by linarith
  show ?thesis by (auto simp: round_even_def Let_def c)
qed

lemma ulp_pos [simp]: "0 < ulp x" by (simp add: ulp_def)

lemma ulp_nonzero [simp]: "ulp x \<noteq> 0" using ulp_pos [of x] by linarith

lemma ulp_exp_minus [simp]: "ulp_exp (- x) = ulp_exp x" by (simp add: ulp_exp_def)

lemma ulp_minus [simp]: "ulp (- x) = ulp x" by (simp add: ulp_def)

lemma ulp_exp_mono: "0 \<le> x \<Longrightarrow> x \<le> y \<Longrightarrow> ulp_exp x \<le> ulp_exp y"
  using fexp_mono [of x y] by (auto simp: ulp_exp_def)

lemma round_even_small: "0 \<le> r \<Longrightarrow> r < 1 / 2 \<Longrightarrow> round_even (of_int n + r) = n"
proof -
  assume r: "0 \<le> r" "r < 1 / 2"
  have "\<lfloor>of_int n + r\<rfloor> = n" by (rule floor_unique) (use r in auto)
  then show ?thesis using r by (simp add: round_even_def Let_def)
qed

lemma nearest_error: "nearest x \<le> x + ulp x / 2" "x - ulp x / 2 \<le> nearest x"
proof -
  have b: "of_int (round_even (x / ulp x)) * ulp x \<le> (x / ulp x + 1 / 2) * ulp x"
    "(x / ulp x - 1 / 2) * ulp x \<le> of_int (round_even (x / ulp x)) * ulp x"
    using round_even_bounds [of "x / ulp x"] ulp_pos [of x] by (auto intro!: mult_right_mono less_imp_le)
  have "x / ulp x * ulp x = x" using ulp_pos [of x] by (simp del: ulp_pos)
  then show "nearest x \<le> x + ulp x / 2" "x - ulp x / 2 \<le> nearest x"
    using b by (auto simp: nearest_def algebra_simps)
qed

lemma nearest_minus: "nearest (- x) = - nearest x"
  using round_even_minus [of "x / ulp x"] by (simp add: nearest_def)

lemma nearest_0 [simp]: "nearest 0 = 0"
  by (simp add: nearest_def round_even_def)

lemma nearest_le_grid:
  assumes "x \<le> of_int n * ulp x"
  shows "nearest x \<le> of_int n * ulp x"
proof -
  have "x / ulp x \<le> of_int n" using assms by (simp add: divide_simps)
  then have "round_even (x / ulp x) \<le> n" using round_even_mono by fastforce
  then show ?thesis by (simp add: nearest_def)
qed

lemma nearest_ge_grid:
  assumes "of_int n * ulp x \<le> x"
  shows "of_int n * ulp x \<le> nearest x"
proof -
  have "of_int n \<le> x / ulp x" using assms by (simp add: divide_simps)
  then have "n \<le> round_even (x / ulp x)" using round_even_mono by fastforce
  then show ?thesis by (simp add: nearest_def)
qed

lemma nearest_grid [go_float]: "x = of_int n * ulp x \<Longrightarrow> nearest x = x"
  using nearest_le_grid [of x n] nearest_ge_grid [of n x] by simp

lemma nearest_nonneg: "0 \<le> x \<Longrightarrow> 0 \<le> nearest x"
  using nearest_ge_grid [of 0 x] by simp

text \<open>Where the grid of \<open>y\<close> is coarser than that of \<open>x\<close>, the power of two below \<open>y\<close>
  separates the results.\<close>

lemma nearest_mono_pos:
  assumes "0 \<le> x" "x \<le> y"
  shows "nearest x \<le> nearest y"
proof (cases "ulp_exp x = ulp_exp y")
  case True
  then have u: "ulp x = ulp y" by (simp add: ulp_def)
  have "x / ulp x \<le> y / ulp x" using assms(2) ulp_pos [of x] by (intro divide_right_mono) (simp_all only: less_imp_le)
  then have "round_even (x / ulp x) \<le> round_even (y / ulp y)" using round_even_mono u by simp
  then show ?thesis by (simp add: nearest_def u)
next
  case False
  have less: "ulp_exp x < ulp_exp y" using ulp_exp_mono [OF assms] False by simp
  have y: "0 < y" using assms less by (cases "y = 0") auto
  define t :: rat where "t = 2 powi (fexp y)"
  have ey: "ulp_exp y = fexp y - 52" and ex: "x = 0 \<or> fexp x < fexp y"
    using less y by (auto simp: ulp_exp_def abs_of_nonneg assms split: if_splits)
  have ty: "t = of_int (2 ^ 52) * ulp y"
    by (simp add: t_def ulp_def ey power_int_diff)
  have "t \<le> nearest y"
    using nearest_ge_grid [of "2 ^ 52" y] fexp_bounds(1) [OF y] ty by (simp add: t_def)
  moreover have "nearest x \<le> t"
  proof (cases "x = 0")
    case True
    then show ?thesis by (simp add: t_def less_imp_le)
  next
    case False
    then have "x < 2 powi (fexp x + 1)" using fexp_bounds(2) [of x] assms(1) by simp
    also have "\<dots> \<le> t" using ex False by (simp add: t_def powi_le)
    finally have xt: "x < t" .
    define k where "k = nat (fexp y - ulp_exp x)"
    have "int k = fexp y - ulp_exp x" using less ey by (simp add: k_def)
    then have "t = of_int (2 ^ k) * ulp x"
      by (simp add: t_def ulp_def flip: power_int_of_nat power_int_add)
    then show ?thesis using nearest_le_grid [of x "2 ^ k"] xt by simp
  qed
  ultimately show ?thesis by linarith
qed

lemma nearest_mono [go_float]:
  assumes "x \<le> y"
  shows "nearest x \<le> nearest y"
proof (cases "0 \<le> x")
  case True
  then show ?thesis using assms by (rule nearest_mono_pos)
next
  case neg: False
  show ?thesis
  proof (cases "0 \<le> y")
    case True
    have "nearest x = - nearest (- x)" by (simp add: nearest_minus)
    then show ?thesis using nearest_nonneg [of "- x"] nearest_nonneg [of y] neg True by simp
  next
    case False
    then have "nearest (- y) \<le> nearest (- x)" using assms neg by (intro nearest_mono_pos) auto
    then show ?thesis by (simp add: nearest_minus)
  qed
qed

subsection \<open>What the components use\<close>

lemma rnd_0 [simp]: "rnd 0 = Fin 0"
  by (simp add: rnd_def f64_limit_def)

lemma rnd_not_NaN [simp]: "rnd x \<noteq> NaN" "NaN \<noteq> rnd x"
  by (auto simp: rnd_def Let_def)

lemma rnd_mono [go_float]:
  assumes "x \<le> y"
  shows "fle (rnd x) (rnd y)"
  using nearest_mono [OF assms] by (auto simp: rnd_def Let_def f64_limit_def)

lemma fle_ends [simp]: "fle NInf (rnd x)" "fle (rnd x) PInf"
  by (auto simp: rnd_def Let_def)

lemma rnd_eq_Fin: "\<bar>nearest x\<bar> < f64_limit \<Longrightarrow> rnd x = Fin (nearest x)"
  by (auto simp: rnd_def Let_def)

text \<open>Evaluation: the exponent of a normal value is given, the rest is arithmetic.\<close>

lemma rnd_eval:
  assumes "2 powi e \<le> x" "x < 2 powi (e + 1)" "- 1022 \<le> e" "e < 1023"
  shows "rnd x = Fin (of_int (round_even (x * 2 powi (52 - e))) * 2 powi (e - 52))"
proof -
  have x: "0 < x" using assms(1) powi_pos [of e] by linarith
  have u: "ulp_exp x = e - 52" using fexp_unique [OF assms(1,2)] assms(3) x by (simp add: ulp_exp_def)
  have "(2 :: rat) powi (52 - e) = 1 / 2 powi (e - 52)"
    using power_int_minus_divide [of "2 :: rat" "e - 52"] by simp
  then have n: "nearest x = of_int (round_even (x * 2 powi (52 - e))) * 2 powi (e - 52)"
    by (simp add: nearest_def ulp_def u)
  have "2 powi (e + 1) = of_int (2 ^ 53) * ulp x" by (simp add: ulp_def u power_int_diff power_int_add)
  then have "nearest x \<le> 2 powi (e + 1)"
    using nearest_le_grid [of x "2 ^ 53"] assms(2) by simp
  also have "\<dots> < (2 :: rat) powi 1024" using assms(4) by (simp only: powi_less)
  also have "\<dots> = f64_limit" by (simp add: f64_limit_def)
  finally have "\<bar>nearest x\<bar> < f64_limit" using nearest_nonneg [of x] x by simp
  then show ?thesis using rnd_eq_Fin n by simp
qed

lemma f64_of_int_exact [go_float]:
  assumes "\<bar>n\<bar> \<le> 2 ^ 53"
  shows "f64_of_int n = Fin (of_int n)"
proof -
  have pos: "nearest (of_int m) = of_int m" if "0 < m" "m \<le> 2 ^ 53" for m :: int
  proof (cases "m = 2 ^ 53")
    case True
    have "fexp (2 ^ 53) = 53" by (rule fexp_unique) simp_all
    then have "ulp (2 ^ 53) = 2" by (simp add: ulp_def ulp_exp_def)
    then show ?thesis using True nearest_grid [of "2 ^ 53" "2 ^ 52"] by simp
  next
    case False
    with that have "(of_int m :: rat) < of_int (2 ^ 53)" by (simp only: of_int_less_iff)
    then have "2 powi (fexp (of_int m)) < (2 :: rat) powi 53"
      using fexp_bounds(1) [of "of_int m"] that by simp
    then have f: "fexp (of_int m) < 53" by (simp only: powi_less)
    define k where "k = nat (- ulp_exp (of_int m))"
    have "int k = - ulp_exp (of_int m)" using f that by (simp add: k_def ulp_exp_def)
    then have "(of_int (m * 2 ^ k) :: rat) * ulp (of_int m) = of_int m"
      by (simp add: ulp_def flip: power_int_of_nat power_int_add)
    then show ?thesis by (metis nearest_grid)
  qed
  have "nearest (of_int n) = of_int n"
    using pos [of n] pos [of "- n"] nearest_minus [of "of_int n"] assms by (cases "0 < n") (cases "n = 0"; simp)+
  moreover have "\<bar>of_int n :: rat\<bar> < f64_limit"
  proof -
    have "\<bar>of_int n :: rat\<bar> \<le> of_int (2 ^ 53)" using assms by (simp only: of_int_abs [symmetric] of_int_le_iff)
    also have "\<dots> < f64_limit" by (simp add: f64_limit_def)
    finally show ?thesis .
  qed
  ultimately show ?thesis using rnd_eq_Fin [of "of_int n"] by (simp add: f64_of_int_def)
qed

text \<open>The order without NaN is total and transitive.\<close>

lemma fle_refl [simp]: "x \<noteq> NaN \<Longrightarrow> fle x x" by (cases x) auto

lemma fle_trans [go_float]: "fle x y \<Longrightarrow> fle y z \<Longrightarrow> fle x z"
  by (cases x; cases y; cases z) auto

lemma fle_not_NaN [dest]: "fle x y \<Longrightarrow> x \<noteq> NaN \<and> y \<noteq> NaN" by (cases x; cases y) auto

lemma flt_irrefl [simp]: "\<not> flt x x" by (cases x) (auto simp: flt_def)

lemma flt_fle_trans [go_float]: "flt x y \<Longrightarrow> fle y z \<Longrightarrow> flt x z"
  by (auto simp: flt_def dest: fle_trans)

lemma fadd_mono [go_float]:
  assumes "fle a b" "fle c d" "fadd a c \<noteq> NaN" "fadd b d \<noteq> NaN"
  shows "fle (fadd a c) (fadd b d)"
  using assms by (cases a; cases b; cases c; cases d) (auto simp: rnd_mono intro: rnd_mono)

lemma fdiv_pos_mono [go_float]:
  assumes "fle a b" "0 < n"
  shows "fle (fdiv a (Fin n)) (fdiv b (Fin n))"
  using assms by (cases a; cases b) (auto intro!: rnd_mono divide_right_mono)

lemma fdiv_Fin_NaN [simp]: "0 < n \<Longrightarrow> fdiv a (Fin n) = NaN \<longleftrightarrow> a = NaN"
  by (cases a) auto

end
