(* ===== verification/Metrics.thy ===== *)
theory Metrics
  imports Float64
begin

text \<open>
  The monitoring model of \<open>internal/domain/metrics\<close>: storage tiers and the alignment of their
  buckets (\<open>tier.go\<close>), the flattening of a sample into stored values (\<open>sample.go\<close>), the
  roll-up of one tier into the next and the chart points (\<open>rollup.go\<close>), and the in-memory store
  of each server's latest sample (\<open>latest.go\<close>).

  The roll-up walks the rows once and keeps an accumulator per field; \<open>field_acc\<close> is what a
  reader would compute for one field alone, and the two agree.
\<close>

subsection \<open>Tiers (tier.go)\<close>

datatype tier = Tier1 | Tier10 | Tier20 | Tier120 | Tier480

fun tier_minutes :: "tier \<Rightarrow> int" where
  "tier_minutes Tier1 = 1"
| "tier_minutes Tier10 = 10"
| "tier_minutes Tier20 = 20"
| "tier_minutes Tier120 = 120"
| "tier_minutes Tier480 = 480"

definition Tiers :: "tier list" where
  "Tiers = [Tier1, Tier10, Tier20, Tier120, Tier480]"

definition RollupPairs :: "(tier \<times> tier) list" where
  "RollupPairs = [(Tier1, Tier10), (Tier10, Tier20), (Tier20, Tier120), (Tier120, Tier480)]"

definition RollupGrace :: duration where "RollupGrace = 2 * minute"

definition tier_duration :: "tier \<Rightarrow> duration" where
  "tier_duration t = tier_minutes t * minute"

fun tier_retention :: "tier \<Rightarrow> duration" where
  "tier_retention Tier1 = hour"
| "tier_retention Tier10 = 12 * hour"
| "tier_retention Tier20 = 24 * hour"
| "tier_retention Tier120 = 7 * 24 * hour"
| "tier_retention Tier480 = 30 * 24 * hour"

definition bucket_start :: "tier \<Rightarrow> time \<Rightarrow> time" where
  "bucket_start t ts = time_truncate (tier_duration t) ts"

definition parse_range :: "string \<Rightarrow> (tier \<times> duration) option" where
  "parse_range s =
     (if s = ''1h'' then Some (Tier1, hour)
      else if s = ''12h'' then Some (Tier10, 12 * hour)
      else if s = ''24h'' then Some (Tier20, 24 * hour)
      else if s = ''7d'' then Some (Tier120, 7 * 24 * hour)
      else if s = ''30d'' then Some (Tier480, 30 * 24 * hour)
      else None)"

text \<open>The tiers are ordered by their resolution, as the list of all tiers is.\<close>

instantiation tier :: linorder
begin

definition less_eq_tier :: "tier \<Rightarrow> tier \<Rightarrow> bool" where
  "less_eq_tier a b \<longleftrightarrow> tier_minutes a \<le> tier_minutes b"

definition less_tier :: "tier \<Rightarrow> tier \<Rightarrow> bool" where
  "less_tier a b \<longleftrightarrow> tier_minutes a < tier_minutes b"

instance
proof
  fix x y :: tier
  show "x \<le> y \<Longrightarrow> y \<le> x \<Longrightarrow> x = y"
    by (cases x; cases y) (simp_all add: less_eq_tier_def)
qed (auto simp: less_eq_tier_def less_tier_def)

end

subsection \<open>Stored values (sample.go)\<close>

type_synonym metric_values = "(string, f64) gomap"

definition MaxSuffix :: string where "MaxSuffix = ''_max''"
definition TempPrefix :: string where "TempPrefix = ''temp:''"
definition maxSensors :: nat where "maxSensors = 16"
definition UnavailableField :: string where "UnavailableField = ''unavailable''"

text \<open>\<open>put\<close> drops what JSON cannot carry.\<close>

definition put :: "string \<Rightarrow> f64 \<Rightarrow> metric_values \<Rightarrow> metric_values" where
  "put key x v = (if \<not> is_finite x then v else mput key x v)"

definition put_ptr :: "string \<Rightarrow> f64 option \<Rightarrow> metric_values \<Rightarrow> metric_values" where
  "put_ptr key x v = (case x of None \<Rightarrow> v | Some y \<Rightarrow> put key y v)"

record disk =
  d_mount :: string
  d_used :: f64
  d_total :: f64

record docker_df =
  df_images :: f64
  df_volumes :: f64
  df_build_cache :: f64
  df_reclaimable :: f64

record server_sample =
  s_cpu :: "f64 option"
  s_mem_used :: f64
  s_mem_total :: f64
  s_swap_used :: f64
  s_swap_total :: f64
  s_load1 :: f64
  s_load5 :: f64
  s_load15 :: f64
  s_disks :: "disk list"
  s_disk_read_bps :: "f64 option"
  s_disk_write_bps :: "f64 option"
  s_net_rx_bps :: "f64 option"
  s_net_tx_bps :: "f64 option"
  s_temp :: "f64 option"
  s_temps :: "(string, f64) gomap"
  s_docker_df :: "docker_df option"

record app_sample =
  as_app_id :: string
  as_cpu :: "f64 option"
  as_mem_used :: "f64 option"
  as_mem_limit :: "f64 option"
  as_net_rx_bps :: "f64 option"
  as_net_tx_bps :: "f64 option"
  as_disk :: "f64 option"
  as_image :: "f64 option"
  as_unavailable :: bool

record sample =
  sm_ts :: int
  sm_server :: server_sample
  sm_apps :: "app_sample list"

text \<open>The loop over the filesystems: their used and total sums and the fullest one's percentage.\<close>

fun disk_sums :: "disk list \<Rightarrow> f64 \<times> f64 \<times> f64 \<Rightarrow> f64 \<times> f64 \<times> f64" where
  "disk_sums [] acc = acc"
| "disk_sums (d # ds) (used, tot, pct) =
     disk_sums ds
       (fadd used (d_used d), fadd tot (d_total d),
        if flt (Fin 0) (d_total d) then fmax pct (fdiv (fmul (Fin 100) (d_used d)) (d_total d)) else pct)"

definition put_disks :: "disk list \<Rightarrow> metric_values \<Rightarrow> metric_values" where
  "put_disks ds v =
     (if ds = [] then v
      else let (used, tot, pct) = disk_sums ds (Fin 0, Fin 0, Fin 0)
           in put ''disk_pct'' pct (put ''disk_total'' tot (put ''disk_used'' used v)))"

text \<open>\<open>s.Temps[l]\<close> of the first sixteen labels in order.\<close>

definition put_temps :: "(string, f64) gomap \<Rightarrow> metric_values \<Rightarrow> metric_values" where
  "put_temps ts v =
     fold (\<lambda>l. put (TempPrefix @ l) (case mget ts l of Some x \<Rightarrow> x | None \<Rightarrow> Fin 0))
       (take maxSensors (sort (keys ts))) v"

definition put_docker :: "docker_df option \<Rightarrow> metric_values \<Rightarrow> metric_values" where
  "put_docker d v =
     (case d of None \<Rightarrow> v
      | Some df \<Rightarrow>
          put ''docker_reclaimable'' (df_reclaimable df)
            (put ''docker_build_cache'' (df_build_cache df)
              (put ''docker_volumes'' (df_volumes df)
                (put ''docker_images'' (df_images df) v))))"

definition server_sample_values :: "server_sample \<Rightarrow> metric_values" where
  "server_sample_values s =
     (let v0 = put_ptr ''cpu'' (s_cpu s) [];
          v1 = put ''mem_used'' (s_mem_used s) v0;
          v2 = put ''mem_total'' (s_mem_total s) v1;
          v3 = put ''swap_used'' (s_swap_used s) v2;
          v4 = put ''swap_total'' (s_swap_total s) v3;
          v5 = put ''load1'' (s_load1 s) v4;
          v6 = put ''load5'' (s_load5 s) v5;
          v7 = put ''load15'' (s_load15 s) v6;
          v8 = put_disks (s_disks s) v7;
          v9 = put_ptr ''disk_read_bps'' (s_disk_read_bps s) v8;
          v10 = put_ptr ''disk_write_bps'' (s_disk_write_bps s) v9;
          v11 = put_ptr ''net_rx_bps'' (s_net_rx_bps s) v10;
          v12 = put_ptr ''net_tx_bps'' (s_net_tx_bps s) v11;
          v13 = put_ptr ''temp'' (s_temp s) v12;
          v14 = put_temps (s_temps s) v13
      in put_docker (s_docker_df s) v14)"

definition app_sample_values :: "app_sample \<Rightarrow> metric_values" where
  "app_sample_values a =
     (let v0 = put_ptr ''cpu'' (as_cpu a) [];
          v1 = put_ptr ''mem_used'' (as_mem_used a) v0;
          v2 = put_ptr ''mem_limit'' (as_mem_limit a) v1;
          v3 = put_ptr ''net_rx_bps'' (as_net_rx_bps a) v2;
          v4 = put_ptr ''net_tx_bps'' (as_net_tx_bps a) v3;
          v5 = put_ptr ''disk'' (as_disk a) v4;
          v6 = put_ptr ''image'' (as_image a) v5
      in if as_unavailable a then mput UnavailableField (Fin 1) v6 else v6)"

definition clockSkewLimit :: duration where "clockSkewLimit = 5 * minute"

definition sample_time :: "sample \<Rightarrow> time \<Rightarrow> time" where
  "sample_time s now =
     (if sm_ts s \<le> 0 then now
      else let taken = time_of_unix (sm_ts s); d = time_sub taken now
           in if d > clockSkewLimit \<or> d < - clockSkewLimit then now else taken)"

subsection \<open>The roll-up (rollup.go)\<close>

record bucket =
  b_start :: time
  b_samples :: int
  b_data :: metric_values

record acc =
  a_sum :: f64
  a_weight :: f64
  a_max :: f64

definition new_acc :: acc where
  "new_acc = \<lparr>a_sum = Fin 0, a_weight = Fin 0, a_max = NInf\<rparr>"

definition is_peak :: "string \<Rightarrow> bool" where
  "is_peak k \<longleftrightarrow> has_suffix MaxSuffix k"

definition row_weight :: "bucket \<Rightarrow> int" where
  "row_weight r = (if b_samples r < 1 then 1 else b_samples r)"

definition row_peak :: "bucket \<Rightarrow> string \<Rightarrow> f64 \<Rightarrow> f64" where
  "row_peak r k x = (case mget (b_data r) (k @ MaxSuffix) of Some m \<Rightarrow> m | None \<Rightarrow> x)"

definition acc_step :: "bucket \<Rightarrow> string \<Rightarrow> f64 \<Rightarrow> acc option \<Rightarrow> acc" where
  "acc_step r k x old =
     (let a = (case old of Some a \<Rightarrow> a | None \<Rightarrow> new_acc); n = f64_of_int (row_weight r)
      in \<lparr>a_sum = fadd (a_sum a) (fmul x n), a_weight = fadd (a_weight a) n,
          a_max = fmax (a_max a) (row_peak r k x)\<rparr>)"

definition rollup_field :: "bucket \<Rightarrow> string \<times> f64 \<Rightarrow> (string, acc) gomap \<Rightarrow> (string, acc) gomap" where
  "rollup_field r kx accs =
     (if is_peak (fst kx) then accs
      else mput (fst kx) (acc_step r (fst kx) (snd kx) (mget accs (fst kx))) accs)"

definition rollup_row :: "bucket \<Rightarrow> (string, acc) gomap \<Rightarrow> (string, acc) gomap" where
  "rollup_row r accs = fold (rollup_field r) (b_data r) accs"

definition rollup_out :: "int \<Rightarrow> string \<times> acc \<Rightarrow> metric_values \<Rightarrow> metric_values" where
  "rollup_out tot ka out =
     (let k = fst ka; a = snd ka;
          w = (if k = UnavailableField then f64_of_int tot else a_weight a)
      in put (k @ MaxSuffix) (a_max a) (put k (fdiv (a_sum a) w) out))"

definition rollup :: "time \<Rightarrow> bucket list \<Rightarrow> bucket" where
  "rollup start rows =
     (let tot = foldl (\<lambda>t r. t + row_weight r) 0 rows;
          accs = fold rollup_row rows []
      in \<lparr>b_start = start, b_samples = tot, b_data = fold (rollup_out tot) accs []\<rparr>)"

text \<open>Chart points: a tier-1 row carries no peaks, so its values are its peaks.\<close>

definition to_point :: "bucket \<Rightarrow> metric_values" where
  "to_point b =
     (let p0 = fold (\<lambda>kx. mput (fst kx) (snd kx)) (b_data b) [(''t'', f64_of_int (time_unix (b_start b)))]
      in fold (\<lambda>kx p. if is_peak (fst kx) then p
                       else if mget (b_data b) (fst kx @ MaxSuffix) = None
                       then mput (fst kx @ MaxSuffix) (snd kx) p else p)
           (b_data b) p0)"

definition pick :: "string list \<Rightarrow> metric_values \<Rightarrow> metric_values" where
  "pick names p =
     fold (\<lambda>f out.
             let out1 = (case mget p f of Some x \<Rightarrow> mput f x out | None \<Rightarrow> out)
             in case mget p (f @ MaxSuffix) of Some x \<Rightarrow> mput (f @ MaxSuffix) x out1 | None \<Rightarrow> out1)
       names [(''t'', case mget p ''t'' of Some x \<Rightarrow> x | None \<Rightarrow> Fin 0)]"

subsection \<open>The latest samples (latest.go)\<close>

record latest =
  l_at :: time
  l_server :: server_sample

type_synonym latest_store = "(string, latest) gomap"

definition latest_set :: "string \<Rightarrow> latest \<Rightarrow> latest_store \<Rightarrow> latest_store" where
  "latest_set sid l m = mput sid l m"

definition latest_get :: "string \<Rightarrow> latest_store \<Rightarrow> latest option" where
  "latest_get sid m = mget m sid"

definition latest_forget :: "string \<Rightarrow> latest_store \<Rightarrow> latest_store" where
  "latest_forget sid m = mdel sid m"

definition latest_prune :: "time \<Rightarrow> latest_store \<Rightarrow> latest_store \<times> nat" where
  "latest_prune cutoff m =
     (filter (\<lambda>(sid, l). \<not> l_at l < cutoff) m, length (filter (\<lambda>(sid, l). l_at l < cutoff) m))"

section \<open>Properties\<close>

subsection \<open>Tiers\<close>

lemma tier_duration_pos [simp]: "0 < tier_duration t"
  by (cases t) (simp_all add: tier_duration_def minute_def)

text \<open>Truncating to a multiple of a finer grid and then to the coarser one is the coarser
  truncation alone.\<close>

lemma time_truncate_nest:
  assumes "0 < d" "d dvd e" "0 < e"
  shows "time_truncate e (time_truncate d t) = time_truncate e t"
proof -
  obtain k where e: "e = d * k" using assms(2) by blast
  then have k: "0 < k" using assms by (simp add: zero_less_mult_iff)
  have m: "d * (t div d) mod (d * k) = d * ((t div d) mod k)" by simp
  have q: "t div d div k = t div (d * k)" using k by (simp add: zdiv_zmult2_eq)
  have "d * (t div d) - d * ((t div d) mod k) = d * k * (t div d div k)"
    using minus_mod_eq_mult_div [of "t div d" k] by (metis mult.assoc right_diff_distrib)
  then show ?thesis using assms by (simp add: time_truncate_def minus_mod_eq_mult_div e m q)
qed

lemma rollup_pair_dvd: "(f, t) \<in> set RollupPairs \<Longrightarrow> tier_duration f dvd tier_duration t \<and> f < t"
  by (auto simp: RollupPairs_def tier_duration_def minute_def less_tier_def)

text \<open>A roll-up never splits a source bucket: for every roll-up step, aligning a time to the
  source tier first and then to the destination tier gives the destination bucket of the time
  itself, so the source rows of a destination bucket are exactly those whose starts fall in it.\<close>

theorem rollup_buckets_nest:
  assumes "(f, t) \<in> set RollupPairs"
  shows "bucket_start t (bucket_start f ts) = bucket_start t ts \<and>
    bucket_start t ts \<le> bucket_start f ts \<and>
    bucket_start f ts + tier_duration f \<le> bucket_start t ts + tier_duration t"
proof -
  let ?df = "tier_duration f" and ?dt = "tier_duration t"
  have d: "?df dvd ?dt" using rollup_pair_dvd [OF assms] by simp
  have eq: "bucket_start t (bucket_start f ts) = bucket_start t ts"
    using d by (simp add: bucket_start_def time_truncate_nest)
  have le: "bucket_start t ts \<le> bucket_start f ts"
    using time_truncate_le [of ?dt "bucket_start f ts"] eq by (simp add: bucket_start_def)
  have gt: "bucket_start f ts - ?dt < bucket_start t ts"
    using time_truncate_gt [of ?dt "bucket_start f ts"] eq by (simp add: bucket_start_def)
  have df: "?df dvd bucket_start f ts" by (simp add: bucket_start_def time_truncate_dvd)
  have "?df dvd bucket_start t ts"
    using dvd_trans [OF d] time_truncate_dvd [of ?dt ts] by (simp add: bucket_start_def)
  then have "?df dvd (bucket_start t ts + ?dt - bucket_start f ts)" using d df by simp
  then have "?df \<le> bucket_start t ts + ?dt - bucket_start f ts" using gt by (intro zdvd_imp_le) auto
  then show ?thesis using eq le by simp
qed

theorem rollup_buckets_nest_witness:
  "bucket_start Tier20 (bucket_start Tier10 (47 * minute)) = 40 * minute"
proof -
  have "(Tier10, Tier20) \<in> set RollupPairs" by (simp add: RollupPairs_def)
  from rollup_buckets_nest [OF this, of "47 * minute"] show ?thesis
    by (simp add: bucket_start_def time_truncate_def tier_duration_def minute_def)
qed

subsection \<open>Stored values are what JSON can carry\<close>

definition all_finite :: "metric_values \<Rightarrow> bool" where
  "all_finite v \<longleftrightarrow> (\<forall>k x. mget v k = Some x \<longrightarrow> is_finite x)"

lemma all_finite_Nil [simp, intro]: "all_finite []"
  by (simp add: all_finite_def)

lemma all_finite_put [simp, intro]: "all_finite v \<Longrightarrow> all_finite (put k x v)"
  by (auto simp: all_finite_def put_def)

lemma all_finite_mput: "all_finite v \<Longrightarrow> is_finite x \<Longrightarrow> all_finite (mput k x v)"
  by (auto simp: all_finite_def)

lemma all_finite_put_ptr [simp, intro]: "all_finite v \<Longrightarrow> all_finite (put_ptr k x v)"
  by (auto simp: put_ptr_def split: option.splits)

lemma wf_put [simp, intro]: "wf_map v \<Longrightarrow> wf_map (put k x v)"
  by (simp add: put_def wf_map_mput)

lemma wf_put_ptr [simp, intro]: "wf_map v \<Longrightarrow> wf_map (put_ptr k x v)"
  by (simp add: put_ptr_def split: option.splits)

lemma all_finite_disks [simp, intro]: "all_finite v \<Longrightarrow> all_finite (put_disks ds v)"
  by (auto simp: put_disks_def split: prod.splits)

lemma all_finite_temps [simp, intro]: "all_finite v \<Longrightarrow> all_finite (put_temps ts v)"
  unfolding put_temps_def by (rule fold_invariant) auto

lemma all_finite_docker [simp, intro]: "all_finite v \<Longrightarrow> all_finite (put_docker d v)"
  by (auto simp: put_docker_def split: option.splits)

lemma all_finite_server_sample: "all_finite (server_sample_values s)"
  by (simp add: server_sample_values_def)

lemma all_finite_app_sample: "all_finite (app_sample_values a)"
  by (simp add: app_sample_values_def Let_def all_finite_mput)

text \<open>The accumulators of the roll-up, one field at a time.\<close>

lemma rollup_field_get:
  "mget (rollup_field r kx accs) k =
     (if k = fst kx \<and> \<not> is_peak k then Some (acc_step r k (snd kx) (mget accs k)) else mget accs k)"
  by (auto simp: rollup_field_def)

lemma rollup_fold_get:
  assumes "distinct (map fst data)" "\<not> is_peak k"
  shows "mget (fold (rollup_field r) data accs) k =
    (case mget data k of None \<Rightarrow> mget accs k | Some x \<Rightarrow> Some (acc_step r k x (mget accs k)))"
  using assms
proof (induction data arbitrary: accs)
  case (Cons kx data)
  show ?case
  proof (cases "fst kx = k")
    case True
    with Cons.prems(1) have "mget data k = None" by (force simp: map_of_eq_None_iff)
    then show ?thesis using Cons True by (cases kx) (auto simp: rollup_field_get)
  next
    case False
    then show ?thesis using Cons by (cases kx) (auto simp: rollup_field_get split: option.splits)
  qed
qed simp

lemma rollup_fold_peak: "is_peak k \<Longrightarrow> mget (fold (rollup_field r) data accs) k = mget accs k"
  by (induction data arbitrary: accs) (auto simp: rollup_field_get)

lemma rollup_fold_wf: "wf_map accs \<Longrightarrow> wf_map (fold (rollup_field r) data accs)"
  by (rule fold_invariant) (auto simp: rollup_field_def)

text \<open>What a reader would compute for one field alone.\<close>

definition field_acc :: "string \<Rightarrow> bucket list \<Rightarrow> acc option \<Rightarrow> acc option" where
  "field_acc k rows old =
     fold (\<lambda>r a. case mget (b_data r) k of None \<Rightarrow> a | Some x \<Rightarrow> Some (acc_step r k x a)) rows old"

lemma rollup_rows_get:
  assumes "\<forall>r \<in> set rows. wf_map (b_data r)" "\<not> is_peak k"
  shows "mget (fold rollup_row rows accs) k = field_acc k rows (mget accs k)"
  using assms
proof (induction rows arbitrary: accs)
  case (Cons r rows)
  then have "mget (rollup_row r accs) k =
      (case mget (b_data r) k of None \<Rightarrow> mget accs k | Some x \<Rightarrow> Some (acc_step r k x (mget accs k)))"
    by (simp add: rollup_row_def rollup_fold_get wf_map_def)
  then show ?case using Cons by (simp add: field_acc_def split: option.splits)
qed (simp add: field_acc_def)

lemma rollup_rows_wf: "wf_map accs \<Longrightarrow> wf_map (fold rollup_row rows accs)"
  by (rule fold_invariant) (auto simp: rollup_row_def rollup_fold_wf)

lemma rollup_rows_peak: "is_peak k \<Longrightarrow> mget (fold rollup_row rows accs) k = mget accs k"
  by (induction rows arbitrary: accs) (auto simp: rollup_row_def rollup_fold_peak)

text \<open>Writing the accumulators out.\<close>

lemma peak_name [simp]: "is_peak (k @ MaxSuffix)"
  by (simp add: is_peak_def)

lemma rollup_out_get:
  assumes "\<not> is_peak k" "\<not> is_peak (fst ka)"
  shows "mget (rollup_out n ka out) k =
      (if fst ka = k \<and> is_finite (fdiv (a_sum (snd ka)) (if k = UnavailableField then f64_of_int n else a_weight (snd ka)))
       then Some (fdiv (a_sum (snd ka)) (if k = UnavailableField then f64_of_int n else a_weight (snd ka)))
       else mget out k)"
    "mget (rollup_out n ka out) (k @ MaxSuffix) =
      (if fst ka = k \<and> is_finite (a_max (snd ka)) then Some (a_max (snd ka)) else mget out (k @ MaxSuffix))"
proof -
  have "k \<noteq> fst ka @ MaxSuffix" "fst ka \<noteq> k @ MaxSuffix" "k \<noteq> k @ MaxSuffix"
    using assms by (metis peak_name)+
  then show "mget (rollup_out n ka out) k =
      (if fst ka = k \<and> is_finite (fdiv (a_sum (snd ka)) (if k = UnavailableField then f64_of_int n else a_weight (snd ka)))
       then Some (fdiv (a_sum (snd ka)) (if k = UnavailableField then f64_of_int n else a_weight (snd ka)))
       else mget out k)"
    "mget (rollup_out n ka out) (k @ MaxSuffix) =
      (if fst ka = k \<and> is_finite (a_max (snd ka)) then Some (a_max (snd ka)) else mget out (k @ MaxSuffix))"
    by (cases "fst ka = k"; simp add: rollup_out_def put_def Let_def)+
qed

definition out_value :: "int \<Rightarrow> string \<Rightarrow> acc \<Rightarrow> f64" where
  "out_value n k a = fdiv (a_sum a) (if k = UnavailableField then f64_of_int n else a_weight a)"

lemma rollup_out_fold:
  assumes "distinct (map fst accs)" "\<forall>k \<in> set (map fst accs). \<not> is_peak k" "\<not> is_peak k"
  shows "mget (fold (rollup_out n) accs out) k =
      (case mget accs k of Some a \<Rightarrow> if is_finite (out_value n k a) then Some (out_value n k a) else mget out k
       | None \<Rightarrow> mget out k)"
    "mget (fold (rollup_out n) accs out) (k @ MaxSuffix) =
      (case mget accs k of Some a \<Rightarrow> if is_finite (a_max a) then Some (a_max a) else mget out (k @ MaxSuffix)
       | None \<Rightarrow> mget out (k @ MaxSuffix))"
proof -
  have "mget (fold (rollup_out n) accs out) k =
      (case mget accs k of Some a \<Rightarrow> if is_finite (out_value n k a) then Some (out_value n k a) else mget out k
       | None \<Rightarrow> mget out k) \<and>
    mget (fold (rollup_out n) accs out) (k @ MaxSuffix) =
      (case mget accs k of Some a \<Rightarrow> if is_finite (a_max a) then Some (a_max a) else mget out (k @ MaxSuffix)
       | None \<Rightarrow> mget out (k @ MaxSuffix))"
    using assms
  proof (induction accs arbitrary: out)
    case (Cons ka accs)
    have IH: "mget (fold (rollup_out n) accs (rollup_out n ka out)) k =
        (case mget accs k of Some a \<Rightarrow> if is_finite (out_value n k a) then Some (out_value n k a) else mget (rollup_out n ka out) k
         | None \<Rightarrow> mget (rollup_out n ka out) k) \<and>
      mget (fold (rollup_out n) accs (rollup_out n ka out)) (k @ MaxSuffix) =
        (case mget accs k of Some a \<Rightarrow> if is_finite (a_max a) then Some (a_max a) else mget (rollup_out n ka out) (k @ MaxSuffix)
         | None \<Rightarrow> mget (rollup_out n ka out) (k @ MaxSuffix))"
      using Cons by simp
    show ?case
    proof (cases "fst ka = k")
      case True
      with Cons.prems(1) have "mget accs k = None" by (force simp: map_of_eq_None_iff)
      then show ?thesis using IH True Cons.prems
        by (cases ka) (simp add: rollup_out_get out_value_def)
    next
      case False
      then show ?thesis using IH Cons.prems by (cases ka) (auto simp: rollup_out_get split: option.splits)
    qed
  qed simp
  then show "mget (fold (rollup_out n) accs out) k =
      (case mget accs k of Some a \<Rightarrow> if is_finite (out_value n k a) then Some (out_value n k a) else mget out k
       | None \<Rightarrow> mget out k)"
    "mget (fold (rollup_out n) accs out) (k @ MaxSuffix) =
      (case mget accs k of Some a \<Rightarrow> if is_finite (a_max a) then Some (a_max a) else mget out (k @ MaxSuffix)
       | None \<Rightarrow> mget out (k @ MaxSuffix))" by auto
qed

lemma all_finite_rollup: "all_finite (b_data (rollup start rows))"
  unfolding rollup_def Let_def
  by (simp, rule fold_invariant) (auto simp: rollup_out_def Let_def)

text \<open>Everything the monitoring model stores can be carried by JSON: no sample of a host or of
  an app and no rolled-up row holds a NaN or an infinity, whatever the inputs are.\<close>

theorem stored_values_finite:
  "all_finite (server_sample_values s) \<and> all_finite (app_sample_values a) \<and>
   all_finite (b_data (rollup start rows))"
  by (simp add: all_finite_server_sample all_finite_app_sample all_finite_rollup)

text \<open>What the rows give for one field alone: the rows that carry it, a row's count, its value and its
  peak (the stored one, or the value where there is none).\<close>

definition carriers :: "string \<Rightarrow> bucket list \<Rightarrow> bucket list" where
  "carriers k rows = filter (\<lambda>r. mget (b_data r) k \<noteq> None) rows"

definition field_value :: "string \<Rightarrow> bucket \<Rightarrow> f64" where
  "field_value k r = (case mget (b_data r) k of Some x \<Rightarrow> x | None \<Rightarrow> Fin 0)"

definition field_peak :: "string \<Rightarrow> bucket \<Rightarrow> f64" where
  "field_peak k r = (case mget (b_data r) (k @ ''_max'') of Some m \<Rightarrow> m | None \<Rightarrow> field_value k r)"

lemma field_acc_sums:
  "field_acc k rows (Some a) = Some
     \<lparr>a_sum = foldl fadd (a_sum a) (map (\<lambda>r. fmul (field_value k r) (f64_of_int (max 1 (b_samples r)))) (carriers k rows)),
      a_weight = foldl fadd (a_weight a) (map (\<lambda>r. f64_of_int (max 1 (b_samples r))) (carriers k rows)),
      a_max = foldl fmax (a_max a) (map (field_peak k) (carriers k rows))\<rparr>"
proof (induction rows arbitrary: a)
  case (Cons r rows)
  have w: "row_weight r = max 1 (b_samples r)" by (simp add: row_weight_def max_def)
  show ?case
  proof (cases "mget (b_data r) k")
    case None
    then show ?thesis using Cons.IH [of a] by (simp add: field_acc_def carriers_def)
  next
    case (Some x)
    have v: "field_value k r = x" using Some by (simp add: field_value_def)
    have p: "row_peak r k x = field_peak k r" by (simp add: row_peak_def field_peak_def v MaxSuffix_def split: option.split)
    have "field_acc k (r # rows) (Some a) = field_acc k rows (Some (acc_step r k x (Some a)))"
      using Some by (simp add: field_acc_def)
    then show ?thesis using Cons.IH [of "acc_step r k x (Some a)"] Some p v w
      by (simp add: acc_step_def carriers_def Let_def)
  qed
qed (simp add: field_acc_def carriers_def)

lemma field_acc_start: "field_acc k rows None = (if carriers k rows = [] then None else field_acc k rows (Some new_acc))"
proof (induction rows)
  case (Cons r rows)
  then show ?case
    by (cases "mget (b_data r) k") (simp_all add: field_acc_def carriers_def acc_step_def)
qed (simp add: field_acc_def carriers_def)

lemma fmax_Fin: "fmax (Fin x) (Fin w) = Fin (max x w)"
  by (simp add: fmax_def max_def)

lemma largest_peak:
  "list_all is_finite xs \<Longrightarrow> xs \<noteq> [] \<Longrightarrow>
     \<exists>x. foldl fmax NInf xs = Fin x \<and> Fin x \<in> set xs \<and> (\<forall>y. Fin y \<in> set xs \<longrightarrow> y \<le> x)"
proof (induction xs rule: rev_induct)
  case (snoc z xs)
  obtain w where w: "z = Fin w" using snoc.prems(1) by (cases z) auto
  show ?case
  proof (cases "xs = []")
    case True
    then show ?thesis using w by (simp add: fmax_def)
  next
    case False
    then obtain x where "foldl fmax NInf xs = Fin x" "Fin x \<in> set xs" "\<forall>y. Fin y \<in> set xs \<longrightarrow> y \<le> x"
      using snoc by auto
    then show ?thesis using w by (auto simp: fmax_Fin max_def intro: order_trans)
  qed
qed simp

text \<open>C17. The single pass of the roll-up computes, for every field that is no peak, what the rows give for
  that field alone. Over the rows that carry the field: the sum of the values weighted by the rows' sample
  counts (at least one each), divided by the sum of these counts, or of all rows' counts for the
  unavailable flag; and the largest of the rows' peaks, where a row without a stored peak counts its
  value, which for finite peaks is one of them and no less than any. A result that is no number is left
  out, and so is a field no row carries. The count is the sum of the rows' counts.\<close>

theorem rollup_per_field:
  assumes "\<forall>r \<in> set rows. wf_map (b_data r)" "\<not> is_peak k"
  shows "let c = carriers k rows; count = (\<lambda>r. f64_of_int (max 1 (b_samples r)));
      all_counts = sum_list (map (\<lambda>r. max 1 (b_samples r)) rows);
      mean = fdiv (foldl fadd (Fin 0) (map (\<lambda>r. fmul (field_value k r) (count r)) c))
        (if k = ''unavailable'' then f64_of_int all_counts else foldl fadd (Fin 0) (map count c));
      peak = foldl fmax NInf (map (field_peak k) c)
    in mget (b_data (rollup start rows)) k = (if c \<noteq> [] \<and> is_finite mean then Some mean else None) \<and>
       mget (b_data (rollup start rows)) (k @ ''_max'') = (if c \<noteq> [] \<and> is_finite peak then Some peak else None) \<and>
       (c \<noteq> [] \<and> (\<forall>r \<in> set c. is_finite (field_peak k r)) \<longrightarrow>
          (\<exists>x. peak = Fin x \<and> Fin x \<in> field_peak k ` set c \<and> (\<forall>r \<in> set c. \<forall>y. field_peak k r = Fin y \<longrightarrow> y \<le> x))) \<and>
       b_samples (rollup start rows) = all_counts"
proof -
  let ?accs = "fold rollup_row rows []" and ?c = "carriers k rows"
  let ?n = "sum_list (map (\<lambda>r. max 1 (b_samples r)) rows)" and ?peak = "foldl fmax NInf (map (field_peak k) ?c)"
  have w: "row_weight = (\<lambda>r. max 1 (b_samples r))" by (simp add: row_weight_def max_def fun_eq_iff)
  have n: "foldl (\<lambda>t r. t + row_weight r) m rows = m + ?n" for m
    unfolding w by (induction rows arbitrary: m) auto
  have d: "distinct (map fst ?accs)" using rollup_rows_wf [of "[]" rows] by (simp add: wf_map_def)
  have p: "\<forall>k \<in> set (map fst ?accs). \<not> is_peak k"
  proof
    fix j assume "j \<in> set (map fst ?accs)"
    then obtain a where "mget ?accs j = Some a" by (metis keys_mget)
    then show "\<not> is_peak j" using rollup_rows_peak [of j rows "[]"] by auto
  qed
  have g: "mget ?accs k = field_acc k rows None"
    using rollup_rows_get [OF assms, of "[]"] by simp
  have peak: "\<exists>x. ?peak = Fin x \<and> Fin x \<in> field_peak k ` set ?c \<and> (\<forall>r \<in> set ?c. \<forall>y. field_peak k r = Fin y \<longrightarrow> y \<le> x)"
    if "?c \<noteq> []" "\<forall>r \<in> set ?c. is_finite (field_peak k r)"
  proof -
    have "list_all is_finite (map (field_peak k) ?c)" "map (field_peak k) ?c \<noteq> []" using that by (simp_all add: list_all_iff)
    from largest_peak [OF this] obtain x where "?peak = Fin x" "Fin x \<in> field_peak k ` set ?c"
      "\<forall>y. Fin y \<in> field_peak k ` set ?c \<longrightarrow> y \<le> x" by auto
    then show ?thesis by (metis image_eqI)
  qed
  note out = rollup_out_fold [OF d p assms(2), where out = "[]" and n = ?n]
  have r: "b_data (rollup start rows) = fold (rollup_out ?n) ?accs []" "b_samples (rollup start rows) = ?n"
    using n [of 0] by (simp_all add: rollup_def Let_def)
  show ?thesis
    unfolding Let_def r using out peak
    by (simp add: g field_acc_start field_acc_sums new_acc_def out_value_def UnavailableField_def MaxSuffix_def)
qed

theorem rollup_per_field_witness:
  "mget (b_data (rollup 0 [\<lparr>b_start = 0, b_samples = 10, b_data = [(''cpu'', Fin 20), (''cpu_max'', Fin 50)]\<rparr>,
      \<lparr>b_start = 1, b_samples = 5, b_data = [(''cpu'', Fin 80), (''cpu_max'', Fin 90)]\<rparr>])) ''cpu'' = Some (Fin 40)"
proof -
  let ?rows = "[\<lparr>b_start = 0, b_samples = 10, b_data = [(''cpu'', Fin 20), (''cpu_max'', Fin 50)]\<rparr>,
      \<lparr>b_start = 1, b_samples = 5, b_data = [(''cpu'', Fin 80), (''cpu_max'', Fin 90)]\<rparr>]"
  have h: "\<forall>r \<in> set ?rows. wf_map (b_data r)" "\<not> is_peak ''cpu''"
    by (simp_all add: wf_map_def is_peak_def has_suffix_def MaxSuffix_def)
  have i: "rnd (of_int n) = Fin (of_int n)" if "\<bar>n\<bar> \<le> 2 ^ 53" for n
    using f64_of_int_exact [OF that] by (simp add: f64_of_int_def)
  have e: "rnd 200 = Fin 200" "rnd 400 = Fin 400" "rnd 600 = Fin 600" "rnd 10 = Fin 10" "rnd 5 = Fin 5"
    "rnd 15 = Fin 15" "rnd 40 = Fin 40"
    using i [of 200] i [of 400] i [of 600] i [of 10] i [of 5] i [of 15] i [of 40] by simp_all
  have c: "carriers ''cpu'' ?rows = ?rows" "map (field_value ''cpu'') ?rows = [Fin 20, Fin 80]"
    by (simp_all add: carriers_def field_value_def)
  show ?thesis
    using rollup_per_field [OF h, of 0] c unfolding Let_def c(1) by (simp add: f64_of_int_def e)
qed

end
