(* ===== verification/Alert_Rules.thy ===== *)
theory Alert_Rules
  imports Metrics
begin

text \<open>
  The alerting model of \<open>internal/domain/alert\<close>: the metric catalog (\<open>catalog.go\<close>), targets,
  rules, per-target overrides and their merge (\<open>rule.go\<close>), the alert metrics of one sample
  (\<open>values.go\<close>), and the routing of a notification to channels with the directory of targets
  (\<open>model.go\<close>).

  The source's string enumerations are datatypes whose last constructor is any other string; an
  error is a constructor that carries what its message names.
\<close>

subsection \<open>The catalog (catalog.go)\<close>

datatype target_kind = TargetServer | TargetApp | TargetOther string

datatype metric = MetricDown | MetricCPU | MetricMemory | MetricDisk | MetricLoad1 | MetricLoad5
  | MetricLoad15 | MetricBandwidth | MetricTemperature | MetricOther string

datatype alert_unit = UnitNone | UnitPercent | UnitLoad | UnitMBps | UnitCelsius | UnitGB

definition MinDuration :: int where "MinDuration = 1"
definition MaxDuration :: int where "MaxDuration = 60"

record metric_info =
  mi_target_kind :: target_kind
  mi_metric :: metric
  mi_label :: string
  mi_unit :: alert_unit
  mi_max :: f64

definition has_threshold :: "metric_info \<Rightarrow> bool" where
  "has_threshold m \<longleftrightarrow> mi_metric m \<noteq> MetricDown"

abbreviation info :: "target_kind \<Rightarrow> metric \<Rightarrow> string \<Rightarrow> alert_unit \<Rightarrow> f64 \<Rightarrow> metric_info" where
  "info k m l u x \<equiv> \<lparr>mi_target_kind = k, mi_metric = m, mi_label = l, mi_unit = u, mi_max = x\<rparr>"

definition catalog :: "metric_info list" where
  "catalog =
    [info TargetServer MetricDown ''Down'' UnitNone (Fin 0),
     info TargetServer MetricCPU ''CPU'' UnitPercent (Fin 100),
     info TargetServer MetricMemory ''Memory'' UnitPercent (Fin 100),
     info TargetServer MetricDisk ''Disk'' UnitPercent (Fin 100),
     info TargetServer MetricLoad1 ''Load 1m'' UnitLoad (Fin 0),
     info TargetServer MetricLoad5 ''Load 5m'' UnitLoad (Fin 0),
     info TargetServer MetricLoad15 ''Load 15m'' UnitLoad (Fin 0),
     info TargetServer MetricBandwidth ''Bandwidth'' UnitMBps (Fin 0),
     info TargetServer MetricTemperature ''Temperature'' UnitCelsius (Fin 150),
     info TargetApp MetricDown ''Down'' UnitNone (Fin 0),
     info TargetApp MetricCPU ''CPU'' UnitPercent (Fin 100),
     info TargetApp MetricMemory ''Memory'' UnitPercent (Fin 100),
     info TargetApp MetricDisk ''Disk'' UnitGB (Fin 0)]"

definition lookup_metric :: "target_kind \<Rightarrow> metric \<Rightarrow> metric_info option" where
  "lookup_metric kind m = find (\<lambda>i. mi_target_kind i = kind \<and> mi_metric i = m) catalog"

subsection \<open>Targets, rules and overrides (rule.go)\<close>

record target =
  t_server :: string
  t_app :: string

definition target_kind_of :: "target \<Rightarrow> target_kind" where
  "target_kind_of t = (if t_app t = [] then TargetServer else TargetApp)"

record key =
  k_rule :: string
  k_target :: target

text \<open>\<open>ChannelIDs\<close> is a slice, and nil differs from an empty one.\<close>

record rule =
  r_id :: string
  r_org :: string
  r_kind :: target_kind
  r_metric :: metric
  r_threshold :: f64
  r_minutes :: int
  r_channels :: "string list option"
  r_enabled :: bool

datatype rule_error =
    UnknownMetric metric target_kind
  | BadDuration
  | BadThreshold string "f64 option"
  | NeedsServer
  | WrongTarget target_kind
  | NoThreshold string

definition normalize_rule :: "rule \<Rightarrow> rule" where
  "normalize_rule r =
     (case lookup_metric (r_kind r) (r_metric r) of
        Some i \<Rightarrow> if \<not> has_threshold i then r\<lparr>r_threshold := Fin 0\<rparr> else r
      | None \<Rightarrow> r)"

definition valid_duration :: "int \<Rightarrow> rule_error + unit" where
  "valid_duration m = (if m < MinDuration \<or> MaxDuration < m then Inl BadDuration else Inr ())"

definition valid_threshold :: "metric_info \<Rightarrow> f64 \<Rightarrow> rule_error + unit" where
  "valid_threshold i v =
     (if \<not> is_finite v \<or> fle v (Fin 0) \<or> (flt (Fin 0) (mi_max i) \<and> flt (mi_max i) v)
      then if flt (Fin 0) (mi_max i) then Inl (BadThreshold (mi_label i) (Some (mi_max i)))
           else Inl (BadThreshold (mi_label i) None)
      else Inr ())"

definition validate_rule :: "rule \<Rightarrow> rule_error + unit" where
  "validate_rule r =
     (case lookup_metric (r_kind r) (r_metric r) of
        None \<Rightarrow> Inl (UnknownMetric (r_metric r) (r_kind r))
      | Some i \<Rightarrow>
          (case valid_duration (r_minutes r) of
             Inl e \<Rightarrow> Inl e
           | Inr _ \<Rightarrow> if has_threshold i then valid_threshold i (r_threshold r) else Inr ()))"

abbreviation default_rule :: "target_kind \<Rightarrow> metric \<Rightarrow> f64 \<Rightarrow> int \<Rightarrow> rule" where
  "default_rule k m x d \<equiv> \<lparr>r_id = [], r_org = [], r_kind = k, r_metric = m, r_threshold = x,
     r_minutes = d, r_channels = None, r_enabled = True\<rparr>"

definition DefaultRules :: "rule list" where
  "DefaultRules =
    [default_rule TargetServer MetricDown (Fin 0) 5,
     default_rule TargetServer MetricCPU (Fin 90) 10,
     default_rule TargetServer MetricMemory (Fin 90) 10,
     default_rule TargetServer MetricDisk (Fin 90) 5,
     default_rule TargetApp MetricDown (Fin 0) 5]"

record override =
  o_rule :: string
  o_server :: string
  o_app :: string
  o_disabled :: bool
  o_threshold :: "f64 option"
  o_minutes :: "int option"
  o_channels :: "string list option"

definition override_key :: "override \<Rightarrow> key" where
  "override_key ov = \<lparr>k_rule = o_rule ov, k_target = \<lparr>t_server = o_server ov, t_app = o_app ov\<rparr>\<rparr>"

definition validate_override :: "override \<Rightarrow> rule \<Rightarrow> rule_error + unit" where
  "validate_override ov r =
     (if o_server ov = [] then Inl NeedsServer
      else if (o_app ov = []) \<noteq> (r_kind r = TargetServer) then Inl (WrongTarget (r_kind r))
      else case lookup_metric (r_kind r) (r_metric r) of
        None \<Rightarrow> Inl (UnknownMetric (r_metric r) (r_kind r))
      | Some i \<Rightarrow>
          (case (case o_minutes ov of None \<Rightarrow> Inr () | Some m \<Rightarrow> valid_duration m) of
             Inl e \<Rightarrow> Inl e
           | Inr _ \<Rightarrow>
               (case o_threshold ov of
                  None \<Rightarrow> Inr ()
                | Some x \<Rightarrow> if \<not> has_threshold i then Inl (NoThreshold (mi_label i))
                           else valid_threshold i x)))"

record settings =
  se_enabled :: bool
  se_threshold :: f64
  se_duration :: duration
  se_channels :: "string list option"

definition effective :: "rule \<Rightarrow> override option \<Rightarrow> settings" where
  "effective r ov =
     (let s = \<lparr>se_enabled = r_enabled r, se_threshold = r_threshold r,
               se_duration = r_minutes r * minute, se_channels = r_channels r\<rparr>
      in case ov of
           None \<Rightarrow> s
         | Some q \<Rightarrow>
             let s1 = (if o_disabled q then s\<lparr>se_enabled := False\<rparr> else s);
                 s2 = (case o_threshold q of None \<Rightarrow> s1 | Some x \<Rightarrow> s1\<lparr>se_threshold := x\<rparr>);
                 s3 = (case o_minutes q of None \<Rightarrow> s2 | Some m \<Rightarrow> s2\<lparr>se_duration := m * minute\<rparr>)
             in (case o_channels q of None \<Rightarrow> s3 | Some c \<Rightarrow> s3\<lparr>se_channels := Some c\<rparr>))"

subsection \<open>Alert metrics of a sample (values.go)\<close>

type_synonym alert_values = "(metric, f64) gomap"

definition copy_field :: "metric_values \<Rightarrow> metric \<Rightarrow> string \<Rightarrow> alert_values \<Rightarrow> alert_values" where
  "copy_field v m f out = (case mget v f of Some x \<Rightarrow> mput m x out | None \<Rightarrow> out)"

text \<open>A read of a missing key of a Go map gives the zero value.\<close>

definition vget0 :: "metric_values \<Rightarrow> string \<Rightarrow> f64" where
  "vget0 v f = (case mget v f of Some x \<Rightarrow> x | None \<Rightarrow> Fin 0)"

definition server_values :: "metric_values \<Rightarrow> alert_values" where
  "server_values v =
     (let o1 = copy_field v MetricCPU ''cpu'' [];
          o2 = (case mget v ''mem_used'' of
                  None \<Rightarrow> o1
                | Some used \<Rightarrow>
                    let tot = vget0 v ''mem_total''
                    in if flt (Fin 0) tot then mput MetricMemory (fdiv (fmul (Fin 100) used) tot) o1 else o1);
          o3 = copy_field v MetricDisk ''disk_pct'' o2;
          o4 = copy_field v MetricLoad1 ''load1'' o3;
          o5 = copy_field v MetricLoad5 ''load5'' o4;
          o6 = copy_field v MetricLoad15 ''load15'' o5;
          o7 = (case (mget v ''net_rx_bps'', mget v ''net_tx_bps'') of
                  (Some rx, Some tx) \<Rightarrow> mput MetricBandwidth (fdiv (fadd rx tx) (Fin 1000000)) o6
                | _ \<Rightarrow> o6)
      in copy_field v MetricTemperature ''temp'' o7)"

definition app_values :: "metric_values \<Rightarrow> f64 \<Rightarrow> alert_values" where
  "app_values v host_mem =
     (if vget0 v UnavailableField = Fin 1 then []
      else
       let o1 = copy_field v MetricCPU ''cpu'' [];
           o2 = (case mget v ''mem_used'' of
                   None \<Rightarrow> o1
                 | Some used \<Rightarrow>
                     let limit = vget0 v ''mem_limit''
                     in if flt (Fin 0) limit then mput MetricMemory (fdiv (fmul (Fin 100) used) limit) o1
                        else if flt (Fin 0) host_mem then mput MetricMemory (fdiv (fmul (Fin 100) used) host_mem) o1
                        else o1)
       in (case mget v ''disk'' of
             Some disk \<Rightarrow> mput MetricDisk (fdiv disk (Fin 1000000000)) o2
           | None \<Rightarrow> o2))"

subsection \<open>Channels and the directory (model.go)\<close>

record channel =
  c_id :: string
  c_org :: string
  c_name :: string
  c_service :: string
  c_fields :: "(string, string) gomap"
  c_default :: bool
  c_enabled :: bool
  c_last_error :: string
  c_last_sent :: "time option"
  c_created :: time
  c_url :: string

definition route_channels :: "channel list \<Rightarrow> string list option \<Rightarrow> channel list" where
  "route_channels all ids =
     (let want = (case ids of None \<Rightarrow> [] | Some l \<Rightarrow> l)
      in filter (\<lambda>c. c_enabled c \<and> ((ids = None \<and> c_default c) \<or> c_id c \<in> set want)) all)"

record server_ref =
  sr_id :: string
  sr_org :: string
  sr_name :: string

record app_ref =
  ar_id :: string
  ar_server :: string
  ar_name :: string

record directory =
  dir_servers :: "(string, server_ref) gomap"
  dir_apps :: "(string, app_ref) gomap"

section \<open>Properties\<close>

lemma copy_field_get [simp, go_map]:
  "mget (copy_field v m f out) j =
     (if j = m then case mget v f of Some x \<Rightarrow> Some x | None \<Rightarrow> mget out j else mget out j)"
  by (simp add: copy_field_def split: option.split)

lemma lookup_metric_Some:
  "lookup_metric k m = Some i \<Longrightarrow> i \<in> set catalog \<and> mi_target_kind i = k \<and> mi_metric i = m"
  by (auto simp: lookup_metric_def find_Some_iff)

text \<open>A setting the evaluator can use: the window is one to sixty minutes and a threshold is in
  the metric's range.\<close>

definition settings_ok :: "metric_info \<Rightarrow> settings \<Rightarrow> bool" where
  "settings_ok i s \<longleftrightarrow>
     minute \<le> se_duration s \<and> se_duration s \<le> 60 * minute \<and> minute dvd se_duration s \<and>
     (has_threshold i \<longrightarrow> is_finite (se_threshold s) \<and> flt (Fin 0) (se_threshold s) \<and>
        (flt (Fin 0) (mi_max i) \<longrightarrow> fle (se_threshold s) (mi_max i)))"

lemma valid_duration_ok: "valid_duration m = Inr u \<Longrightarrow> minute \<le> m * minute \<and> m * minute \<le> 60 * minute"
  by (auto simp: valid_duration_def MinDuration_def MaxDuration_def minute_def split: if_splits)

lemma valid_threshold_ok:
  "valid_threshold i x = Inr u \<Longrightarrow>
     is_finite x \<and> flt (Fin 0) x \<and> (flt (Fin 0) (mi_max i) \<longrightarrow> fle x (mi_max i))"
  by (cases x; cases "mi_max i") (auto simp: valid_threshold_def flt_def split: if_splits)

text \<open>What the API accepts is what the evaluator can use: an accepted rule, alone or with an
  accepted override, has effective settings whose window is a whole number of minutes from 1 to
  60 and whose threshold is a positive number within the metric's range.\<close>

theorem effective_settings_ok:
  assumes "validate_rule r = Inr ()" "lookup_metric (r_kind r) (r_metric r) = Some i"
    and "\<And>q. ov = Some q \<Longrightarrow> validate_override q r = Inr ()"
  shows "settings_ok i (effective r ov)"
proof -
  have dr: "valid_duration (r_minutes r) = Inr ()"
    and tr: "has_threshold i \<Longrightarrow> valid_threshold i (r_threshold r) = Inr ()"
    using assms(1,2) by (auto simp: validate_rule_def split: sum.splits if_splits)
  show ?thesis
  proof (cases ov)
    case None
    then show ?thesis using valid_duration_ok [OF dr] valid_threshold_ok [OF tr]
      by (auto simp: settings_ok_def effective_def)
  next
    case (Some q)
    have vo: "validate_override q r = Inr ()" using assms(3) Some by simp
    have dm: "valid_duration m = Inr ()" if "o_minutes q = Some m" for m
      using vo assms(2) that by (auto simp: validate_override_def split: sum.splits if_splits)
    have tx: "valid_threshold i x = Inr ()" if "o_threshold q = Some x" "has_threshold i" for x
      using vo assms(2) that by (auto simp: validate_override_def split: sum.splits if_splits option.splits)
    have eff: "se_duration (effective r ov) = (case o_minutes q of None \<Rightarrow> r_minutes r | Some m \<Rightarrow> m) * minute"
      "se_threshold (effective r ov) = (case o_threshold q of None \<Rightarrow> r_threshold r | Some x \<Rightarrow> x)"
      by (auto simp: effective_def Some Let_def split: option.splits)
    show ?thesis
      using valid_duration_ok [OF dr] valid_threshold_ok [OF tr] valid_duration_ok [OF dm]
        valid_threshold_ok [OF tx]
      by (auto simp: settings_ok_def eff split: option.splits)
  qed
qed

theorem effective_settings_ok_witness:
  "settings_ok (info TargetApp MetricDisk ''Disk'' UnitGB (Fin 0))
     (effective (default_rule TargetApp MetricDisk (Fin 20) 10)
        (Some \<lparr>o_rule = ''r'', o_server = ''s'', o_app = ''a'', o_disabled = False,
          o_threshold = Some (Fin 30), o_minutes = Some 60, o_channels = None\<rparr>))"
  by (rule effective_settings_ok)
    (simp_all add: validate_rule_def validate_override_def lookup_metric_def catalog_def has_threshold_def
      valid_duration_def valid_threshold_def MinDuration_def MaxDuration_def flt_def)

text \<open>An override wins field by field: what it sets replaces the rule's value, what it leaves
  out is inherited, a rule that is off stays off, and an empty channel list silences.\<close>

theorem override_precedence:
  "effective r (Some q) =
     \<lparr>se_enabled = (r_enabled r \<and> \<not> o_disabled q),
      se_threshold = (case o_threshold q of None \<Rightarrow> r_threshold r | Some x \<Rightarrow> x),
      se_duration = (case o_minutes q of None \<Rightarrow> r_minutes r | Some m \<Rightarrow> m) * minute,
      se_channels = (case o_channels q of None \<Rightarrow> r_channels r | Some c \<Rightarrow> Some c)\<rparr>"
  by (auto simp: effective_def Let_def split: option.splits)

text \<open>The catalog and the samples agree: a metric measured on a server or on an app is a
  threshold metric of the catalog for that kind of target, and a server sample with every field
  gives every threshold metric a server rule can name.\<close>

theorem measured_metrics_in_catalog:
  "(mget (server_values v) m \<noteq> None \<longrightarrow>
      (\<exists>i. lookup_metric TargetServer m = Some i \<and> has_threshold i)) \<and>
   (mget (app_values v h) m \<noteq> None \<longrightarrow>
      (\<exists>i. lookup_metric TargetApp m = Some i \<and> has_threshold i)) \<and>
   ((\<forall>f \<in> set [''cpu'', ''mem_used'', ''disk_pct'', ''load1'', ''load5'', ''load15'', ''net_rx_bps'',
        ''net_tx_bps'', ''temp'']. mget v f \<noteq> None) \<and> flt (Fin 0) (vget0 v ''mem_total'') \<longrightarrow>
      (\<forall>i \<in> set catalog. mi_target_kind i = TargetServer \<longrightarrow> has_threshold i \<longrightarrow>
         mget (server_values v) (mi_metric i) \<noteq> None))"
proof -
  have a: "mget (server_values v) MetricDown = None" "mget (server_values v) (MetricOther x) = None" for x
    by (simp_all add: server_values_def Let_def split: option.split)
  have b: "mget (app_values v h) m \<noteq> None \<Longrightarrow> m \<in> {MetricCPU, MetricMemory, MetricDisk}"
    by (auto simp: app_values_def Let_def split: option.splits if_splits)
  have c: "mget (server_values v) (mi_metric i) \<noteq> None"
    if all: "\<forall>f \<in> set [''cpu'', ''mem_used'', ''disk_pct'', ''load1'', ''load5'', ''load15'', ''net_rx_bps'',
        ''net_tx_bps'', ''temp'']. mget v f \<noteq> None" and mem: "flt (Fin 0) (vget0 v ''mem_total'')"
      and i: "i \<in> set catalog" "mi_target_kind i = TargetServer" "has_threshold i" for i
  proof -
    obtain x1 x2 x3 x4 x5 x6 x7 x8 x9 where v: "mget v ''cpu'' = Some x1" "mget v ''mem_used'' = Some x2"
      "mget v ''disk_pct'' = Some x3" "mget v ''load1'' = Some x4" "mget v ''load5'' = Some x5"
      "mget v ''load15'' = Some x6" "mget v ''net_rx_bps'' = Some x7" "mget v ''net_tx_bps'' = Some x8"
      "mget v ''temp'' = Some x9" using all by auto
    have "mi_metric i \<in> {MetricCPU, MetricMemory, MetricDisk, MetricLoad1, MetricLoad5, MetricLoad15,
      MetricBandwidth, MetricTemperature}" using i by (auto simp: catalog_def has_threshold_def)
    then show ?thesis by (auto simp: server_values_def Let_def v mem)
  qed
  have k: "\<exists>i. lookup_metric TargetServer m = Some i \<and> has_threshold i" if "mget (server_values v) m \<noteq> None"
    using that a by (cases m) (simp_all add: lookup_metric_def catalog_def has_threshold_def)
  have l: "\<exists>i. lookup_metric TargetApp m = Some i \<and> has_threshold i" if "mget (app_values v h) m \<noteq> None"
    using b [OF that] by (auto simp: lookup_metric_def catalog_def has_threshold_def)
  show ?thesis using k l c by blast
qed

theorem measured_metrics_in_catalog_witness:
  "\<exists>i. lookup_metric TargetApp MetricCPU = Some i \<and> has_threshold i"
  using measured_metrics_in_catalog [of "[(''cpu'', Fin 5)]" MetricCPU "Fin 0"]
  by (simp add: app_values_def vget0_def UnavailableField_def)

text \<open>Routing: only enabled channels get a notification, in the order of the list; without a
  list these are the default ones, with a list exactly the listed ones, and an empty list
  reaches nobody.\<close>

theorem route_channels_spec:
  "set (route_channels all ids) =
     {c \<in> set all. c_enabled c \<and> (case ids of None \<Rightarrow> c_default c | Some l \<Rightarrow> c_id c \<in> set l)} \<and>
   (\<exists>P. route_channels all ids = filter P all) \<and> route_channels all (Some []) = []"
  by (auto simp: route_channels_def Let_def split: option.splits)

end
