(* ===== verification/Alert_Window.thy ===== *)
theory Alert_Window
  imports Alert_Rules
begin

text \<open>
  The window a threshold rule averages over, \<open>internal/domain/alert/window.go\<close>: one buffer of
  minute-stamped points per target, its bound, and the average with its coverage rule. The
  backward loop of \<open>Average\<close> is a recursion over the reversed points that stops where the Go
  loop breaks; \<open>in_window\<close> is the plain filter it is equal to on the buffers that occur.
\<close>

definition BufferSize :: nat where "BufferSize = 60"

text \<open>The constant \<open>0.8\<close>, as the \<open>float64\<close> it is where the product is formed.\<close>

definition Coverage :: f64 where "Coverage = rnd (8 / 10)"

record point =
  p_at :: time
  p_values :: alert_values

type_synonym buffer = "point list"

definition buffer_add :: "point \<Rightarrow> buffer \<Rightarrow> buffer \<times> bool" where
  "buffer_add p b =
     (let p1 = p\<lparr>p_at := bucket_start Tier1 (p_at p)\<rparr>
      in if b \<noteq> [] \<and> \<not> p_at (last b) < p_at p1 then (b, False)
         else let ps = b @ [p1]; over = length ps - BufferSize
              in (if 0 < over then drop over ps else ps, True))"

fun avg_loop :: "metric \<Rightarrow> time \<Rightarrow> point list \<Rightarrow> f64 \<Rightarrow> int \<Rightarrow> f64 \<times> int" where
  "avg_loop m cutoff [] s n = (s, n)"
| "avg_loop m cutoff (p # ps) s n =
     (if \<not> cutoff < p_at p then (s, n)
      else case mget (p_values p) m of
             Some x \<Rightarrow> avg_loop m cutoff ps (fadd s x) (n + 1)
           | None \<Rightarrow> avg_loop m cutoff ps s n)"

definition need_of :: "int \<Rightarrow> int" where
  "need_of expected =
     (let need = int_of_f64 (fceil (fmul Coverage (f64_of_int expected)))
      in if need < 1 then 1 else need)"

definition average :: "metric \<Rightarrow> duration \<Rightarrow> buffer \<Rightarrow> f64 option" where
  "average m window b =
     (if b = [] \<or> window \<le> 0 then None
      else let need = need_of (window div minute);
               cutoff = p_at (last b) - window;
               (s, n) = avg_loop m cutoff (rev b) (Fin 0) 0
           in if n < need then None else Some (fdiv s (f64_of_int n)))"

section \<open>Properties\<close>

subsection \<open>The buffer\<close>

definition buffer_ok :: "buffer \<Rightarrow> bool" where
  "buffer_ok b \<longleftrightarrow>
     length b \<le> BufferSize \<and> sorted_wrt (<) (map p_at b) \<and> (\<forall>p \<in> set b. minute dvd p_at p)"

lemma buffer_add_ok:
  assumes "buffer_ok b"
  shows "buffer_ok (fst (buffer_add p b))"
proof (cases "b \<noteq> [] \<and> \<not> p_at (last b) < bucket_start Tier1 (p_at p)")
  case True
  then show ?thesis using assms by (simp add: buffer_add_def)
next
  case False
  define p1 where "p1 = p\<lparr>p_at := bucket_start Tier1 (p_at p)\<rparr>"
  have d: "minute dvd p_at p1"
    using time_truncate_dvd [of minute "p_at p"]
    by (simp add: p1_def bucket_start_def tier_duration_def minute_def)
  have s: "sorted_wrt (<) (map p_at (b @ [p1]))"
    using strict_key_snoc [of p_at b p1] assms False by (auto simp: buffer_ok_def p1_def)
  define over where "over = length (b @ [p1]) - BufferSize"
  have r: "fst (buffer_add p b) = drop over (b @ [p1])"
    using False by (auto simp: buffer_add_def p1_def over_def Let_def)
  have "sorted_wrt (<) (map p_at (drop over (b @ [p1])))"
    using s sorted_wrt_drop by (metis drop_map)
  moreover have "length (drop over (b @ [p1])) \<le> BufferSize" by (simp add: over_def)
  moreover have "\<forall>q \<in> set (drop over (b @ [p1])). minute dvd p_at q"
    using assms d by (auto simp: buffer_ok_def dest: in_set_dropD)
  ultimately show ?thesis by (simp add: r buffer_ok_def)
qed

lemma buffer_adds_ok: "buffer_ok b \<Longrightarrow> buffer_ok (foldl (\<lambda>b p. fst (buffer_add p b)) b ps)"
  by (rule foldl_invariant) (auto simp: buffer_add_ok)

lemma buffer_ok_Nil [simp]: "buffer_ok []"
  by (simp add: buffer_ok_def)

text \<open>Whatever points a target's buffer is fed, in whatever order and with whatever repeats, it
  holds at most sixty points, one per minute, in strictly increasing time.\<close>

theorem buffer_invariant:
  "buffer_ok (foldl (\<lambda>b p. fst (buffer_add p b)) [] ps)"
  by (simp add: buffer_adds_ok)

subsection \<open>The average\<close>

definition in_window :: "duration \<Rightarrow> buffer \<Rightarrow> buffer" where
  "in_window window b = filter (\<lambda>p. p_at (last b) - window < p_at p) b"

definition carried :: "metric \<Rightarrow> buffer \<Rightarrow> f64 list" where
  "carried m b = List.map_filter (\<lambda>p. mget (p_values p) m) b"

lemma avg_loop_eq:
  assumes "sorted_wrt (\<lambda>p q. p_at q < p_at p) ps"
  shows "avg_loop m cutoff ps s n =
    (let xs = carried m (filter (\<lambda>p. cutoff < p_at p) ps)
     in (foldl fadd s xs, n + int (length xs)))"
  using assms
proof (induction ps arbitrary: s n)
  case (Cons p ps)
  have none: "filter (\<lambda>q. cutoff < p_at q) ps = []" if "\<not> cutoff < p_at p"
    using Cons.prems that by (auto simp: filter_empty_conv)
  show ?case
    using Cons none by (auto simp: carried_def map_filter_simps Let_def split: option.splits)
qed (simp add: carried_def map_filter_simps)

lemma rev_sorted: "buffer_ok b \<Longrightarrow> sorted_wrt (\<lambda>p q. p_at q < p_at p) (rev b)"
  by (simp add: buffer_ok_def sorted_wrt_rev sorted_wrt_map)

text \<open>Distinct whole minutes of a window of \<open>d\<close> minutes: at most \<open>d\<close> of them.\<close>

lemma minutes_in_window:
  assumes "buffer_ok b" "b \<noteq> []" "0 \<le> d"
  shows "int (length (in_window (d * minute) b)) \<le> d"
proof -
  let ?w = "in_window (d * minute) b" and ?l = "p_at (last b) div minute"
  have sorted: "sorted_wrt (<) (map p_at b)" and al: "\<forall>p \<in> set b. minute dvd p_at p"
    using assms(1) by (auto simp: buffer_ok_def)
  have last: "p_at p \<le> p_at (last b)" if "p \<in> set b" for p
    using strict_key_last [OF sorted that] .
  have mem: "p_at p div minute \<in> {?l - d <.. ?l}" if "p \<in> set ?w" for p
  proof -
    have "minute dvd p_at p" "minute dvd p_at (last b)" "p_at p \<le> p_at (last b)"
      "p_at (last b) - d * minute < p_at p"
      using that al assms(2) last by (auto simp: in_window_def)
    then show ?thesis by (auto simp: minute_def elim!: dvdE)
  qed
  have "distinct (map p_at ?w)"
    using strict_key_distinct [OF sorted] by (simp add: in_window_def)
  then have "distinct (map (\<lambda>p. p_at p div minute) ?w)"
    using al by (auto simp: distinct_map inj_on_def in_window_def dvd_div_eq_iff)
  then have "length ?w = card (set (map (\<lambda>p. p_at p div minute) ?w))"
    by (metis distinct_card length_map)
  also have "\<dots> \<le> card {?l - d <.. ?l}" using mem by (intro card_mono) auto
  also have "\<dots> = nat d" by simp
  finally show ?thesis using assms(3) by simp
qed

text \<open>The rounding of the constant and of its product never crosses a whole minute: the required
  share is the ceiling of four fifths.\<close>

lemma Coverage_eq: "Coverage = Fin (4 / 5 + 1 / (5 * 2 ^ 52))"
proof -
  have "\<lfloor>36028797018963968 / 5 :: rat\<rfloor> = 7205759403792793" by (rule floor_unique) simp_all
  then show ?thesis by (simp add: Coverage_def rnd_eval [of "- 1"] power_int_minus round_even_def)
qed

lemma Coverage_times:
  assumes "1 \<le> d" "d \<le> 60"
  shows "fmul Coverage (f64_of_int d) = Fin (nearest ((4 / 5 + 1 / (5 * 2 ^ 52)) * of_int d))"
    (is "_ = Fin (nearest ?x)")
proof -
  have d: "(of_int d :: rat) \<le> of_int 60" "(of_int 1 :: rat) \<le> of_int d" using assms by (simp_all only: of_int_le_iff)
  then have "?x \<le> (4 / 5 + 1 / (5 * 2 ^ 52)) * 60" by (intro mult_left_mono) simp_all
  also have "\<dots> \<le> 64" by simp
  finally have x: "0 < ?x" "?x \<le> 64" using d by auto
  have "nearest 64 = 64"
    using f64_of_int_exact [of 64] by (auto simp: f64_of_int_def rnd_def Let_def split: if_splits)
  then have "nearest ?x \<le> 64" using nearest_mono [OF x(2)] by simp
  then have "\<bar>nearest ?x\<bar> < f64_limit" using nearest_nonneg [of ?x] x(1) by (simp add: f64_limit_def)
  then show ?thesis using rnd_eq_Fin f64_of_int_exact [of d] assms by (simp add: Coverage_eq)
qed

lemma need_of_eq:
  assumes "1 \<le> d" "d \<le> 60"
  shows "need_of d = (4 * d + 4) div 5"
proof -
  define x :: rat where "x = (4 / 5 + 1 / (5 * 2 ^ 52)) * of_int d"
  define e where "e = fexp x"
  have d: "(of_int 1 :: rat) \<le> of_int d" "(of_int d :: rat) \<le> of_int 60" using assms by (simp_all only: of_int_le_iff)
  have x: "4 / 5 * of_int d \<le> x" "x \<le> 4 / 5 * of_int d + 12 / 2 ^ 52" "0 < x" "x < 64"
    using d by (auto simp: x_def field_simps)
  have e: "2 powi e \<le> x" "x < 2 powi (e + 1)" using fexp_bounds [OF x(3)] by (auto simp: e_def)
  have "2 powi e < (2 :: rat) powi 6" "2 powi (- 1) < (2 :: rat) powi (e + 1)"
    using e x d by (auto simp: power_int_minus)
  then have e6: "- 2 < e" "e < 6" by (simp_all only: powi_less)
  then have u: "ulp x = 2 powi (e - 52)" using x(3) by (simp add: ulp_def ulp_exp_def e_def)
  have "ulp x \<le> 2 powi (- 46)" unfolding u powi_le using e6 by simp
  then have ule: "ulp x / 2 \<le> 1 / 2 ^ 40" by (simp add: power_int_minus)
  have near: "nearest x \<le> x + ulp x / 2" "x - ulp x / 2 \<le> nearest x"
    using nearest_error [of x] by auto
  have need: "need_of d = (let c = \<lceil>nearest x\<rceil> in if c < 1 then 1 else c)"
    using Coverage_times [OF assms] nearest_nonneg [of x] x(3) by (simp add: need_of_def x_def Let_def)
  show ?thesis
  proof (cases "5 dvd d")
    case True
    then obtain j where j: "d = 5 * j" by blast
    then have j0: "1 \<le> j" using assms by simp
    have xj: "x = of_int (4 * j) + of_int j / 2 ^ 52" by (simp add: x_def j field_simps)
    define k where "k = nat (52 - e)"
    have k: "(2 :: rat) ^ k = 1 / ulp x" "int k = 52 - e" using e6
      by (simp_all add: k_def u flip: power_int_of_nat power_int_minus_divide)
    have "2 * of_int j < (2 :: rat) powi e"
    proof -
      have "4 * of_int j < (2 :: rat) powi (e + 1)" using e(2) xj j0 by (auto intro: less_trans le_less_trans)
      then show ?thesis by (simp add: power_int_add)
    qed
    then have r: "of_int j / 2 ^ 52 / ulp x < 1 / 2" "0 \<le> of_int j / 2 ^ 52 / ulp x"
      using j0 by (auto simp: u power_int_diff field_simps)
    have "x / ulp x = of_int (4 * j * 2 ^ k) + of_int j / 2 ^ 52 / ulp x"
      using k(1) by (simp add: xj add_divide_distrib)
    then have "round_even (x / ulp x) = 4 * j * 2 ^ k" using round_even_small [OF r(2) r(1), of "4 * j * 2 ^ k"] by metis
    then have "nearest x = of_int (4 * j)" using k(1) by (simp add: nearest_def)
    then have "need_of d = 4 * j" using need j0 by (simp only: ceiling_of_int Let_def) simp
    then show ?thesis by (simp add: j)
  next
    case False
    define q where "q = (4 * d) div 5"
    have q: "5 * q + 1 \<le> 4 * d" "4 * d \<le> 5 * q + 4" using False by (simp_all add: q_def) presburger+
    have qr: "of_int (5 * q + 1) \<le> (of_int (4 * d) :: rat)" "(of_int (4 * d) :: rat) \<le> of_int (5 * q + 4)"
      using q by (simp_all only: of_int_le_iff)
    have "of_int q < nearest x" "nearest x \<le> of_int q + 1"
      using near x ule qr by auto
    then have c: "\<lceil>nearest x\<rceil> = q + 1" by (simp add: ceiling_eq_iff)
    have "(4 * d + 4) div 5 = q + 1" "0 \<le> q" using q assms by (auto simp: q_def)
    then show ?thesis using need c by (simp add: Let_def)
  qed
qed

lemma average_eq:
  assumes "buffer_ok b" "b \<noteq> []" "0 < window"
  shows "average m window b =
    (let xs = carried m (in_window window b); n = int (length xs)
     in if n < need_of (window div minute) then None
        else Some (fdiv (foldl fadd (Fin 0) (rev xs)) (f64_of_int n)))"
proof -
  have c: "carried m (rev ys) = rev (carried m ys)" for ys
    by (simp add: carried_def List.map_filter_def rev_filter [symmetric] rev_map [symmetric])
  show ?thesis
    using assms(2,3) avg_loop_eq [OF rev_sorted [OF assms(1)], of m "p_at (last b) - window" "Fin 0" 0]
    by (simp add: average_def in_window_def Let_def c flip: rev_filter)
qed

text \<open>C18. A threshold decision rests on enough data and on nothing else: for a window of \<open>d\<close> minutes
  (1 to 60) the average is taken over the points newer than the newest minus the window that carry
  the metric, there are at most \<open>d\<close> of them, and it exists exactly when at least four fifths of
  \<open>d\<close> (rounded up) carry it; below that the state is kept.\<close>

theorem average_coverage:
  assumes "buffer_ok b" "b \<noteq> []" "1 \<le> d" "d \<le> 60"
  shows "let xs = carried m (in_window (d * minute) b); n = int (length xs)
         in n \<le> d \<and>
            (average m (d * minute) b =
               (if 4 * d \<le> 5 * n then Some (fdiv (foldl fadd (Fin 0) (rev xs)) (f64_of_int n)) else None))"
proof -
  let ?w = "in_window (d * minute) b"
  let ?n = "int (length (carried m ?w))"
  have le: "length (carried m ?w) \<le> length ?w"
    by (simp add: carried_def List.map_filter_def)
  have n: "?n \<le> d" using le minutes_in_window [OF assms(1,2), of d] assms(3) by simp
  have w: "d * minute div minute = d" "0 < d * minute" using assms(3) by (simp_all add: minute_def)
  have "?n < need_of d \<longleftrightarrow> \<not> 4 * d \<le> 5 * ?n" by (simp add: need_of_eq [OF assms(3,4)]) linarith
  then show ?thesis
    using n average_eq [OF assms(1,2) w(2), of m] by (simp add: Let_def w(1))
qed

text \<open>A buffer whose points all carry finite values: sums are never NaN, so the order of the
  values is the order of the averages.\<close>

lemma foldl_fadd_mono:
  assumes "list_all2 fle xs ys" "fle s t" "\<forall>x \<in> set xs \<union> set ys. is_finite x"
  shows "fle (foldl fadd s xs) (foldl fadd t ys)"
  using assms
proof (induction xs ys arbitrary: s t rule: list_all2_induct)
  case (Cons x xs y ys)
  obtain a c where xy: "x = Fin a" "y = Fin c" using Cons.prems by (cases x; cases y) auto
  have st: "s \<noteq> NaN" "t \<noteq> NaN" using Cons.prems by auto
  have "fadd s x \<noteq> NaN" "fadd t y \<noteq> NaN" using st xy by (cases s; cases t; simp)+
  then have "fle (fadd s x) (fadd t y)" using Cons by (intro fadd_mono)
  then show ?case using Cons by simp
qed simp

definition same_shape :: "metric \<Rightarrow> buffer \<Rightarrow> buffer \<Rightarrow> bool" where
  "same_shape m b c \<longleftrightarrow>
     list_all2 (\<lambda>p q. p_at p = p_at q \<and>
        (case (mget (p_values p) m, mget (p_values q) m) of
           (None, None) \<Rightarrow> True
         | (Some x, Some y) \<Rightarrow> is_finite x \<and> is_finite y \<and> fle x y
         | _ \<Rightarrow> False)) b c"

lemma same_shape_carried:
  assumes "same_shape m b c"
  shows "list_all2 fle (carried m (filter (\<lambda>p. t < p_at p) b)) (carried m (filter (\<lambda>p. t < p_at p) c)) \<and>
    (\<forall>x \<in> set (carried m (filter (\<lambda>p. t < p_at p) b)) \<union> set (carried m (filter (\<lambda>p. t < p_at p) c)). is_finite x)"
  using assms unfolding same_shape_def
proof (induction rule: list_all2_induct)
  case (Cons p ps q qs)
  then show ?case by (auto simp: carried_def map_filter_simps split: option.splits)
qed (simp add: carried_def map_filter_simps)

lemma same_shape_last: "same_shape m b c \<Longrightarrow> b \<noteq> [] \<Longrightarrow> p_at (last b) = p_at (last c) \<and> c \<noteq> []"
  unfolding same_shape_def by (induction rule: list_all2_induct) auto

text \<open>More load never averages to less: of two buffers with the same minutes whose finite
  values of the metric are pointwise ordered, either neither decides or the averages are ordered
  the same way, rounding included; so a rule that fires on the smaller one fires on the larger.\<close>

theorem average_monotone:
  assumes "buffer_ok b" "buffer_ok c" "same_shape m b c" "0 < w"
  shows "(average m w b = None \<longleftrightarrow> average m w c = None) \<and>
    (\<forall>x y. average m w b = Some x \<longrightarrow> average m w c = Some y \<longrightarrow>
       fle x y \<and> (\<forall>t. flt t x \<longrightarrow> flt t y))"
proof (cases "b = []")
  case True
  then show ?thesis using assms(3) by (simp add: same_shape_def average_def)
next
  case False
  have l: "p_at (last c) = p_at (last b)" "c \<noteq> []" using same_shape_last [OF assms(3) False] by auto
  let ?xs = "carried m (in_window w b)" and ?ys = "carried m (in_window w c)"
  have c: "list_all2 fle ?xs ?ys" "\<forall>x \<in> set ?xs \<union> set ?ys. is_finite x"
    using same_shape_carried [OF assms(3), of "p_at (last b) - w"] by (auto simp: in_window_def l)
  have n: "length ?xs = length ?ys" using c(1) by (rule list_all2_lengthD)
  have sums: "fle (foldl fadd (Fin 0) (rev ?xs)) (foldl fadd (Fin 0) (rev ?ys))"
    using c by (intro foldl_fadd_mono) auto
  have av: "average m w b = (let n = int (length ?xs) in if n < need_of (w div minute) then None
        else Some (fdiv (foldl fadd (Fin 0) (rev ?xs)) (f64_of_int n)))"
    "average m w c = (let n = int (length ?xs) in if n < need_of (w div minute) then None
        else Some (fdiv (foldl fadd (Fin 0) (rev ?ys)) (f64_of_int n)))"
    using average_eq [OF assms(1) False assms(4)] average_eq [OF assms(2) l(2) assms(4)] n
    by (simp_all add: Let_def)
  have one: "1 \<le> need_of k" for k by (simp add: need_of_def Let_def)
  have len: "int (length ?xs) \<le> 60"
  proof -
    have "length ?xs \<le> length b" unfolding carried_def List.map_filter_def in_window_def
      by (metis (no_types, lifting) length_filter_le length_map le_trans)
    then show ?thesis using assms(1) by (simp add: buffer_ok_def BufferSize_def)
  qed
  have "fle (fdiv (foldl fadd (Fin 0) (rev ?xs)) (f64_of_int (int (length ?xs))))
        (fdiv (foldl fadd (Fin 0) (rev ?ys)) (f64_of_int (int (length ?xs))))"
    if "\<not> int (length ?xs) < need_of (w div minute)"
  proof -
    have "0 < int (length ?xs)" using that one [of "w div minute"] by linarith
    then show ?thesis using f64_of_int_exact [of "int (length ?xs)"] len sums
      by (simp add: fdiv_pos_mono)
  qed
  then show ?thesis by (auto simp: av Let_def intro: flt_fle_trans split: if_splits)
qed

subsection \<open>Witnesses\<close>

abbreviation cpu_point :: "int \<Rightarrow> rat \<Rightarrow> point" where
  "cpu_point i x \<equiv> \<lparr>p_at = i * minute, p_values = [(MetricCPU, Fin x)]\<rparr>"

theorem average_coverage_witness:
  "average MetricCPU (2 * minute) [cpu_point 7 10, cpu_point 8 20, cpu_point 9 30] = Some (Fin 25)"
proof -
  let ?b = "[cpu_point 7 10, cpu_point 8 20, cpu_point 9 30]"
  have ok: "buffer_ok ?b" by (simp add: buffer_ok_def BufferSize_def minute_def)
  have i: "rnd (of_int n) = Fin (of_int n)" if "\<bar>n\<bar> \<le> 2 ^ 53" for n
    using f64_of_int_exact [OF that] by (simp add: f64_of_int_def)
  have e: "rnd 30 = Fin 30" "rnd 50 = Fin 50" "rnd 2 = Fin 2" "rnd 25 = Fin 25"
    using i [of 30] i [of 50] i [of 2] i [of 25] by simp_all
  have w: "in_window (2 * minute) ?b = [cpu_point 8 20, cpu_point 9 30]"
    by (simp add: in_window_def minute_def)
  then show ?thesis using average_coverage [OF ok, of 2 MetricCPU]
    by (simp add: Let_def carried_def map_filter_simps f64_of_int_def e)
qed

theorem average_monotone_witness:
  "\<exists>x y. average MetricCPU minute [cpu_point 7 10] = Some x \<and> average MetricCPU minute [cpu_point 7 20] = Some y \<and> fle x y"
proof -
  have ok: "buffer_ok [cpu_point 7 x]" for x by (simp add: buffer_ok_def BufferSize_def minute_def)
  have some: "average MetricCPU minute [cpu_point 7 x] \<noteq> None" for x
    using average_coverage [OF ok [of x], of 1 MetricCPU]
    by (simp add: Let_def carried_def map_filter_simps in_window_def minute_def)
  then obtain x y where xy: "average MetricCPU minute [cpu_point 7 10] = Some x"
    "average MetricCPU minute [cpu_point 7 20] = Some y" by (meson not_None_eq)
  have "same_shape MetricCPU [cpu_point 7 10] [cpu_point 7 20]" "0 < minute"
    by (simp_all add: same_shape_def minute_def)
  from average_monotone [OF ok ok this] xy show ?thesis by blast
qed

end
