(* ===== verification/Alert_Message.thy ===== *)
theory Alert_Message
  imports Alert_Window
begin

text \<open>
  The notification text of \<open>internal/domain/alert/message.go\<close>. Strings are the bytes Go
  holds, so the symbols of the text are their UTF-8 bytes. The fixed-point verbs (\<open>%.0f\<close>,
  \<open>%.1f\<close>, \<open>%.2f\<close>) round the exact value to the nearest decimal, ties to even, as
  \<open>strconv\<close> does. The shortest form (\<open>%g\<close>), which only a metric outside the catalog would
  use, is the parameter \<open>fmt_g\<close>.
\<close>

subsection \<open>Formatting\<close>

definition show_int :: "int \<Rightarrow> string" where
  "show_int i = (if i < 0 then ''-'' @ show_nat (nat (- i)) else show_nat (nat i))"

definition pad_left :: "nat \<Rightarrow> string \<Rightarrow> string" where
  "pad_left n s = replicate (n - length s) (CHR ''0'') @ s"

fun fmt_fixed :: "nat \<Rightarrow> f64 \<Rightarrow> string" where
  "fmt_fixed p NaN = ''NaN''"
| "fmt_fixed p PInf = ''+Inf''"
| "fmt_fixed p NInf = ''-Inf''"
| "fmt_fixed p (Fin x) =
     (let m = nat (round_even (\<bar>x\<bar> * 10 ^ p));
          whole = show_nat (m div 10 ^ p);
          frac = (if p = 0 then [] else ''.'' @ pad_left p (show_nat (m mod 10 ^ p)))
      in (if x < 0 then ''-'' else []) @ whole @ frac)"

definition fire_sign :: string where "fire_sign = [CHR 0xF0, CHR 0x9F, CHR 0x94, CHR 0xA5]"
definition check_sign :: string where "check_sign = [CHR 0xE2, CHR 0x9C, CHR 0x85]"
definition middle_dot :: string where "middle_dot = [CHR 0xC2, CHR 0xB7]"
definition degree_sign :: string where "degree_sign = [CHR 0xC2, CHR 0xB0]"

subsection \<open>The message\<close>

record names =
  n_server :: string
  n_app :: string

definition names_label :: "names \<Rightarrow> string" where
  "names_label n = (if n_app n = [] then n_server n else n_server n @ '' / '' @ n_app n)"

record message =
  m_title :: string
  m_body :: string

datatype event_kind = EventFired | EventResolved

record transition =
  tr_kind :: event_kind
  tr_info :: metric_info
  tr_names :: names
  tr_value :: f64
  tr_threshold :: f64
  tr_duration :: duration
  tr_link :: string

fun format_value :: "(f64 \<Rightarrow> string) \<Rightarrow> alert_unit \<Rightarrow> f64 \<Rightarrow> string" where
  "format_value fmt_g UnitPercent v = fmt_fixed 0 v @ ''%''"
| "format_value fmt_g UnitLoad v = fmt_fixed 2 v"
| "format_value fmt_g UnitMBps v = fmt_fixed 1 v @ '' MB/s''"
| "format_value fmt_g UnitCelsius v = fmt_fixed 0 v @ '' '' @ degree_sign @ ''C''"
| "format_value fmt_g UnitGB v = fmt_fixed 1 v @ '' GB''"
| "format_value fmt_g UnitNone v = fmt_g v"

definition short_duration :: "duration \<Rightarrow> string" where
  "short_duration d =
     (if hour \<le> d \<and> d mod hour = 0 then show_int (quot d hour) @ ''h'' else show_int (quot d minute) @ ''m'')"

definition join_lines :: "string list \<Rightarrow> string" where
  "join_lines ls = (case ls of [] \<Rightarrow> [] | l # r \<Rightarrow> l @ concat (map (\<lambda>x. CHR 0x0A # x) r))"

definition compose :: "(f64 \<Rightarrow> string) \<Rightarrow> transition \<Rightarrow> message" where
  "compose fmt_g t =
     (let target = names_label (tr_names t);
          i = tr_info t;
          fmt = format_value fmt_g (mi_unit i);
          mins = show_int (quot (tr_duration t) minute);
          (title, line) =
            (if \<not> has_threshold i \<and> tr_kind t = EventFired then
               (fire_sign @ '' '' @ target @ '' is down for '' @ short_duration (tr_duration t),
                if mi_target_kind i = TargetServer
                then ''The server has not reported for '' @ mins @ '' min.''
                else [CHR ''T'', CHR ''h'', CHR ''e'', CHR '' '', CHR ''a'', CHR ''p'', CHR ''p'', CHR 0x27, CHR ''s''] @
                  '' containers have been failing (crashed, restarting or unhealthy) for '' @ mins @ '' min.'')
             else if \<not> has_threshold i then
               (check_sign @ '' Resolved '' @ middle_dot @ '' '' @ target @ '' is back up'',
                ''It is reporting normally again.'')
             else if tr_kind t = EventFired then
               (fire_sign @ '' '' @ target @ '' '' @ middle_dot @ '' '' @ mi_label i @ '' '' @
                  fmt (tr_value t) @ '' > '' @ fmt (tr_threshold t) @ '' for '' @ short_duration (tr_duration t),
                mi_label i @ '' averaged '' @ fmt (tr_value t) @ '' over '' @ mins @
                  '' min (threshold '' @ fmt (tr_threshold t) @ '').'')
             else
               (check_sign @ '' Resolved '' @ middle_dot @ '' '' @ target @ '' '' @ middle_dot @ '' '' @
                  mi_label i @ '' '' @ fmt (tr_value t),
                mi_label i @ '' is back to '' @ fmt (tr_value t) @ '' (threshold '' @ fmt (tr_threshold t) @ '').''));
          ls = [''Server: '' @ n_server (tr_names t)] @
               (if n_app (tr_names t) \<noteq> [] then [''App: '' @ n_app (tr_names t)] else []) @
               [line] @ (if tr_link t \<noteq> [] then [tr_link t] else [])
      in \<lparr>m_title = title, m_body = join_lines ls\<rparr>)"

definition trim_right :: "char \<Rightarrow> string \<Rightarrow> string" where
  "trim_right c s = rev (dropWhile (\<lambda>x. x = c) (rev s))"

definition link :: "string \<Rightarrow> target \<Rightarrow> string" where
  "link web_url t =
     (let base = trim_right (CHR ''/'') web_url
      in if base = [] then []
         else if t_app t = [] then base @ ''/server/'' @ t_server t @ ''/monitoring''
         else base @ ''/server/'' @ t_server t @ ''/app/'' @ t_app t @ ''?tab=metrics'')"

section \<open>Properties\<close>

text \<open>What a reader sees first says what happened: the title of every fired transition starts
  with the fire sign, that of every resolved one with the check mark, and no message is both;
  the body names the server first.\<close>

theorem title_tells_kind:
  "(if tr_kind t = EventFired then has_prefix fire_sign (m_title (compose g t))
    else has_prefix check_sign (m_title (compose g t)) \<and> \<not> has_prefix fire_sign (m_title (compose g t))) \<and>
   has_prefix (''Server: '' @ n_server (tr_names t)) (m_body (compose g t))"
  by (cases "tr_kind t")
    (simp_all add: compose_def Let_def has_prefix_def fire_sign_def check_sign_def join_lines_def)

end
