(* ===== verification/Alert_Store.thy ===== *)
theory Alert_Store
  imports Alert_Message "HOL-Library.Product_Lexorder" "HOL-Library.Sublist"
begin

text \<open>
  The alert repository as the evaluator and the history page use it:
  \<open>internal/infra/db/repository/alert/states.go\<close> and \<open>events.go\<close> over the statements of
  \<open>sqlc/query/sqlite/alerts.sql\<close> and the tables of migration 0013.

  A database is a record of its tables. \<open>db_rules\<close> and \<open>db_overrides\<close> are kept in the order
  the list statements return. A statement is atomic and so is a transaction; a
  caller may still see an error for a unit of work that was not applied (\<open>FailBefore\<close>) or
  that was, the reply being lost (\<open>FailAfter\<close>).
\<close>

subsection \<open>Rows\<close>

record delivery =
  dl_channel :: string
  dl_name :: string
  dl_ok :: bool
  dl_error :: string

record event =
  ae_id :: string
  ae_org :: string
  ae_rule :: string
  ae_server :: string
  ae_app :: string
  ae_server_name :: string
  ae_app_name :: string
  ae_target_kind :: target_kind
  ae_metric :: metric
  ae_kind :: event_kind
  ae_value :: f64
  ae_threshold :: f64
  ae_title :: string
  ae_message :: string
  ae_deliveries :: "delivery list"
  ae_created :: time

definition event_key :: "event \<Rightarrow> key" where
  "event_key ev = \<lparr>k_rule = ae_rule ev, k_target = \<lparr>t_server = ae_server ev, t_app = ae_app ev\<rparr>\<rparr>"

datatype alert_state = StateOK | StateFiring

record state_cols =
  sc_state :: alert_state
  sc_since :: time
  sc_value :: f64
  sc_threshold :: f64

record state_row =
  sr_key :: key
  sr_target_kind :: target_kind
  sr_metric :: metric
  sr_since :: time
  sr_value :: f64
  sr_threshold :: f64

text \<open>\<open>db_orgs\<close> maps an organization to its \<open>alert_defaults_seeded\<close> flag.\<close>

record adb =
  db_orgs :: "(string, bool) gomap"
  db_dir :: directory
  db_rules :: "rule list"
  db_overrides :: "override list"
  db_states :: "(key, state_cols) gomap"
  db_events :: "event list"

datatype db_error = ForeignKey | UniqueViolation | DbDown

definition stamp :: "time \<Rightarrow> time" where
  "stamp t = from_sql (to_sql t)"

subsection \<open>The statements\<close>

definition has_rule :: "string \<Rightarrow> adb \<Rightarrow> bool" where
  "has_rule rid db \<longleftrightarrow> (\<exists>r \<in> set (db_rules db). r_id r = rid)"

definition has_server :: "string \<Rightarrow> adb \<Rightarrow> bool" where
  "has_server sid db \<longleftrightarrow> mget (dir_servers (db_dir db)) sid \<noteq> None"

definition fire_alert_state :: "key \<Rightarrow> time \<Rightarrow> f64 \<Rightarrow> f64 \<Rightarrow> adb \<Rightarrow> db_error + nat \<times> adb" where
  "fire_alert_state k since v th db =
     (let row = \<lparr>sc_state = StateFiring, sc_since = since, sc_value = v, sc_threshold = th\<rparr>;
          db1 = db\<lparr>db_states := mput k row (db_states db)\<rparr>
      in case mget (db_states db) k of
           Some c \<Rightarrow> if sc_state c \<noteq> StateFiring then Inr (1, db1) else Inr (0, db)
         | None \<Rightarrow> if has_rule (k_rule k) db \<and> has_server (t_server (k_target k)) db
                   then Inr (1, db1) else Inl ForeignKey)"

definition resolve_alert_state :: "key \<Rightarrow> time \<Rightarrow> f64 \<Rightarrow> adb \<Rightarrow> db_error + nat \<times> adb" where
  "resolve_alert_state k since v db =
     (case mget (db_states db) k of
        Some c \<Rightarrow>
          if sc_state c = StateFiring
          then Inr (1, db\<lparr>db_states := mput k (c\<lparr>sc_state := StateOK, sc_since := since, sc_value := v\<rparr>)
                                         (db_states db)\<rparr>)
          else Inr (0, db)
      | None \<Rightarrow> Inr (0, db))"

definition insert_event :: "event \<Rightarrow> adb \<Rightarrow> db_error + adb" where
  "insert_event ev db =
     (if \<exists>e \<in> set (db_events db). ae_id e = ae_id ev then Inl UniqueViolation
      else if mget (db_orgs db) (ae_org ev) = None \<or> \<not> has_server (ae_server ev) db then Inl ForeignKey
      else Inr (db\<lparr>db_events := db_events db @
             [ev\<lparr>ae_deliveries := [], ae_created := stamp (ae_created ev)\<rparr>]\<rparr>))"

subsection \<open>State transitions (states.go)\<close>

text \<open>A transaction's error leaves the database as it was.\<close>

definition Fire :: "key \<Rightarrow> f64 \<Rightarrow> f64 \<Rightarrow> event \<Rightarrow> adb \<Rightarrow> (db_error + bool) \<times> adb" where
  "Fire k v th ev db =
     (case fire_alert_state k (stamp (ae_created ev)) v th db of
        Inl e \<Rightarrow> (Inl e, db)
      | Inr (n, db1) \<Rightarrow>
          if n = 0 then (Inr False, db1)
          else case insert_event ev db1 of Inl e \<Rightarrow> (Inl e, db) | Inr db2 \<Rightarrow> (Inr True, db2))"

definition Resolve :: "key \<Rightarrow> f64 \<Rightarrow> event \<Rightarrow> adb \<Rightarrow> (db_error + bool) \<times> adb" where
  "Resolve k v ev db =
     (case resolve_alert_state k (stamp (ae_created ev)) v db of
        Inl e \<Rightarrow> (Inl e, db)
      | Inr (n, db1) \<Rightarrow>
          if n = 0 then (Inr False, db1)
          else case insert_event ev db1 of Inl e \<Rightarrow> (Inl e, db) | Inr db2 \<Rightarrow> (Inr True, db2))"

definition ClearState :: "key \<Rightarrow> adb \<Rightarrow> (db_error + unit) \<times> adb" where
  "ClearState k db = (Inr (), db\<lparr>db_states := mdel k (db_states db)\<rparr>)"

text \<open>The join with \<open>alert_rules\<close> drops a state whose rule is gone; the list is ordered by
  rule, server and app.\<close>

definition key_order :: "key \<Rightarrow> string \<times> string \<times> string" where
  "key_order k = (k_rule k, t_server (k_target k), t_app (k_target k))"

definition state_row_of :: "rule list \<Rightarrow> key \<times> state_cols \<Rightarrow> state_row option" where
  "state_row_of rules kc =
     (if sc_state (snd kc) = StateFiring
      then map_option (\<lambda>r. \<lparr>sr_key = fst kc, sr_target_kind = r_kind r, sr_metric = r_metric r,
               sr_since = sc_since (snd kc), sr_value = sc_value (snd kc), sr_threshold = sc_threshold (snd kc)\<rparr>)
             (find (\<lambda>r. r_id r = k_rule (fst kc)) rules)
      else None)"

text \<open>The rows of a table with a primary key: one per key.\<close>

definition table_rows :: "('k, 'v) gomap \<Rightarrow> ('k \<times> 'v) list" where
  "table_rows m = AList.clearjunk m"

lemma table_rows_mem [go_map]: "(k, v) \<in> set (table_rows m) \<longleftrightarrow> mget m k = Some v"
  by (metis distinct_clearjunk map_of_clearjunk map_of_eq_Some_iff table_rows_def)

definition FiringStates :: "adb \<Rightarrow> (db_error + state_row list) \<times> adb" where
  "FiringStates db =
     (Inr (sort_key (\<lambda>s. key_order (sr_key s)) (List.map_filter (state_row_of (db_rules db)) (table_rows (db_states db)))), db)"

definition ListRules :: "string \<Rightarrow> adb \<Rightarrow> (db_error + rule list) \<times> adb" where
  "ListRules org db = (Inr (filter (\<lambda>r. r_org r = org) (db_rules db)), db)"

definition ListOverrides :: "string \<Rightarrow> adb \<Rightarrow> (db_error + override list) \<times> adb" where
  "ListOverrides org db =
     (Inr (filter (\<lambda>ov. \<exists>r \<in> set (db_rules db). r_id r = o_rule ov \<and> r_org r = org) (db_overrides db)), db)"

definition Directory :: "adb \<Rightarrow> (db_error + directory) \<times> adb" where
  "Directory db = (Inr (db_dir db), db)"

text \<open>A call that may fail.\<close>

definition with_fault :: "fault \<Rightarrow> (adb \<Rightarrow> (db_error + 'a) \<times> adb) \<Rightarrow> adb \<Rightarrow> (db_error + 'a) \<times> adb" where
  "with_fault f m db =
     (case f of NoFault \<Rightarrow> m db | FailBefore \<Rightarrow> (Inl DbDown, db) | FailAfter \<Rightarrow> (Inl DbDown, snd (m db)))"

subsection \<open>History (events.go)\<close>

definition EventRetention :: duration where "EventRetention = 90 * 24 * hour"
definition EventsPerOrg :: nat where "EventsPerOrg = 2000"
definition MaxEventsPage :: int where "MaxEventsPage = 200"

text \<open>1 January 9999, UTC.\<close>

definition farFuture :: time where "farFuture = time_of_unix 253370764800"

record event_query =
  eq_org :: string
  eq_server :: string
  eq_app :: string
  eq_rule :: string
  eq_kind :: "event_kind option"
  eq_before_at :: time
  eq_before_id :: string
  eq_limit :: int

definition event_order :: "event \<Rightarrow> time \<times> string" where
  "event_order e = (ae_created e, ae_id e)"

text \<open>\<open>ORDER BY created_at DESC, event_id DESC\<close>\<close>

definition newest_first :: "event list \<Rightarrow> event list" where
  "newest_first es = rev (sort_key event_order es)"

definition event_matches :: "event_query \<Rightarrow> event \<Rightarrow> bool" where
  "event_matches q e \<longleftrightarrow> ae_org e = eq_org q \<and>
     (eq_server q = [] \<or> ae_server e = eq_server q) \<and>
     (eq_app q = [] \<or> ae_app e = eq_app q) \<and>
     (eq_rule q = [] \<or> ae_rule e = eq_rule q) \<and>
     (case eq_kind q of None \<Rightarrow> True | Some x \<Rightarrow> ae_kind e = x)"

definition ListEvents :: "event_query \<Rightarrow> adb \<Rightarrow> event list" where
  "ListEvents q db =
     (let before = stamp (if is_zero (eq_before_at q) then farFuture else eq_before_at q);
          limit = min (max (eq_limit q) 1) MaxEventsPage
      in take (nat limit) (newest_first (filter
           (\<lambda>e. event_matches q e \<and>
              (ae_created e < before \<or> ae_created e = before \<and> ae_id e < eq_before_id q)) (db_events db))))"

definition SetDeliveries :: "string \<Rightarrow> delivery list \<Rightarrow> adb \<Rightarrow> (db_error + unit) \<times> adb" where
  "SetDeliveries eid ds db =
     (Inr (), db\<lparr>db_events := map (\<lambda>e. if ae_id e = eid then e\<lparr>ae_deliveries := ds\<rparr> else e) (db_events db)\<rparr>)"

definition delete_events :: "(event \<Rightarrow> bool) \<Rightarrow> adb \<Rightarrow> (db_error + nat) \<times> adb" where
  "delete_events P db =
     (Inr (length (filter P (db_events db))), db\<lparr>db_events := filter (\<lambda>e. \<not> P e) (db_events db)\<rparr>)"

definition oversized_orgs :: "event list \<Rightarrow> string list" where
  "oversized_orgs es =
     filter (\<lambda>o'. EventsPerOrg < length (filter (\<lambda>e. ae_org e = o') es)) (sort (remdups (map ae_org es)))"

definition trim_cutoff :: "string \<Rightarrow> event list \<Rightarrow> event option" where
  "trim_cutoff org es =
     (case drop EventsPerOrg (newest_first (filter (\<lambda>e. ae_org e = org) es)) of
        [] \<Rightarrow> None | c # _ \<Rightarrow> Some c)"

text \<open>The loop over the oversized organizations; each statement takes the next fault.\<close>

fun prune_orgs :: "string list \<Rightarrow> fault list \<Rightarrow> nat \<Rightarrow> adb \<Rightarrow> nat \<times> db_error option \<times> adb" where
  "prune_orgs [] fs n db = (n, None, db)"
| "prune_orgs (org # orgs) fs n db =
     (let (f1, fs1) = pop_fault fs in
      case with_fault f1 (\<lambda>d. (Inr (trim_cutoff org (db_events d)), d)) db of
        (Inl e, db1) \<Rightarrow> (n, Some e, db1)
      | (Inr None, db1) \<Rightarrow> prune_orgs orgs fs1 n db1
      | (Inr (Some c), db1) \<Rightarrow>
          (let (f2, fs2) = pop_fault fs1 in
           case with_fault f2 (delete_events (\<lambda>e. ae_org e = org \<and>
                  (ae_created e < ae_created c \<or> ae_created e = ae_created c \<and> ae_id e \<le> ae_id c))) db1 of
             (Inl e, db2) \<Rightarrow> (n, Some e, db2)
           | (Inr m, db2) \<Rightarrow> prune_orgs orgs fs2 (n + m) db2))"

definition PruneEvents :: "time \<Rightarrow> fault list \<Rightarrow> adb \<Rightarrow> nat \<times> db_error option \<times> adb" where
  "PruneEvents now fs db =
     (let (f1, fs1) = pop_fault fs;
          before = stamp (now - EventRetention) in
      case with_fault f1 (delete_events (\<lambda>e. ae_created e < before)) db of
        (Inl e, db1) \<Rightarrow> (0, Some e, db1)
      | (Inr n, db1) \<Rightarrow>
          (let (f2, fs2) = pop_fault fs1 in
           case with_fault f2 (\<lambda>d. (Inr (oversized_orgs (db_events d)), d)) db1 of
             (Inl e, db2) \<Rightarrow> (n, Some e, db2)
           | (Inr orgs, db2) \<Rightarrow> prune_orgs orgs fs2 n db2))"

section \<open>Properties\<close>

definition firing_in :: "adb \<Rightarrow> key \<Rightarrow> bool" where
  "firing_in db k \<longleftrightarrow> (\<exists>c. mget (db_states db) k = Some c \<and> sc_state c = StateFiring)"

definition history :: "adb \<Rightarrow> key \<Rightarrow> event_kind list" where
  "history db k = map ae_kind (filter (\<lambda>e. event_key e = k) (db_events db))"

lemma event_key_upd [simp]:
  "event_key (ev\<lparr>ae_deliveries := d\<rparr>) = event_key ev"
  "event_key (ev\<lparr>ae_created := t\<rparr>) = event_key ev"
  by (simp_all add: event_key_def)

lemma insert_event_Inr:
  "insert_event ev db = Inr db' \<Longrightarrow>
     db' = db\<lparr>db_events := db_events db @ [ev\<lparr>ae_deliveries := [], ae_created := stamp (ae_created ev)\<rparr>]\<rparr> \<and>
     ae_id ev \<notin> ae_id ` set (db_events db)"
  by (auto simp: insert_event_def image_iff split: if_splits)

text \<open>What a transition does to the database: nothing when it returns an error; when it
  returns, it won exactly if it changed the state, and then it also recorded its event.\<close>

definition same_tables :: "adb \<Rightarrow> adb \<Rightarrow> bool" where
  "same_tables db db' \<longleftrightarrow> db_orgs db' = db_orgs db \<and> db_dir db' = db_dir db \<and>
     db_rules db' = db_rules db \<and> db_overrides db' = db_overrides db"

definition recorded :: "event \<Rightarrow> event" where
  "recorded ev = ev\<lparr>ae_deliveries := [], ae_created := stamp (ae_created ev)\<rparr>"

lemma recorded_simps [simp]:
  "event_key (recorded ev) = event_key ev" "ae_kind (recorded ev) = ae_kind ev"
  "ae_id (recorded ev) = ae_id ev" "ae_org (recorded ev) = ae_org ev"
  "ae_title (recorded ev) = ae_title ev" "ae_message (recorded ev) = ae_message ev"
  by (simp_all add: recorded_def event_key_def)

lemma Fire_cases:
  assumes "Fire k v th ev db = (res, db')"
  obtains (err) e where "res = Inl e" "db' = db"
  | (lost) "res = Inr False" "db' = db" "firing_in db k"
  | (won) "res = Inr True" "\<not> firing_in db k" "\<And>j. firing_in db' j \<longleftrightarrow> j = k \<or> firing_in db j"
      "same_tables db db'" "db_events db' = db_events db @ [recorded ev]"
      "ae_id ev \<notin> ae_id ` set (db_events db)"
  using assms
  by (auto simp: Fire_def fire_alert_state_def Let_def firing_in_def same_tables_def recorded_def
      dest!: insert_event_Inr split: option.splits if_splits sum.splits)

lemma Resolve_cases:
  assumes "Resolve k v ev db = (res, db')"
  obtains (err) e where "res = Inl e" "db' = db"
  | (lost) "res = Inr False" "db' = db" "\<not> firing_in db k"
  | (won) "res = Inr True" "firing_in db k" "\<And>j. firing_in db' j \<longleftrightarrow> j \<noteq> k \<and> firing_in db j"
      "same_tables db db'" "db_events db' = db_events db @ [recorded ev]"
      "ae_id ev \<notin> ae_id ` set (db_events db)"
  using assms
  by (auto simp: Resolve_def resolve_alert_state_def Let_def firing_in_def same_tables_def recorded_def
      dest!: insert_event_Inr split: option.splits if_splits sum.splits)

subsection \<open>The log of transitions\<close>

text \<open>What any number of API replicas do to the states and to the history, in the order the database runs
  it: transitions, silent clears, the notifier's outcomes and the pruning of old events.\<close>

datatype log_op = OFire key f64 f64 event | OResolve key f64 event | OClear key
  | ODeliver string "delivery list" | OPrune time "fault list"

fun op_ok :: "log_op \<Rightarrow> bool" where
  "op_ok (OFire k v th ev) \<longleftrightarrow> event_key ev = k \<and> ae_kind ev = EventFired"
| "op_ok (OResolve k v ev) \<longleftrightarrow> event_key ev = k \<and> ae_kind ev = EventResolved"
| "op_ok _ \<longleftrightarrow> True"

fun log_step :: "fault \<times> log_op \<Rightarrow> adb \<Rightarrow> adb" where
  "log_step (f, OFire k v th ev) db = snd (with_fault f (Fire k v th ev) db)"
| "log_step (f, OResolve k v ev) db = snd (with_fault f (Resolve k v ev) db)"
| "log_step (f, OClear k) db = snd (with_fault f (ClearState k) db)"
| "log_step (f, ODeliver i ds) db = snd (with_fault f (SetDeliveries i ds) db)"
| "log_step (f, OPrune now fs) db = snd (snd (PruneEvents now fs db))"

definition prunes :: "log_op \<Rightarrow> bool" where
  "prunes op \<longleftrightarrow> (\<exists>now fs. op = OPrune now fs)"

text \<open>What one operation does to an alert: nothing, a recorded transition, or, for a clear that ends a
  firing without an event, \<open>None\<close>. The marks of a run are those of its operations, one after the other.\<close>

definition effect :: "('s \<Rightarrow> key \<Rightarrow> bool) \<Rightarrow> (fault \<times> log_op \<Rightarrow> 's \<Rightarrow> 's) \<Rightarrow> key \<Rightarrow> fault \<times> log_op \<Rightarrow> 's
    \<Rightarrow> event_kind option list" where
  "effect active step k fo s =
     (case snd fo of
        OFire j v th ev \<Rightarrow> if j = k \<and> step fo s \<noteq> s then [Some EventFired] else []
      | OResolve j v ev \<Rightarrow> if j = k \<and> step fo s \<noteq> s then [Some EventResolved] else []
      | OClear j \<Rightarrow> if active s k \<and> \<not> active (step fo s) k then [None] else []
      | _ \<Rightarrow> [])"

fun marks :: "('s \<Rightarrow> key \<Rightarrow> bool) \<Rightarrow> (fault \<times> log_op \<Rightarrow> 's \<Rightarrow> 's) \<Rightarrow> key \<Rightarrow> (fault \<times> log_op) list \<Rightarrow> 's
    \<Rightarrow> event_kind option list" where
  "marks active step k [] s = []"
| "marks active step k (fo # ops) s = effect active step k fo s @ marks active step k ops (step fo s)"

text \<open>Beginnings and ends of a firing take turns, a beginning first.\<close>

definition alternates :: "event_kind option list \<Rightarrow> bool" where
  "alternates m \<longleftrightarrow> (\<forall>i < length m. if even i then m ! i = Some EventFired else m ! i \<in> {Some EventResolved, None})"

definition events_of :: "event_kind option list \<Rightarrow> event_kind list" where
  "events_of m = concat (map (\<lambda>x. case x of None \<Rightarrow> [] | Some e \<Rightarrow> [e]) m)"

lemma events_of_simps [simp]: "events_of [] = []" "events_of (m @ [Some e]) = events_of m @ [e]" "events_of (m @ [None]) = events_of m"
  by (simp_all add: events_of_def)

lemma alternates_snoc:
  "alternates m \<Longrightarrow> even (length m) \<Longrightarrow> alternates (m @ [Some EventFired])"
  "alternates m \<Longrightarrow> odd (length m) \<Longrightarrow> alternates (m @ [Some EventResolved])"
  "alternates m \<Longrightarrow> odd (length m) \<Longrightarrow> alternates (m @ [None])"
  by (auto simp: alternates_def nth_append less_Suc_eq)

text \<open>The contract of a transition log, and what follows from it for a client.\<close>

locale transition_log =
  fixes active :: "'s \<Rightarrow> key \<Rightarrow> bool"
    and hist :: "'s \<Rightarrow> key \<Rightarrow> event_kind list"
    and step :: "fault \<times> log_op \<Rightarrow> 's \<Rightarrow> 's"
  assumes fire_law: "\<lbrakk>op_ok (OFire k v th ev); step (f, OFire k v th ev) s \<noteq> s\<rbrakk> \<Longrightarrow>
      \<not> active s k \<and> (\<forall>j. active (step (f, OFire k v th ev) s) j \<longleftrightarrow> j = k \<or> active s j) \<and>
      (\<forall>j. hist (step (f, OFire k v th ev) s) j = hist s j @ (if j = k then [EventFired] else []))"
    and resolve_law: "\<lbrakk>op_ok (OResolve k v ev); step (f, OResolve k v ev) s \<noteq> s\<rbrakk> \<Longrightarrow>
      active s k \<and> (\<forall>j. active (step (f, OResolve k v ev) s) j \<longleftrightarrow> j \<noteq> k \<and> active s j) \<and>
      (\<forall>j. hist (step (f, OResolve k v ev) s) j = hist s j @ (if j = k then [EventResolved] else []))"
    and clear_law: "step (f, OClear k) s \<noteq> s \<Longrightarrow>
      (\<forall>j. active (step (f, OClear k) s) j \<longleftrightarrow> j \<noteq> k \<and> active s j) \<and> hist (step (f, OClear k) s) = hist s"
    and deliver_law: "active (step (f, ODeliver i ds) s) = active s" "hist (step (f, ODeliver i ds) s) = hist s"
    and prune_law: "active (step (f, OPrune now fs) s) = active s" "subseq (hist (step (f, OPrune now fs) s) j) (hist s j)"
begin

definition tracks :: "key \<Rightarrow> event_kind option list \<Rightarrow> 's \<Rightarrow> bool" where
  "tracks k m s \<longleftrightarrow> alternates m \<and> (active s k \<longleftrightarrow> odd (length m)) \<and> subseq (hist s k) (events_of m)"

lemma tracks_step:
  assumes "op_ok (snd fo)" "tracks k m s"
  shows "tracks k (m @ effect active step k fo s) (step fo s) \<and>
    (\<not> prunes (snd fo) \<longrightarrow> hist s k = events_of m \<longrightarrow> hist (step fo s) k = events_of (m @ effect active step k fo s))"
proof -
  obtain f o' where fo: "fo = (f, o')" by (cases fo)
  note t = assms(2) [unfolded tracks_def]
  show ?thesis
  proof (cases "step fo s = s")
    case True
    then have "effect active step k fo s = []" by (auto simp: effect_def split: log_op.split)
    then show ?thesis using assms(2) True by simp
  next
    case changed: False
    show ?thesis
    proof (cases o')
      case (OFire j v th ev)
      then show ?thesis using fire_law [of j v th ev f s] changed assms(1) t fo
        by (auto simp: tracks_def effect_def alternates_snoc)
    next
      case (OResolve j v ev)
      then show ?thesis using resolve_law [of j v ev f s] changed assms(1) t fo
        by (auto simp: tracks_def effect_def alternates_snoc)
    next
      case (OClear j)
      then show ?thesis using clear_law [of f j s] changed t fo
        by (auto simp: tracks_def effect_def alternates_snoc)
    next
      case (ODeliver i ds)
      then show ?thesis using deliver_law [of f i ds s] t fo by (simp add: tracks_def effect_def)
    next
      case (OPrune now fs)
      then show ?thesis using prune_law [of f now fs s] t fo
        by (auto simp: tracks_def effect_def prunes_def intro: subseq_order.trans)
    qed
  qed
qed

lemma tracks_run:
  "\<forall>fo \<in> set ops. op_ok (snd fo) \<Longrightarrow> tracks k m s \<Longrightarrow>
   tracks k (m @ marks active step k ops s) (fold step ops s) \<and>
   ((\<forall>fo \<in> set ops. \<not> prunes (snd fo)) \<longrightarrow> hist s k = events_of m \<longrightarrow>
      hist (fold step ops s) k = events_of (m @ marks active step k ops s))"
proof (induction ops arbitrary: m s)
  case (Cons fo ops)
  have s: "tracks k (m @ effect active step k fo s) (step fo s)"
    "\<not> prunes (snd fo) \<Longrightarrow> hist s k = events_of m \<Longrightarrow> hist (step fo s) k = events_of (m @ effect active step k fo s)"
    using tracks_step [of fo k m s] Cons.prems by auto
  have "\<forall>fo \<in> set ops. op_ok (snd fo)" using Cons.prems(1) by simp
  from Cons.IH [OF this s(1)] s(2) show ?case by simp
qed simp

lemma run_from_start:
  assumes "\<forall>fo \<in> set ops. op_ok (snd fo)" "hist s k = []" "\<not> active s k"
  shows "tracks k (marks active step k ops s) (fold step ops s)"
    "\<forall>fo \<in> set ops. \<not> prunes (snd fo) \<Longrightarrow> hist (fold step ops s) k = events_of (marks active step k ops s)"
  using tracks_run [of ops k "[]" s] assms by (simp_all add: tracks_def [of k "[]"] alternates_def)

end

lemma prune_orgs_frame:
  "prune_orgs orgs fs n db = (m, e, db') \<Longrightarrow> db_states db' = db_states db \<and> (\<exists>P. db_events db' = filter P (db_events db))"
proof (induction orgs arbitrary: fs n db)
  case Nil
  then show ?case by (auto intro: exI [of _ "\<lambda>_. True"])
next
  case (Cons org orgs)
  obtain f1 fs1 where p1: "pop_fault fs = (f1, fs1)" by (cases "pop_fault fs")
  obtain f2 fs2 where p2: "pop_fault fs1 = (f2, fs2)" by (cases "pop_fault fs1")
  have here: ?case if "db' = db" using that by (auto intro: exI [of _ "\<lambda>_. True"])
  show ?case
  proof (cases "f1 = NoFault")
    case False
    then show ?thesis using Cons.prems here by (cases f1) (simp_all add: p1 with_fault_def)
  next
    case f1: True
    show ?thesis
    proof (cases "trim_cutoff org (db_events db)")
      case None
      then show ?thesis using Cons f1 by (simp add: p1 with_fault_def)
    next
      case (Some c)
      let ?P = "\<lambda>e. ae_org e = org \<and> (ae_created e < ae_created c \<or> ae_created e = ae_created c \<and> ae_id e \<le> ae_id c)"
      let ?d = "db\<lparr>db_events := filter (\<lambda>e. \<not> ?P e) (db_events db)\<rparr>"
      consider "db' = db" | "db' = ?d"
        | "prune_orgs orgs fs2 (n + length (filter ?P (db_events db))) ?d = (m, e, db')"
        using Cons.prems f1 Some by (cases f2) (auto simp: p1 p2 with_fault_def delete_events_def)
      then show ?thesis
      proof cases
        case 3
        then show ?thesis using Cons.IH [OF 3] by (auto simp: filter_filter)
      qed (use here in auto)
    qed
  qed
qed

lemma PruneEvents_frame:
  "db_states (snd (snd (PruneEvents now fs db))) = db_states db"
  "\<exists>P. db_events (snd (snd (PruneEvents now fs db))) = filter P (db_events db)"
proof -
  obtain f1 fs1 where p1: "pop_fault fs = (f1, fs1)" by (cases "pop_fault fs")
  obtain f2 fs2 where p2: "pop_fault fs1 = (f2, fs2)" by (cases "pop_fault fs1")
  define old where "old = (\<lambda>e :: event. ae_created e < stamp (now - EventRetention))"
  define db1 where "db1 = db\<lparr>db_events := filter (\<lambda>e. \<not> old e) (db_events db)\<rparr>"
  obtain n e db' where r: "PruneEvents now fs db = (n, e, db')" by (metis prod_cases3)
  then consider "db' = db" | "db' = db1"
    | "prune_orgs (oversized_orgs (db_events db1)) fs2 (length (filter old (db_events db))) db1 = (n, e, db')"
    by (cases f1; cases f2) (auto simp: PruneEvents_def p1 p2 with_fault_def delete_events_def db1_def old_def Let_def)
  then have "db_states db' = db_states db \<and> (\<exists>P. db_events db' = filter P (db_events db))"
  proof cases
    case 3
    then show ?thesis using prune_orgs_frame [OF 3] by (auto simp: db1_def filter_filter)
  qed (auto simp: db1_def intro: exI [of _ "\<lambda>_. True"])
  then show "db_states (snd (snd (PruneEvents now fs db))) = db_states db"
    "\<exists>P. db_events (snd (snd (PruneEvents now fs db))) = filter P (db_events db)" using r by simp_all
qed

lemma history_snoc:
  assumes "db_events db' = db_events db @ [recorded ev]" "event_key ev = k"
  shows "history db' j = history db j @ (if j = k then [ae_kind ev] else [])"
  using assms by (simp add: history_def)

lemma with_fault_state: "snd (with_fault f m db) \<in> {db, snd (m db)}"
  by (cases f) (auto simp: with_fault_def)

lemma Fire_step:
  assumes "snd (with_fault f (Fire k v th ev) db) \<noteq> db" "event_key ev = k"
  shows "\<not> firing_in db k \<and> (\<forall>j. firing_in (snd (with_fault f (Fire k v th ev) db)) j \<longleftrightarrow> j = k \<or> firing_in db j) \<and>
    (\<forall>j. history (snd (with_fault f (Fire k v th ev) db)) j = history db j @ (if j = k then [ae_kind ev] else []))"
proof -
  obtain res db' where r: "Fire k v th ev db = (res, db')" by (cases "Fire k v th ev db")
  then have d: "snd (with_fault f (Fire k v th ev) db) = db'" "db' \<noteq> db"
    using with_fault_state [of f "Fire k v th ev" db] assms(1) by auto
  from r show ?thesis
    by (cases rule: Fire_cases) (use d history_snoc [of db' db ev k] assms(2) in auto)
qed

lemma Resolve_step:
  assumes "snd (with_fault f (Resolve k v ev) db) \<noteq> db" "event_key ev = k"
  shows "firing_in db k \<and> (\<forall>j. firing_in (snd (with_fault f (Resolve k v ev) db)) j \<longleftrightarrow> j \<noteq> k \<and> firing_in db j) \<and>
    (\<forall>j. history (snd (with_fault f (Resolve k v ev) db)) j = history db j @ (if j = k then [ae_kind ev] else []))"
proof -
  obtain res db' where r: "Resolve k v ev db = (res, db')" by (cases "Resolve k v ev db")
  then have d: "snd (with_fault f (Resolve k v ev) db) = db'" "db' \<noteq> db"
    using with_fault_state [of f "Resolve k v ev" db] assms(1) by auto
  from r show ?thesis
    by (cases rule: Resolve_cases) (use d history_snoc [of db' db ev k] assms(2) in auto)
qed

interpretation alog: transition_log firing_in history log_step
proof
  fix k v th ev f db
  assume "op_ok (OFire k v th ev)" "log_step (f, OFire k v th ev) db \<noteq> db"
  then show "\<not> firing_in db k \<and>
      (\<forall>j. firing_in (log_step (f, OFire k v th ev) db) j \<longleftrightarrow> j = k \<or> firing_in db j) \<and>
      (\<forall>j. history (log_step (f, OFire k v th ev) db) j = history db j @ (if j = k then [EventFired] else []))"
    using Fire_step [of f k v th ev db] by simp
next
  fix k v ev f db
  assume "op_ok (OResolve k v ev)" "log_step (f, OResolve k v ev) db \<noteq> db"
  then show "firing_in db k \<and>
      (\<forall>j. firing_in (log_step (f, OResolve k v ev) db) j \<longleftrightarrow> j \<noteq> k \<and> firing_in db j) \<and>
      (\<forall>j. history (log_step (f, OResolve k v ev) db) j = history db j @ (if j = k then [EventResolved] else []))"
    using Resolve_step [of f k v ev db] by simp
next
  fix f k db
  assume "log_step (f, OClear k) db \<noteq> db"
  then show "(\<forall>j. firing_in (log_step (f, OClear k) db) j \<longleftrightarrow> j \<noteq> k \<and> firing_in db j) \<and>
      history (log_step (f, OClear k) db) = history db"
    by (cases f) (auto simp: with_fault_def ClearState_def firing_in_def history_def)
next
  fix f i ds db
  have "history (snd (SetDeliveries i ds db)) = history db"
    by (auto simp: history_def SetDeliveries_def filter_map comp_def if_distrib cong: if_cong intro!: ext map_cong filter_cong)
  then show "firing_in (log_step (f, ODeliver i ds) db) = firing_in db" "history (log_step (f, ODeliver i ds) db) = history db"
    by (cases f; auto simp: with_fault_def SetDeliveries_def firing_in_def)+
next
  fix f now fs db j
  obtain P where "db_events (log_step (f, OPrune now fs) db) = filter P (db_events db)"
    using PruneEvents_frame(2) [of now fs db] by auto
  then have "filter (\<lambda>e. event_key e = j) (db_events (log_step (f, OPrune now fs) db)) =
      filter P (filter (\<lambda>e. event_key e = j) (db_events db))" by (simp add: conj_commute)
  then show "subseq (history (log_step (f, OPrune now fs) db) j) (history db j)"
    by (simp add: history_def subseq_map subseq_filter_left del: log_step.simps filter_filter)
  show "firing_in (log_step (f, OPrune now fs) db) = firing_in db"
    using PruneEvents_frame(1) [of now fs db] by (auto simp: firing_in_def)
qed

text \<open>C1. However many replicas record transitions of an alert, clear it silently, store delivery outcomes
  and prune old events, with whatever store failures and lost replies: beginnings and ends of its
  firings take turns, where a beginning is a recorded firing and an end is a recorded resolution or a
  silent clear; the stored state is firing exactly while an end is due; and the history holds exactly the
  recorded ones in order, less what pruning took.\<close>

theorem history_alternates:
  assumes "\<forall>fo \<in> set ops. op_ok (snd fo)" "history db k = []" "\<not> firing_in db k"
  shows "let m = marks firing_in log_step k ops db; db' = fold log_step ops db in
    (\<forall>i < length m. if even i then m ! i = Some EventFired else m ! i \<in> {Some EventResolved, None}) \<and>
    (firing_in db' k \<longleftrightarrow> odd (length m)) \<and>
    subseq (history db' k) (events_of m) \<and>
    ((\<forall>fo \<in> set ops. \<not> prunes (snd fo)) \<longrightarrow> history db' k = events_of m)"
  using alog.run_from_start [OF assms] unfolding Let_def alog.tracks_def alternates_def by blast

abbreviation demo_dir :: directory where
  "demo_dir \<equiv> \<lparr>dir_servers = [(''s1'', \<lparr>sr_id = ''s1'', sr_org = ''o1'', sr_name = ''web''\<rparr>)],
     dir_apps = [(''a1'', \<lparr>ar_id = ''a1'', ar_server = ''s1'', ar_name = ''shop''\<rparr>)]\<rparr>"

abbreviation demo_rule :: rule where
  "demo_rule \<equiv> \<lparr>r_id = ''r1'', r_org = ''o1'', r_kind = TargetServer, r_metric = MetricDown,
     r_threshold = Fin 0, r_minutes = 5, r_channels = None, r_enabled = True\<rparr>"

abbreviation demo_db :: adb where
  "demo_db \<equiv> \<lparr>db_orgs = [(''o1'', True)], db_dir = demo_dir, db_rules = [demo_rule],
     db_overrides = [], db_states = [], db_events = []\<rparr>"

abbreviation demo_key :: key where
  "demo_key \<equiv> \<lparr>k_rule = ''r1'', k_target = \<lparr>t_server = ''s1'', t_app = []\<rparr>\<rparr>"

abbreviation demo_event :: "string \<Rightarrow> event_kind \<Rightarrow> time \<Rightarrow> event" where
  "demo_event i x t \<equiv> \<lparr>ae_id = i, ae_org = ''o1'', ae_rule = ''r1'', ae_server = ''s1'', ae_app = [],
     ae_server_name = ''web'', ae_app_name = [], ae_target_kind = TargetServer, ae_metric = MetricDown,
     ae_kind = x, ae_value = Fin 5, ae_threshold = Fin 0, ae_title = ''t'', ae_message = ''m'',
     ae_deliveries = [], ae_created = t\<rparr>"

text \<open>Two replicas fire the same alert, the first one losing the reply; then one resolves it.\<close>

lemma history_alternates_witness:
  "\<exists>ops. marks firing_in log_step demo_key ops demo_db = [Some EventFired, None, Some EventFired, Some EventResolved] \<and>
     \<not> firing_in (fold log_step ops demo_db) demo_key \<and>
     history (fold log_step ops demo_db) demo_key = [EventFired, EventFired, EventResolved]"
proof -
  let ?ops = "[(FailAfter, OFire demo_key (Fin 5) (Fin 0) (demo_event ''e1'' EventFired 7)),
    (NoFault, OFire demo_key (Fin 5) (Fin 0) (demo_event ''e2'' EventFired 8)), (NoFault, OClear demo_key),
    (NoFault, OFire demo_key (Fin 5) (Fin 0) (demo_event ''e3'' EventFired 9)),
    (NoFault, OResolve demo_key (Fin 0) (demo_event ''e4'' EventResolved 9))]"
  have m: "marks firing_in log_step demo_key ?ops demo_db = [Some EventFired, None, Some EventFired, Some EventResolved]"
    by (simp add: effect_def firing_in_def event_key_def with_fault_def Fire_def fire_alert_state_def insert_event_def
        has_rule_def has_server_def Resolve_def resolve_alert_state_def ClearState_def)
  have "\<forall>fo \<in> set ?ops. op_ok (snd fo)" "history demo_db demo_key = []" "\<not> firing_in demo_db demo_key"
    "\<forall>fo \<in> set ?ops. \<not> prunes (snd fo)"
    by (simp_all add: event_key_def history_def firing_in_def prunes_def)
  note h = history_alternates [OF this(1-3), unfolded Let_def m] and np = this(4)
  from h have "\<not> firing_in (fold log_step ?ops demo_db) demo_key" by (elim conjE) (simp del: fold_simps)
  moreover from h np have "history (fold log_step ?ops demo_db) demo_key = [EventFired, EventFired, EventResolved]"
    by (elim conjE impE) (simp_all add: events_of_def del: fold_simps)
  ultimately show ?thesis using m by blast
qed

subsection \<open>Pages and pruning\<close>

definition newer :: "event \<Rightarrow> event \<Rightarrow> bool" where
  "newer e e' \<longleftrightarrow> event_order e' < event_order e"

lemma event_order_inj: "event_order e = event_order e' \<Longrightarrow> ae_id e = ae_id e'"
  by (simp add: event_order_def)

lemma newest_first_set [simp]: "set (newest_first es) = set es"
  by (simp add: newest_first_def)

lemma newest_first_length [simp]: "length (newest_first es) = length es"
  by (simp add: newest_first_def)

lemma newest_first_filter: "newest_first (filter P es) = filter P (newest_first es)"
  by (metis filter_sort rev_filter newest_first_def)

lemma newest_first_sorted:
  assumes "distinct (map ae_id es)"
  shows "sorted_wrt newer (newest_first es)"
proof -
  have ids: "inj_on ae_id (set es)" using assms by (simp add: distinct_map)
  have "inj_on event_order (set es)"
    by (rule inj_onI) (rule inj_onD [OF ids event_order_inj])
  moreover have "distinct es" using assms by (simp add: distinct_map)
  ultimately have "distinct (map event_order (sort_key event_order es))"
    by (simp add: distinct_map)
  then have "sorted_wrt (<) (map event_order (sort_key event_order es))"
    by (simp add: strict_sorted_iff)
  then show ?thesis by (simp add: newest_first_def sorted_wrt_rev sorted_wrt_map newer_def [abs_def])
qed

lemma newer_irrefl [simp]: "\<not> newer e e"
  by (simp add: newer_def)

lemma newer_asym: "newer e e' \<Longrightarrow> \<not> newer e' e"
  by (simp add: newer_def)

text \<open>Cutting a strictly descending list at one of its elements.\<close>

lemma cut_newer:
  assumes "sorted_wrt newer es" "n < length es"
  shows "filter (\<lambda>e. newer e (es ! n)) es = take n es"
proof -
  have split: "es = take n es @ es ! n # drop (Suc n) es"
    using assms(2) by (rule id_take_nth_drop)
  define a b c where "a = take n es" and "b = es ! n" and "c = drop (Suc n) es"
  have es: "es = a @ b # c" using split by (simp only: a_def b_def c_def)
  have "sorted_wrt newer (a @ b # c)" using assms(1) es by simp
  then have "filter (\<lambda>e. newer e b) (a @ b # c) = a"
    by (auto simp: sorted_wrt_append filter_empty_conv filter_id_conv dest: newer_asym)
  then have "filter (\<lambda>e. newer e b) es = a" by (simp only: es)
  then show ?thesis by (simp only: a_def b_def)
qed

lemma cut_older:
  assumes "sorted_wrt newer es" "n < length es"
  shows "filter (\<lambda>e. newer (es ! n) e) es = drop (Suc n) es"
proof -
  have split: "es = take n es @ es ! n # drop (Suc n) es"
    using assms(2) by (rule id_take_nth_drop)
  define a b c where "a = take n es" and "b = es ! n" and "c = drop (Suc n) es"
  have es: "es = a @ b # c" using split by (simp only: a_def b_def c_def)
  have "sorted_wrt newer (a @ b # c)" using assms(1) es by simp
  then have "filter (\<lambda>e. newer b e) (a @ b # c) = c"
    by (auto simp: sorted_wrt_append filter_empty_conv filter_id_conv dest: newer_asym)
  then have "filter (\<lambda>e. newer b e) es = c" by (simp only: es)
  then show ?thesis by (simp only: c_def b_def)
qed

lemma newer_alt: "newer c e \<longleftrightarrow> ae_created e < ae_created c \<or> ae_created e = ae_created c \<and> ae_id e < ae_id c"
  by (auto simp: newer_def event_order_def)

lemma not_newer_alt:
  "\<not> newer e c \<longleftrightarrow> ae_created e < ae_created c \<or> ae_created e = ae_created c \<and> ae_id e \<le> ae_id c"
  by (auto simp: newer_def event_order_def)

text \<open>A stored history: distinct ids, times in whole seconds that the page bounds can address.\<close>

definition events_ok :: "event list \<Rightarrow> bool" where
  "events_ok es \<longleftrightarrow> distinct (map ae_id es) \<and>
     (\<forall>e \<in> set es. stamp (ae_created e) = ae_created e \<and> 0 < ae_created e \<and> ae_created e < farFuture)"

abbreviation matching :: "event_query \<Rightarrow> adb \<Rightarrow> event list" where
  "matching q db \<equiv> newest_first (filter (event_matches q) (db_events db))"

abbreviation page_size :: "event_query \<Rightarrow> nat" where
  "page_size q \<equiv> nat (min (max (eq_limit q) 1) MaxEventsPage)"

lemma event_matches_cursor [simp]:
  "event_matches (q\<lparr>eq_before_at := t, eq_before_id := i\<rparr>) = event_matches q"
  by (simp add: event_matches_def fun_eq_iff)

lemma stamp_farFuture [simp]: "stamp farFuture = farFuture"
  by (simp add: stamp_def farFuture_def to_sql_def from_sql_def time_of_unix_def second_def unix_epoch_def)

lemma first_page:
  assumes "events_ok (db_events db)" "eq_before_at q = zero_time"
  shows "ListEvents q db = take (page_size q) (matching q db)"
proof -
  have "filter (\<lambda>e. event_matches q e \<and> (ae_created e < farFuture \<or> ae_created e = farFuture \<and> ae_id e < eq_before_id q))
      (db_events db) = filter (event_matches q) (db_events db)"
    using assms(1) by (auto simp: events_ok_def intro!: filter_cong)
  then show ?thesis using assms(2) by (simp add: ListEvents_def Let_def)
qed

text \<open>C20. Paging through the history loses and repeats nothing: the first page holds the newest
  matching events, and the page requested with the time and id of the last event seen holds
  exactly the next ones.\<close>

theorem pages_are_complete:
  assumes "events_ok (db_events db)" "eq_before_at q = zero_time"
  shows "ListEvents q db = take (page_size q) (matching q db) \<and>
    (\<forall>n < length (matching q db).
       ListEvents (q\<lparr>eq_before_at := ae_created (matching q db ! n), eq_before_id := ae_id (matching q db ! n)\<rparr>) db
         = take (page_size q) (drop (Suc n) (matching q db)))"
proof (intro conjI allI impI)
  fix n assume n: "n < length (matching q db)"
  define c where "c = matching q db ! n"
  have "c \<in> set (db_events db)" using nth_mem [OF n] by (simp add: c_def)
  then have c: "stamp (ae_created c) = ae_created c" "ae_created c \<noteq> zero_time"
    using assms(1) by (auto simp: events_ok_def zero_time_def)
  have d: "distinct (map ae_id (filter (event_matches q) (db_events db)))"
    using assms(1) by (simp add: events_ok_def distinct_map_filter)
  have "newest_first (filter (\<lambda>e. event_matches q e \<and> newer c e) (db_events db)) =
      filter (newer c) (matching q db)"
    by (simp add: newest_first_filter [symmetric] conj_commute)
  also have "\<dots> = drop (Suc n) (matching q db)"
    unfolding c_def by (rule cut_older [OF newest_first_sorted [OF d] n])
  finally show "ListEvents (q\<lparr>eq_before_at := ae_created (matching q db ! n), eq_before_id := ae_id (matching q db ! n)\<rparr>) db
      = take (page_size q) (drop (Suc n) (matching q db))"
    using c by (simp add: ListEvents_def Let_def c_def [symmetric] newer_alt)
qed (rule first_page [OF assms])

lemma pages_are_complete_witness:
  "\<exists>db q. length (matching q db) = 2 \<and>
     ListEvents q db = take (page_size q) (matching q db)"
proof -
  let ?db = "demo_db\<lparr>db_events := [demo_event ''e1'' EventFired second, demo_event ''e2'' EventResolved second]\<rparr>"
  let ?q = "\<lparr>eq_org = ''o1'', eq_server = [], eq_app = [], eq_rule = [], eq_kind = None,
    eq_before_at = zero_time, eq_before_id = [], eq_limit = 1\<rparr>"
  have "events_ok (db_events ?db)"
    by (simp add: events_ok_def stamp_def to_sql_def from_sql_def second_def farFuture_def time_of_unix_def unix_epoch_def)
  then have "ListEvents ?q ?db = take (page_size ?q) (matching ?q ?db)"
    using pages_are_complete [of ?db ?q] by simp
  moreover have "length (matching ?q ?db) = 2" by (simp add: event_matches_def)
  ultimately show ?thesis by blast
qed

abbreviation newest :: "string \<Rightarrow> adb \<Rightarrow> event list" where
  "newest org db \<equiv> newest_first (filter (\<lambda>e. ae_org e = org) (db_events db))"

abbreviation up_to :: "string \<Rightarrow> event \<Rightarrow> event \<Rightarrow> bool" where
  "up_to org c e \<equiv> ae_org e = org \<and> (ae_created e < ae_created c \<or> ae_created e = ae_created c \<and> ae_id e \<le> ae_id c)"

lemma trim_cutoff_None: "trim_cutoff org es = None \<Longrightarrow> length (filter (\<lambda>e. ae_org e = org) es) \<le> EventsPerOrg"
  by (simp add: trim_cutoff_def split: list.splits)

lemma trim_cutoff_Some:
  assumes "trim_cutoff org (db_events db) = Some c"
  shows "EventsPerOrg < length (newest org db)" "c = newest org db ! EventsPerOrg"
proof -
  obtain r where "drop EventsPerOrg (newest org db) = c # r"
    using assms by (auto simp: trim_cutoff_def split: list.splits)
  note r = this
  show long: "EventsPerOrg < length (newest org db)"
    using r by (metis drop_eq_Nil2 list.distinct(1) not_le)
  show "c = newest org db ! EventsPerOrg"
    using hd_drop_conv_nth [OF long] r by simp
qed

lemma delete_up_to:
  assumes "trim_cutoff org (db_events db) = Some c" "distinct (map ae_id (db_events db))"
  shows "newest o' (db\<lparr>db_events := filter (\<lambda>e. \<not> up_to org c e) (db_events db)\<rparr>) =
    (if o' = org then take EventsPerOrg (newest o' db) else newest o' db)"
proof (cases "o' = org")
  case True
  have "newest org (db\<lparr>db_events := filter (\<lambda>e. \<not> up_to org c e) (db_events db)\<rparr>) =
      filter (\<lambda>e. newer e c) (newest org db)"
    by (auto simp: newest_first_filter [symmetric] not_newer_alt [symmetric] intro!: arg_cong [of _ _ newest_first] filter_cong)
  also have "\<dots> = take EventsPerOrg (newest org db)"
    unfolding trim_cutoff_Some(2) [OF assms(1)]
    by (rule cut_newer [OF newest_first_sorted trim_cutoff_Some(1) [OF assms(1)]])
      (use assms(2) in \<open>simp add: distinct_map_filter\<close>)
  finally show ?thesis using True by simp
next
  case False
  then show ?thesis by (auto intro!: arg_cong [of _ _ newest_first] filter_cong)
qed

text \<open>What pruning the listed organizations, with any failures, has done to one of them.\<close>

definition pruned :: "string list \<Rightarrow> nat \<Rightarrow> adb \<Rightarrow> nat \<times> db_error option \<times> adb \<Rightarrow> bool" where
  "pruned orgs n db res \<longleftrightarrow>
     (case res of (n', err, db') \<Rightarrow>
       distinct (map ae_id (db_events db')) \<and>
       (\<forall>o'. newest o' db' = newest o' db \<or> newest o' db' = take EventsPerOrg (newest o' db)) \<and>
       (err = None \<longrightarrow> n' + length (db_events db') = n + length (db_events db) \<and>
         (\<forall>o' \<in> set orgs. newest o' db' = take EventsPerOrg (newest o' db))))"

lemma pruned_nothing:
  assumes "pruned orgs n db res" "trim_cutoff org (db_events db) = None"
  shows "pruned (org # orgs) n db res"
proof -
  have short: "length (newest org db) \<le> EventsPerOrg"
    using trim_cutoff_None [OF assms(2)] by simp
  obtain n' err d' where res: "res = (n', err, d')" by (cases res)
  have "newest org d' = take EventsPerOrg (newest org db)"
    using assms(1) take_all [OF short] by (auto simp: pruned_def res)
  then show ?thesis using assms(1) by (auto simp: pruned_def res)
qed

lemma pruned_error:
  "distinct (map ae_id (db_events db')) \<Longrightarrow>
   \<forall>o'. newest o' db' = newest o' db \<or> newest o' db' = take EventsPerOrg (newest o' db) \<Longrightarrow>
   pruned orgs n db (m, Some e, db')"
  by (simp add: pruned_def)

lemma pruned_step:
  assumes c: "trim_cutoff org (db_events db) = Some c" and d: "distinct (map ae_id (db_events db))"
    and db': "db' = db\<lparr>db_events := filter (\<lambda>e. \<not> up_to org c e) (db_events db)\<rparr>"
    and r: "pruned orgs (n + length (filter (up_to org c) (db_events db))) db' res"
  shows "pruned (org # orgs) n db res"
proof -
  have new: "newest o' db' = (if o' = org then take EventsPerOrg (newest o' db) else newest o' db)" for o'
    unfolding db' by (rule delete_up_to [OF c d])
  have len: "length (filter (up_to org c) (db_events db)) + length (db_events db') = length (db_events db)"
    using sum_length_filter_compl [of "up_to org c" "db_events db"] by (simp add: db')
  obtain n' err d' where res: "res = (n', err, d')" by (cases res)
  have t: "newest o' d' = newest o' db' \<or> newest o' d' = take EventsPerOrg (newest o' db')" for o'
    using r by (simp add: pruned_def res)
  have "newest o' d' = newest o' db \<or> newest o' d' = take EventsPerOrg (newest o' db)" for o'
    using t [of o'] new [of o'] by (auto split: if_splits)
  moreover have "newest org d' = take EventsPerOrg (newest org db)"
    using t [of org] new [of org] by auto
  moreover have "newest o' d' = take EventsPerOrg (newest o' db)" if "o' \<in> set orgs" "err = None" for o'
  proof -
    have "newest o' d' = take EventsPerOrg (newest o' db')"
      using r that by (simp add: pruned_def res)
    then show ?thesis using new [of o'] by (auto split: if_splits)
  qed
  ultimately show ?thesis using r len by (auto simp: pruned_def res)
qed

lemma prune_orgs_pruned:
  "distinct (map ae_id (db_events db)) \<Longrightarrow> pruned orgs n db (prune_orgs orgs fs n db)"
proof (induction orgs arbitrary: fs n db)
  case (Cons org orgs)
  obtain f1 fs1 where p1: "pop_fault fs = (f1, fs1)" by (cases "pop_fault fs")
  obtain f2 fs2 where p2: "pop_fault fs1 = (f2, fs2)" by (cases "pop_fault fs1")
  show ?case
  proof (cases "f1 = NoFault")
    case False
    then show ?thesis using Cons.prems
      by (cases f1) (simp_all add: p1 with_fault_def pruned_error)
  next
    case f1: True
    show ?thesis
    proof (cases "trim_cutoff org (db_events db)")
      case None
      then show ?thesis using Cons f1 by (simp add: p1 with_fault_def pruned_nothing)
    next
      case (Some c)
      define db' where "db' = db\<lparr>db_events := filter (\<lambda>e. \<not> up_to org c e) (db_events db)\<rparr>"
      have d': "distinct (map ae_id (db_events db'))"
        using Cons.prems by (simp add: db'_def distinct_map_filter)
      have err: "pruned (org # orgs) n db (n, Some e, db')" for e
        by (rule pruned_error [OF d']) (use delete_up_to [OF Some Cons.prems] in \<open>simp add: db'_def\<close>)
      have next': "pruned (org # orgs) n db
          (prune_orgs orgs fs2 (n + length (filter (up_to org c) (db_events db))) db')"
        by (rule pruned_step [OF Some Cons.prems db'_def Cons.IH [OF d']])
      show ?thesis
        using f1 Some err next' Cons.prems
        by (cases f2) (simp_all add: p1 p2 with_fault_def delete_events_def db'_def pruned_error)
    qed
  qed
qed (simp add: pruned_def)

definition unexpired :: "time \<Rightarrow> string \<Rightarrow> adb \<Rightarrow> event list" where
  "unexpired now org db = newest_first (filter
     (\<lambda>e. ae_org e = org \<and> \<not> ae_created e < stamp (now - EventRetention)) (db_events db))"

lemma oversized_orgs_mem:
  "org \<in> set (oversized_orgs es) \<longleftrightarrow> EventsPerOrg < length (filter (\<lambda>e. ae_org e = org) es)"
proof -
  have "org \<in> ae_org ` set es" if "EventsPerOrg < length (filter (\<lambda>e. ae_org e = org) es)"
    using that by (metis (mono_tags, lifting) filter_empty_conv gr_implies_not_zero image_iff list.size(3))
  then show ?thesis by (auto simp: oversized_orgs_def)
qed

text \<open>C19. Pruning never takes an event that is among its organization's newest two thousand of the
  retention period, whatever statement fails; when it reports no error, exactly those are left, and
  the count it returns is the number of rows that went.\<close>

theorem prune_keeps_newest:
  assumes "distinct (map ae_id (db_events db))" "PruneEvents now fs db = (n, err, db')"
  shows "take EventsPerOrg (unexpired now org db') = take EventsPerOrg (unexpired now org db) \<and>
    (err = None \<longrightarrow> newest org db' = take EventsPerOrg (unexpired now org db) \<and>
       n + length (db_events db') = length (db_events db))"
proof -
  define old where "old = (\<lambda>e::event. ae_created e < stamp (now - EventRetention))"
  define db1 where "db1 = db\<lparr>db_events := filter (\<lambda>e. \<not> old e) (db_events db)\<rparr>"
  obtain f1 fs1 where p1: "pop_fault fs = (f1, fs1)" by (cases "pop_fault fs")
  obtain f2 fs2 where p2: "pop_fault fs1 = (f2, fs2)" by (cases "pop_fault fs1")
  define n1 where "n1 = length (filter old (db_events db))"
  have d1: "distinct (map ae_id (db_events db1))"
    using assms(1) by (simp add: db1_def distinct_map_filter)
  have len: "n1 + length (db_events db1) = length (db_events db)"
    using sum_length_filter_compl [of old "db_events db"] by (simp add: n1_def db1_def)
  have u: "unexpired now org d = filter (\<lambda>e. \<not> old e) (newest org d)" for d
    by (simp add: unexpired_def old_def newest_first_filter [symmetric] conj_commute)
  have new1: "newest org db1 = unexpired now org db"
    by (simp add: unexpired_def db1_def old_def conj_commute)
  have fresh: "\<forall>e \<in> set (newest org db1). \<not> old e" by (auto simp: db1_def)
  have un1: "unexpired now org db1 = newest org db1"
    using fresh by (simp add: u filter_id_conv)
  have t_un: "unexpired now org d = newest org d" if "newest org d = newest org db1 \<or> newest org d = take EventsPerOrg (newest org db1)" for d
  proof -
    have "\<forall>e \<in> set (newest org d). \<not> old e"
      using that fresh by (metis in_set_takeD)
    then show ?thesis by (simp add: u filter_id_conv)
  qed
  have del: "delete_events old db = (Inr n1, db1)" by (simp add: delete_events_def n1_def db1_def)
  have first: "PruneEvents now fs db =
      (case with_fault f1 (delete_events old) db of
         (Inl e, d) \<Rightarrow> (0, Some e, d)
       | (Inr m, d) \<Rightarrow> (case with_fault f2 (\<lambda>d. (Inr (oversized_orgs (db_events d)), d)) d of
             (Inl e, d2) \<Rightarrow> (m, Some e, d2) | (Inr orgs, d2) \<Rightarrow> prune_orgs orgs fs2 m d2))"
    by (auto simp: PruneEvents_def p1 p2 old_def split: prod.splits sum.splits)
  consider (before) "db' = db" "err \<noteq> None" | (after) "db' = db1" "err \<noteq> None"
    | (orgs) "(n, err, db') = prune_orgs (oversized_orgs (db_events db1)) fs2 n1 db1"
    using assms(2) unfolding first
    by (cases f1; cases f2) (auto simp: with_fault_def del)
  then show ?thesis
  proof cases
    case orgs
    have p: "pruned (oversized_orgs (db_events db1)) n1 db1 (n, err, db')"
      using prune_orgs_pruned [OF d1] orgs by metis
    then have t: "newest org db' = newest org db1 \<or> newest org db' = take EventsPerOrg (newest org db1)"
      by (simp add: pruned_def)
    have "newest org db' = take EventsPerOrg (newest org db1)" if "err = None"
    proof (cases "org \<in> set (oversized_orgs (db_events db1))")
      case False
      then have "length (newest org db1) \<le> EventsPerOrg" by (simp add: oversized_orgs_mem)
      then show ?thesis using t by auto
    qed (use p that in \<open>simp add: pruned_def\<close>)
    moreover have "n + length (db_events db') = n1 + length (db_events db1)" if "err = None"
      using p that by (simp add: pruned_def)
    ultimately show ?thesis using t t_un [OF t] new1 len by auto
  qed (use un1 new1 in auto)
qed

lemma prune_keeps_newest_witness:
  "\<exists>db now. length (db_events db) = 2 \<and>
     (case PruneEvents now [NoFault, FailBefore] db of (n, err, db') \<Rightarrow>
       take EventsPerOrg (unexpired now ''o1'' db') = take EventsPerOrg (unexpired now ''o1'' db))"
proof -
  let ?db = "demo_db\<lparr>db_events := [demo_event ''e1'' EventFired second, demo_event ''e2'' EventResolved (91 * 24 * hour)]\<rparr>"
  obtain n err db' where r: "PruneEvents (91 * 24 * hour) [NoFault, FailBefore] ?db = (n, err, db')"
    by (rule prod_cases3)
  have "take EventsPerOrg (unexpired (91 * 24 * hour) ''o1'' db') = take EventsPerOrg (unexpired (91 * 24 * hour) ''o1'' ?db)"
    using prune_keeps_newest [OF _ r, of "''o1''"] by simp
  then have "length (db_events ?db) = 2 \<and> (case PruneEvents (91 * 24 * hour) [NoFault, FailBefore] ?db of (n, err, db') \<Rightarrow>
       take EventsPerOrg (unexpired (91 * 24 * hour) ''o1'' db') = take EventsPerOrg (unexpired (91 * 24 * hour) ''o1'' ?db))"
    by (simp only: r prod.case) simp
  then show ?thesis by (intro exI)
qed

end
