(* ===== verification/Evaluator.thy ===== *)
theory Evaluator
  imports Alert_Store
begin

text \<open>
  The alert evaluator, \<open>internal/domain/service/alerting/evaluator.go\<close>.

  One record holds what the Go struct holds (\<open>e_started\<close> to \<open>e_firing_loaded\<close>) and the
  evaluator's surroundings: the store it shares with other replicas (\<open>e_db\<close>), what happens
  around each of its store calls (\<open>e_env\<close>: what the other users of the database do to it before
  the call, and whether the call fails), the ids minted so far, and the two outputs, the notices
  handed to \<open>Publish\<close> and the jobs handed to \<open>Queue.Enqueue\<close>. The last field, \<open>e_writes\<close>, is a
  history variable that no operation reads: the calls that changed the database, with what each found
  and left. Every exported method
  takes the mutex first, so a method runs as one function; the store may change between any
  two of its calls. The loops of the source are folds in the source's order; a \<open>range\<close> over a
  Go map visits the association list in its own order.
\<close>

definition storeTimeout :: duration where "storeTimeout = 5 * second"
definition directoryTTL :: duration where "directoryTTL = minute"
definition directoryRetry :: duration where "directoryRetry = 5 * second"
definition historyWindow :: duration where "historyWindow = int BufferSize * minute"

record job =
  j_event :: string
  j_org :: string
  j_channels :: "string list option"
  j_title :: string
  j_body :: string

record notice =
  nt_kind :: event_kind
  nt_rule :: string
  nt_target_kind :: target_kind
  nt_metric :: metric
  nt_server :: string
  nt_app :: string
  nt_value :: f64
  nt_threshold :: f64
  nt_title :: string

text \<open>\<open>Config\<close>: whether a queue and a publisher are wired, the link base, the least silence,
  the id source (\<open>NewID\<close>, by how many ids were minted) and \<open>%g\<close> formatting. The logger and
  the clock are not parts of it: a method is given its \<open>now\<close>.\<close>

record config =
  cf_queue :: bool
  cf_publish :: bool
  cf_web_url :: string
  cf_grace :: duration
  cf_new_id :: "nat \<Rightarrow> string"
  cf_fmt_g :: "f64 \<Rightarrow> string"

type_synonym call_env = "(adb \<Rightarrow> adb) \<times> fault"

text \<open>The fields from \<open>e_db\<close> on are the surroundings: the store, the others' work and faults still to come,
  and what was handed out. \<open>e_writes\<close> is a history variable no operation reads: for each call so
  far that changed the store, the database it found and the one it left.\<close>

record evaluator =
  e_started :: time
  e_buffers :: "(target, buffer) gomap"
  e_firing :: "(key, metric) gomap"
  e_heard :: "(string, time) gomap"
  e_problem :: "(target, time) gomap"
  e_dir :: "directory option"
  e_dir_at :: time
  e_firing_loaded :: bool
  e_db :: adb
  e_env :: "call_env list"
  e_minted :: nat
  e_notices :: "notice list"
  e_jobs :: "job list"
  e_writes :: "(adb \<times> adb) list"

text \<open>The zero \<open>Directory\<close> has nil maps, which read as empty.\<close>

definition dir_of :: "evaluator \<Rightarrow> directory" where
  "dir_of e = (case e_dir e of Some d \<Rightarrow> d | None \<Rightarrow> \<lparr>dir_servers = [], dir_apps = []\<rparr>)"

definition NewEvaluator :: "time \<Rightarrow> adb \<Rightarrow> call_env list \<Rightarrow> evaluator" where
  "NewEvaluator now db env = \<lparr>e_started = now, e_buffers = [], e_firing = [], e_heard = [], e_problem = [],
     e_dir = None, e_dir_at = zero_time, e_firing_loaded = False, e_db = db, e_env = env, e_minted = 0,
     e_notices = [], e_jobs = [], e_writes = []\<rparr>"

subsection \<open>Store calls\<close>

definition call :: "(adb \<Rightarrow> (db_error + 'a) \<times> adb) \<Rightarrow> evaluator \<Rightarrow> (db_error + 'a) \<times> evaluator" where
  "call m e =
     (let (g, f) = (case e_env e of [] \<Rightarrow> (\<lambda>d. d, NoFault) | x # _ \<Rightarrow> x);
          (res, db) = with_fault f m (g (e_db e))
      in (res, e\<lparr>e_db := db, e_env := tl (e_env e),
          e_writes := e_writes e @ (if db = g (e_db e) then [] else [(g (e_db e), db)])\<rparr>))"

subsection \<open>Transitions\<close>

definition display_names :: "directory \<Rightarrow> server_ref \<Rightarrow> key \<Rightarrow> names" where
  "display_names dir srv k =
     (let a = t_app (k_target k) in
      \<lparr>n_server = sr_name srv,
       n_app = (if a \<noteq> [] then (case mget (dir_apps dir) a of
                    Some x \<Rightarrow> if ar_name x \<noteq> [] then ar_name x else a | None \<Rightarrow> a)
                else [])\<rparr>)"

text \<open>\<open>Lookup\<close> returns the zero \<open>MetricInfo\<close> for a metric outside the catalog.\<close>

definition info_of :: "target_kind \<Rightarrow> metric \<Rightarrow> metric_info" where
  "info_of kind m = (case lookup_metric kind m of Some i \<Rightarrow> i
     | None \<Rightarrow> info (TargetOther []) (MetricOther []) [] UnitNone (Fin 0))"

definition message_of :: "config \<Rightarrow> directory \<Rightarrow> server_ref \<Rightarrow> rule \<Rightarrow> settings \<Rightarrow> key \<Rightarrow> bool \<Rightarrow> f64 \<Rightarrow> message" where
  "message_of cfg dir srv r s k firing v =
     compose (cf_fmt_g cfg) \<lparr>tr_kind = (if firing then EventFired else EventResolved),
       tr_info = info_of (r_kind r) (r_metric r), tr_names = display_names dir srv k, tr_value = v,
       tr_threshold = se_threshold s, tr_duration = se_duration s, tr_link = link (cf_web_url cfg) (k_target k)\<rparr>"

definition event_of :: "config \<Rightarrow> nat \<Rightarrow> directory \<Rightarrow> server_ref \<Rightarrow> rule \<Rightarrow> settings \<Rightarrow> key \<Rightarrow> bool \<Rightarrow> f64 \<Rightarrow> time \<Rightarrow> event" where
  "event_of cfg n dir srv r s k firing v now =
     (let nm = display_names dir srv k; msg = message_of cfg dir srv r s k firing v in
      \<lparr>ae_id = cf_new_id cfg n, ae_org = sr_org srv, ae_rule = r_id r, ae_server = t_server (k_target k),
       ae_app = t_app (k_target k), ae_server_name = n_server nm, ae_app_name = n_app nm,
       ae_target_kind = r_kind r, ae_metric = r_metric r,
       ae_kind = (if firing then EventFired else EventResolved), ae_value = v,
       ae_threshold = se_threshold s, ae_title = m_title msg, ae_message = m_body msg,
       ae_deliveries = [], ae_created = now\<rparr>)"

definition notice_of :: "rule \<Rightarrow> settings \<Rightarrow> key \<Rightarrow> event \<Rightarrow> notice" where
  "notice_of r s k ev = \<lparr>nt_kind = ae_kind ev, nt_rule = r_id r, nt_target_kind = r_kind r, nt_metric = r_metric r,
     nt_server = t_server (k_target k), nt_app = t_app (k_target k), nt_value = ae_value ev,
     nt_threshold = se_threshold s, nt_title = ae_title ev\<rparr>"

definition job_of :: "settings \<Rightarrow> event \<Rightarrow> job" where
  "job_of s ev = \<lparr>j_event = ae_id ev, j_org = ae_org ev, j_channels = se_channels s,
     j_title = ae_title ev, j_body = ae_message ev\<rparr>"

definition transition :: "config \<Rightarrow> directory \<Rightarrow> server_ref \<Rightarrow> rule \<Rightarrow> settings \<Rightarrow> key \<Rightarrow> bool \<Rightarrow> f64 \<Rightarrow> time
    \<Rightarrow> evaluator \<Rightarrow> evaluator" where
  "transition cfg dir srv r s k firing v now e =
     (if (mget (e_firing e) k \<noteq> None) = firing then e
      else
        let ev = event_of cfg (e_minted e) dir srv r s k firing v now;
            e1 = e\<lparr>e_minted := e_minted e + 1\<rparr>;
            (res, e2) = (if firing then call (Fire k v (se_threshold s) ev) e1 else call (Resolve k v ev) e1)
        in case res of
             Inl _ \<Rightarrow> e2
           | Inr won \<Rightarrow>
               let e3 = e2\<lparr>e_firing := (if firing then mput k (r_metric r) (e_firing e2) else mdel k (e_firing e2))\<rparr>;
                   e4 = (if cf_publish cfg then e3\<lparr>e_notices := e_notices e3 @ [notice_of r s k ev]\<rparr> else e3)
               in if won \<and> cf_queue cfg then e4\<lparr>e_jobs := e_jobs e4 @ [job_of s ev]\<rparr> else e4)"

definition clear :: "key \<Rightarrow> evaluator \<Rightarrow> evaluator" where
  "clear k e =
     (if mget (e_firing e) k = None then e
      else let (res, e1) = call (ClearState k) e in
           case res of Inl _ \<Rightarrow> e1 | Inr _ \<Rightarrow> e1\<lparr>e_firing := mdel k (e_firing e1)\<rparr>)"

subsection \<open>Reads\<close>

type_synonym override_map = "(key, override) gomap"

definition override_map :: "override list \<Rightarrow> override_map" where
  "override_map list = foldl (\<lambda>m ov. mput (override_key ov) ov m) [] list"

definition rules :: "string \<Rightarrow> evaluator \<Rightarrow> (rule list \<times> override_map) option \<times> evaluator" where
  "rules org e =
     (let (res1, e1) = call (ListRules org) e in
      case res1 of Inl _ \<Rightarrow> (None, e1)
      | Inr rs \<Rightarrow>
          (let (res2, e2) = call (ListOverrides org) e1 in
           case res2 of Inl _ \<Rightarrow> (None, e2) | Inr ovs \<Rightarrow> (Some (rs, override_map ovs), e2)))"

definition target_exists :: "directory \<Rightarrow> target \<Rightarrow> bool" where
  "target_exists d t =
     (if mget (dir_servers d) (t_server t) = None then False
      else if t_app t = [] then True
      else case mget (dir_apps d) (t_app t) of Some a \<Rightarrow> ar_server a = t_server t | None \<Rightarrow> False)"

definition prune_targets :: "directory \<Rightarrow> evaluator \<Rightarrow> evaluator" where
  "prune_targets d e = e\<lparr>e_buffers := mkeep (target_exists d) (e_buffers e),
     e_problem := mkeep (target_exists d) (e_problem e),
     e_firing := mkeep (\<lambda>k. target_exists d (k_target k)) (e_firing e),
     e_heard := mkeep (\<lambda>i. mget (dir_servers d) i \<noteq> None) (e_heard e)\<rparr>"

definition directory_fresh :: "time \<Rightarrow> string \<Rightarrow> evaluator \<Rightarrow> bool" where
  "directory_fresh now sid e \<longleftrightarrow>
     (let known = mget (dir_servers (dir_of e)) sid \<noteq> None;
          age = time_sub now (e_dir_at e);
          fresh = e_dir e \<noteq> None \<and> age < directoryTTL
      in fresh \<and> (sid = [] \<or> known \<or> age < directoryRetry))"

definition directory :: "time \<Rightarrow> string \<Rightarrow> evaluator \<Rightarrow> directory \<times> evaluator" where
  "directory now sid e =
     (if directory_fresh now sid e then (dir_of e, e)
      else let (res, e1) = call Directory e in
           case res of
             Inl _ \<Rightarrow> (dir_of e1, e1)
           | Inr d \<Rightarrow> (d, prune_targets d (e1\<lparr>e_dir := Some d, e_dir_at := now\<rparr>)))"

definition forget_deleted_rules :: "directory \<Rightarrow> string \<Rightarrow> rule list \<Rightarrow> evaluator \<Rightarrow> evaluator" where
  "forget_deleted_rules dir org rs e =
     e\<lparr>e_firing := mkeep (\<lambda>k. k_rule k \<in> r_id ` set rs \<or>
        (case mget (dir_servers dir) (t_server (k_target k)) of Some srv \<Rightarrow> sr_org srv \<noteq> org | None \<Rightarrow> True))
        (e_firing e)\<rparr>"

definition buffer_feed :: "target \<Rightarrow> point \<Rightarrow> evaluator \<Rightarrow> evaluator" where
  "buffer_feed t p e =
     (let b = (case mget (e_buffers e) t of Some b \<Rightarrow> b | None \<Rightarrow> []) in
      e\<lparr>e_buffers := mput t (fst (buffer_add p b)) (e_buffers e)\<rparr>)"

definition load_firing :: "evaluator \<Rightarrow> bool \<times> evaluator" where
  "load_firing e =
     (let (res, e1) = call FiringStates e in
      case res of
        Inl _ \<Rightarrow> (False, e1)
      | Inr states \<Rightarrow>
          (True, e1\<lparr>e_firing := foldl (\<lambda>m s. if mget m (sr_key s) = None then mput (sr_key s) (sr_metric s) m else m)
                     (e_firing e1) states, e_firing_loaded := True\<rparr>))"

subsection \<open>Handlers\<close>

text \<open>\<open>Duration.Minutes\<close>: whole minutes plus the rest, each converted to \<open>float64\<close>.\<close>

definition duration_minutes :: "duration \<Rightarrow> f64" where
  "duration_minutes d =
     (let m = quot d minute in
      fadd (f64_of_int m) (fdiv (f64_of_int (d - m * minute)) (f64_of_int 60000000000)))"

definition hear_key :: "config \<Rightarrow> directory \<Rightarrow> server_ref \<Rightarrow> rule list \<Rightarrow> override_map \<Rightarrow> time \<Rightarrow> key
    \<Rightarrow> evaluator \<Rightarrow> evaluator" where
  "hear_key cfg dir srv rs ovs now k e =
     (case find (\<lambda>r. r_id r = k_rule k) (rev rs) of
        None \<Rightarrow> e\<lparr>e_firing := mdel k (e_firing e)\<rparr>
      | Some r \<Rightarrow>
          let s = effective r (mget ovs k) in
          if \<not> se_enabled s then clear k e
          else transition cfg dir srv r s k False (Fin 0) now e)"

definition down_keys :: "string \<Rightarrow> evaluator \<Rightarrow> key list" where
  "down_keys sid e = map fst (filter (\<lambda>(k, m). m = MetricDown \<and> k_target k = \<lparr>t_server = sid, t_app = []\<rparr>) (e_firing e))"

definition hear :: "config \<Rightarrow> directory \<Rightarrow> string \<Rightarrow> time \<Rightarrow> evaluator \<Rightarrow> evaluator" where
  "hear cfg dir sid now e =
     (let e1 = e\<lparr>e_heard := mput sid now (e_heard e)\<rparr>;
          down = down_keys sid e1
      in case mget (dir_servers dir) sid of
           None \<Rightarrow> e1
         | Some srv \<Rightarrow>
             if down = [] then e1
             else let (ro, e2) = rules (sr_org srv) e1 in
                  case ro of None \<Rightarrow> e2
                  | Some (rs, ovs) \<Rightarrow> fold (hear_key cfg dir srv rs ovs now) down e2)"

definition eval_threshold :: "config \<Rightarrow> directory \<Rightarrow> server_ref \<Rightarrow> target \<Rightarrow> buffer \<Rightarrow> override_map \<Rightarrow> time
    \<Rightarrow> rule \<Rightarrow> evaluator \<Rightarrow> evaluator" where
  "eval_threshold cfg dir srv t buf ovs now r e =
     (if r_kind r \<noteq> target_kind_of t \<or> r_metric r = MetricDown then e
      else
        let k = \<lparr>k_rule = r_id r, k_target = t\<rparr>; s = effective r (mget ovs k) in
        if \<not> se_enabled s then clear k e
        else case average (r_metric r) (se_duration s) buf of
               None \<Rightarrow> e
             | Some avg \<Rightarrow> transition cfg dir srv r s k (flt (se_threshold s) avg) avg now e)"

definition eval_thresholds :: "config \<Rightarrow> directory \<Rightarrow> server_ref \<Rightarrow> rule list \<Rightarrow> override_map \<Rightarrow> time
    \<Rightarrow> target \<Rightarrow> evaluator \<Rightarrow> evaluator" where
  "eval_thresholds cfg dir srv rs ovs now t e =
     (case mget (e_buffers e) t of
        None \<Rightarrow> e
      | Some buf \<Rightarrow> fold (eval_threshold cfg dir srv t buf ovs now) rs e)"

definition app_ids :: "directory \<Rightarrow> string \<Rightarrow> string list \<Rightarrow> string list" where
  "app_ids dir sid ids =
     sort (filter (\<lambda>i. case mget (dir_apps dir) i of Some a \<Rightarrow> ar_server a = sid | None \<Rightarrow> False) ids)"

definition ObserveHeartbeat :: "config \<Rightarrow> string \<Rightarrow> time \<Rightarrow> evaluator \<Rightarrow> evaluator" where
  "ObserveHeartbeat cfg sid now e =
     (let (dir, e1) = directory now sid e in hear cfg dir sid now e1)"

definition ObserveMetrics :: "config \<Rightarrow> string \<Rightarrow> time \<Rightarrow> metric_values \<Rightarrow> (string, metric_values) gomap \<Rightarrow> time
    \<Rightarrow> evaluator \<Rightarrow> evaluator" where
  "ObserveMetrics cfg sid sampled server apps now e =
     (let (dir, e1) = directory now sid e;
          e2 = hear cfg dir sid now e1
      in case mget (dir_servers dir) sid of
           None \<Rightarrow> e2
         | Some srv \<Rightarrow>
             let t0 = \<lparr>t_server = sid, t_app = []\<rparr>;
                 e3 = buffer_feed t0 \<lparr>p_at = sampled, p_values = server_values server\<rparr> e2;
                 host_mem = vget0 server ''mem_total'';
                 ids = app_ids dir sid (keys apps);
                 tgt = (\<lambda>i. \<lparr>t_server = sid, t_app = i\<rparr>);
                 e4 = fold (\<lambda>i. buffer_feed (tgt i)
                        \<lparr>p_at = sampled, p_values = app_values (case mget apps i of Some v \<Rightarrow> v | None \<Rightarrow> []) host_mem\<rparr>) ids e3;
                 (ro, e5) = rules (sr_org srv) e4
             in case ro of None \<Rightarrow> e5
                | Some (rs, ovs) \<Rightarrow>
                    fold (eval_thresholds cfg dir srv rs ovs now) (t0 # map tgt ids)
                      (forget_deleted_rules dir (sr_org srv) rs e5))"

definition note_problem :: "string \<Rightarrow> (string, bool) gomap \<Rightarrow> time \<Rightarrow> string \<Rightarrow> evaluator \<Rightarrow> evaluator" where
  "note_problem sid problematic now i e =
     (let t = \<lparr>t_server = sid, t_app = i\<rparr> in
      if mget problematic i = Some True
      then (if mget (e_problem e) t = None then e\<lparr>e_problem := mput t now (e_problem e)\<rparr> else e)
      else e\<lparr>e_problem := mdel t (e_problem e)\<rparr>)"

definition eval_app_down :: "config \<Rightarrow> directory \<Rightarrow> server_ref \<Rightarrow> string \<Rightarrow> override_map \<Rightarrow> time \<Rightarrow> string
    \<Rightarrow> rule \<Rightarrow> evaluator \<Rightarrow> evaluator" where
  "eval_app_down cfg dir srv sid ovs now i r e =
     (if r_kind r \<noteq> TargetApp \<or> r_metric r \<noteq> MetricDown then e
      else
        let t = \<lparr>t_server = sid, t_app = i\<rparr>; k = \<lparr>k_rule = r_id r, k_target = t\<rparr>;
            s = effective r (mget ovs k)
        in if \<not> se_enabled s then clear k e
           else case mget (e_problem e) t of
                  None \<Rightarrow> transition cfg dir srv r s k False (Fin 0) now e
                | Some since \<Rightarrow>
                    if se_duration s \<le> time_sub now since
                    then transition cfg dir srv r s k True (duration_minutes (time_sub now since)) now e
                    else e)"

definition sweep_rule :: "config \<Rightarrow> directory \<Rightarrow> server_ref \<Rightarrow> string \<Rightarrow> override_map \<Rightarrow> duration \<Rightarrow> time
    \<Rightarrow> rule \<Rightarrow> evaluator \<Rightarrow> evaluator" where
  "sweep_rule cfg dir srv sid ovs silent now r e =
     (if r_kind r \<noteq> TargetServer \<or> r_metric r \<noteq> MetricDown then e
      else
        let k = \<lparr>k_rule = r_id r, k_target = \<lparr>t_server = sid, t_app = []\<rparr>\<rparr>;
            s = effective r (mget ovs k)
        in if \<not> se_enabled s then clear k e
           else if max (se_duration s) (cf_grace cfg) \<le> silent
                then transition cfg dir srv r s k True (duration_minutes silent) now e
                else e)"

definition ObserveAppStatus :: "config \<Rightarrow> string \<Rightarrow> (string, bool) gomap \<Rightarrow> time \<Rightarrow> evaluator \<Rightarrow> evaluator" where
  "ObserveAppStatus cfg sid problematic now e =
     (let (dir, e1) = directory now sid e;
          e2 = hear cfg dir sid now e1
      in case mget (dir_servers dir) sid of
           None \<Rightarrow> e2
         | Some srv \<Rightarrow>
             let ids = app_ids dir sid (keys problematic);
                 e3 = fold (note_problem sid problematic now) ids e2;
                 (ro, e4) = rules (sr_org srv) e3
             in case ro of None \<Rightarrow> e4
                | Some (rs, ovs) \<Rightarrow>
                    fold (\<lambda>i. fold (eval_app_down cfg dir srv sid ovs now i) rs) ids
                      (forget_deleted_rules dir (sr_org srv) rs e4))"

text \<open>\<open>byOrg\<close> keeps each organization's rules, or that they could not be read.\<close>

type_synonym org_rules = "(string, (rule list \<times> override_map) option) gomap"

definition sweep_org :: "directory \<Rightarrow> string \<Rightarrow> org_rules \<times> evaluator
    \<Rightarrow> (rule list \<times> override_map) option \<times> org_rules \<times> evaluator" where
  "sweep_org dir org st =
     (let (by_org, e) = st in
      case mget by_org org of
        Some ro \<Rightarrow> (ro, by_org, e)
      | None \<Rightarrow>
          let (ro, e1) = rules org e;
              e2 = (case ro of Some (rs, _) \<Rightarrow> forget_deleted_rules dir org rs e1 | None \<Rightarrow> e1)
          in (ro, mput org ro by_org, e2))"

definition sweep_server :: "config \<Rightarrow> directory \<Rightarrow> time \<Rightarrow> string \<Rightarrow> org_rules \<times> evaluator \<Rightarrow> org_rules \<times> evaluator" where
  "sweep_server cfg dir now sid st =
     (case mget (dir_servers dir) sid of
        None \<Rightarrow> st
      | Some srv \<Rightarrow>
          let (ro, by_org, e) = sweep_org dir (sr_org srv) st in
          case ro of
            None \<Rightarrow> (by_org, e)
          | Some (rs, ovs) \<Rightarrow>
              let last_heard = (case mget (e_heard e) sid of Some t \<Rightarrow> t | None \<Rightarrow> e_started e)
              in (by_org, fold (sweep_rule cfg dir srv sid ovs (time_sub now last_heard) now) rs e))"

definition Sweep :: "config \<Rightarrow> time \<Rightarrow> evaluator \<Rightarrow> evaluator" where
  "Sweep cfg now e =
     (let e1 = (if e_firing_loaded e then e else snd (load_firing e));
          (dir, e2) = directory now [] e1
      in snd (fold (sweep_server cfg dir now) (sort (keys (dir_servers dir))) ([], e2)))"

text \<open>\<open>Load\<close>. The sample history is another store: \<open>None\<close> when metrics are off, else what
  \<open>Tier1Range\<close> answered, an error or rows. The result is whether both reads succeeded.\<close>

record target_bucket =
  tb_server :: string
  tb_app :: string
  tb_bucket :: bucket

type_synonym host_mem = "(string \<times> time, f64) gomap"

definition load_row :: "target_bucket \<Rightarrow> host_mem \<times> evaluator \<Rightarrow> host_mem \<times> evaluator" where
  "load_row row st =
     (let (hm, e) = st;
          t = \<lparr>t_server = tb_server row, t_app = tb_app row\<rparr>;
          b = tb_bucket row
      in if tb_app row = []
         then (mput (tb_server row, b_start b) (vget0 (b_data b) ''mem_total'') hm,
               buffer_feed t \<lparr>p_at = b_start b, p_values = server_values (b_data b)\<rparr> e)
         else (hm, buffer_feed t \<lparr>p_at = b_start b, p_values = app_values (b_data b)
                     (case mget hm (tb_server row, b_start b) of Some x \<Rightarrow> x | None \<Rightarrow> Fin 0)\<rparr> e))"

definition Load :: "config \<Rightarrow> target_bucket list option option \<Rightarrow> time \<Rightarrow> evaluator \<Rightarrow> bool \<times> evaluator" where
  "Load cfg hist now e =
     (let (ok, e1) = load_firing (e\<lparr>e_started := now\<rparr>) in
      case hist of
        None \<Rightarrow> (ok, e1)
      | Some None \<Rightarrow> (False, e1)
      | Some (Some rows) \<Rightarrow> (ok, snd (fold load_row rows ([], e1))))"

text \<open>Everything that reaches an evaluator.\<close>

datatype input =
    IHeartbeat string
  | IMetrics string time metric_values "(string, metric_values) gomap"
  | IAppStatus string "(string, bool) gomap"
  | ISweep
  | ILoad "target_bucket list option option"

fun handle :: "config \<Rightarrow> time \<times> input \<Rightarrow> evaluator \<Rightarrow> evaluator" where
  "handle cfg (now, IHeartbeat sid) e = ObserveHeartbeat cfg sid now e"
| "handle cfg (now, IMetrics sid sampled server apps) e = ObserveMetrics cfg sid sampled server apps now e"
| "handle cfg (now, IAppStatus sid pr) e = ObserveAppStatus cfg sid pr now e"
| "handle cfg (now, ISweep) e = Sweep cfg now e"
| "handle cfg (now, ILoad hist) e = snd (Load cfg hist now e)"

end
