(* ===== verification/Evaluator_Rules.thy ===== *)
theory Evaluator_Rules
  imports Evaluator
begin

text \<open>
  How properties of the alert evaluator are proved. Every handler is a composition of a few
  primitive changes: a read of the store, an update of a field that is local bookkeeping, an
  entry of \<open>firing\<close> dropped, the stored firing states loaded, a transition or a silent clear.
  The locale \<open>evaluator_rule\<close> has what a property must do over these as its assumptions and
  gives the property for each handler and for any sequence of inputs.
\<close>

lemma mdel_mkeep: "mdel k m = mkeep (\<lambda>j. j \<noteq> k) m"
  by (simp add: AList.delete_eq mkeep_def split_def eq_commute)

lemma fold_rule: "I s \<Longrightarrow> (\<And>x s. x \<in> set xs \<Longrightarrow> I s \<Longrightarrow> I (f x s)) \<Longrightarrow> I (fold f xs s)"
  by (rule fold_invariant)

definition reads :: "(adb \<Rightarrow> (db_error + 'a) \<times> adb) \<Rightarrow> bool" where
  "reads m \<longleftrightarrow> (\<forall>db. snd (m db) = db)"

lemma reads_simps [simp]:
  "reads (ListRules org)" "reads (ListOverrides org)" "reads Directory" "reads FiringStates"
  by (simp_all add: reads_def ListRules_def ListOverrides_def Directory_def FiringStates_def)

lemma call_simps [simp]:
  "e_started (snd (call m e)) = e_started e" "e_buffers (snd (call m e)) = e_buffers e"
  "e_firing (snd (call m e)) = e_firing e" "e_heard (snd (call m e)) = e_heard e"
  "e_problem (snd (call m e)) = e_problem e" "e_dir (snd (call m e)) = e_dir e"
  "e_dir_at (snd (call m e)) = e_dir_at e" "e_firing_loaded (snd (call m e)) = e_firing_loaded e"
  "e_minted (snd (call m e)) = e_minted e" "e_notices (snd (call m e)) = e_notices e"
  "e_jobs (snd (call m e)) = e_jobs e" "e_env (snd (call m e)) = tl (e_env e)"
  by (simp_all add: call_def Let_def split_beta)

text \<open>What the primitive changes leave alone.\<close>

definition same_memory :: "evaluator \<Rightarrow> evaluator \<Rightarrow> bool" where
  "same_memory e e' \<longleftrightarrow> e_started e' = e_started e \<and> e_buffers e' = e_buffers e \<and> e_heard e' = e_heard e \<and>
     e_problem e' = e_problem e \<and> e_dir e' = e_dir e \<and> e_dir_at e' = e_dir_at e"

lemma same_memory_refl [simp]: "same_memory e e"
  by (simp add: same_memory_def)

lemma same_memory_trans [trans]: "same_memory a b \<Longrightarrow> same_memory b c \<Longrightarrow> same_memory a c"
  by (simp add: same_memory_def)

lemma same_memory_call [simp]: "same_memory e (snd (call m e))"
  by (simp add: same_memory_def)

lemma same_memory_transition [simp]: "same_memory e (transition cfg dir srv r s k b v now e)"
  by (auto simp: transition_def same_memory_def Let_def split_beta split: sum.split)

lemma same_memory_clear [simp]: "same_memory e (clear k e)"
  by (auto simp: clear_def same_memory_def split_beta split: sum.split)

lemma same_memory_rules [simp]: "same_memory e (snd (rules org e))"
  by (auto simp: rules_def same_memory_def split_beta split: sum.split)

lemma same_memory_forget [simp]: "same_memory e (forget_deleted_rules dir org rs e)"
  by (simp add: forget_deleted_rules_def same_memory_def)

lemma same_memory_fold: "(\<And>x s. same_memory s (f x s)) \<Longrightarrow> same_memory e (fold f xs e)"
  by (induction xs arbitrary: e) (auto intro: same_memory_trans)

lemma same_memory_hear_key [simp]: "same_memory e (hear_key cfg dir srv rs ovs now k e)"
  by (auto simp: hear_key_def Let_def same_memory_def [of e "e\<lparr>e_firing := x\<rparr>" for x] split: option.split)

lemma same_memory_eval_threshold [simp]: "same_memory e (eval_threshold cfg dir srv t buf ovs now r e)"
  by (auto simp: eval_threshold_def Let_def split: option.split)

lemma same_memory_eval_thresholds [simp]: "same_memory e (eval_thresholds cfg dir srv rs ovs now t e)"
  by (auto simp: eval_thresholds_def same_memory_fold split: option.split)

lemma same_memory_eval_app_down [simp]: "same_memory e (eval_app_down cfg dir srv sid ovs now i r e)"
  by (auto simp: eval_app_down_def Let_def split: option.split)

lemma same_memory_sweep_rule [simp]: "same_memory e (sweep_rule cfg dir srv sid ovs silent now r e)"
  by (auto simp: sweep_rule_def Let_def)

lemma same_memory_load_firing [simp]: "same_memory e (snd (load_firing e))"
  by (auto simp: load_firing_def same_memory_def split_beta split: sum.split)

definition last_heard :: "evaluator \<Rightarrow> string \<Rightarrow> time" where
  "last_heard e sid = (case mget (e_heard e) sid of Some t \<Rightarrow> t | None \<Rightarrow> e_started e)"

lemma last_heard_memory: "same_memory e e' \<Longrightarrow> last_heard e' = last_heard e"
  by (auto simp: same_memory_def last_heard_def fun_eq_iff split: option.split)

lemma last_heard_directory:
  "mget (dir_servers (fst (directory now i e))) sid \<noteq> None \<Longrightarrow>
     last_heard (snd (directory now i e)) sid = last_heard e sid"
  by (cases "directory_fresh now i e"; cases "fst (call Directory e)")
    (simp_all add: directory_def last_heard_def prune_targets_def split_beta split: option.split)

locale evaluator_rule =
  fixes cfg :: config
    and I :: "evaluator \<Rightarrow> bool"
    and Reads :: "string \<Rightarrow> rule list \<Rightarrow> override_map \<Rightarrow> bool"
    and Fires :: "rule \<Rightarrow> settings \<Rightarrow> key \<Rightarrow> time \<Rightarrow> bool"
  assumes local: "I e \<Longrightarrow> I (e\<lparr>e_started := a, e_buffers := b, e_heard := c, e_problem := d,
        e_dir := x, e_dir_at := y\<rparr>)"
    and keep: "I e \<Longrightarrow> I (e\<lparr>e_firing := mkeep P (e_firing e)\<rparr>)"
    and read: "I e \<Longrightarrow> I (snd (call (ListRules org) e))" "I e \<Longrightarrow> I (snd (call (ListOverrides org) e))"
      "I e \<Longrightarrow> I (snd (call Directory e))"
    and rules_read: "I e \<Longrightarrow> fst (rules org e) = Some (rs, ovs) \<Longrightarrow> Reads org rs ovs"
    and load: "I e \<Longrightarrow> I (snd (load_firing e))"
    and resolve: "I e \<Longrightarrow> k_rule k = r_id r \<Longrightarrow> I (transition cfg dir srv r s k False v now e)"
    and fire: "I e \<Longrightarrow> k_rule k = r_id r \<Longrightarrow> Fires r s k now \<Longrightarrow> I (transition cfg dir srv r s k True v now e)"
    and clear_rule: "I e \<Longrightarrow> I (clear k e)"
begin

lemma buffers_I [intro]: "I e \<Longrightarrow> I (e\<lparr>e_buffers := b\<rparr>)"
  using local [where e = e and a = "e_started e" and b = b and c = "e_heard e" and d = "e_problem e" and x = "e_dir e" and y = "e_dir_at e"] by simp

lemma heard_I [intro]: "I e \<Longrightarrow> I (e\<lparr>e_heard := b\<rparr>)"
  using local [where e = e and a = "e_started e" and b = "e_buffers e" and c = b and d = "e_problem e" and x = "e_dir e" and y = "e_dir_at e"] by simp

lemma problem_I [intro]: "I e \<Longrightarrow> I (e\<lparr>e_problem := b\<rparr>)"
  using local [where e = e and a = "e_started e" and b = "e_buffers e" and c = "e_heard e" and d = b and x = "e_dir e" and y = "e_dir_at e"] by simp

lemma started_I [intro]: "I e \<Longrightarrow> I (e\<lparr>e_started := b\<rparr>)"
  using local [where e = e and a = b and b = "e_buffers e" and c = "e_heard e" and d = "e_problem e" and x = "e_dir e" and y = "e_dir_at e"] by simp

lemma dir_I [intro]: "I e \<Longrightarrow> I (e\<lparr>e_dir := x, e_dir_at := y\<rparr>)"
  using local [where e = e and a = "e_started e" and b = "e_buffers e" and c = "e_heard e" and d = "e_problem e" and x = x and y = y] by simp

lemma delete_I [intro]: "I e \<Longrightarrow> I (e\<lparr>e_firing := mdel k (e_firing e)\<rparr>)"
  by (simp add: mdel_mkeep keep)

lemma rules_I:
  assumes "I e"
  shows "I (snd (rules org e))"
  using read(1) [OF assms, of org] read(2) [OF read(1) [OF assms, of org], of org]
  by (auto simp: rules_def Let_def split_beta split: sum.split)

lemma prune_I:
  assumes "I e"
  shows "I (prune_targets d e)"
proof -
  have "I ((e\<lparr>e_firing := mkeep (\<lambda>k. target_exists d (k_target k)) (e_firing e)\<rparr>)
      \<lparr>e_started := e_started e, e_buffers := mkeep (target_exists d) (e_buffers e),
       e_heard := mkeep (\<lambda>i. mget (dir_servers d) i \<noteq> None) (e_heard e),
       e_problem := mkeep (target_exists d) (e_problem e), e_dir := e_dir e, e_dir_at := e_dir_at e\<rparr>)"
    by (rule local [OF keep [OF assms]])
  then show ?thesis unfolding prune_targets_def by (cases e) simp
qed

lemma directory_I:
  assumes "I e"
  shows "I (snd (directory now sid e))"
proof -
  have "I (prune_targets d ((snd (call Directory e))\<lparr>e_dir := x, e_dir_at := y\<rparr>))" for d x y
    by (rule prune_I) (rule dir_I [OF read(3) [OF assms]])
  then show ?thesis using assms read(3) [OF assms]
    by (simp add: directory_def Let_def split_beta split: sum.split)
qed

lemma forget_I: "I e \<Longrightarrow> I (forget_deleted_rules dir org rs e)"
  by (simp add: forget_deleted_rules_def keep)

lemma buffer_feed_I: "I e \<Longrightarrow> I (buffer_feed t p e)"
  by (auto simp: buffer_feed_def Let_def)

lemma note_problem_I: "I e \<Longrightarrow> I (note_problem sid pr now i e)"
  by (auto simp: note_problem_def Let_def)

lemma hear_key_I: "I e \<Longrightarrow> I (hear_key cfg dir srv rs ovs now k e)"
  by (auto simp: hear_key_def Let_def find_Some_iff clear_rule intro: resolve split: option.split)

lemma hear_I:
  assumes "I e"
  shows "I (hear cfg dir sid now e)"
proof -
  let ?e1 = "e\<lparr>e_heard := mput sid now (e_heard e)\<rparr>"
  have e1: "I ?e1" using assms by (rule heard_I)
  have "I (fold (hear_key cfg dir srv rs ovs now) ks (snd (rules org ?e1)))" for srv rs ovs ks org
    by (rule fold_rule) (auto intro: rules_I e1 hear_key_I)
  then show ?thesis using e1 rules_I [OF e1]
    by (simp add: hear_def Let_def split_beta split: option.split)
qed

lemma eval_threshold_I:
  assumes "I e"
    and "\<And>s avg. \<lbrakk>r_kind r = target_kind_of t; r_metric r \<noteq> MetricDown;
          s = effective r (mget ovs \<lparr>k_rule = r_id r, k_target = t\<rparr>); se_enabled s;
          average (r_metric r) (se_duration s) buf = Some avg; flt (se_threshold s) avg\<rbrakk>
        \<Longrightarrow> Fires r s \<lparr>k_rule = r_id r, k_target = t\<rparr> now"
  shows "I (eval_threshold cfg dir srv t buf ovs now r e)"
proof -
  have "I (transition cfg dir srv r s k b v now e)"
    if "k_rule k = r_id r" "b \<Longrightarrow> Fires r s k now" for s k b v
    using that assms(1) by (cases b) (auto intro: resolve fire)
  then show ?thesis using assms
    by (auto simp: eval_threshold_def Let_def clear_rule split: option.split)
qed

lemma eval_thresholds_I:
  assumes "I e"
    and "\<And>buf r s avg. \<lbrakk>mget (e_buffers e) t = Some buf; r \<in> set rs; r_kind r = target_kind_of t;
          r_metric r \<noteq> MetricDown; s = effective r (mget ovs \<lparr>k_rule = r_id r, k_target = t\<rparr>); se_enabled s;
          average (r_metric r) (se_duration s) buf = Some avg; flt (se_threshold s) avg\<rbrakk>
        \<Longrightarrow> Fires r s \<lparr>k_rule = r_id r, k_target = t\<rparr> now"
  shows "I (eval_thresholds cfg dir srv rs ovs now t e)"
proof (cases "mget (e_buffers e) t")
  case (Some buf)
  have "I (fold (eval_threshold cfg dir srv t buf ovs now) rs e)"
    by (rule fold_rule [of I, OF assms(1)], rule eval_threshold_I) (use assms(2) Some in auto)
  then show ?thesis by (simp add: eval_thresholds_def Some)
qed (use assms(1) in \<open>simp add: eval_thresholds_def\<close>)

lemma eval_app_down_I:
  assumes "I e"
    and "\<And>s since. \<lbrakk>r_kind r = TargetApp; r_metric r = MetricDown;
          s = effective r (mget ovs \<lparr>k_rule = r_id r, k_target = \<lparr>t_server = sid, t_app = i\<rparr>\<rparr>); se_enabled s;
          mget (e_problem e) \<lparr>t_server = sid, t_app = i\<rparr> = Some since; se_duration s \<le> time_sub now since\<rbrakk>
        \<Longrightarrow> Fires r s \<lparr>k_rule = r_id r, k_target = \<lparr>t_server = sid, t_app = i\<rparr>\<rparr> now"
  shows "I (eval_app_down cfg dir srv sid ovs now i r e)"
  using assms by (auto simp: eval_app_down_def Let_def clear_rule intro: resolve fire split: option.split)

lemma sweep_rule_I:
  assumes "I e"
    and "\<And>s. \<lbrakk>r_kind r = TargetServer; r_metric r = MetricDown;
          s = effective r (mget ovs \<lparr>k_rule = r_id r, k_target = \<lparr>t_server = sid, t_app = []\<rparr>\<rparr>); se_enabled s;
          max (se_duration s) (cf_grace cfg) \<le> silent\<rbrakk>
        \<Longrightarrow> Fires r s \<lparr>k_rule = r_id r, k_target = \<lparr>t_server = sid, t_app = []\<rparr>\<rparr> now"
  shows "I (sweep_rule cfg dir srv sid ovs silent now r e)"
  using assms by (auto simp: sweep_rule_def Let_def clear_rule intro: fire)

lemma sweep_org_I:
  assumes "I e" "\<And>o' rs ovs. mget by_org o' = Some (Some (rs, ovs)) \<Longrightarrow> Reads o' rs ovs"
    "sweep_org dir org (by_org, e) = (ro, by_org', e')"
  shows "I e'" "same_memory e e'" "\<And>rs ovs. ro = Some (rs, ovs) \<Longrightarrow> Reads org rs ovs"
    "\<And>o' rs ovs. mget by_org' o' = Some (Some (rs, ovs)) \<Longrightarrow> Reads o' rs ovs"
proof -
  obtain ro1 e1 where r: "rules org e = (ro1, e1)" by (cases "rules org e")
  have e1: "I e1" "same_memory e e1"
    using rules_I [OF assms(1), of org] same_memory_rules [of e org] r by simp_all
  have rd: "ro1 = Some (rs, ovs) \<Longrightarrow> Reads org rs ovs" for rs ovs
    using rules_read [OF assms(1), of org rs ovs] r by simp
  note d = assms(3) [unfolded sweep_org_def Let_def]
  show "I e'" "same_memory e e'" "\<And>rs ovs. ro = Some (rs, ovs) \<Longrightarrow> Reads org rs ovs"
    "\<And>o' rs ovs. mget by_org' o' = Some (Some (rs, ovs)) \<Longrightarrow> Reads o' rs ovs"
    using d r e1 rd assms(1,2) same_memory_trans [OF e1(2) same_memory_forget]
    by (auto simp: forget_I split: option.splits if_splits)
qed

lemma sweep_server_I:
  assumes e: "I e" and c: "\<And>o' rs ovs. mget by_org o' = Some (Some (rs, ovs)) \<Longrightarrow> Reads o' rs ovs"
    and f: "\<And>srv rs ovs r s. \<lbrakk>mget (dir_servers dir) sid = Some srv; Reads (sr_org srv) rs ovs; r \<in> set rs;
          r_kind r = TargetServer; r_metric r = MetricDown;
          s = effective r (mget ovs \<lparr>k_rule = r_id r, k_target = \<lparr>t_server = sid, t_app = []\<rparr>\<rparr>); se_enabled s;
          max (se_duration s) (cf_grace cfg) \<le> time_sub now (last_heard e sid)\<rbrakk>
        \<Longrightarrow> Fires r s \<lparr>k_rule = r_id r, k_target = \<lparr>t_server = sid, t_app = []\<rparr>\<rparr> now"
    and r: "sweep_server cfg dir now sid (by_org, e) = (by_org', e')"
  shows "I e' \<and> same_memory e e' \<and> (\<forall>o' rs ovs. mget by_org' o' = Some (Some (rs, ovs)) \<longrightarrow> Reads o' rs ovs)"
proof (cases "mget (dir_servers dir) sid")
  case None
  then show ?thesis using e c r by (simp add: sweep_server_def)
next
  case (Some srv)
  obtain ro b1 e1 where so: "sweep_org dir (sr_org srv) (by_org, e) = (ro, b1, e1)"
    by (rule prod_cases3)
  have o: "I e1" "same_memory e e1" "\<And>rs ovs. ro = Some (rs, ovs) \<Longrightarrow> Reads (sr_org srv) rs ovs"
    "\<And>o' rs ovs. mget b1 o' = Some (Some (rs, ovs)) \<Longrightarrow> Reads o' rs ovs"
    using sweep_org_I [OF e _ so] c by blast+
  show ?thesis
  proof (cases ro)
    case None
    then show ?thesis using r o so by (simp add: sweep_server_def Some)
  next
    case [simp]: (Some ro1)
    obtain rs ovs where [simp]: "ro1 = (rs, ovs)" by (cases ro1)
    let ?sil = "time_sub now (last_heard e1 sid)"
    have e': "e' = fold (sweep_rule cfg dir srv sid ovs ?sil now) rs e1" "by_org' = b1"
      using r so \<open>mget (dir_servers dir) sid = Some srv\<close> by (auto simp: sweep_server_def last_heard_def)
    have "I e'"
      unfolding e'
      by (rule fold_rule [of I, OF o(1)], rule sweep_rule_I)
        (use f o(2,3) \<open>mget (dir_servers dir) sid = Some srv\<close> in \<open>auto simp: last_heard_memory\<close>)
    moreover have "same_memory e1 e'"
      unfolding e' by (rule same_memory_fold) simp
    ultimately show ?thesis using same_memory_trans [OF o(2)] o(4) e'(2) by auto
  qed
qed

lemma Sweep_I:
  assumes e: "I e"
    and f: "\<And>sid org rs ovs r s. \<lbrakk>Reads org rs ovs; r \<in> set rs;
          r_kind r = TargetServer; r_metric r = MetricDown;
          s = effective r (mget ovs \<lparr>k_rule = r_id r, k_target = \<lparr>t_server = sid, t_app = []\<rparr>\<rparr>); se_enabled s;
          max (se_duration s) (cf_grace cfg) \<le> time_sub now (last_heard e sid)\<rbrakk>
        \<Longrightarrow> Fires r s \<lparr>k_rule = r_id r, k_target = \<lparr>t_server = sid, t_app = []\<rparr>\<rparr> now"
  shows "I (Sweep cfg now e)"
proof -
  define e1 where "e1 = (if e_firing_loaded e then e else snd (load_firing e))"
  obtain dir e2 where d: "directory now [] e1 = (dir, e2)" by (cases "directory now [] e1")
  have e1: "I e1" "same_memory e e1" using e by (auto simp: e1_def load)
  have e2: "I e2" using directory_I [OF e1(1), of now "[]"] d by simp
  have lh: "last_heard e2 sid = last_heard e sid" if "mget (dir_servers dir) sid \<noteq> None" for sid
    using last_heard_directory [of now "[]" e1 sid] that d last_heard_memory [OF e1(2)] by simp
  have "(\<lambda>st. I (snd st) \<and> same_memory e2 (snd st) \<and>
      (\<forall>o' rs ovs. mget (fst st) o' = Some (Some (rs, ovs)) \<longrightarrow> Reads o' rs ovs))
      (fold (sweep_server cfg dir now) (sort (keys (dir_servers dir))) ([], e2))"
  proof (rule fold_rule, goal_cases)
    case (2 sid st)
    obtain b e3 b' e4 where st: "st = (b, e3)" "sweep_server cfg dir now sid (b, e3) = (b', e4)"
      by (metis surj_pair)
    have "last_heard e3 = last_heard e2" using 2(2) last_heard_memory st by auto
    then have "I e4 \<and> same_memory e3 e4 \<and> (\<forall>o' rs ovs. mget b' o' = Some (Some (rs, ovs)) \<longrightarrow> Reads o' rs ovs)"
      using 2 st lh by (intro sweep_server_I [OF _ _ _ st(2)]) (auto intro: f)
    then show ?case using 2(2) st same_memory_trans [of e2 e3 e4] by auto
  qed (simp_all add: e2)
  then show ?thesis by (simp add: Sweep_def e1_def [symmetric] d)
qed

lemma load_row_I: "I (snd st) \<Longrightarrow> I (snd (load_row row st))"
  by (auto simp: load_row_def Let_def split_beta buffer_feed_I)

lemma Load_I:
  assumes "I e"
  shows "I (snd (Load cfg hist now e))"
proof -
  have l: "I (snd (load_firing (e\<lparr>e_started := now\<rparr>)))" by (rule load) (rule started_I [OF assms])
  have "I (snd (fold load_row rows ([], snd (load_firing (e\<lparr>e_started := now\<rparr>)))))" for rows
    by (rule fold_rule [of "\<lambda>st. I (snd st)"]) (simp_all add: l load_row_I)
  then show ?thesis using l by (auto simp: Load_def Let_def split_beta split: option.split)
qed

end

text \<open>An invariant: no condition on what fires.\<close>

locale evaluator_invariant = evaluator_rule cfg I "\<lambda>_ _ _. True" "\<lambda>_ _ _ _. True" for cfg I
begin

lemma ObserveMetrics_I:
  assumes "I e"
  shows "I (ObserveMetrics cfg sid sampled server apps now e)"
proof -
  let ?e2 = "hear cfg (fst (directory now sid e)) sid now (snd (directory now sid e))"
  have e2: "I ?e2" by (intro hear_I directory_I assms)
  have "I (fold (\<lambda>i. buffer_feed (tgt i) (p i)) ids (buffer_feed t0 q ?e2))" for tgt p ids t0 q
    by (rule fold_rule) (auto intro: buffer_feed_I e2)
  then have e5: "I (snd (rules org (fold (\<lambda>i. buffer_feed (tgt i) (p i)) ids (buffer_feed t0 q ?e2))))"
    for tgt p ids t0 q org by (rule rules_I)
  have one: "I (fold (eval_thresholds cfg dir srv rs ovs now) ts
      (eval_thresholds cfg dir srv rs ovs now t (forget_deleted_rules dir org rs e')))"
    if "I e'" for dir srv rs ovs ts t org e'
    by (rule fold_rule) (auto intro: forget_I that eval_thresholds_I)
  show ?thesis
    by (auto simp: ObserveMetrics_def Let_def split_beta split: option.split intro: e2 e5 one)
qed

lemma ObserveAppStatus_I:
  assumes "I e"
  shows "I (ObserveAppStatus cfg sid pr now e)"
proof -
  let ?e2 = "hear cfg (fst (directory now sid e)) sid now (snd (directory now sid e))"
  have e2: "I ?e2" by (intro hear_I directory_I assms)
  have "I (fold (note_problem sid pr now) ids ?e2)" for ids
    by (rule fold_rule) (auto intro: note_problem_I e2)
  then have e4: "I (snd (rules org (fold (note_problem sid pr now) ids ?e2)))" for ids org
    by (rule rules_I)
  have one: "I (fold (eval_app_down cfg dir srv sid ovs now i) rs e')" if "I e'" for dir srv ovs i rs e'
    by (rule fold_rule) (auto intro: that eval_app_down_I)
  have "I (fold (\<lambda>i. fold (eval_app_down cfg dir srv sid ovs now i) rs) ids (forget_deleted_rules dir org rs e'))"
    if "I e'" for dir srv ovs rs ids org e'
    by (rule fold_rule) (auto intro: forget_I that one)
  then show ?thesis using e2 e4
    by (auto simp: ObserveAppStatus_def Let_def split_beta split: option.split)
qed

lemma handle_I: "I e \<Longrightarrow> I (handle cfg ti e)"
  by (cases ti; cases "snd ti")
    (auto simp: ObserveHeartbeat_def split_beta
      intro: hear_I directory_I ObserveMetrics_I ObserveAppStatus_I Sweep_I Load_I)

lemma run_I: "I e \<Longrightarrow> I (fold (handle cfg) inputs e)"
  by (rule fold_rule) (auto intro: handle_I)

end

end
