(* ===== verification/Evaluator_Props.thy ===== *)
theory Evaluator_Props
  imports Evaluator_Rules
begin

text \<open>
  What the alert evaluator guarantees, over the rules of \<open>Evaluator_Rules\<close>: what a transition
  does to the local state and to the outputs, that every notification belongs to an event this
  evaluator recorded, that local firing states are backed by the store, when the sweep may
  fire, that a heartbeat resolves a server's down alerts, how the thresholds decide, and that a
  reloaded directory bounds the memory.
\<close>

subsection \<open>One store call\<close>

text \<open>The database a call finds: what the others left of it.\<close>

definition found :: "evaluator \<Rightarrow> adb" where
  "found e = (case e_env e of [] \<Rightarrow> e_db e | x # _ \<Rightarrow> fst x (e_db e))"

definition fault_of :: "evaluator \<Rightarrow> fault" where
  "fault_of e = (case e_env e of [] \<Rightarrow> NoFault | x # _ \<Rightarrow> snd x)"

definition change :: "evaluator \<Rightarrow> adb \<Rightarrow> (adb \<times> adb) list" where
  "change e db = (if db = found e then [] else [(found e, db)])"

lemma change_same [simp]: "change e (found e) = []"
  by (simp add: change_def)

lemma change_upd [simp]: "change (e\<lparr>e_minted := n\<rparr>) = change e"
  by (simp add: change_def fun_eq_iff found_def split: list.split)

lemma set_tl: "x \<in> set (tl xs) \<Longrightarrow> x \<in> set xs"
  by (cases xs) auto

lemma call_eq: "call m e = (let (res, db) = with_fault (fault_of e) m (found e) in
    (res, e\<lparr>e_db := db, e_env := tl (e_env e), e_writes := e_writes e @ change e db\<rparr>))"
  by (cases "e_env e") (auto simp: call_def found_def fault_of_def change_def split_beta)

lemma call_db: "e_db (snd (call m e)) \<in> {found e, snd (m (found e))}"
  using with_fault_state [of "fault_of e" m "found e"] by (simp add: call_eq split_beta)

lemma call_Inr: "fst (call m e) = Inr x \<Longrightarrow> m (found e) = (Inr x, e_db (snd (call m e)))"
  by (cases "fault_of e") (auto simp: call_eq with_fault_def split_beta prod_eq_iff)

lemma call_reads: "reads m \<Longrightarrow> e_db (snd (call m e)) = found e"
  using call_db [of m e] by (auto simp: reads_def)

lemma found_upd [simp]:
  "found (e\<lparr>e_minted := n\<rparr>) = found e" "found (e\<lparr>e_heard := h\<rparr>) = found e"
  "fault_of (e\<lparr>e_minted := n\<rparr>) = fault_of e"
  by (simp_all add: found_def fault_of_def split: list.split)

text \<open>The outcomes of a transition.\<close>

lemma transition_cases:
  fixes e :: evaluator and b :: bool and cfg dir srv r s k v now
  defines "e' \<equiv> transition cfg dir srv r s k b v now e"
    and "ev \<equiv> event_of cfg (e_minted e) dir srv r s k b v now"
  obtains (already) "(mget (e_firing e) k \<noteq> None) = b" "e' = e"
  | (failed) db where "(mget (e_firing e) k \<noteq> None) \<noteq> b"
      "e' = e\<lparr>e_db := db, e_env := tl (e_env e), e_writes := e_writes e @ change e db, e_minted := e_minted e + 1\<rparr>"
      "fault_of e \<noteq> FailAfter \<Longrightarrow> db = found e"
      "db \<noteq> found e \<Longrightarrow> (firing_in (found e) k \<noteq> b) \<and> (\<forall>j. firing_in db j \<longleftrightarrow> (if j = k then b else firing_in (found e) j)) \<and>
         same_tables (found e) db \<and> db_events db = db_events (found e) @ [recorded ev]"
      "fault_of e = NoFault \<Longrightarrow> \<exists>x. fst (if b then Fire k v (se_threshold s) ev (found e) else Resolve k v ev (found e)) = Inl x"
  | (lost) "(mget (e_firing e) k \<noteq> None) \<noteq> b" "firing_in (found e) k = b"
      "e_db e' = found e" "e_env e' = tl (e_env e)" "e_writes e' = e_writes e" "e_minted e' = e_minted e + 1" "e_jobs e' = e_jobs e"
      "e_firing e' = (if b then mput k (r_metric r) (e_firing e) else mdel k (e_firing e))"
  | (won) "(mget (e_firing e) k \<noteq> None) \<noteq> b" "firing_in (found e) k \<noteq> b"
      "\<And>j. firing_in (e_db e') j \<longleftrightarrow> (if j = k then b else firing_in (found e) j)"
      "same_tables (found e) (e_db e')" "db_events (e_db e') = db_events (found e) @ [recorded ev]"
      "ae_id ev \<notin> ae_id ` set (db_events (found e))"
      "e_env e' = tl (e_env e)" "e_writes e' = e_writes e @ [(found e, e_db e')]" "e_minted e' = e_minted e + 1"
      "e_jobs e' = e_jobs e @ (if cf_queue cfg then [job_of s ev] else [])"
      "e_firing e' = (if b then mput k (r_metric r) (e_firing e) else mdel k (e_firing e))"
proof (cases "(mget (e_firing e) k \<noteq> None) = b")
  case True
  then show thesis using already by (simp add: e'_def transition_def)
next
  case False
  define m where "m = (if b then Fire k v (se_threshold s) ev else Resolve k v ev)"
  obtain res db where md: "m (found e) = (res, db)" by (cases "m (found e)")
  have t: "e' = (let (res, e2) = call m (e\<lparr>e_minted := e_minted e + 1\<rparr>) in
       case res of Inl _ \<Rightarrow> e2
       | Inr won \<Rightarrow>
           let e3 = e2\<lparr>e_firing := (if b then mput k (r_metric r) (e_firing e2) else mdel k (e_firing e2))\<rparr>;
               e4 = (if cf_publish cfg then e3\<lparr>e_notices := e_notices e3 @ [notice_of r s k ev]\<rparr> else e3)
           in if won \<and> cf_queue cfg then e4\<lparr>e_jobs := e_jobs e4 @ [job_of s ev]\<rparr> else e4)"
    using False by (cases b) (simp_all add: e'_def transition_def m_def ev_def Let_def split_beta split: sum.split)
  have m: "(\<exists>x. res = Inl x) \<and> db = found e
     \<or> res = Inr False \<and> db = found e \<and> firing_in (found e) k = b
     \<or> res = Inr True \<and> firing_in (found e) k \<noteq> b \<and>
       (\<forall>j. firing_in db j \<longleftrightarrow> (if j = k then b else firing_in (found e) j)) \<and>
       same_tables (found e) db \<and> db_events db = db_events (found e) @ [recorded ev] \<and>
       ae_id ev \<notin> ae_id ` set (db_events (found e))"
  proof (cases b)
    case True
    then have "Fire k v (se_threshold s) ev (found e) = (res, db)" using md by (simp add: m_def)
    then show ?thesis by (cases rule: Fire_cases) (use True in auto)
  next
    case False
    then have "Resolve k v ev (found e) = (res, db)" using md by (simp add: m_def)
    then show ?thesis by (cases rule: Resolve_cases) (use False in auto)
  qed
  show thesis
  proof (cases "fault_of e")
    case NoFault
    have c: "call m (e\<lparr>e_minted := e_minted e + 1\<rparr>) =
        (res, e\<lparr>e_minted := e_minted e + 1, e_db := db, e_env := tl (e_env e), e_writes := e_writes e @ change e db\<rparr>)"
      by (simp add: call_eq with_fault_def NoFault md)
    from m show thesis
    proof (elim disjE conjE exE)
      fix x assume "res = Inl x" "db = found e"
      then show thesis using failed [of db] False t c md by (cases e) (simp add: m_def split: if_splits)
    next
      assume "res = Inr False" "db = found e" "firing_in (found e) k = b"
      then show thesis using lost False t c by (simp add: Let_def)
    next
      assume "res = Inr True" "firing_in (found e) k \<noteq> b"
        "\<forall>j. firing_in db j \<longleftrightarrow> (if j = k then b else firing_in (found e) j)"
        "same_tables (found e) db" "db_events db = db_events (found e) @ [recorded ev]"
        "ae_id ev \<notin> ae_id ` set (db_events (found e))"
      moreover from this have "change e db = [(found e, db)]" by (auto simp: change_def)
      ultimately show thesis using won False t c by (simp add: Let_def)
    qed
  next
    case FailBefore
    have c: "call m (e\<lparr>e_minted := e_minted e + 1\<rparr>) =
        (Inl DbDown, e\<lparr>e_minted := e_minted e + 1, e_db := found e, e_env := tl (e_env e), e_writes := e_writes e @ change e (found e)\<rparr>)"
      by (simp add: call_eq with_fault_def FailBefore)
    then show thesis using failed [of "found e"] False t FailBefore by (cases e) simp
  next
    case FailAfter
    have c: "call m (e\<lparr>e_minted := e_minted e + 1\<rparr>) =
        (Inl DbDown, e\<lparr>e_minted := e_minted e + 1, e_db := db, e_env := tl (e_env e), e_writes := e_writes e @ change e db\<rparr>)"
      by (simp add: call_eq with_fault_def FailAfter md)
    show thesis
    proof (rule failed [of db, OF False])
      show "e' = e\<lparr>e_db := db, e_env := tl (e_env e), e_writes := e_writes e @ change e db, e_minted := e_minted e + 1\<rparr>"
        using t c by (cases e) simp
    qed (use m FailAfter in auto)
  qed
qed

lemma clear_cases:
  obtains (idle) "clear k e = e"
  | (failed) db where "mget (e_firing e) k \<noteq> None" "clear k e = e\<lparr>e_db := db, e_env := tl (e_env e), e_writes := e_writes e @ change e db\<rparr>"
      "db = found e \<or> db = snd (ClearState k (found e)) \<and> fault_of e = FailAfter" "fault_of e \<noteq> NoFault"
  | (cleared) "mget (e_firing e) k \<noteq> None"
      "clear k e = e\<lparr>e_db := snd (ClearState k (found e)), e_env := tl (e_env e),
        e_writes := e_writes e @ change e (snd (ClearState k (found e))), e_firing := mdel k (e_firing e)\<rparr>"
proof (cases "mget (e_firing e) k = None")
  case True
  then show thesis using idle by (simp add: clear_def)
next
  case False
  show thesis
  proof (cases "fault_of e")
    case NoFault
    then show thesis using cleared False by (simp add: clear_def call_eq with_fault_def ClearState_def)
  next
    case FailBefore
    then show thesis using failed [of "found e"] False by (simp add: clear_def call_eq with_fault_def)
  next
    case FailAfter
    then show thesis using failed [of "snd (ClearState k (found e))"] False
      by (simp add: clear_def call_eq with_fault_def ClearState_def)
  qed
qed

lemma clear_simps [simp]: "e_jobs (clear k e) = e_jobs e" "e_minted (clear k e) = e_minted e"
  "db_events (e_db (clear k e)) \<in> {db_events (e_db e), db_events (found e)}"
  by (rule clear_cases [of k e]; auto simp: ClearState_def)+

lemma load_firing_simps [simp]: "e_jobs (snd (load_firing e)) = e_jobs e"
  "e_minted (snd (load_firing e)) = e_minted e" "e_env (snd (load_firing e)) = tl (e_env e)"
  "e_db (snd (load_firing e)) = found e"
  using call_reads [of FiringStates e] by (auto simp: load_firing_def split_beta split: sum.split)

subsection \<open>Notifications belong to recorded events\<close>

definition job_event :: "job \<Rightarrow> event \<Rightarrow> bool" where
  "job_event j ev \<longleftrightarrow> j_event j = ae_id ev \<and> j_org j = ae_org ev \<and> j_title j = ae_title ev \<and> j_body j = ae_message ev"

text \<open>One of the evaluator's own writes added the event of the job to the history.\<close>

definition recorded_by :: "(adb \<times> adb) list \<Rightarrow> job \<Rightarrow> bool" where
  "recorded_by ws j \<longleftrightarrow> (\<exists>(before, after) \<in> set ws. \<exists>ev. db_events after = db_events before @ [ev] \<and> job_event j ev \<and>
     ae_id ev \<notin> ae_id ` set (db_events before))"

definition outputs_ok :: "config \<Rightarrow> evaluator \<Rightarrow> bool" where
  "outputs_ok cfg e \<longleftrightarrow>
     (\<forall>j \<in> set (e_jobs e). recorded_by (e_writes e) j) \<and>
     (\<exists>ns. map j_event (e_jobs e) = map (cf_new_id cfg) ns \<and> sorted_wrt (<) ns \<and> (\<forall>n \<in> set ns. n < e_minted e))"

lemma recorded_by_more: "recorded_by ws j \<Longrightarrow> recorded_by (ws @ ws') j"
  by (auto simp: recorded_by_def)

text \<open>A step that adds no job and forgets no write.\<close>

lemma outputs_ok_quiet:
  assumes "outputs_ok cfg e" "e_jobs e' = e_jobs e" "\<exists>ws. e_writes e' = e_writes e @ ws" "e_minted e \<le> e_minted e'"
  shows "outputs_ok cfg e'"
proof -
  obtain ws where "e_writes e' = e_writes e @ ws" using assms(3) by blast
  then show ?thesis using assms(1,2,4) unfolding outputs_ok_def by (metis less_le_trans recorded_by_more)
qed

lemma outputs_ok_transition:
  assumes "outputs_ok cfg e"
  shows "outputs_ok cfg (transition cfg dir srv r s k b v now e)"
proof (cases rule: transition_cases [of e k b cfg dir srv r s v now])
  case already
  then show ?thesis using assms by simp
next
  case (failed db)
  then show ?thesis by (intro outputs_ok_quiet [OF assms]) (auto simp: failed(2))
next
  case lost
  then show ?thesis by (intro outputs_ok_quiet [OF assms]) auto
next
  case won
  let ?e' = "transition cfg dir srv r s k b v now e"
  let ?ev = "event_of cfg (e_minted e) dir srv r s k b v now"
  have "recorded_by [(found e, e_db ?e')] (job_of s ?ev)"
    using won(5,6) by (simp add: recorded_by_def job_event_def job_of_def)
  then have own: "recorded_by (e_writes ?e') (job_of s ?ev)"
    unfolding won(8) by (auto simp: recorded_by_def)
  obtain ns where ns: "map j_event (e_jobs e) = map (cf_new_id cfg) ns" "sorted_wrt (<) ns"
    "\<forall>n \<in> set ns. n < e_minted e" using assms by (auto simp: outputs_ok_def)
  have "\<forall>j \<in> set (e_jobs ?e'). recorded_by (e_writes ?e') j"
    using assms own won(8,10) by (auto simp: outputs_ok_def recorded_by_more)
  moreover have "\<exists>ns. map j_event (e_jobs ?e') = map (cf_new_id cfg) ns \<and> sorted_wrt (<) ns \<and>
      (\<forall>n \<in> set ns. n < e_minted ?e')"
  proof (cases "cf_queue cfg")
    case True
    then have "map j_event (e_jobs ?e') = map (cf_new_id cfg) (ns @ [e_minted e])"
      using ns(1) won(10) by (simp add: job_of_def event_of_def Let_def)
    moreover have "sorted_wrt (<) (ns @ [e_minted e])" using ns by (simp add: sorted_wrt_append)
    moreover have "\<forall>n \<in> set (ns @ [e_minted e]). n < e_minted ?e'" using ns(3) won(9) by auto
    ultimately show ?thesis by blast
  next
    case False
    then have "map j_event (e_jobs ?e') = map (cf_new_id cfg) ns" using ns(1) won(10) by simp
    moreover have "\<forall>n \<in> set ns. n < e_minted ?e'" using ns(3) won(9) by auto
    ultimately show ?thesis using ns(2) by blast
  qed
  ultimately show ?thesis by (simp add: outputs_ok_def)
qed

lemma outputs_ok_read: "outputs_ok cfg e \<Longrightarrow> outputs_ok cfg (snd (call m e))"
  by (rule outputs_ok_quiet [of cfg e]) (simp_all add: call_eq split_beta)

interpretation outputs: evaluator_invariant cfg "outputs_ok cfg" for cfg
proof
  fix e a b c d x y
  assume "outputs_ok cfg e"
  then show "outputs_ok cfg (e\<lparr>e_started := a, e_buffers := b, e_heard := c, e_problem := d, e_dir := x, e_dir_at := y\<rparr>)"
    by (rule outputs_ok_quiet) auto
next
  fix e P
  assume "outputs_ok cfg e"
  then show "outputs_ok cfg (e\<lparr>e_firing := mkeep P (e_firing e)\<rparr>)" by (rule outputs_ok_quiet) auto
next
  fix e k
  assume i: "outputs_ok cfg e"
  have "\<exists>ws. e_writes (clear k e) = e_writes e @ ws" by (rule clear_cases [of k e]) auto
  then show "outputs_ok cfg (clear k e)" by (intro outputs_ok_quiet [OF i]) auto
next
  fix e
  assume i: "outputs_ok cfg e"
  have "\<exists>ws. e_writes (snd (load_firing e)) = e_writes e @ ws"
    by (auto simp: load_firing_def call_eq split_beta split: sum.split)
  then show "outputs_ok cfg (snd (load_firing e))" by (intro outputs_ok_quiet [OF i]) auto
qed (simp_all add: outputs_ok_read outputs_ok_transition)

text \<open>C2. Every notification an evaluator hands to the notifier is the text of an event that one of its own
  writes added to the history, under an id that was new there; no event is notified twice. This holds
  after any inputs, with any store failures, whatever other replicas, the notifier and the pruning do to
  the store before, between and after.\<close>

theorem notifications_recorded:
  assumes "inj (cf_new_id cfg)"
  shows "let e = fold (handle cfg) inputs (NewEvaluator t db env) in
    distinct (map j_event (e_jobs e)) \<and>
    (\<forall>j \<in> set (e_jobs e). \<exists>(before, after) \<in> set (e_writes e). \<exists>ev.
       db_events after = db_events before @ [ev] \<and> job_event j ev \<and> ae_id ev \<notin> ae_id ` set (db_events before))"
proof -
  let ?e = "fold (handle cfg) inputs (NewEvaluator t db env)"
  have "outputs_ok cfg (NewEvaluator t db env)" by (simp add: outputs_ok_def NewEvaluator_def)
  then have ok: "outputs_ok cfg ?e" by (rule outputs.run_I)
  then obtain ns where "map j_event (e_jobs ?e) = map (cf_new_id cfg) ns" "sorted_wrt (<) ns" by (auto simp: outputs_ok_def)
  then have "distinct (map j_event (e_jobs ?e))"
    using inj_on_subset [OF assms subset_UNIV] by (simp add: distinct_map strict_sorted_iff)
  then show ?thesis using ok by (simp add: outputs_ok_def recorded_by_def Let_def)
qed

lemma notifications_recorded_witness:
  "\<exists>cfg env. let e = fold (handle cfg) [(0, ILoad None), (10 * minute, ISweep), (11 * minute, IHeartbeat ''s1'')]
       (NewEvaluator 0 demo_db env) in
    env \<noteq> [] \<and> distinct (map j_event (e_jobs e))"
proof -
  let ?cfg = "\<lparr>cf_queue = True, cf_publish = False, cf_web_url = [], cf_grace = minute,
    cf_new_id = (\<lambda>n. replicate n (CHR ''x'')), cf_fmt_g = (\<lambda>_. [])\<rparr>"
  let ?env = "[(\<lambda>db. snd (snd (PruneEvents 0 [] db)), NoFault), (\<lambda>db. db\<lparr>db_events := db_events db @ [demo_event ''z'' EventFired 3]\<rparr>, FailAfter)]"
  have "inj (cf_new_id ?cfg)" by (auto intro: injI)
  from notifications_recorded [OF this, of "[(0, ILoad None), (10 * minute, ISweep), (11 * minute, IHeartbeat ''s1'')]" 0 demo_db ?env]
  show ?thesis unfolding Let_def by blast
qed

subsection \<open>What fires locally is stored as firing\<close>

definition env_keeps_firing :: "call_env \<Rightarrow> bool" where
  "env_keeps_firing x \<longleftrightarrow> snd x \<noteq> FailAfter \<and> (\<forall>db k. firing_in db k \<longrightarrow> firing_in (fst x db) k)"

definition backed :: "evaluator \<Rightarrow> bool" where
  "backed e \<longleftrightarrow> (\<forall>x \<in> set (e_env e). env_keeps_firing x) \<and>
     (\<forall>k. mget (e_firing e) k \<noteq> None \<longrightarrow> firing_in (e_db e) k)"

lemma backed_found: "backed e \<Longrightarrow> firing_in (e_db e) k \<Longrightarrow> firing_in (found e) k"
  by (auto simp: backed_def found_def env_keeps_firing_def split: list.split)

lemma backed_fault: "backed e \<Longrightarrow> fault_of e \<noteq> FailAfter"
  by (auto simp: backed_def fault_of_def env_keeps_firing_def split: list.splits)

lemma backed_env_tl: "backed e \<Longrightarrow> \<forall>x \<in> set (tl (e_env e)). env_keeps_firing x"
  by (auto simp: backed_def dest: set_tl)

lemma backed_step:
  assumes "backed e" "e_env e' \<in> {e_env e, tl (e_env e)}"
    "\<And>k. mget (e_firing e') k \<noteq> None \<Longrightarrow> firing_in (e_db e') k"
  shows "backed e'"
  using assms backed_env_tl [OF assms(1)] by (auto simp: backed_def)

lemma backed_transition:
  assumes "backed e"
  shows "backed (transition cfg dir srv r s k b v now e)"
proof -
  let ?e' = "transition cfg dir srv r s k b v now e"
  have f: "mget (e_firing e) j \<noteq> None \<Longrightarrow> firing_in (found e) j" for j
    using backed_found [OF assms, of j] assms by (auto simp: backed_def)
  show ?thesis
  proof (cases rule: transition_cases [of e k b cfg dir srv r s v now])
    case already
    then show ?thesis using assms by simp
  next
    case (failed db)
    then show ?thesis using f backed_fault [OF assms] by (intro backed_step [OF assms]) auto
  next
    case lost
    then show ?thesis using f by (intro backed_step [OF assms]) (auto split: if_splits)
  next
    case won
    then show ?thesis using f by (intro backed_step [OF assms]) (auto split: if_splits)
  qed
qed

lemma load_firing_mem:
  assumes "mget (e_firing (snd (load_firing e))) k \<noteq> None"
  shows "mget (e_firing e) k \<noteq> None \<or> firing_in (found e) k"
proof (cases "fst (call FiringStates e)")
  case (Inr states)
  let ?add = "\<lambda>m s. if mget m (sr_key s) = None then mput (sr_key s) (sr_metric s) m else m"
  have st: "\<forall>s \<in> set states. firing_in (found e) (sr_key s)"
    using call_Inr [OF Inr]
    by (auto simp: FiringStates_def map_filter_def state_row_of_def firing_in_def table_rows_mem split: if_splits)
  have "(\<lambda>m. \<forall>k. mget m k \<noteq> None \<longrightarrow> mget (e_firing e) k \<noteq> None \<or> firing_in (found e) k) (foldl ?add (e_firing e) states)"
    by (rule foldl_invariant) (use st in \<open>auto split: if_splits\<close>)
  then show ?thesis using assms Inr by (simp add: load_firing_def split_beta)
qed (use assms in \<open>simp add: load_firing_def split_beta\<close>)

lemma firing_in_clear: "firing_in (snd (ClearState k db)) j \<longleftrightarrow> j \<noteq> k \<and> firing_in db j"
  by (auto simp: ClearState_def firing_in_def)

lemma backed_read: "reads m \<Longrightarrow> backed e \<Longrightarrow> backed (snd (call m e))"
  by (rule backed_step [of e]) (auto simp: call_reads backed_def intro: backed_found [unfolded backed_def])

interpretation backed: evaluator_invariant cfg backed for cfg
proof
  fix e k assume i: "backed e"
  then have f: "mget (e_firing e) j \<noteq> None \<Longrightarrow> firing_in (found e) j" for j
    using backed_found [OF i, of j] by (auto simp: backed_def)
  show "backed (clear k e)"
  proof (cases rule: clear_cases [of k e])
    case idle
    then show ?thesis using i by simp
  next
    case (failed db)
    then show ?thesis using f backed_fault [OF i] by (intro backed_step [OF i]) auto
  next
    case cleared
    then show ?thesis using f by (intro backed_step [OF i]) (auto simp: firing_in_clear split: if_splits)
  qed
next
  fix e assume i: "backed e"
  then have f: "mget (e_firing e) j \<noteq> None \<Longrightarrow> firing_in (found e) j" for j
    using backed_found [OF i, of j] by (auto simp: backed_def)
  have "firing_in (found e) j" if "mget (e_firing (snd (load_firing e))) j \<noteq> None" for j
    using load_firing_mem [OF that] f by blast
  then show "backed (snd (load_firing e))" by (intro backed_step [OF i]) auto
next
  fix e a b c d x y assume i: "backed e"
  show "backed (e\<lparr>e_started := a, e_buffers := b, e_heard := c, e_problem := d, e_dir := x, e_dir_at := y\<rparr>)"
    by (rule backed_step [OF i]) (use i in \<open>auto simp: backed_def\<close>)
next
  fix e P assume i: "backed e"
  show "backed (e\<lparr>e_firing := mkeep P (e_firing e)\<rparr>)"
    by (rule backed_step [OF i]) (use i in \<open>auto simp: backed_def split: if_splits\<close>)
qed (simp_all add: backed_read backed_transition)

text \<open>What an evaluator holds as firing is firing in the store, so a restart restores it: true
  after any inputs, whatever calls failed without effect, as long as no reply is lost after a write and
  nobody else resolves the same alerts.\<close>

theorem local_firing_is_stored:
  assumes "\<forall>x \<in> set env. env_keeps_firing x"
    and "mget (e_firing (fold (handle cfg) inputs (NewEvaluator t db env))) k \<noteq> None"
  shows "firing_in (e_db (fold (handle cfg) inputs (NewEvaluator t db env))) k"
proof -
  have "backed (NewEvaluator t db env)" using assms(1) by (simp add: backed_def NewEvaluator_def)
  then have "backed (fold (handle cfg) inputs (NewEvaluator t db env))" by (rule backed.run_I)
  then show ?thesis using assms(2) by (simp add: backed_def)
qed

abbreviation demo_firing_db :: adb where
  "demo_firing_db \<equiv> demo_db\<lparr>db_states := [(demo_key, \<lparr>sc_state = StateFiring, sc_since = 0, sc_value = Fin 5,
     sc_threshold = Fin 0\<rparr>)]\<rparr>"

lemma local_firing_is_stored_witness:
  "\<exists>cfg. mget (e_firing (fold (handle cfg) [(0, ILoad None)]
       (NewEvaluator 0 demo_firing_db [(\<lambda>db. db, NoFault)]))) demo_key = Some MetricDown \<and>
     firing_in (e_db (fold (handle cfg) [(0, ILoad None)]
       (NewEvaluator 0 demo_firing_db [(\<lambda>db. db, NoFault)]))) demo_key"
proof -
  let ?cfg = "\<lparr>cf_queue = True, cf_publish = False, cf_web_url = [], cf_grace = minute,
    cf_new_id = (\<lambda>n. replicate n (CHR ''x'')), cf_fmt_g = (\<lambda>_. [])\<rparr>"
  let ?e = "fold (handle ?cfg) [(0, ILoad None)] (NewEvaluator 0 demo_firing_db [(\<lambda>db. db, NoFault)])"
  have "mget (e_firing ?e) demo_key = Some MetricDown"
    by (simp add: Load_def load_firing_def call_def with_fault_def FiringStates_def NewEvaluator_def
        table_rows_def map_filter_def state_row_of_def)
  moreover have "firing_in (e_db ?e) demo_key"
    using local_firing_is_stored [of "[(\<lambda>db. db, NoFault)]" ?cfg "[(0, ILoad None)]" 0 demo_firing_db demo_key]
      calculation by (simp add: env_keeps_firing_def)
  ultimately show ?thesis by blast
qed

subsection \<open>The sweep\<close>

text \<open>The rules and overrides of an organization, as the store lists them.\<close>

definition org_rules_of :: "adb \<Rightarrow> string \<Rightarrow> rule list" where
  "org_rules_of db org = filter (\<lambda>r. r_org r = org) (db_rules db)"

definition org_overrides_of :: "adb \<Rightarrow> string \<Rightarrow> override_map" where
  "org_overrides_of db org =
     override_map (filter (\<lambda>ov. \<exists>r \<in> set (db_rules db). r_id r = o_rule ov \<and> r_org r = org) (db_overrides db))"

definition alone :: "evaluator \<Rightarrow> bool" where
  "alone e \<longleftrightarrow> (\<forall>x \<in> set (e_env e). fst x = (\<lambda>db. db))"

lemma alone_found: "alone e \<Longrightarrow> found e = e_db e"
  by (auto simp: alone_def found_def split: list.split)

lemma same_tables_refl [simp]: "same_tables db db"
  by (simp add: same_tables_def)

lemma same_tables_trans: "same_tables a b \<Longrightarrow> same_tables b c \<Longrightarrow> same_tables a c"
  by (simp add: same_tables_def)

text \<open>A server's down rule is due: enabled for it, and it was silent for the rule's duration and the
  grace.\<close>

definition down_due :: "config \<Rightarrow> evaluator \<Rightarrow> time \<Rightarrow> rule \<Rightarrow> key \<Rightarrow> bool" where
  "down_due cfg e now r k \<longleftrightarrow> r_id r = k_rule k \<and> r_kind r = TargetServer \<and> r_metric r = MetricDown \<and>
     t_app (k_target k) = [] \<and>
     (let s = effective r (mget (org_overrides_of (e_db e) (r_org r)) k) in
      se_enabled s \<and> se_duration s \<le> time_sub now (last_heard e (t_server (k_target k))) \<and>
      cf_grace cfg \<le> time_sub now (last_heard e (t_server (k_target k))))"

definition lists_of :: "evaluator \<Rightarrow> string \<Rightarrow> rule list \<Rightarrow> override_map \<Rightarrow> bool" where
  "lists_of e org rs ovs \<longleftrightarrow> rs = org_rules_of (e_db e) org \<and> ovs = org_overrides_of (e_db e) org"

definition sweep_ok :: "config \<Rightarrow> evaluator \<Rightarrow> time \<Rightarrow> evaluator \<Rightarrow> bool" where
  "sweep_ok cfg e0 now e \<longleftrightarrow> alone e \<and> same_tables (e_db e0) (e_db e) \<and>
     (\<forall>k. firing_in (e_db e) k \<or> mget (e_firing e) k \<noteq> None \<longrightarrow>
        firing_in (e_db e0) k \<or> mget (e_firing e0) k \<noteq> None \<or>
        (\<exists>r \<in> set (db_rules (e_db e0)). down_due cfg e0 now r k))"

lemma alone_tl: "alone e \<Longrightarrow> e_env e' \<in> {e_env e, tl (e_env e)} \<Longrightarrow> alone e'"
  unfolding alone_def by (metis insertE set_tl singletonD)

lemma alone_call: "alone e \<Longrightarrow> alone (snd (call m e))"
  by (rule alone_tl [of e]) simp_all

lemma rules_lists:
  assumes "alone e" "fst (rules org e) = Some (rs, ovs)"
  shows "rs = org_rules_of (e_db e) org" "ovs = org_overrides_of (e_db e) org"
proof -
  let ?e1 = "snd (call (ListRules org) e)"
  have e1: "e_db ?e1 = e_db e" "alone ?e1"
    using assms(1) by (simp_all add: call_reads alone_found alone_call)
  obtain ovl where o: "fst (call (ListRules org) e) = Inr rs" "fst (call (ListOverrides org) ?e1) = Inr ovl"
    "ovs = override_map ovl"
    using assms(2) by (auto simp: rules_def split_beta split: sum.splits)
  show "rs = org_rules_of (e_db e) org"
  proof -
    have "rs = filter (\<lambda>r. r_org r = org) (db_rules (found e))"
      using call_Inr [OF o(1)] unfolding ListRules_def by blast
    then show ?thesis by (simp only: org_rules_of_def alone_found [OF assms(1)])
  qed
  show "ovs = org_overrides_of (e_db e) org"
  proof -
    have "ovl = filter (\<lambda>ov. \<exists>r \<in> set (db_rules (found ?e1)). r_id r = o_rule ov \<and> r_org r = org) (db_overrides (found ?e1))"
      using call_Inr [OF o(2)] unfolding ListOverrides_def by blast
    then show ?thesis by (simp only: o(3) org_overrides_of_def alone_found [OF e1(2)] e1(1))
  qed
qed

lemma sweep_ok_step:
  assumes "sweep_ok cfg e0 now e" "e_env e' \<in> {e_env e, tl (e_env e)}" "same_tables (e_db e) (e_db e')"
    "\<And>k. firing_in (e_db e') k \<or> mget (e_firing e') k \<noteq> None \<Longrightarrow>
       firing_in (e_db e) k \<or> mget (e_firing e) k \<noteq> None \<or> (\<exists>r \<in> set (db_rules (e_db e0)). down_due cfg e0 now r k)"
  shows "sweep_ok cfg e0 now e'"
  using assms alone_tl [of e e'] same_tables_trans [of "e_db e0" "e_db e" "e_db e'"]
  unfolding sweep_ok_def by blast

lemma sweep_ok_transition:
  assumes "sweep_ok cfg e0 now e"
    and "b \<Longrightarrow> \<exists>r \<in> set (db_rules (e_db e0)). down_due cfg e0 now r k"
  shows "sweep_ok cfg e0 now (transition cfg dir srv r s k b v now' e)"
proof -
  have f: "found e = e_db e" using assms(1) by (simp add: sweep_ok_def alone_found)
  show ?thesis
  proof (cases rule: transition_cases [of e k b cfg dir srv r s v now'])
    case already
    then show ?thesis using assms by simp
  next
    case (failed db)
    show ?thesis
    proof (cases "db = e_db e")
      case False
      then show ?thesis using failed assms f by (intro sweep_ok_step [OF assms(1)]) (auto split: if_splits)
    qed (use failed assms f in \<open>intro sweep_ok_step [OF assms(1)]; auto\<close>)
  next
    case lost
    then show ?thesis using f assms(2) by (intro sweep_ok_step [OF assms(1)]) (auto split: if_splits)
  next
    case won
    then show ?thesis using f assms(2) by (intro sweep_ok_step [OF assms(1)]) (auto split: if_splits)
  qed
qed

lemma sweep_ok_found: "sweep_ok cfg e0 now e \<Longrightarrow> found e = e_db e"
  by (simp add: sweep_ok_def alone_found)

lemma same_tables_clear [simp]: "same_tables db (snd (ClearState k db))"
  by (simp add: ClearState_def same_tables_def)

lemma sweep_ok_read: "reads m \<Longrightarrow> sweep_ok cfg e0 now e \<Longrightarrow> sweep_ok cfg e0 now (snd (call m e))"
  by (rule sweep_ok_step [of cfg e0 now e]) (auto simp: call_reads sweep_ok_found)

interpretation sweeping: evaluator_rule cfg "sweep_ok cfg e0 now" "lists_of e0"
  "\<lambda>r s k now'. r \<in> set (db_rules (e_db e0)) \<and> down_due cfg e0 now r k" for cfg e0 now
proof
  fix e org rs ovs
  assume "sweep_ok cfg e0 now e" "fst (rules org e) = Some (rs, ovs)"
  then show "lists_of e0 org rs ovs"
    using rules_lists [of e org rs ovs]
    by (simp add: sweep_ok_def lists_of_def org_rules_of_def org_overrides_of_def same_tables_def)
next
  fix e k assume i: "sweep_ok cfg e0 now e"
  show "sweep_ok cfg e0 now (clear k e)"
    by (cases rule: clear_cases [of k e])
      (use i sweep_ok_found [OF i] in \<open>auto intro!: sweep_ok_step [OF i] simp: firing_in_clear split: if_splits\<close>)
next
  fix e assume i: "sweep_ok cfg e0 now e"
  have "firing_in (e_db e) j \<or> mget (e_firing e) j \<noteq> None" if "mget (e_firing (snd (load_firing e))) j \<noteq> None" for j
    using load_firing_mem [OF that] sweep_ok_found [OF i] by auto
  then show "sweep_ok cfg e0 now (snd (load_firing e))"
    using sweep_ok_found [OF i] by (intro sweep_ok_step [OF i]) auto
next
  fix e P assume i: "sweep_ok cfg e0 now e"
  show "sweep_ok cfg e0 now (e\<lparr>e_firing := mkeep P (e_firing e)\<rparr>)"
    by (rule sweep_ok_step [OF i]) (auto split: if_splits)
next
  fix e a b c d x y assume i: "sweep_ok cfg e0 now e"
  show "sweep_ok cfg e0 now (e\<lparr>e_started := a, e_buffers := b, e_heard := c, e_problem := d, e_dir := x, e_dir_at := y\<rparr>)"
    by (rule sweep_ok_step [OF i]) auto
next
  fix e :: evaluator and k :: key and r :: rule and dir srv s v now'
  assume "sweep_ok cfg e0 now e"
  then show "sweep_ok cfg e0 now (transition cfg dir srv r s k False v now' e)"
    by (rule sweep_ok_transition) simp
next
  fix e :: evaluator and k :: key and r :: rule and dir srv s v now'
  assume "sweep_ok cfg e0 now e" "r \<in> set (db_rules (e_db e0)) \<and> down_due cfg e0 now r k"
  then show "sweep_ok cfg e0 now (transition cfg dir srv r s k True v now' e)"
    by (blast intro: sweep_ok_transition)
qed (simp_all add: sweep_ok_read)

text \<open>C12. A sweep fires an alert only for a silent server: whatever is firing after it, in memory or in the
  store, was firing before it or belongs to an enabled down rule whose server was not heard for the
  rule's duration and for the grace period, counted from the start if it was never heard. Store
  failures do not change this.\<close>

theorem sweep_fires_only_silent:
  assumes "alone e"
    and "firing_in (e_db (Sweep cfg now e)) k \<or> mget (e_firing (Sweep cfg now e)) k \<noteq> None"
    and "\<not> firing_in (e_db e) k" "mget (e_firing e) k = None"
  shows "\<exists>r \<in> set (db_rules (e_db e)). down_due cfg e now r k"
proof -
  have "sweep_ok cfg e now e" using assms(1) by (simp add: sweep_ok_def)
  then have "sweep_ok cfg e now (Sweep cfg now e)"
    by (rule sweeping.Sweep_I)
      (auto simp: lists_of_def org_rules_of_def down_due_def Let_def)
  then show ?thesis using assms(2-4) by (auto simp: sweep_ok_def)
qed

abbreviation demo_cfg :: config where
  "demo_cfg \<equiv> \<lparr>cf_queue = True, cf_publish = False, cf_web_url = [], cf_grace = minute,
    cf_new_id = (\<lambda>n. replicate n (CHR ''x'')), cf_fmt_g = (\<lambda>_. [])\<rparr>"

lemma demo_inj [simp]: "inj (cf_new_id demo_cfg)"
  by (auto intro: injI)

subsection \<open>A store that answers\<close>

text \<open>No other user, no failures, ids that are new; an alert whose organization and server are
  stored.\<close>

definition ready :: "config \<Rightarrow> evaluator \<Rightarrow> bool" where
  "ready cfg e \<longleftrightarrow> e_env e = [] \<and> inj (cf_new_id cfg) \<and>
     (\<forall>n \<ge> e_minted e. cf_new_id cfg n \<notin> ae_id ` set (db_events (e_db e)))"

definition storable :: "adb \<Rightarrow> server_ref \<Rightarrow> key \<Rightarrow> bool" where
  "storable db srv k \<longleftrightarrow> mget (db_orgs db) (sr_org srv) \<noteq> None \<and> has_server (t_server (k_target k)) db"

lemma storable_tables: "same_tables db db' \<Longrightarrow> storable db' = storable db"
  by (simp add: storable_def has_server_def same_tables_def fun_eq_iff)

lemma has_rule_tables: "same_tables db db' \<Longrightarrow> has_rule rid db' = has_rule rid db"
  by (simp add: has_rule_def same_tables_def)

lemma event_of_simps [simp]:
  "ae_id (event_of cfg n dir srv r s k b v now) = cf_new_id cfg n"
  "ae_org (event_of cfg n dir srv r s k b v now) = sr_org srv"
  "ae_server (event_of cfg n dir srv r s k b v now) = t_server (k_target k)"
  "k_rule k = r_id r \<Longrightarrow> event_key (event_of cfg n dir srv r s k b v now) = k"
  by (simp_all add: event_of_def event_key_def Let_def)

lemma store_accepts:
  assumes "storable db srv k" "cf_new_id cfg n \<notin> ae_id ` set (db_events db)" "b \<Longrightarrow> has_rule (k_rule k) db"
  shows "fst (if b then Fire k v th (event_of cfg n dir srv r s k b v now) db
              else Resolve k v (event_of cfg n dir srv r s k b v now) db) \<noteq> Inl x"
  using assms
  by (auto simp: Fire_def Resolve_def fire_alert_state_def resolve_alert_state_def insert_event_def Let_def
      storable_def has_server_def image_iff split: option.splits sum.splits if_splits)

lemma ready_found: "ready cfg e \<Longrightarrow> found e = e_db e \<and> fault_of e = NoFault"
  by (simp add: ready_def found_def fault_of_def)

text \<open>What a transition comes to then, with everything it leaves alone.\<close>

lemma transition_ready:
  fixes e :: evaluator and cfg dir srv r s k b v now
  defines "e' \<equiv> transition cfg dir srv r s k b v now e"
  assumes "ready cfg e" "storable (e_db e) srv k" "k_rule k = r_id r" "b \<Longrightarrow> has_rule (k_rule k) (e_db e)"
  shows "ready cfg e'" "same_tables (e_db e) (e_db e')" "(mget (e_firing e') k \<noteq> None) = b"
    "j \<noteq> k \<Longrightarrow> mget (e_firing e') j = mget (e_firing e) j"
    "j \<noteq> k \<Longrightarrow> firing_in (e_db e') j = firing_in (e_db e) j"
    "(mget (e_firing e) k \<noteq> None) \<noteq> b \<Longrightarrow> firing_in (e_db e') k = b"
proof -
  have f: "found e = e_db e" "fault_of e = NoFault" using ready_found assms(2) by auto
  have fr: "cf_new_id cfg n \<notin> ae_id ` set (db_events (e_db e))" if "e_minted e \<le> n" for n
    using assms(2) that by (simp add: ready_def)
  have new: "cf_new_id cfg n \<noteq> cf_new_id cfg (e_minted e)" if "e_minted e < n" for n
    using assms(2) that by (auto simp: ready_def inj_def)
  have "ready cfg e' \<and> same_tables (e_db e) (e_db e') \<and> (mget (e_firing e') k \<noteq> None) = b \<and>
    (j \<noteq> k \<longrightarrow> mget (e_firing e') j = mget (e_firing e) j) \<and>
    (j \<noteq> k \<longrightarrow> firing_in (e_db e') j = firing_in (e_db e) j) \<and>
    ((mget (e_firing e) k \<noteq> None) \<noteq> b \<longrightarrow> firing_in (e_db e') k = b)"
  proof (cases rule: transition_cases [of e k b cfg dir srv r s v now])
    case already
    then show ?thesis using assms(2) by (simp add: e'_def)
  next
    case (failed db)
    then show ?thesis
      using store_accepts [of "e_db e" srv k cfg "e_minted e" b v "se_threshold s" dir r s now]
        assms(3,5) fr f by fastforce
  next
    case lost
    then show ?thesis using assms(2) f by (auto simp: e'_def [symmetric] ready_def)
  next
    case won
    then show ?thesis using assms(2) f fr new by (auto simp: e'_def [symmetric] ready_def)
  qed
  then show "ready cfg e'" "same_tables (e_db e) (e_db e')" "(mget (e_firing e') k \<noteq> None) = b"
    "j \<noteq> k \<Longrightarrow> mget (e_firing e') j = mget (e_firing e) j"
    "j \<noteq> k \<Longrightarrow> firing_in (e_db e') j = firing_in (e_db e) j"
    "(mget (e_firing e) k \<noteq> None) \<noteq> b \<Longrightarrow> firing_in (e_db e') k = b" by auto
qed

lemma clear_ready:
  assumes "ready cfg e"
  shows "ready cfg (clear k e)" "same_tables (e_db e) (e_db (clear k e))"
    "mget (e_firing (clear k e)) k = None" "j \<noteq> k \<Longrightarrow> mget (e_firing (clear k e)) j = mget (e_firing e) j"
    "firing_in (e_db (clear k e)) j \<Longrightarrow> firing_in (e_db e) j"
    "mget (e_firing e) k \<noteq> None \<Longrightarrow> \<not> firing_in (e_db (clear k e)) k"
proof -
  have f: "found e = e_db e" "fault_of e = NoFault" using ready_found [OF assms] by auto
  show "ready cfg (clear k e)" "same_tables (e_db e) (e_db (clear k e))"
    "mget (e_firing (clear k e)) k = None" "j \<noteq> k \<Longrightarrow> mget (e_firing (clear k e)) j = mget (e_firing e) j"
    "firing_in (e_db (clear k e)) j \<Longrightarrow> firing_in (e_db e) j"
    "mget (e_firing e) k \<noteq> None \<Longrightarrow> \<not> firing_in (e_db (clear k e)) k"
    using assms f by (auto simp: clear_def call_eq with_fault_def ClearState_def ready_def same_tables_def firing_in_def split: if_splits)
qed

subsection \<open>Thresholds\<close>

text \<open>What \<open>eval_threshold\<close> does to its own alert, and that it touches no other.\<close>

definition threshold_outcome :: "evaluator \<Rightarrow> evaluator \<Rightarrow> target \<Rightarrow> buffer \<Rightarrow> override_map \<Rightarrow> rule \<Rightarrow> bool" where
  "threshold_outcome e e' t buf ovs r \<longleftrightarrow>
     (let k = \<lparr>k_rule = r_id r, k_target = t\<rparr>; s = effective r (mget ovs k) in
      if \<not> se_enabled s then mget (e_firing e') k = None
      else case average (r_metric r) (se_duration s) buf of
             None \<Rightarrow> mget (e_firing e') k = mget (e_firing e) k
           | Some avg \<Rightarrow> (mget (e_firing e') k \<noteq> None) = flt (se_threshold s) avg)"

lemma eval_threshold_step:
  fixes e :: evaluator and cfg dir srv t buf ovs now r
  defines "e' \<equiv> eval_threshold cfg dir srv t buf ovs now r e"
  assumes "ready cfg e" "storable (e_db e) srv \<lparr>k_rule = r_id r, k_target = t\<rparr>" "has_rule (r_id r) (e_db e)"
  shows "ready cfg e'" "same_tables (e_db e) (e_db e')"
    "k_rule j \<noteq> r_id r \<Longrightarrow> mget (e_firing e') j = mget (e_firing e) j"
    "r_kind r = target_kind_of t \<Longrightarrow> r_metric r \<noteq> MetricDown \<Longrightarrow> threshold_outcome e e' t buf ovs r"
proof -
  define k where "k = \<lparr>k_rule = r_id r, k_target = t\<rparr>"
  note tr = transition_ready [where cfg = cfg and e = e and srv = srv and k = k and r = r and dir = dir
      and s = "effective r (mget ovs k)" and now = now]
  note cl = clear_ready [OF assms(2), where k = k]
  have st: "storable (e_db e) srv k" "k_rule k = r_id r" "has_rule (k_rule k) (e_db e)"
    using assms(3,4) by (simp_all add: k_def)
  have ne: "k_rule j \<noteq> r_id r \<Longrightarrow> j \<noteq> k" using st(2) by auto
  have d: "e' = (if r_kind r \<noteq> target_kind_of t \<or> r_metric r = MetricDown then e
      else if \<not> se_enabled (effective r (mget ovs k)) then clear k e
      else case average (r_metric r) (se_duration (effective r (mget ovs k))) buf of None \<Rightarrow> e
        | Some avg \<Rightarrow> transition cfg dir srv r (effective r (mget ovs k)) k
            (flt (se_threshold (effective r (mget ovs k))) avg) avg now e)"
    by (simp add: e'_def eval_threshold_def Let_def k_def split: option.split)
  show "ready cfg e'" "same_tables (e_db e) (e_db e')"
    using assms(2) st tr(1,2) cl(1,2) by (auto simp: d split: option.split)
  show "k_rule j \<noteq> r_id r \<Longrightarrow> mget (e_firing e') j = mget (e_firing e) j"
    using ne assms(2) st tr(4) [where j = j] cl(4) [where j = j] by (auto simp: d split: option.split)
  show "r_kind r = target_kind_of t \<Longrightarrow> r_metric r \<noteq> MetricDown \<Longrightarrow> threshold_outcome e e' t buf ovs r"
    using assms(2) st tr(3) cl(3) unfolding threshold_outcome_def Let_def k_def [symmetric]
    by (auto simp: d split: option.split)
qed

lemma eval_threshold_fold:
  fixes e :: evaluator and cfg dir srv t buf ovs now rs
  assumes "ready cfg e" "\<forall>r \<in> set rs. storable (e_db e) srv \<lparr>k_rule = r_id r, k_target = t\<rparr> \<and> has_rule (r_id r) (e_db e)"
  defines "e' \<equiv> fold (eval_threshold cfg dir srv t buf ovs now) rs e"
  shows "ready cfg e' \<and> same_tables (e_db e) (e_db e') \<and>
    (\<forall>j. k_rule j \<notin> r_id ` set rs \<longrightarrow> mget (e_firing e') j = mget (e_firing e) j)"
  using assms(1,2) unfolding e'_def
proof (induction rs arbitrary: e)
  case (Cons r rs)
  note s = eval_threshold_step [where cfg = cfg and e = e and srv = srv and r = r and t = t and dir = dir
      and buf = buf and ovs = ovs and now = now]
  let ?e1 = "eval_threshold cfg dir srv t buf ovs now r e"
  have e1: "ready cfg ?e1" "same_tables (e_db e) (e_db ?e1)" using s(1,2) Cons.prems by auto
  have "\<forall>r \<in> set rs. storable (e_db ?e1) srv \<lparr>k_rule = r_id r, k_target = t\<rparr> \<and> has_rule (r_id r) (e_db ?e1)"
    using Cons.prems(2) storable_tables [OF e1(2)] has_rule_tables [OF e1(2)] by auto
  note ih = Cons.IH [OF e1(1) this]
  moreover have "mget (e_firing ?e1) j = mget (e_firing e) j" if "k_rule j \<noteq> r_id r" for j
    using s(3) [where j = j] that Cons.prems by auto
  ultimately show ?case using same_tables_trans [OF e1(2)] by auto
qed simp

text \<open>C11. While the store answers and nobody else writes, evaluating a target leaves each threshold rule
  firing if and only if it is enabled for the target and the average over its window exceeds its
  effective threshold, where the buffer holds enough for an average; where it does not, an enabled
  rule's alert is as it was.\<close>

theorem thresholds_decide:
  assumes "ready cfg e" "mget (e_buffers e) t = Some buf" "distinct (map r_id rs)" "r \<in> set rs"
    and "\<forall>r \<in> set rs. storable (e_db e) srv \<lparr>k_rule = r_id r, k_target = t\<rparr> \<and> has_rule (r_id r) (e_db e)"
    and "r_kind r = target_kind_of t" "r_metric r \<noteq> MetricDown"
  shows "threshold_outcome e (eval_thresholds cfg dir srv rs ovs now t e) t buf ovs r"
proof -
  obtain xs ys where rs: "rs = xs @ r # ys" using assms(4) by (meson split_list)
  let ?f = "eval_threshold cfg dir srv t buf ovs now" and ?k = "\<lparr>k_rule = r_id r, k_target = t\<rparr>"
  define e1 e2 where "e1 = fold ?f xs e" and "e2 = ?f r e1"
  have e': "eval_thresholds cfg dir srv rs ovs now t e = fold ?f ys e2"
    by (simp add: eval_thresholds_def assms(2) rs e1_def e2_def)
  have out: "r_id r \<notin> r_id ` set xs" "r_id r \<notin> r_id ` set ys" using assms(3) rs by auto
  have a: "ready cfg e1" "same_tables (e_db e) (e_db e1)" "mget (e_firing e1) ?k = mget (e_firing e) ?k"
    using eval_threshold_fold [OF assms(1), of xs srv t dir buf ovs now] assms(5) out rs by (auto simp: e1_def)
  have "storable (e_db e1) srv ?k" "has_rule (r_id r) (e_db e1)"
    using assms(5) rs storable_tables [OF a(2)] has_rule_tables [OF a(2)] by auto
  note b = eval_threshold_step [OF a(1) this, where dir = dir and buf = buf and ovs = ovs and now = now]
  have t: "same_tables (e_db e) (e_db e2)" using same_tables_trans [OF a(2)] b(2) by (simp add: e2_def)
  have "\<forall>r \<in> set ys. storable (e_db e2) srv \<lparr>k_rule = r_id r, k_target = t\<rparr> \<and> has_rule (r_id r) (e_db e2)"
    using assms(5) rs storable_tables [OF t] has_rule_tables [OF t] by auto
  then have "mget (e_firing (fold ?f ys e2)) ?k = mget (e_firing e2) ?k"
    using eval_threshold_fold [of cfg e2 ys srv t dir buf ovs now] b(1) out by (auto simp: e2_def)
  moreover have "threshold_outcome e1 e2 t buf ovs r" using b(4) assms(6,7) by (simp add: e2_def)
  ultimately show ?thesis using a(3) unfolding threshold_outcome_def Let_def e'
    by (auto split: option.splits if_splits)
qed

subsection \<open>Heartbeats\<close>

text \<open>One alert of a server that reports: it is no longer firing, and no other alert starts to.\<close>

lemma hear_key_step:
  fixes e :: evaluator and cfg dir srv rs ovs now k
  defines "e' \<equiv> hear_key cfg dir srv rs ovs now k e"
  assumes "ready cfg e" "storable (e_db e) srv k"
  shows "ready cfg e'" "same_tables (e_db e) (e_db e')" "mget (e_firing e') k = None"
    "mget (e_firing e') j \<noteq> None \<Longrightarrow> mget (e_firing e') j = mget (e_firing e) j"
    "firing_in (e_db e') j \<Longrightarrow> firing_in (e_db e) j"
    "k_rule k \<in> r_id ` set rs \<Longrightarrow> mget (e_firing e) k \<noteq> None \<Longrightarrow> \<not> firing_in (e_db e') k"
    "j \<noteq> k \<Longrightarrow> mget (e_firing e') j = mget (e_firing e) j"
proof -
  note cl = clear_ready [OF assms(2), where k = k]
  have "ready cfg e' \<and> same_tables (e_db e) (e_db e') \<and> mget (e_firing e') k = None \<and>
    (\<forall>j. (mget (e_firing e') j \<noteq> None \<longrightarrow> mget (e_firing e') j = mget (e_firing e) j) \<and>
         (firing_in (e_db e') j \<longrightarrow> firing_in (e_db e) j) \<and>
         (j \<noteq> k \<longrightarrow> mget (e_firing e') j = mget (e_firing e) j)) \<and>
    (k_rule k \<in> r_id ` set rs \<longrightarrow> mget (e_firing e) k \<noteq> None \<longrightarrow> \<not> firing_in (e_db e') k)"
  proof (cases "find (\<lambda>r. r_id r = k_rule k) (rev rs)")
    case None
    then have "k_rule k \<notin> r_id ` set rs" by (auto simp: find_None_iff)
    then show ?thesis using None assms(2) by (auto simp: e'_def hear_key_def ready_def)
  next
    case (Some r)
    then have kr: "k_rule k = r_id r" by (auto simp: find_Some_iff)
    note tr = transition_ready [where e = e and cfg = cfg and srv = srv and k = k and r = r and dir = dir
        and s = "effective r (mget ovs k)" and v = "Fin 0" and now = now and b = False, OF assms(2,3) kr]
    show ?thesis
    proof (cases "se_enabled (effective r (mget ovs k))")
      case False
      then have "e' = clear k e" by (simp add: e'_def hear_key_def Some Let_def)
      moreover have "mget (e_firing (clear k e)) j = (if j = k then None else mget (e_firing e) j)" for j
        using cl(3) cl(4) [where j = j] by auto
      ultimately show ?thesis using cl(1,2,5,6) by auto
    next
      case True
      then have e': "e' = transition cfg dir srv r (effective r (mget ovs k)) k False (Fin 0) now e"
        by (simp add: e'_def hear_key_def Some Let_def)
      have m: "mget (e_firing e') j = (if j = k then None else mget (e_firing e) j)" for j
        using tr(3) tr(4) [where j = j] by (auto simp: e')
      have "firing_in (e_db e') j \<Longrightarrow> firing_in (e_db e) j" for j
      proof (cases "mget (e_firing e) k = None")
        case True
        then have "e' = e" unfolding e' by (simp add: transition_def)
        then show "firing_in (e_db e') j \<Longrightarrow> firing_in (e_db e) j" by simp
      next
        case False
        then show "firing_in (e_db e') j \<Longrightarrow> firing_in (e_db e) j"
          using tr(5) [where j = j] tr(6) by (cases "j = k") (auto simp: e')
      qed
      then show ?thesis using tr(1,2,6) m by (auto simp: e')
    qed
  qed
  then show "ready cfg e'" "same_tables (e_db e) (e_db e')" "mget (e_firing e') k = None"
    "mget (e_firing e') j \<noteq> None \<Longrightarrow> mget (e_firing e') j = mget (e_firing e) j"
    "firing_in (e_db e') j \<Longrightarrow> firing_in (e_db e) j"
    "k_rule k \<in> r_id ` set rs \<Longrightarrow> mget (e_firing e) k \<noteq> None \<Longrightarrow> \<not> firing_in (e_db e') k"
    "j \<noteq> k \<Longrightarrow> mget (e_firing e') j = mget (e_firing e) j" by auto
qed

lemma hear_keys_fold:
  fixes e :: evaluator and cfg dir srv rs ovs now ks
  assumes "ready cfg e" "\<forall>k \<in> set ks. storable (e_db e) srv k"
  defines "e' \<equiv> fold (hear_key cfg dir srv rs ovs now) ks e"
  shows "(\<forall>k \<in> set ks. mget (e_firing e') k = None) \<and>
    (\<forall>j. mget (e_firing e') j \<noteq> None \<longrightarrow> mget (e_firing e') j = mget (e_firing e) j) \<and>
    (\<forall>j. firing_in (e_db e') j \<longrightarrow> firing_in (e_db e) j) \<and>
    (\<forall>k \<in> set ks. k_rule k \<in> r_id ` set rs \<longrightarrow> mget (e_firing e) k \<noteq> None \<longrightarrow> \<not> firing_in (e_db e') k)"
  using assms(1,2) unfolding e'_def
proof (induction ks arbitrary: e)
  case (Cons k ks)
  let ?e1 = "hear_key cfg dir srv rs ovs now k e"
  note s = hear_key_step [where e = e and cfg = cfg and dir = dir and srv = srv and rs = rs and ovs = ovs
      and now = now and k = k]
  have e1: "ready cfg ?e1" "same_tables (e_db e) (e_db ?e1)" "mget (e_firing ?e1) k = None" using s(1-3) Cons.prems by auto
  have sh: "mget (e_firing ?e1) j \<noteq> None \<Longrightarrow> mget (e_firing ?e1) j = mget (e_firing e) j"
    "firing_in (e_db ?e1) j \<Longrightarrow> firing_in (e_db e) j"
    "j \<noteq> k \<Longrightarrow> mget (e_firing ?e1) j = mget (e_firing e) j" for j
    using s(4,5,7) [where j = j] Cons.prems by auto
  have kf: "k_rule k \<in> r_id ` set rs \<Longrightarrow> mget (e_firing e) k \<noteq> None \<Longrightarrow> \<not> firing_in (e_db ?e1) k"
    using s(6) Cons.prems by auto
  have "\<forall>k \<in> set ks. storable (e_db ?e1) srv k" using Cons.prems(2) storable_tables [OF e1(2)] by auto
  note ih = Cons.IH [OF e1(1) this]
  have "mget (e_firing (fold (hear_key cfg dir srv rs ovs now) ks ?e1)) k = None"
    using ih e1(3) by metis
  moreover have "\<not> firing_in (e_db (fold (hear_key cfg dir srv rs ovs now) ks ?e1)) j"
    if "j \<in> set ks" "k_rule j \<in> r_id ` set rs" "mget (e_firing e) j \<noteq> None" for j
    using that ih kf sh(3) [of j] by (cases "j = k") auto
  moreover have "mget (e_firing (fold (hear_key cfg dir srv rs ovs now) ks ?e1)) j = mget (e_firing e) j"
    if "mget (e_firing (fold (hear_key cfg dir srv rs ovs now) ks ?e1)) j \<noteq> None" for j
    using that ih sh(1) [of j] by metis
  ultimately show ?case using ih sh(2) kf by auto
qed simp

lemma rules_ready:
  assumes "e_env e = []"
  shows "rules org e = (Some (org_rules_of (e_db e) org, org_overrides_of (e_db e) org), e)"
proof -
  have e: "e\<lparr>e_env := []\<rparr> = e" "e\<lparr>e_db := e_db e, e_env := []\<rparr> = e" using assms by (cases e; simp)+
  show ?thesis using assms
    by (simp add: rules_def call_def with_fault_def ListRules_def ListOverrides_def org_rules_of_def
        org_overrides_of_def e)
qed

text \<open>C13. A heartbeat ends the down alerts this evaluator holds: while the store answers, nobody else
  writes, and the directory is fresh and knows the server, after it nothing that the evaluator holds as
  firing is a down alert of that server, and every one that it held before for a rule of the
  organization is stored as not firing. A down alert that only another replica holds is that replica's
  to end.\<close>

theorem heartbeat_resolves_down:
  assumes "ready cfg e" "directory_fresh now sid e" "mget (dir_servers (dir_of e)) sid = Some srv"
    and "mget (db_orgs (e_db e)) (sr_org srv) \<noteq> None" "has_server sid (e_db e)"
    and "k_target k = \<lparr>t_server = sid, t_app = []\<rparr>"
  shows "mget (e_firing (ObserveHeartbeat cfg sid now e)) k \<noteq> Some MetricDown \<and>
    (mget (e_firing e) k = Some MetricDown \<and> k_rule k \<in> r_id ` set (org_rules_of (e_db e) (sr_org srv)) \<longrightarrow>
       \<not> firing_in (e_db (ObserveHeartbeat cfg sid now e)) k)"
proof -
  let ?e1 = "e\<lparr>e_heard := mput sid now (e_heard e)\<rparr>"
  let ?down = "down_keys sid ?e1"
  let ?rs = "org_rules_of (e_db e) (sr_org srv)" and ?ovs = "org_overrides_of (e_db e) (sr_org srv)"
  have down: "k \<in> set ?down" if "mget (e_firing e) k = Some MetricDown"
    using map_of_SomeD [OF that] assms(6) by (force simp: down_keys_def)
  have r1: "ready cfg ?e1" using assms(1) by (simp add: ready_def)
  have st: "\<forall>k \<in> set ?down. storable (e_db ?e1) srv k"
    using assms(4,5) by (auto simp: down_keys_def storable_def)
  have h: "ObserveHeartbeat cfg sid now e =
      (if ?down = [] then ?e1 else fold (hear_key cfg (dir_of e) srv ?rs ?ovs now) ?down ?e1)"
    using assms(1,2,3) by (simp add: ObserveHeartbeat_def directory_def hear_def rules_ready ready_def Let_def)
  show ?thesis
  proof (cases "?down = []")
    case True
    then show ?thesis using down by (auto simp: h)
  next
    case False
    then show ?thesis
      using hear_keys_fold [OF r1 st, of "dir_of e" ?rs ?ovs now] down by (auto simp: h)
  qed
qed

subsection \<open>The directory\<close>

text \<open>Asking for the directory makes at most one store call: none while the last reload is
  good, which it is for a minute for a known server and for five seconds for any; a failed reload keeps
  the old directory and all state; after a reload everything the evaluator remembers belongs to a server
  or an app that exists.\<close>

theorem directory_reload:
  assumes "directory now sid e = (d, e')"
  shows "directory_fresh now sid e \<and> d = dir_of e \<and> e' = e
    \<or> \<not> directory_fresh now sid e \<and> d = dir_of e \<and> e' = e\<lparr>e_db := e_db e', e_env := tl (e_env e), e_writes := e_writes e'\<rparr>
    \<or> \<not> directory_fresh now sid e \<and> d = db_dir (found e) \<and> e_dir e' = Some d \<and> e_env e' = tl (e_env e) \<and>
      (\<forall>t. mget (e_buffers e') t = (if target_exists d t then mget (e_buffers e) t else None)) \<and>
      (\<forall>t. mget (e_problem e') t = (if target_exists d t then mget (e_problem e) t else None)) \<and>
      (\<forall>k. mget (e_firing e') k = (if target_exists d (k_target k) then mget (e_firing e) k else None)) \<and>
      (\<forall>i. mget (e_heard e') i = (if mget (dir_servers d) i \<noteq> None then mget (e_heard e) i else None)) \<and>
      (\<forall>later i. directory_fresh later i e' \<longleftrightarrow> later - now < directoryTTL \<and>
         (i = [] \<or> mget (dir_servers d) i \<noteq> None \<or> later - now < directoryRetry))"
proof (cases "directory_fresh now sid e")
  case True
  then show ?thesis using assms by (auto simp: directory_def)
next
  case False
  show ?thesis
  proof (cases "fst (call Directory e)")
    case (Inl x)
    then have "d = dir_of e" "e' = snd (call Directory e)"
      using assms False by (simp_all add: directory_def split_beta dir_of_def)
    then show ?thesis using False by (simp add: call_eq split_beta)
  next
    case (Inr d0)
    have d0: "d0 = db_dir (found e)" using call_Inr [OF Inr] unfolding Directory_def by blast
    have e': "d = d0" "e' = prune_targets d0 (snd (call Directory e)\<lparr>e_dir := Some d0, e_dir_at := now\<rparr>)"
      using assms False Inr by (auto simp: directory_def split_beta)
    have "directory_fresh later i e' \<longleftrightarrow> later - now < directoryTTL \<and>
         (i = [] \<or> mget (dir_servers d) i \<noteq> None \<or> later - now < directoryRetry)" for later i
      by (simp add: directory_fresh_def dir_of_def e' prune_targets_def time_sub_lt Let_def
          directoryTTL_def directoryRetry_def minute_def second_def min_duration_def max_duration_def)
    then show ?thesis using False d0 by (simp add: e' prune_targets_def)
  qed
qed

lemma directory_reload_witness:
  "\<exists>d e'. directory 5 ''s1'' (NewEvaluator 0 demo_db []) = (d, e') \<and> d = demo_dir \<and> directory_fresh 6 ''new'' e'"
proof -
  let ?e = "NewEvaluator 0 demo_db []"
  obtain d e' where r: "directory 5 ''s1'' ?e = (d, e')" by (rule prod.exhaust)
  have "\<not> directory_fresh 5 ''s1'' ?e" by (simp add: directory_fresh_def NewEvaluator_def)
  moreover have "d = demo_dir"
    using r by (auto simp: directory_def directory_fresh_def NewEvaluator_def call_def with_fault_def Directory_def)
  ultimately show ?thesis
    using directory_reload [OF r] r
    by (auto simp: dir_of_def NewEvaluator_def directoryTTL_def directoryRetry_def minute_def second_def)
qed

text \<open>A server that was silent for ten minutes, then reports.\<close>

abbreviation demo_eval :: "adb \<Rightarrow> evaluator" where
  "demo_eval db \<equiv> NewEvaluator 0 db []\<lparr>e_firing_loaded := True, e_dir := Some demo_dir, e_dir_at := 10 * minute\<rparr>"

lemma demo_ready: "ready demo_cfg (demo_eval demo_db)"
  using demo_inj by (simp add: ready_def NewEvaluator_def)

lemma demo_effective: "effective demo_rule None = \<lparr>se_enabled = True, se_threshold = Fin 0, se_duration = 5 * minute, se_channels = None\<rparr>"
  by (simp add: effective_def)

lemma sweep_fires_only_silent_witness:
  "mget (e_firing (Sweep demo_cfg (10 * minute) (demo_eval demo_db))) demo_key \<noteq> None \<and>
   (\<exists>r \<in> set (db_rules (e_db (demo_eval demo_db))). down_due demo_cfg (demo_eval demo_db) (10 * minute) r demo_key)"
proof -
  let ?e = "demo_eval demo_db"
  have fresh: "directory_fresh (10 * minute) [] ?e"
    by (simp add: directory_fresh_def time_sub_def directoryTTL_def minute_def min_duration_def max_duration_def)
  have rr: "rules ''o1'' ?e = (Some ([demo_rule], []), ?e)"
    using rules_ready [of ?e "''o1''"]
    by (simp add: NewEvaluator_def org_rules_of_def org_overrides_of_def override_map_def)
  have sil: "time_sub 600000000000 0 = 600000000000"
    by (simp add: time_sub_def min_duration_def max_duration_def)
  have fg: "forget_deleted_rules demo_dir ''o1'' [demo_rule] ?e = ?e"
    by (simp add: forget_deleted_rules_def NewEvaluator_def mkeep_def)
  have s: "Sweep demo_cfg (10 * minute) ?e = transition demo_cfg demo_dir \<lparr>sr_id = ''s1'', sr_org = ''o1'', sr_name = ''web''\<rparr>
      demo_rule (effective demo_rule None) demo_key True (duration_minutes (10 * minute)) (10 * minute) ?e"
    using fresh rr fg
    by (simp add: Sweep_def directory_def dir_of_def sweep_server_def sweep_org_def sweep_rule_def Let_def
        demo_effective sil NewEvaluator_def minute_def)
  have "mget (e_firing (Sweep demo_cfg (10 * minute) ?e)) demo_key \<noteq> None"
    unfolding s using transition_ready(3) [OF demo_ready, of "\<lparr>sr_id = ''s1'', sr_org = ''o1'', sr_name = ''web''\<rparr>"
        demo_key demo_rule True demo_dir "effective demo_rule None" "duration_minutes (10 * minute)" "10 * minute"]
    by (simp add: storable_def has_server_def has_rule_def NewEvaluator_def)
  moreover have "\<exists>r \<in> set (db_rules (e_db ?e)). down_due demo_cfg ?e (10 * minute) r demo_key"
    by (rule sweep_fires_only_silent [OF _ disjI2 [OF calculation]])
      (simp_all add: alone_def NewEvaluator_def firing_in_def)
  ultimately show ?thesis by blast
qed

lemma heartbeat_resolves_down_witness:
  "\<exists>e. mget (e_firing e) demo_key = Some MetricDown \<and>
     mget (e_firing (ObserveHeartbeat demo_cfg ''s1'' (10 * minute) e)) demo_key \<noteq> Some MetricDown"
proof -
  let ?e = "(demo_eval demo_firing_db)\<lparr>e_firing := [(demo_key, MetricDown)]\<rparr>"
  have "ready demo_cfg ?e" using demo_inj by (simp add: ready_def NewEvaluator_def)
  moreover have "directory_fresh (10 * minute) ''s1'' ?e"
    by (simp add: directory_fresh_def dir_of_def time_sub_def directoryTTL_def minute_def min_duration_def max_duration_def)
  ultimately have "mget (e_firing (ObserveHeartbeat demo_cfg ''s1'' (10 * minute) ?e)) demo_key \<noteq> Some MetricDown"
    using heartbeat_resolves_down [of demo_cfg ?e "10 * minute" "''s1''"
        "\<lparr>sr_id = ''s1'', sr_org = ''o1'', sr_name = ''web''\<rparr>" demo_key]
    by (simp add: dir_of_def NewEvaluator_def has_server_def)
  moreover have "mget (e_firing ?e) demo_key = Some MetricDown" by simp
  ultimately show ?thesis by blast
qed

abbreviation demo_cpu_rule :: rule where
  "demo_cpu_rule \<equiv> demo_rule\<lparr>r_metric := MetricCPU, r_threshold := Fin 90, r_minutes := 1\<rparr>"

lemma thresholds_decide_witness:
  "\<exists>e srv. let t = \<lparr>t_server = ''s1'', t_app = []\<rparr>; buf = [\<lparr>p_at = 0, p_values = [(MetricCPU, Fin 95)]\<rparr>] in
     mget (e_buffers e) t = Some buf \<and>
     threshold_outcome e (eval_thresholds demo_cfg demo_dir srv [demo_cpu_rule] [] 0 t e) t buf [] demo_cpu_rule"
proof -
  let ?t = "\<lparr>t_server = ''s1'', t_app = []\<rparr>" and ?buf = "[\<lparr>p_at = 0, p_values = [(MetricCPU, Fin 95)]\<rparr>]"
  let ?e = "(demo_eval (demo_db\<lparr>db_rules := [demo_cpu_rule]\<rparr>))\<lparr>e_buffers := [(?t, ?buf)]\<rparr>"
  let ?srv = "\<lparr>sr_id = ''s1'', sr_org = ''o1'', sr_name = ''web''\<rparr>"
  have "ready demo_cfg ?e" using demo_inj by (simp add: ready_def NewEvaluator_def)
  then have "threshold_outcome ?e (eval_thresholds demo_cfg demo_dir ?srv [demo_cpu_rule] [] 0 ?t ?e) ?t ?buf [] demo_cpu_rule"
    by (rule thresholds_decide)
      (simp_all add: storable_def has_rule_def has_server_def NewEvaluator_def target_kind_of_def)
  moreover have "mget (e_buffers ?e) ?t = Some ?buf" by simp
  ultimately show ?thesis unfolding Let_def by blast
qed

end
