(* ===== verification/Utf8.thy ===== *)
theory Utf8
  imports Prelude
begin

text \<open>
  UTF-8 as Go's \<open>unicode/utf8\<close> reads it, on byte strings: the length of the encoded rune a
  string starts with, validity, \<open>strings.ToValidUTF8\<close> and \<open>utf8.RuneStart\<close>. The lemmas say that
  the repaired string is valid and that a valid string cut at the start of a rune stays valid.
\<close>

definition byte :: "char \<Rightarrow> nat" where "byte c = of_char c"

definition between :: "nat \<Rightarrow> nat \<Rightarrow> char \<Rightarrow> bool" where
  "between lo hi c \<longleftrightarrow> lo \<le> byte c \<and> byte c \<le> hi"

abbreviation cont :: "char \<Rightarrow> bool" where "cont \<equiv> between 0x80 0xBF"

text \<open>The bounds of the second byte of a three- and a four-byte rune, by its first byte.\<close>

definition second3 :: "char \<Rightarrow> char \<Rightarrow> bool" where
  "second3 a b \<longleftrightarrow> (if byte a = 0xE0 then between 0xA0 0xBF b
     else if byte a = 0xED then between 0x80 0x9F b else cont b)"

definition second4 :: "char \<Rightarrow> char \<Rightarrow> bool" where
  "second4 a b \<longleftrightarrow> (if byte a = 0xF0 then between 0x90 0xBF b
     else if byte a = 0xF4 then between 0x80 0x8F b else cont b)"

text \<open>The length of the valid rune at the front, 0 where there is none.\<close>

fun rune_len :: "string \<Rightarrow> nat" where
  "rune_len [] = 0"
| "rune_len (a # s) =
     (if byte a < 0x80 then 1
      else case s of [] \<Rightarrow> 0
      | b # s1 \<Rightarrow>
        if between 0xC2 0xDF a then (if cont b then 2 else 0)
        else case s1 of [] \<Rightarrow> 0
        | c # s2 \<Rightarrow>
          if between 0xE0 0xEF a then (if second3 a b \<and> cont c then 3 else 0)
          else case s2 of [] \<Rightarrow> 0
          | d # _ \<Rightarrow> if between 0xF0 0xF4 a \<and> second4 a b \<and> cont c \<and> cont d then 4 else 0)"

declare rune_len.simps [simp del]

definition rune_start :: "char \<Rightarrow> bool" where
  "rune_start c \<longleftrightarrow> \<not> cont c"

lemma rune_len_le: "rune_len s \<le> length s"
  by (cases s) (auto simp: rune_len.simps split: list.split)

function valid_utf8 :: "string \<Rightarrow> bool" where
  "valid_utf8 s =
     (if s = [] then True else if rune_len s = 0 then False else valid_utf8 (drop (rune_len s) s))"
  by pat_completeness auto
termination by (relation "measure length") auto

declare valid_utf8.simps [simp del]

text \<open>\<open>strings.ToValidUTF8\<close>: each run of bytes that are no rune becomes one \<open>rep\<close>; \<open>bad\<close> says
  that the last byte read was one of a run.\<close>

function to_valid :: "string \<Rightarrow> bool \<Rightarrow> string \<Rightarrow> string" where
  "to_valid rep bad s =
     (case s of [] \<Rightarrow> []
      | c # r \<Rightarrow>
        if rune_len s = 0 then (if bad then [] else rep) @ to_valid rep True r
        else take (rune_len s) s @ to_valid rep False (drop (rune_len s) s))"
  by pat_completeness auto
termination by (relation "measure (\<lambda>(rep, bad, s). length s)") auto

declare to_valid.simps [simp del]

definition replacement_rune :: string where
  "replacement_rune = [CHR 0xEF, CHR 0xBF, CHR 0xBD]"

definition ellipsis :: string where
  "ellipsis = [CHR 0xE2, CHR 0x80, CHR 0xA6]"

definition ToValidUTF8 :: "string \<Rightarrow> string" where
  "ToValidUTF8 s = to_valid replacement_rune False s"

subsection \<open>Facts\<close>

text \<open>A rune's length is decided by its own bytes, and the bytes after the first continue it.\<close>

lemma rune_len_take:
  assumes "rune_len s \<noteq> 0"
  shows "rune_len (take (rune_len s) s @ t) = rune_len s"
proof (cases s)
  case (Cons a r)
  show ?thesis using assms unfolding Cons
    by (cases r; cases "tl r"; cases "tl (tl r)") (auto simp: rune_len.simps split: if_splits)
qed (use assms in \<open>simp add: rune_len.simps\<close>)

lemma rune_len_cont:
  assumes "0 < i" "i < rune_len s"
  shows "\<not> rune_start (s ! i)"
proof (cases s)
  case (Cons a r)
  have c: "cont b" if "second3 a b \<or> second4 a b" for a b
    using that by (auto simp: second3_def second4_def between_def split: if_splits)
  have "rune_len s \<le> 4" by (auto simp: Cons rune_len.simps split: list.split)
  with assms consider "i = 1" | "i = 2" | "i = 3" by linarith
  then show ?thesis using assms c [of a]
    by cases (auto simp: Cons rune_len.simps rune_start_def split: list.splits if_splits)
qed (use assms in \<open>simp add: rune_len.simps\<close>)

lemma valid_utf8_append:
  "valid_utf8 s \<Longrightarrow> valid_utf8 t \<Longrightarrow> valid_utf8 (s @ t)"
proof (induction s rule: valid_utf8.induct)
  case (1 s)
  show ?case
  proof (cases "s = []")
    case False
    with "1.prems"(1) have n: "rune_len s \<noteq> 0" and v: "valid_utf8 (drop (rune_len s) s)"
      by (simp_all add: valid_utf8.simps [of s] split: if_splits)
    have "rune_len (s @ t) = rune_len s"
      using rune_len_take [OF n, of "drop (rune_len s) s @ t"] by (metis append.assoc append_take_drop_id)
    then show ?thesis
      using "1.IH" [OF False n v "1.prems"(2)] n False rune_len_le [of s] by (simp add: valid_utf8.simps [of "s @ t"])
  qed (use 1 in simp)
qed

lemma valid_rune: "rune_len s \<noteq> 0 \<Longrightarrow> valid_utf8 (take (rune_len s) s)"
  using rune_len_take [of s "[]"] rune_len_le [of s] by (simp add: valid_utf8.simps)

lemma to_valid_valid: "valid_utf8 rep \<Longrightarrow> valid_utf8 (to_valid rep bad s)"
proof (induction rep bad s rule: to_valid.induct)
  case (1 rep bad s)
  show ?case
  proof (cases s)
    case (Cons c r)
    show ?thesis
    proof (cases "rune_len s = 0")
      case True
      with 1 Cons show ?thesis
        by (subst to_valid.simps) (auto intro!: valid_utf8_append simp: valid_utf8.simps [of "[]"])
    next
      case False
      with 1(2) Cons have "valid_utf8 (to_valid rep False (drop (rune_len s) s))" using 1(3) by blast
      then show ?thesis using Cons False valid_utf8_append [OF valid_rune [OF False]]
        by (subst to_valid.simps) simp
    qed
  qed (simp add: to_valid.simps valid_utf8.simps)
qed

lemma ToValidUTF8_valid: "valid_utf8 (ToValidUTF8 s)"
  unfolding ToValidUTF8_def
  by (rule to_valid_valid)
    (simp add: replacement_rune_def valid_utf8.simps rune_len.simps byte_def between_def second3_def)

lemma ToValidUTF8_same: "valid_utf8 s \<Longrightarrow> to_valid rep bad s = s"
proof (induction s arbitrary: bad rule: valid_utf8.induct)
  case (1 s)
  show ?case
  proof (cases s)
    case (Cons a r)
    then have n: "rune_len s \<noteq> 0" and v: "valid_utf8 (drop (rune_len s) s)"
      using "1.prems" valid_utf8.simps [of s] by (auto split: if_splits)
    then show ?thesis using "1.IH" [OF _ n v] Cons by (subst to_valid.simps) simp
  qed (simp add: to_valid.simps)
qed

text \<open>A valid string cut where a rune starts.\<close>

lemma valid_utf8_take:
  "valid_utf8 s \<Longrightarrow> i = 0 \<or> i < length s \<and> rune_start (s ! i) \<Longrightarrow> valid_utf8 (take i s)"
proof (induction s arbitrary: i rule: valid_utf8.induct)
  case (1 s)
  show ?case
  proof (cases "i = 0 \<or> s = []")
    case False
    with "1.prems" have n: "rune_len s \<noteq> 0" and v: "valid_utf8 (drop (rune_len s) s)"
      and i: "i < length s" "rune_start (s ! i)"
      by (auto simp: valid_utf8.simps [of s] split: if_splits)
    have le: "rune_len s \<le> i" using rune_len_cont [of i s] False i(2) by fastforce
    have "valid_utf8 (take (i - rune_len s) (drop (rune_len s) s))"
      using "1.IH" [OF _ n v, of "i - rune_len s"] False i le by (cases "i = rune_len s") auto
    moreover have "take i s = take (rune_len s) s @ take (i - rune_len s) (drop (rune_len s) s)"
      using le by (metis le_add_diff_inverse take_add)
    ultimately show ?thesis using valid_utf8_append [OF valid_rune [OF n]] by simp
  qed (auto simp: valid_utf8.simps)
qed

text \<open>Every byte of a valid string is at most three bytes after the start of its rune.\<close>

lemma rune_len_start: "rune_len s \<noteq> 0 \<Longrightarrow> rune_len s \<le> 4 \<and> rune_start (s ! 0)"
  by (cases s) (auto simp: rune_len.simps rune_start_def between_def split: list.splits if_splits)

lemma start_near:
  assumes "valid_utf8 s" "i < length s"
  shows "\<exists>j. j \<le> i \<and> i \<le> j + 3 \<and> rune_start (s ! j)"
  using assms
proof (induction s arbitrary: i rule: valid_utf8.induct)
  case (1 s)
  then have n: "rune_len s \<noteq> 0" and v: "valid_utf8 (drop (rune_len s) s)" and ne: "s \<noteq> []"
    using valid_utf8.simps [of s] by (auto split: if_splits)
  show ?case
  proof (cases "i < rune_len s")
    case True
    then show ?thesis using rune_len_start [OF n] by (intro exI [of _ 0]) auto
  next
    case False
    have "\<exists>j. j \<le> i - rune_len s \<and> i - rune_len s \<le> j + 3 \<and> rune_start (drop (rune_len s) s ! j)"
      using "1.IH" [OF ne n v] "1.prems"(2) False by simp
    then obtain j where "j \<le> i - rune_len s" "i - rune_len s \<le> j + 3" "rune_start (drop (rune_len s) s ! j)" by blast
    then show ?thesis using False rune_len_le [of s] by (intro exI [of _ "rune_len s + j"]) auto
  qed
qed

lemma ToValidUTF8_Nil: "ToValidUTF8 s = [] \<longleftrightarrow> s = []"
proof (cases s)
  case (Cons c r)
  have "rune_len s \<noteq> 0 \<Longrightarrow> take (rune_len s) s \<noteq> []" using Cons by simp
  then show ?thesis unfolding ToValidUTF8_def using Cons by (subst to_valid.simps) (simp add: replacement_rune_def)
qed (simp add: ToValidUTF8_def to_valid.simps)

end
