(* ===== verification/Notifier.thy ===== *)
theory Notifier
  imports Evaluator Utf8
begin

text \<open>
  The notifier, \<open>internal/domain/service/alerting/notifier.go\<close>, over the channel statements of
  \<open>internal/infra/db/repository/alert/channels.go\<close>: a bounded queue of jobs, one delivery at a
  time. The record holds the queue and the surroundings: the events' database, the channels table
  in the order its list statement returns, what happens around each store call (what other
  processes do to the store before it, and whether it fails) and the sends made so far. The
  secret box and the sender are the parameters \<open>nd_box\<close> and \<open>nd_send\<close>; the sender's answer may
  differ from send to send, so it also takes the number of sends before. A time limit that
  expires is an error of the call. The lemmas say what each entry of an event's deliveries tells
  (\<open>tells\<close>, \<open>channel_error\<close>) and what the last call makes of the store it finds.
\<close>

subsection \<open>The channels table (channels.go)\<close>

definition ListChannels :: "string \<Rightarrow> channel list \<Rightarrow> channel list" where
  "ListChannels org chs = filter (\<lambda>c. c_org c = org) chs"

definition GetChannel :: "string \<Rightarrow> string \<Rightarrow> channel list \<Rightarrow> channel option" where
  "GetChannel org cid chs = find (\<lambda>c. c_org c = org \<and> c_id c = cid) chs"

text \<open>The new row has the greatest creation time, or else the place its id has among equals.\<close>

definition channel_before :: "channel \<Rightarrow> channel \<Rightarrow> bool" where
  "channel_before a b \<longleftrightarrow> c_created a < c_created b \<or> c_created a = c_created b \<and> c_id a < c_id b"

definition CreateChannel :: "string \<Rightarrow> time \<Rightarrow> channel \<Rightarrow> adb \<times> channel list \<Rightarrow> (db_error + channel) \<times> adb \<times> channel list" where
  "CreateChannel new now ch st =
     (let (db, chs) = st;
          ch1 = ch\<lparr>c_id := new, c_created := time_truncate second now, c_last_error := [], c_last_sent := None\<rparr>
      in if new \<in> c_id ` set chs then (Inl UniqueViolation, db, chs)
         else if mget (db_orgs db) (c_org ch) = None then (Inl ForeignKey, db, chs)
         else (Inr ch1, db, takeWhile (\<lambda>c. channel_before c ch1) chs @ ch1 # dropWhile (\<lambda>c. channel_before c ch1) chs))"

definition UpdateChannel :: "channel \<Rightarrow> channel list \<Rightarrow> bool \<times> channel list" where
  "UpdateChannel ch chs =
     (let P = (\<lambda>c. c_org c = c_org ch \<and> c_id c = c_id ch)
      in (list_ex P chs, map (\<lambda>c. if P c then c\<lparr>c_name := c_name ch, c_service := c_service ch,
            c_fields := c_fields ch, c_url := c_url ch, c_default := c_default ch,
            c_enabled := c_enabled ch, c_last_error := c_last_error ch\<rparr> else c) chs))"

definition DeleteChannel :: "string \<Rightarrow> string \<Rightarrow> channel list \<Rightarrow> bool \<times> channel list" where
  "DeleteChannel org cid chs =
     (let P = (\<lambda>c. c_org c = org \<and> c_id c = cid) in (list_ex P chs, filter (\<lambda>c. \<not> P c) chs))"

definition RecordDelivery :: "string \<Rightarrow> time \<Rightarrow> string \<Rightarrow> channel list \<Rightarrow> channel list" where
  "RecordDelivery cid now err chs =
     map (\<lambda>c. if c_id c = cid
              then (if err = [] then c\<lparr>c_last_error := [], c_last_sent := Some (stamp now)\<rparr>
                    else c\<lparr>c_last_error := err\<rparr>)
              else c) chs"

subsection \<open>The notifier\<close>

definition QueueSize :: nat where "QueueSize = 256"
definition maxErrorLen :: nat where "maxErrorLen = 500"
definition encryptionUnavailable :: string where
  "encryptionUnavailable = ''channel encryption is unavailable: set ENCRYPTION_KEY''"

type_synonym nstore = "adb \<times> channel list"

record notifier =
  n_queue :: "job list"
  n_store :: nstore
  n_env :: "((nstore \<Rightarrow> nstore) \<times> fault) list"
  n_sent :: "(string \<times> string \<times> string) list"

record notifier_deps =
  nd_box :: "(string \<Rightarrow> string + string) option"
  nd_send :: "nat \<Rightarrow> string \<Rightarrow> string \<Rightarrow> string \<Rightarrow> string option"

definition ncall :: "(nstore \<Rightarrow> 'a \<times> nstore) \<Rightarrow> notifier \<Rightarrow> 'a option \<times> notifier" where
  "ncall m n =
     (let (g, f) = (case n_env n of [] \<Rightarrow> (\<lambda>x. x, NoFault) | e # _ \<Rightarrow> e);
          (res, st) = attempt f m (g (n_store n))
      in (res, n\<lparr>n_store := st, n_env := tl (n_env n)\<rparr>))"

definition Enqueue :: "job \<Rightarrow> notifier \<Rightarrow> bool \<times> notifier" where
  "Enqueue j n = (if length (n_queue n) < QueueSize then (True, n\<lparr>n_queue := n_queue n @ [j]\<rparr>) else (False, n))"

text \<open>The loop that moves the cut back to the start of a rune.\<close>

fun cut_back :: "string \<Rightarrow> nat \<Rightarrow> nat" where
  "cut_back s 0 = 0"
| "cut_back s (Suc c) = (if \<not> rune_start (s ! Suc c) then cut_back s c else Suc c)"

definition errorText :: "string option \<Rightarrow> string" where
  "errorText err =
     (case err of None \<Rightarrow> []
      | Some m \<Rightarrow>
          let s = ToValidUTF8 m
          in if maxErrorLen < length s then take (cut_back s maxErrorLen) s @ ellipsis else s)"

definition send_url :: "notifier_deps \<Rightarrow> string \<Rightarrow> string \<Rightarrow> string \<Rightarrow> notifier \<Rightarrow> string \<times> notifier" where
  "send_url dp url title body n =
     (errorText (nd_send dp (length (n_sent n)) url title body), n\<lparr>n_sent := n_sent n @ [(url, title, body)]\<rparr>)"

definition SendURL :: "notifier_deps \<Rightarrow> string \<Rightarrow> string \<Rightarrow> string \<Rightarrow> notifier \<Rightarrow> string \<times> notifier" where
  "SendURL dp url title body n = send_url dp url title body n"

definition send :: "notifier_deps \<Rightarrow> channel \<Rightarrow> string \<Rightarrow> string \<Rightarrow> notifier \<Rightarrow> string \<times> notifier" where
  "send dp ch title body n =
     (case nd_box dp of
        None \<Rightarrow> (encryptionUnavailable, n)
      | Some open_box \<Rightarrow>
          (case open_box (c_url ch) of
             Inl e \<Rightarrow> (errorText (Some e), n)
           | Inr url \<Rightarrow> send_url dp url title body n))"

definition SendTo :: "notifier_deps \<Rightarrow> time \<Rightarrow> channel \<Rightarrow> string \<Rightarrow> string \<Rightarrow> notifier \<Rightarrow> string \<times> notifier" where
  "SendTo dp now ch title body n =
     (let (err, n1) = send dp ch title body n;
          (_, n2) = ncall (\<lambda>(db, chs). ((), db, RecordDelivery (c_id ch) now err chs)) n1
      in (err, n2))"

fun send_all :: "notifier_deps \<Rightarrow> time \<Rightarrow> job \<Rightarrow> channel list \<Rightarrow> notifier \<Rightarrow> delivery list \<times> notifier" where
  "send_all dp now j [] n = ([], n)"
| "send_all dp now j (ch # chs) n =
     (let (err, n1) = SendTo dp now ch (j_title j) (j_body j) n;
          (ds, n2) = send_all dp now j chs n1
      in (\<lparr>dl_channel = c_id ch, dl_name = c_name ch, dl_ok = (err = []), dl_error = err\<rparr> # ds, n2))"

definition deliver :: "notifier_deps \<Rightarrow> time \<Rightarrow> job \<Rightarrow> notifier \<Rightarrow> notifier" where
  "deliver dp now j n =
     (let (res, n1) = ncall (\<lambda>(db, chs). (ListChannels (j_org j) chs, db, chs)) n
      in case res of
           None \<Rightarrow> n1
         | Some chs \<Rightarrow>
             (let (ds, n2) = send_all dp now j (route_channels chs (j_channels j)) n1;
                  (_, n3) = ncall (\<lambda>(db, chs). let (r, db') = SetDeliveries (j_event j) ds db in (r, db', chs)) n2
              in n3))"

text \<open>One turn of \<open>Run\<close>'s loop; the loop ends with the process.\<close>

definition run_once :: "notifier_deps \<Rightarrow> time \<Rightarrow> notifier \<Rightarrow> notifier" where
  "run_once dp now n = (case n_queue n of [] \<Rightarrow> n | j # q \<Rightarrow> deliver dp now j (n\<lparr>n_queue := q\<rparr>))"

subsection \<open>The error text\<close>

lemma cut_back_le: "cut_back s c \<le> c"
  by (induction c) (auto intro: le_SucI)

lemma cut_back_start: "cut_back s c = 0 \<or> rune_start (s ! cut_back s c)"
  by (induction c) auto

lemma errorText_cases:
  obtains "errorText err = []"
  | s where "valid_utf8 s" "length s \<le> maxErrorLen" "errorText err = s"
  | s c where "valid_utf8 (take c s)" "c \<le> maxErrorLen" "errorText err = take c s @ ellipsis"
proof (cases err)
  case (Some m)
  let ?s = "ToValidUTF8 m" and ?c = "cut_back (ToValidUTF8 m) maxErrorLen"
  show ?thesis
  proof (cases "maxErrorLen < length ?s")
    case True
    have "valid_utf8 (take ?c ?s)"
      using valid_utf8_take [OF ToValidUTF8_valid, of ?c m] cut_back_start [of ?s maxErrorLen]
        cut_back_le [of ?s maxErrorLen] True by auto
    then show ?thesis
      using that(3) [of ?c ?s] True cut_back_le [of ?s maxErrorLen] by (simp add: errorText_def Some Let_def)
  next
    case False
    then show ?thesis using that(2) [of ?s] ToValidUTF8_valid [of m] by (simp add: errorText_def Some Let_def)
  qed
qed (use that(1) in \<open>simp add: errorText_def\<close>)

lemma ellipsis_valid: "valid_utf8 ellipsis"
  by (simp add: ellipsis_def valid_utf8.simps rune_len.simps byte_def between_def second3_def)

definition text_ok :: "string \<Rightarrow> bool" where
  "text_ok s \<longleftrightarrow> valid_utf8 s \<and> length s \<le> maxErrorLen + 3"

lemma text_ok_errorText: "text_ok (errorText err)"
  by (rule errorText_cases [of err])
    (auto simp: text_ok_def valid_utf8.simps [of "[]"] intro: valid_utf8_append ellipsis_valid,
     simp add: ellipsis_def)

lemma errorText_short:
  "valid_utf8 m \<Longrightarrow> length m \<le> 500 \<Longrightarrow> errorText (Some m) = m"
  by (simp add: errorText_def ToValidUTF8_def ToValidUTF8_same maxErrorLen_def)

text \<open>What a text says of an error: it is empty exactly without one (an error without a message counts as
  none), always valid UTF-8 of bounded length, the message itself when that is valid and short, and
  otherwise its beginning, up to a rune's start, with an ellipsis.\<close>

definition tells :: "string option \<Rightarrow> string \<Rightarrow> bool" where
  "tells err t \<longleftrightarrow> valid_utf8 t \<and> length t \<le> 503 \<and>
     (case err of None \<Rightarrow> t = []
      | Some m \<Rightarrow> (t = [] \<longleftrightarrow> m = []) \<and>
          (valid_utf8 m \<longrightarrow> (if length m \<le> 500 then t = m else \<exists>c. 497 \<le> c \<and> c \<le> 500 \<and> t = take c m @ ellipsis)))"

lemma tells_ok: "tells err t \<Longrightarrow> t = [] \<longleftrightarrow> err = None \<or> err = Some []"
  by (auto simp: tells_def split: option.splits)

lemma cut_back_ge: "j \<le> c \<Longrightarrow> rune_start (s ! j) \<Longrightarrow> j \<le> cut_back s c"
  by (induction c) (auto simp: le_Suc_eq)

lemma errorText_tells: "tells err (errorText err)"
proof (cases err)
  case (Some m)
  have ok: "valid_utf8 (errorText err)" "length (errorText err) \<le> 503"
    using text_ok_errorText [of err] by (simp_all add: text_ok_def maxErrorLen_def)
  have e: "errorText err = [] \<longleftrightarrow> m = []"
    using ToValidUTF8_Nil [of m] by (auto simp: errorText_def Some Let_def ellipsis_def)
  have "\<exists>c. 497 \<le> c \<and> c \<le> 500 \<and> errorText err = take c m @ ellipsis" if v: "valid_utf8 m" "\<not> length m \<le> 500"
  proof -
    obtain j where "j \<le> 500" "500 \<le> j + 3" "rune_start (m ! j)" using start_near [of m 500] v by auto
    then have "497 \<le> cut_back m 500" using cut_back_ge [of j 500 m] by simp
    then show ?thesis using v cut_back_le [of m 500]
      by (intro exI [of _ "cut_back m 500"]) (simp add: errorText_def Some ToValidUTF8_def ToValidUTF8_same maxErrorLen_def)
  qed
  then show ?thesis using ok e errorText_short [of m] by (auto simp: tells_def Some)
qed (simp add: tells_def errorText_def valid_utf8.simps)

subsection \<open>A delivery\<close>

lemma ncall_frame [simp]:
  "n_sent (snd (ncall m n)) = n_sent n" "n_queue (snd (ncall m n)) = n_queue n"
  "n_env (snd (ncall m n)) = tl (n_env n)"
  by (auto simp: ncall_def split_def Let_def)

lemma ncall_quiet: "n_env n = [] \<Longrightarrow> ncall m n =
    (Some (fst (m (n_store n))), n\<lparr>n_store := snd (m (n_store n)), n_env := []\<rparr>)"
  by (simp add: ncall_def attempt_def split_def Let_def)

text \<open>The URLs the sender is given, in the channels' order.\<close>

definition opened :: "notifier_deps \<Rightarrow> channel list \<Rightarrow> string list" where
  "opened dp chs = (case nd_box dp of None \<Rightarrow> []
     | Some open_box \<Rightarrow> concat (map (\<lambda>c. case open_box (c_url c) of Inl _ \<Rightarrow> [] | Inr u \<Rightarrow> [u]) chs))"

lemma opened_Cons: "opened dp (c # chs) = opened dp [c] @ opened dp chs"
  by (simp add: opened_def split: option.split)

text \<open>What \<open>send\<close> answers for a channel when \<open>k\<close> sends were made before.\<close>

definition outcome :: "notifier_deps \<Rightarrow> nat \<Rightarrow> string \<Rightarrow> string \<Rightarrow> channel \<Rightarrow> string" where
  "outcome dp k title body c =
     (case nd_box dp of None \<Rightarrow> encryptionUnavailable
      | Some open_box \<Rightarrow> (case open_box (c_url c) of Inl e \<Rightarrow> errorText (Some e)
          | Inr u \<Rightarrow> errorText (nd_send dp k u title body)))"

text \<open>The error a channel meets: no box to open its URL with, a URL that does not open, or what its
  sender answers to the send, the \<open>k\<close>-th since the start.\<close>

definition channel_error :: "notifier_deps \<Rightarrow> nat \<Rightarrow> string \<Rightarrow> string \<Rightarrow> channel \<Rightarrow> string option" where
  "channel_error dp k title body c =
     (case nd_box dp of None \<Rightarrow> Some ''channel encryption is unavailable: set ENCRYPTION_KEY''
      | Some open_box \<Rightarrow> (case open_box (c_url c) of Inl e \<Rightarrow> Some e | Inr u \<Rightarrow> nd_send dp k u title body))"

lemma outcome_tells: "tells (channel_error dp k title body c) (outcome dp k title body c)"
proof -
  have "tells (Some encryptionUnavailable) encryptionUnavailable"
    by (simp add: tells_def encryptionUnavailable_def valid_utf8.simps rune_len.simps byte_def)
  then show ?thesis
    by (auto simp: outcome_def channel_error_def encryptionUnavailable_def [symmetric] errorText_tells
        split: option.split sum.split)
qed

lemma SendTo_eq:
  "fst (SendTo dp now c title body n) = outcome dp (length (n_sent n)) title body c"
  "n_sent (snd (SendTo dp now c title body n)) = n_sent n @ map (\<lambda>u. (u, title, body)) (opened dp [c])"
  "n_queue (snd (SendTo dp now c title body n)) = n_queue n"
  "n_env n = [] \<Longrightarrow> n_env (snd (SendTo dp now c title body n)) = []"
  "n_env n = [] \<Longrightarrow> fst (n_store (snd (SendTo dp now c title body n))) = fst (n_store n)"
  by (auto simp: SendTo_def send_def send_url_def outcome_def opened_def ncall_quiet split_def Let_def
      split: option.split sum.split)

definition entry_of :: "channel \<Rightarrow> string \<Rightarrow> delivery" where
  "entry_of c err = \<lparr>dl_channel = c_id c, dl_name = c_name c, dl_ok = (err = []), dl_error = err\<rparr>"

text \<open>The entries the loop makes, as a function of the channels alone.\<close>

fun entries :: "notifier_deps \<Rightarrow> string \<Rightarrow> string \<Rightarrow> nat \<Rightarrow> channel list \<Rightarrow> delivery list" where
  "entries dp title body k [] = []"
| "entries dp title body k (c # chs) =
     entry_of c (outcome dp k title body c) # entries dp title body (k + length (opened dp [c])) chs"

lemma send_all_eq:
  "fst (send_all dp now j chs n) = entries dp (j_title j) (j_body j) (length (n_sent n)) chs \<and>
   n_sent (snd (send_all dp now j chs n)) = n_sent n @ map (\<lambda>u. (u, j_title j, j_body j)) (opened dp chs) \<and>
   (n_env n = [] \<longrightarrow> n_env (snd (send_all dp now j chs n)) = [] \<and>
      fst (n_store (snd (send_all dp now j chs n))) = fst (n_store n))"
proof (induction chs arbitrary: n)
  case Nil
  then show ?case by (simp add: opened_def split: option.split)
next
  case (Cons c chs)
  from Cons.IH [of "snd (SendTo dp now c (j_title j) (j_body j) n)"] show ?case
    by (simp add: split_def Let_def SendTo_eq entry_of_def opened_Cons [of dp c chs])
qed

lemma entries_nth:
  "m < length chs \<Longrightarrow> entries dp t b k chs ! m =
     entry_of (chs ! m) (outcome dp (k + length (opened dp (take m chs))) t b (chs ! m))"
proof (induction chs arbitrary: k m)
  case (Cons c chs)
  have "opened dp [] = []" by (simp add: opened_def split: option.split)
  then show ?case
    using Cons opened_Cons [of dp c "take (m - 1) chs"] by (cases m) (simp_all add: add.assoc)
qed simp

lemma entries_length: "length (entries dp t b k chs) = length chs"
  by (induction chs arbitrary: k) simp_all

lemma set_deliveries_call:
  assumes "(others, f) = (case n_env n of [] \<Rightarrow> (\<lambda>st. st, NoFault) | e # _ \<Rightarrow> e)"
  shows "db_events (fst (n_store (snd (ncall (\<lambda>(db, chs). let (r, db') = SetDeliveries i ds db in (r, db', chs)) n)))) =
    (if f = FailBefore then id else map (\<lambda>e. if ae_id e = i then e\<lparr>ae_deliveries := ds\<rparr> else e))
      (db_events (fst (others (n_store n))))"
  unfolding ncall_def assms [symmetric]
  by (cases "others (n_store n)"; cases f) (simp_all add: attempt_def SetDeliveries_def Let_def)

text \<open>C31. One notification's delivery, whatever others do to the store between the calls and whichever
  calls fail. When the channels cannot be listed nothing is sent. Otherwise the sender gets the job's
  text once for each routed channel whose URL opens, in the channels' order, and one entry is made per
  routed channel in that order: its text tells the error that channel met (no encryption, a URL that
  does not open, or what the sender answered to that very send) and it is ok exactly without one. The
  last call finds the store as the channels' calls and the others left it and replaces the deliveries
  of this event by these entries, unless it fails before it takes effect; with nobody else at work
  that is the only change to the alerts' tables.\<close>

theorem delivery_outcomes:
  "let n' = deliver dp now j n; n1 = snd (ncall (\<lambda>(db, chs). (ListChannels (j_org j) chs, db, chs)) n);
     recorded = (\<lambda>ds. map (\<lambda>e. if ae_id e = j_event j then e\<lparr>ae_deliveries := ds\<rparr> else e)) in
   case fst (ncall (\<lambda>(db, chs). (ListChannels (j_org j) chs, db, chs)) n) of
      None \<Rightarrow> n' = n1 \<and> n_sent n' = n_sent n
    | Some all_chs \<Rightarrow>
       (let chs = route_channels all_chs (j_channels j); n2 = snd (send_all dp now j chs n1);
            (others, f) = (case n_env n2 of [] \<Rightarrow> (\<lambda>st. st, NoFault) | e # _ \<Rightarrow> e) in
        n_sent n' = n_sent n @ map (\<lambda>u. (u, j_title j, j_body j)) (opened dp chs) \<and>
        (\<exists>ds. map dl_channel ds = map c_id chs \<and> map dl_name ds = map c_name chs \<and>
          (\<forall>m < length chs.
             let met = channel_error dp (length (n_sent n) + length (opened dp (take m chs))) (j_title j) (j_body j) (chs ! m)
             in tells met (dl_error (ds ! m)) \<and> dl_ok (ds ! m) = (met = None \<or> met = Some [])) \<and>
          db_events (fst (n_store n')) = (if f = FailBefore then id else recorded ds) (db_events (fst (others (n_store n2)))) \<and>
          (n_env n = [] \<longrightarrow> fst (n_store n') = (fst (n_store n))\<lparr>db_events := recorded ds (db_events (fst (n_store n)))\<rparr>)))"
proof (cases "fst (ncall (\<lambda>(db, chs). (ListChannels (j_org j) chs, db, chs)) n)")
  case None
  then show ?thesis by (simp add: deliver_def split_def Let_def)
next
  case (Some all_chs)
  let ?chs = "route_channels all_chs (j_channels j)"
  let ?n1 = "snd (ncall (\<lambda>(db, chs). (ListChannels (j_org j) chs, db, chs)) n)"
  let ?n2 = "snd (send_all dp now j ?chs ?n1)"
  let ?ds = "entries dp (j_title j) (j_body j) (length (n_sent n)) ?chs"
  let ?rec = "map (\<lambda>e. if ae_id e = j_event j then e\<lparr>ae_deliveries := ?ds\<rparr> else e)"
  define n' where "n' = deliver dp now j n"
  note all = send_all_eq [of dp now j ?chs ?n1]
  have n': "n' = snd (ncall (\<lambda>(db, chs). let (r, db') = SetDeliveries (j_event j) ?ds db in (r, db', chs)) ?n2)"
    using all Some by (simp add: n'_def deliver_def split_def Let_def)
  have quiet: "fst (n_store n') = (fst (n_store n))\<lparr>db_events := ?rec (db_events (fst (n_store n)))\<rparr>" if "n_env n = []"
    using that all unfolding n' by (simp add: ncall_quiet SetDeliveries_def split_def)
  have found: "db_events (fst (n_store n')) = (if f = FailBefore then id else ?rec) (db_events (fst (others (n_store ?n2))))"
    if "(others, f) = (case n_env ?n2 of [] \<Rightarrow> (\<lambda>st. st, NoFault) | e # _ \<Rightarrow> e)" for others f
    unfolding n' by (rule set_deliveries_call [OF that])
  have shape: "map dl_channel ?ds = map c_id ?chs" "map dl_name ?ds = map c_name ?chs"
    by (rule nth_equalityI; simp add: entries_length entries_nth entry_of_def)+
  have each: "tells met (dl_error (?ds ! m)) \<and> dl_ok (?ds ! m) = (met = None \<or> met = Some [])"
    if "m < length ?chs" "met = channel_error dp (length (n_sent n) + length (opened dp (take m ?chs))) (j_title j) (j_body j) (?chs ! m)"
    for m met
  proof -
    have "tells met (dl_error (?ds ! m))"
      unfolding entries_nth [OF that(1)] that(2) entry_of_def delivery.simps by (rule outcome_tells)
    moreover have "dl_ok (?ds ! m) = (dl_error (?ds ! m) = [])" by (simp add: entries_nth [OF that(1)] entry_of_def)
    ultimately show ?thesis using tells_ok by blast
  qed
  have sent: "n_sent n' = n_sent n @ map (\<lambda>u. (u, j_title j, j_body j)) (opened dp ?chs)"
    using all by (simp add: n')
  obtain others f where p: "(case n_env ?n2 of [] \<Rightarrow> (\<lambda>st. st, NoFault) | e # _ \<Rightarrow> e) = (others, f)" by fastforce
  show ?thesis unfolding Some option.case Let_def n'_def [symmetric] p prod.case
    by (intro conjI exI [of _ ?ds] allI impI; (elim quiet)?; (intro sent shape found [OF p [symmetric]] each [THEN conjunct1] each [THEN conjunct2])?; (assumption | rule refl)?)
qed

lemma all_less_two: "(\<forall>m < Suc (Suc 0). P m) \<longleftrightarrow> P 0 \<and> P (Suc 0)"
  by (auto simp: less_Suc_eq)

abbreviation demo_channel :: "string \<Rightarrow> string \<Rightarrow> channel" where
  "demo_channel i url \<equiv> \<lparr>c_id = i, c_org = ''o1'', c_name = i, c_service = [], c_fields = [], c_default = True, c_enabled = True,
     c_last_error = [], c_last_sent = None, c_created = 0, c_url = url\<rparr>"

abbreviation demo_notifier :: notifier where
  "demo_notifier \<equiv> \<lparr>n_queue = [], n_store = (demo_db\<lparr>db_events := [demo_event ''e1'' EventFired second]\<rparr>,
     [demo_channel ''c1'' ''a'', demo_channel ''c2'' ''b'']), n_env = [], n_sent = []\<rparr>"

abbreviation demo_senders :: notifier_deps where
  "demo_senders \<equiv> \<lparr>nd_box = Some Inr, nd_send = (\<lambda>k url title body. if url = ''a'' then None else Some ''refused'')\<rparr>"

abbreviation demo_job :: job where
  "demo_job \<equiv> \<lparr>j_event = ''e1'', j_org = ''o1'', j_channels = None, j_title = ''t'', j_body = ''b''\<rparr>"

lemma delivery_outcomes_witness:
  "map (map (\<lambda>d. (dl_ok d, dl_error d)) \<circ> ae_deliveries) (db_events (fst (n_store (deliver demo_senders 9 demo_job demo_notifier)))) =
     [[(True, []), (False, ''refused'')]]"
proof -
  let ?n' = "deliver demo_senders 9 demo_job demo_notifier" and ?chs = "[demo_channel ''c1'' ''a'', demo_channel ''c2'' ''b'']"
  have l: "ncall (\<lambda>(db, chs). (ListChannels (j_org demo_job) chs, db, chs)) demo_notifier = (Some ?chs, demo_notifier)"
    by (simp add: ncall_def attempt_def ListChannels_def Let_def)
  have q: "n_env (snd (send_all demo_senders 9 demo_job (route_channels ?chs (j_channels demo_job)) demo_notifier)) = []"
      "fst (n_store (snd (send_all demo_senders 9 demo_job (route_channels ?chs (j_channels demo_job)) demo_notifier))) =
       fst (n_store demo_notifier)"
    using send_all_eq [of demo_senders 9 demo_job _ demo_notifier] by simp_all
  have r: "route_channels ?chs (j_channels demo_job) = ?chs" by (simp add: route_channels_def)
  let ?met = "\<lambda>m. channel_error demo_senders (length (n_sent demo_notifier) + length (opened demo_senders (take m ?chs)))
          (j_title demo_job) (j_body demo_job) (?chs ! m)"
  have "\<exists>ds. map dl_channel ds = map c_id ?chs \<and>
     (\<forall>m < length ?chs. tells (?met m) (dl_error (ds ! m)) \<and> dl_ok (ds ! m) = (?met m = None \<or> ?met m = Some [])) \<and>
     fst (n_store ?n') = (fst (n_store demo_notifier))\<lparr>db_events := map (\<lambda>e. if ae_id e = j_event demo_job then e\<lparr>ae_deliveries := ds\<rparr> else e)
        (db_events (fst (n_store demo_notifier)))\<rparr>"
    using delivery_outcomes [of demo_senders 9 demo_job demo_notifier]
    unfolding l fst_conv snd_conv option.case Let_def q list.case prod.case unfolding r
    by (elim conjE exE, intro exI conjI) (assumption, assumption, erule mp, simp)
  then obtain ds where d: "map dl_channel ds = map c_id ?chs"
     "\<forall>m < length ?chs. tells (?met m) (dl_error (ds ! m)) \<and> dl_ok (ds ! m) = (?met m = None \<or> ?met m = Some [])"
     "fst (n_store ?n') = (fst (n_store demo_notifier))\<lparr>db_events := map (\<lambda>e. if ae_id e = j_event demo_job then e\<lparr>ae_deliveries := ds\<rparr> else e)
        (db_events (fst (n_store demo_notifier)))\<rparr>" by blast
  have ds: "\<forall>m < 2. tells (if m = 0 then None else Some ''refused'') (dl_error (ds ! m)) \<and> dl_ok (ds ! m) = (m = 0)"
    "db_events (fst (n_store ?n')) = [(demo_event ''e1'' EventFired second)\<lparr>ae_deliveries := ds\<rparr>]"
    using d(2,3) by (simp_all add: channel_error_def opened_def numeral_2_eq_2 all_less_two)
  have v: "valid_utf8 ''refused''" by (simp add: valid_utf8.simps rune_len.simps byte_def)
  obtain a b where ab: "ds = [a, b]" using d(1) by auto
  have "dl_error a = []" "dl_ok a" using spec [OF ds(1), of 0] ab by (simp_all add: tells_def)
  moreover have "dl_error b = ''refused''" "\<not> dl_ok b" using spec [OF ds(1), of 1] ab v by (simp_all add: tells_def)
  ultimately show ?thesis using ds(2) ab by simp
qed

lemma queue_bounded: "length (n_queue n) \<le> QueueSize \<Longrightarrow> length (n_queue (snd (Enqueue j n))) \<le> QueueSize"
  by (simp add: Enqueue_def)

end
