(* ===== verification/Secret_Requests.thy ===== *)
theory Secret_Requests
  imports Prelude
begin

text \<open>
  Secret links: the request of \<open>internal/domain/model/secret_request.go\<close> and its repository
  \<open>internal/infra/db/repository/secretreq/repo.go\<close> over the statements of
  \<open>sqlc/query/sqlite/secret_requests.sql\<close>. The table is the list of its rows; a statement
  with a WHERE clause is a test, one that updates is a map, and its row count is the number of
  rows the test holds for. Times are stored in whole seconds, and the JSON columns hold what they
  encode. A value is \<open>None\<close> where the column is NULL.
\<close>

subsection \<open>The request\<close>

datatype secret_status = SecretPending | SecretSubmitted | SecretClaimed | SecretDispatched
  | SecretUsed | SecretExpired

record secret_request =
  s_id :: string
  s_org :: string
  s_server :: string
  s_app :: string
  s_by :: string
  s_names :: "string list"
  s_notes :: "(string, string) gomap"
  s_message :: string
  s_status :: secret_status
  s_ciphertexts :: "(string, string) gomap"
  s_created :: time
  s_expires :: time
  s_submitted :: "time option"
  s_used :: "time option"
  s_ended :: "time option"
  s_until :: "time option"

definition status_at :: "time \<Rightarrow> secret_request \<Rightarrow> secret_status" where
  "status_at now r =
     (let st = s_status r in
      if st = SecretDispatched then SecretUsed
      else
        let st1 = (if st = SecretClaimed \<and> (case s_until r of None \<Rightarrow> True | Some u \<Rightarrow> \<not> now < u)
                   then SecretSubmitted else st)
        in if (st1 = SecretPending \<or> st1 = SecretSubmitted) \<and> \<not> now < s_expires r then SecretExpired else st1)"

subsection \<open>The table\<close>

record secret_row =
  q_id :: string
  q_org :: string
  q_server :: string
  q_app :: "string option"
  q_by :: string
  q_names :: "string list"
  q_notes :: "(string, string) gomap"
  q_message :: string
  q_token_hash :: string
  q_status :: secret_status
  q_ciphertexts :: "(string, string) gomap option"
  q_created :: sqltime
  q_expires :: sqltime
  q_submitted :: "sqltime option"
  q_used :: "sqltime option"
  q_ended :: "sqltime option"
  q_claim :: "string option"
  q_until :: "sqltime option"

type_synonym secrets = "secret_row list"

definition hydrate :: "secret_row \<Rightarrow> secret_request" where
  "hydrate q = \<lparr>s_id = q_id q, s_org = q_org q, s_server = q_server q,
     s_app = (case q_app q of Some a \<Rightarrow> a | None \<Rightarrow> []), s_by = q_by q, s_names = q_names q,
     s_notes = q_notes q, s_message = q_message q, s_status = q_status q,
     s_ciphertexts = (case q_ciphertexts q of Some c \<Rightarrow> c | None \<Rightarrow> []),
     s_created = from_sql (q_created q), s_expires = from_sql (q_expires q),
     s_submitted = map_option from_sql (q_submitted q), s_used = map_option from_sql (q_used q),
     s_ended = map_option from_sql (q_ended q), s_until = map_option from_sql (q_until q)\<rparr>"

definition insert_row :: "secret_request \<Rightarrow> string \<Rightarrow> secret_row" where
  "insert_row req hash = \<lparr>q_id = s_id req, q_org = s_org req, q_server = s_server req,
     q_app = (if s_app req = [] then None else Some (s_app req)), q_by = s_by req, q_names = s_names req,
     q_notes = s_notes req, q_message = s_message req, q_token_hash = hash, q_status = SecretPending,
     q_ciphertexts = None, q_created = to_sql (s_created req), q_expires = to_sql (s_expires req),
     q_submitted = None, q_used = None, q_ended = None, q_claim = None, q_until = None\<rparr>"

text \<open>The primary key is the id, and the token hash is unique.\<close>

definition Create :: "secret_request \<Rightarrow> string \<Rightarrow> secrets \<Rightarrow> bool \<times> secrets" where
  "Create req hash t =
     (if \<exists>q \<in> set t. q_id q = s_id req \<or> q_token_hash q = hash then (False, t)
      else (True, t @ [insert_row req hash]))"

definition GetByTokenHash :: "string \<Rightarrow> secrets \<Rightarrow> secret_request option" where
  "GetByTokenHash hash t = map_option hydrate (find (\<lambda>q. q_token_hash q = hash) t)"

definition Get :: "string \<Rightarrow> string \<Rightarrow> secrets \<Rightarrow> secret_request option" where
  "Get org rid t = map_option hydrate (find (\<lambda>q. q_id q = rid \<and> q_org q = org) t)"

definition can_submit :: "sqltime \<Rightarrow> string \<Rightarrow> secret_row \<Rightarrow> bool" where
  "can_submit now rid q \<longleftrightarrow> q_id q = rid \<and> q_status q = SecretPending \<and> now < q_expires q"

definition Submit :: "string \<Rightarrow> (string, string) gomap \<Rightarrow> time \<Rightarrow> time \<Rightarrow> secrets \<Rightarrow> bool \<times> secrets" where
  "Submit rid cts now expires t =
     (let (n, t') = sql_update (can_submit (to_sql now) rid)
        (\<lambda>q. q\<lparr>q_status := SecretSubmitted, q_ciphertexts := Some cts, q_submitted := Some (to_sql now),
              q_expires := to_sql expires\<rparr>) t
      in (0 < n, t'))"

definition can_claim :: "sqltime \<Rightarrow> string \<Rightarrow> secret_row \<Rightarrow> bool" where
  "can_claim now rid q \<longleftrightarrow> q_id q = rid \<and> now < q_expires q \<and>
     (q_status q = SecretSubmitted \<or> q_status q = SecretClaimed \<and> sql_le (q_until q) now)"

definition Claim :: "string \<Rightarrow> string \<Rightarrow> time \<Rightarrow> time \<Rightarrow> secrets \<Rightarrow> bool \<times> secrets" where
  "Claim rid cid now until t =
     (let (n, t') = sql_update (can_claim (to_sql now) rid)
        (\<lambda>q. q\<lparr>q_status := SecretClaimed, q_claim := Some cid, q_until := Some (to_sql until)\<rparr>) t
      in (0 < n, t'))"

definition held :: "secret_status \<Rightarrow> string \<Rightarrow> string \<Rightarrow> secret_row \<Rightarrow> bool" where
  "held st rid cid q \<longleftrightarrow> q_id q = rid \<and> q_status q = st \<and> q_claim q = Some cid"

definition MarkDispatched :: "string \<Rightarrow> string \<Rightarrow> time \<Rightarrow> secrets \<Rightarrow> bool \<times> secrets" where
  "MarkDispatched rid cid until t =
     (let (n, t') = sql_update (held SecretClaimed rid cid)
        (\<lambda>q. q\<lparr>q_status := SecretDispatched, q_until := Some (to_sql until)\<rparr>) t
      in (0 < n, t'))"

definition end_used :: "sqltime \<Rightarrow> secret_row \<Rightarrow> secret_row" where
  "end_used now q = q\<lparr>q_status := SecretUsed, q_ciphertexts := None, q_used := Some now, q_ended := Some now,
     q_claim := None, q_until := None\<rparr>"

definition MarkUsed :: "string \<Rightarrow> string \<Rightarrow> time \<Rightarrow> secrets \<Rightarrow> bool \<times> secrets" where
  "MarkUsed rid cid now t =
     (let (n, t') = sql_update (held SecretDispatched rid cid) (end_used (to_sql now)) t in (0 < n, t'))"

definition Release :: "string \<Rightarrow> string \<Rightarrow> secrets \<Rightarrow> bool \<times> secrets" where
  "Release rid cid t =
     (let (n, t') = sql_update (held SecretClaimed rid cid)
        (\<lambda>q. q\<lparr>q_status := SecretSubmitted, q_claim := None, q_until := None\<rparr>) t
      in (0 < n, t'))"

definition can_expire :: "sqltime \<Rightarrow> secret_row \<Rightarrow> bool" where
  "can_expire now q \<longleftrightarrow> q_expires q \<le> now \<and>
     (q_status q = SecretPending \<or> q_status q = SecretSubmitted \<or>
      q_status q = SecretClaimed \<and> sql_le (q_until q) now)"

definition expire_rows :: "time \<Rightarrow> secrets \<Rightarrow> nat \<times> secrets" where
  "expire_rows now t = sql_update (can_expire (to_sql now))
     (\<lambda>q. q\<lparr>q_status := SecretExpired, q_ciphertexts := None, q_ended := Some (to_sql now),
           q_claim := None, q_until := None\<rparr>) t"

definition end_dispatched_rows :: "time \<Rightarrow> secrets \<Rightarrow> nat \<times> secrets" where
  "end_dispatched_rows now t = sql_update
     (\<lambda>q. q_status q = SecretDispatched \<and> sql_le (q_until q) (to_sql now)) (end_used (to_sql now)) t"

definition prune_rows :: "time \<Rightarrow> secrets \<Rightarrow> nat \<times> secrets" where
  "prune_rows cutoff t =
     (let P = (\<lambda>q. case q_ended q of None \<Rightarrow> False | Some e \<Rightarrow> e < to_sql cutoff)
      in (length (filter P t), filter (\<lambda>q. \<not> P q) t))"

section \<open>Properties\<close>

text \<open>A row's columns fit its status: it holds ciphertexts exactly from its submission to its end,
  a claim and its deadline exactly while claimed or dispatched.\<close>

definition row_ok :: "secret_row \<Rightarrow> bool" where
  "row_ok q \<longleftrightarrow>
     (q_ciphertexts q \<noteq> None \<longleftrightarrow> q_status q \<in> {SecretSubmitted, SecretClaimed, SecretDispatched}) \<and>
     (q_claim q \<noteq> None \<longleftrightarrow> q_status q \<in> {SecretClaimed, SecretDispatched}) \<and>
     (q_until q \<noteq> None \<longleftrightarrow> q_status q \<in> {SecretClaimed, SecretDispatched}) \<and>
     (q_ended q \<noteq> None \<longleftrightarrow> q_status q \<in> {SecretUsed, SecretExpired}) \<and>
     (q_used q \<noteq> None \<longleftrightarrow> q_status q = SecretUsed)"

definition table_ok :: "secrets \<Rightarrow> bool" where
  "table_ok t \<longleftrightarrow> distinct (map q_id t) \<and> (\<forall>q \<in> set t. row_ok q)"

lemma status_at_hydrate:
  "status_at now (hydrate q) =
     (let st = q_status q in
      if st = SecretDispatched then SecretUsed
      else
        let st1 = (if st = SecretClaimed \<and> (case q_until q of None \<Rightarrow> True | Some u \<Rightarrow> u \<le> to_sql now)
                   then SecretSubmitted else st)
        in if (st1 = SecretPending \<or> st1 = SecretSubmitted) \<and> q_expires q \<le> to_sql now then SecretExpired else st1)"
  by (simp add: status_at_def hydrate_def less_from_sql from_sql_le not_less Let_def split: option.split)

lemma row_status_tests:
  assumes "row_ok q" "q_id q = rid"
  shows "(can_submit (to_sql now) rid q \<longleftrightarrow> status_at now (hydrate q) = SecretPending) \<and>
    (can_claim (to_sql now) rid q \<longleftrightarrow> status_at now (hydrate q) = SecretSubmitted) \<and>
    (can_expire (to_sql now) q \<longleftrightarrow> status_at now (hydrate q) = SecretExpired \<and> q_status q \<noteq> SecretExpired)"
  using assms
  by (cases "q_status q"; cases "q_until q")
    (auto simp: status_at_hydrate can_submit_def can_claim_def can_expire_def sql_le_def row_ok_def Let_def)

text \<open>C16. The status the API reads off a request and the tests in the statements are the same
  decision, although one compares instants and the other stored seconds: a submission is accepted exactly
  where the request reads pending, a claim exactly where it reads submitted, and the sweep expires
  exactly the unfinished requests that read expired.\<close>

theorem status_decides_statements:
  assumes "row_ok q" "q_id q = rid"
  shows "(can_submit (to_sql now) rid q \<longleftrightarrow> status_at now (hydrate q) = SecretPending) \<and>
    (can_claim (to_sql now) rid q \<longleftrightarrow> status_at now (hydrate q) = SecretSubmitted) \<and>
    (can_expire (to_sql now) q \<longleftrightarrow> status_at now (hydrate q) = SecretExpired \<and> q_status q \<noteq> SecretExpired)"
  by (rule row_status_tests [OF assms])

abbreviation demo_secret :: secret_request where
  "demo_secret \<equiv> \<lparr>s_id = ''q1'', s_org = ''o1'', s_server = ''s1'', s_app = [], s_by = ''u1'',
     s_names = [''KEY''], s_notes = [], s_message = [], s_status = SecretPending, s_ciphertexts = [],
     s_created = 0, s_expires = 24 * hour, s_submitted = None, s_used = None, s_ended = None, s_until = None\<rparr>"

abbreviation demo_row :: secret_row where
  "demo_row \<equiv> insert_row demo_secret ''h1''"

lemma status_decides_statements_witness:
  "can_submit (to_sql second) ''q1'' demo_row \<and> status_at second (hydrate demo_row) = SecretPending"
  using status_decides_statements [of demo_row "''q1''" second]
  by (simp add: row_ok_def insert_row_def can_submit_def to_sql_def second_def hour_def)

subsection \<open>The operations\<close>

datatype secret_op =
    OpCreate secret_request string
  | OpSubmit string "(string, string) gomap" time time
  | OpClaim string string time time
  | OpDispatch string string time
  | OpUse string string time
  | OpRelease string string
  | OpExpire time
  | OpEnd time
  | OpPrune time

text \<open>A statement's effect, and whether it changed a row. Every statement commits or not as a whole,
  so a failed call is one of these or nothing.\<close>

fun secret_step :: "secret_op \<Rightarrow> secrets \<Rightarrow> bool \<times> secrets" where
  "secret_step (OpCreate req h) t = Create req h t"
| "secret_step (OpSubmit rid cts now ex) t = Submit rid cts now ex t"
| "secret_step (OpClaim rid cid now un) t = Claim rid cid now un t"
| "secret_step (OpDispatch rid cid un) t = MarkDispatched rid cid un t"
| "secret_step (OpUse rid cid now) t = MarkUsed rid cid now t"
| "secret_step (OpRelease rid cid) t = Release rid cid t"
| "secret_step (OpExpire now) t = (let (n, t') = expire_rows now t in (0 < n, t'))"
| "secret_step (OpEnd now) t = (let (n, t') = end_dispatched_rows now t in (0 < n, t'))"
| "secret_step (OpPrune c) t = (let (n, t') = prune_rows c t in (0 < n, t'))"

lemma sql_update_ids:
  "(\<And>q. q_id (f q) = q_id q) \<Longrightarrow> map q_id (snd (sql_update P f t)) = map q_id t"
  by (auto simp: sql_update_def)

lemma update_ok:
  assumes "table_ok t" "\<And>q. q_id (f q) = q_id q" "\<And>q. q \<in> set t \<Longrightarrow> row_ok q \<Longrightarrow> P q \<Longrightarrow> row_ok (f q)"
  shows "table_ok (snd (sql_update P f t))"
  using assms sql_update_ids [of f P t] by (auto simp: table_ok_def sql_update_mem)

lemma secret_step_ok: "table_ok t \<Longrightarrow> table_ok (snd (secret_step op t))"
proof (cases op)
  case (OpCreate req h)
  assume "table_ok t"
  then show ?thesis using OpCreate
    by (auto simp: Create_def table_ok_def row_ok_def insert_row_def)
next
  case (OpPrune c)
  assume "table_ok t"
  then show ?thesis using OpPrune
    by (auto simp: prune_rows_def table_ok_def Let_def distinct_map_filter)
qed (simp_all add: Submit_def Claim_def MarkDispatched_def MarkUsed_def Release_def expire_rows_def
    end_dispatched_rows_def split_beta Let_def,
  (rule update_ok, assumption,
   auto simp: row_ok_def can_submit_def can_claim_def held_def can_expire_def end_used_def sql_le_def)+)

text \<open>Whatever is done to the table, a request's stored values exist exactly between its submission
  and its end, and a request that is used or expired holds no ciphertext, no claim and the time it
  ended.\<close>

theorem secret_table_invariant:
  "table_ok (fold (\<lambda>op t. snd (secret_step op t)) ops [])"
  by (rule fold_invariant) (simp_all add: secret_step_ok, simp add: table_ok_def)

subsection \<open>The life of a request\<close>

definition creates :: "string \<Rightarrow> secret_op \<Rightarrow> bool" where
  "creates i op = (case op of OpCreate req h \<Rightarrow> s_id req = i | _ \<Rightarrow> False)"

definition dispatches :: "string \<Rightarrow> secret_op \<Rightarrow> bool" where
  "dispatches i op = (case op of OpDispatch rid cid un \<Rightarrow> rid = i | _ \<Rightarrow> False)"

text \<open>How many of the selected operations of a run succeed.\<close>

fun wins :: "('op \<Rightarrow> bool) \<Rightarrow> ('op \<Rightarrow> 's \<Rightarrow> bool \<times> 's) \<Rightarrow> 'op list \<Rightarrow> 's \<Rightarrow> nat" where
  "wins sel step [] s = 0"
| "wins sel step (op # ops) s =
     (if sel op \<and> fst (step op s) then 1 else 0) + wins sel step ops (snd (step op s))"

text \<open>The contract of the request store towards a save that consumes a request.\<close>

locale secret_lifecycle =
  fixes ok :: "'s \<Rightarrow> bool"
    and phase :: "'s \<Rightarrow> string \<Rightarrow> (secret_status \<times> string option) option"
    and step :: "secret_op \<Rightarrow> 's \<Rightarrow> bool \<times> 's"
  assumes ok_step: "ok s \<Longrightarrow> ok (snd (step op s))"
    and gone_law: "ok s \<Longrightarrow> phase s i = None \<Longrightarrow> \<not> creates i op \<Longrightarrow> phase (snd (step op s)) i = None"
    and used_law: "ok s \<Longrightarrow> phase s i = Some (SecretUsed, c) \<Longrightarrow>
      phase (snd (step op s)) i \<in> {None, Some (SecretUsed, c)}"
    and dispatched_law: "ok s \<Longrightarrow> phase s i = Some (SecretDispatched, c) \<Longrightarrow>
      phase (snd (step op s)) i \<in> {None, Some (SecretDispatched, c), Some (SecretUsed, None)}"
    and dispatch_law: "ok s \<Longrightarrow> fst (step (OpDispatch i cid un) s) \<Longrightarrow>
      phase s i = Some (SecretClaimed, Some cid) \<and>
      phase (snd (step (OpDispatch i cid un) s)) i = Some (SecretDispatched, Some cid)"
begin

definition spent :: "string \<Rightarrow> 's \<Rightarrow> bool" where
  "spent i s \<longleftrightarrow> (case phase s i of None \<Rightarrow> True | Some (st, c) \<Rightarrow> st = SecretDispatched \<or> st = SecretUsed)"

lemma spent_step:
  assumes "ok s" "spent i s" "\<not> creates i op"
  shows "spent i (snd (step op s))"
proof (cases "phase s i")
  case None
  then show ?thesis using gone_law [OF assms(1) None assms(3)] by (simp add: spent_def)
next
  case (Some p)
  then obtain c where "phase s i = Some (SecretDispatched, c) \<or> phase s i = Some (SecretUsed, c)"
    using assms(2) by (auto simp: spent_def)
  then show ?thesis
    using used_law [OF assms(1), of i c op] dispatched_law [OF assms(1), of i c op] by (auto simp: spent_def)
qed

lemma spent_run:
  assumes "ok s" "spent i s" "\<forall>op \<in> set ops. \<not> creates i op"
  shows "spent i (fold (\<lambda>op s. snd (step op s)) ops s) \<and> wins (dispatches i) step ops s = 0"
  using assms
proof (induction ops arbitrary: s)
  case (Cons op ops)
  have "\<not> fst (step op s)" if d: "dispatches i op"
  proof -
    obtain cid un where "op = OpDispatch i cid un" using d by (cases op) (auto simp: dispatches_def)
    then show ?thesis using dispatch_law [OF Cons.prems(1)] Cons.prems(2) by (auto simp: spent_def)
  qed
  moreover have "spent i (snd (step op s))" "ok (snd (step op s))"
    using spent_step Cons.prems ok_step by auto
  ultimately show ?case using Cons by auto
qed simp

lemma dispatched_once:
  assumes "ok s" "\<forall>op \<in> set ops. \<not> creates i op"
  shows "wins (dispatches i) step ops s \<le> 1 \<and>
    (wins (dispatches i) step ops s = 1 \<longrightarrow> spent i (fold (\<lambda>op s. snd (step op s)) ops s))"
  using assms
proof (induction ops arbitrary: s)
  case (Cons op ops)
  let ?s = "snd (step op s)"
  have ok: "ok ?s" by (rule ok_step [OF Cons.prems(1)])
  show ?case
  proof (cases "dispatches i op \<and> fst (step op s)")
    case True
    then obtain cid un where "op = OpDispatch i cid un" by (cases op) (auto simp: dispatches_def)
    then have "spent i ?s" using dispatch_law [OF Cons.prems(1)] True by (auto simp: spent_def)
    then show ?thesis using spent_run [OF ok] Cons.prems True by auto
  next
    case False
    then show ?thesis using Cons.IH [OF ok] Cons.prems(2) by auto
  qed
qed simp

end

definition row_of :: "secrets \<Rightarrow> string \<Rightarrow> secret_row option" where
  "row_of t i = find (\<lambda>q. q_id q = i) t"

definition phase_of :: "secrets \<Rightarrow> string \<Rightarrow> (secret_status \<times> string option) option" where
  "phase_of t i = map_option (\<lambda>q. (q_status q, q_claim q)) (row_of t i)"

lemma row_of_update:
  assumes "\<And>q. q_id (f q) = q_id q"
  shows "row_of (snd (sql_update P f t)) i = map_option (\<lambda>q. if P q then f q else q) (row_of t i)"
  using assms by (induction t) (auto simp: sql_update_def row_of_def)

lemma row_of_Some:
  "distinct (map q_id t) \<Longrightarrow> row_of t i = Some q \<longleftrightarrow> q \<in> set t \<and> q_id q = i"
proof (induction t)
  case (Cons r t)
  then have "x \<in> set t \<Longrightarrow> q_id x \<noteq> q_id r" for x by (metis distinct.simps(2) image_eqI list.map(2) list.set_map)
  then show ?case using Cons by (auto simp: row_of_def)
qed (simp add: row_of_def)

lemma row_of_append: "row_of t i = None \<Longrightarrow> q_id r \<noteq> i \<Longrightarrow> row_of (t @ [r]) i = None"
  "row_of t i = Some q \<Longrightarrow> row_of (t @ [r]) i = Some q"
  by (induction t) (auto simp: row_of_def split: if_splits)

lemma row_of_filter:
  assumes "distinct (map q_id t)"
  shows "row_of (filter P t) i = (case row_of t i of Some q \<Rightarrow> if P q then Some q else None | None \<Rightarrow> None)"
  using assms
proof (induction t)
  case (Cons r t)
  have "find (\<lambda>q. q_id q = q_id r) t = None" using Cons.prems by (auto simp: find_None_iff image_iff)
  then have "row_of (filter P t) (q_id r) = None" by (auto simp: row_of_def find_None_iff)
  then show ?case using Cons by (auto simp: row_of_def split: option.split)
qed (simp add: row_of_def)

lemma update_wins:
  assumes "distinct (map q_id t)" "0 < fst (sql_update P f t)" "\<And>q. P q \<Longrightarrow> q_id q = i"
  shows "\<exists>q. row_of t i = Some q \<and> P q"
proof -
  obtain q where "q \<in> set t" "P q" using assms(2) by (auto simp: sql_update_def filter_empty_conv)
  then show ?thesis using assms(3) row_of_Some [OF assms(1), of i q] by auto
qed

lemmas secret_op_defs = Submit_def Claim_def MarkDispatched_def MarkUsed_def Release_def expire_rows_def
  end_dispatched_rows_def end_used_def

lemma phase_of_step:
  assumes "table_ok t" "\<not> creates i op"
  shows "phase_of t i = None \<Longrightarrow> phase_of (snd (secret_step op t)) i = None"
    "phase_of t i = Some (SecretUsed, c) \<Longrightarrow> phase_of (snd (secret_step op t)) i \<in> {None, Some (SecretUsed, c)}"
    "phase_of t i = Some (SecretDispatched, c) \<Longrightarrow>
       phase_of (snd (secret_step op t)) i \<in> {None, Some (SecretDispatched, c), Some (SecretUsed, None)}"
proof -
  have d: "distinct (map q_id t)" using assms(1) by (simp add: table_ok_def)
  have cr: "row_of (snd (Create req h t)) i = row_of t i" if "s_id req \<noteq> i" for req h
  proof -
    have "q_id (insert_row req h) \<noteq> i" using that by (simp add: insert_row_def)
    then show ?thesis
      using row_of_append(1) [of t i "insert_row req h"] row_of_append(2) [of t i _ "insert_row req h"]
      by (cases "row_of t i") (auto simp: Create_def)
  qed
  have pr: "row_of (snd (prune_rows cu t)) i \<in> {None, row_of t i}" for cu
    using row_of_filter [OF d] by (auto simp: prune_rows_def Let_def split: option.split)
  show "phase_of t i = None \<Longrightarrow> phase_of (snd (secret_step op t)) i = None"
    using assms(2) cr pr
    by (cases op) (auto simp: phase_of_def creates_def split_beta Let_def secret_op_defs row_of_update)
  have row: "phase_of (snd (secret_step op t)) i \<in> {None, Some (SecretUsed, None), Some (q_status z, q_claim z)}
      \<and> (q_status z = SecretUsed \<longrightarrow> phase_of (snd (secret_step op t)) i \<in> {None, Some (q_status z, q_claim z)})"
    if z: "row_of t i = Some z" "q_status z = SecretUsed \<or> q_status z = SecretDispatched" for z
  proof (cases "\<exists>cu. op = OpPrune cu")
    case True
    then obtain cu where "op = OpPrune cu" by blast
    then show ?thesis using pr [of cu] z by (auto simp: phase_of_def split_beta Let_def)
  next
    case False
    then show ?thesis using assms(2) cr z
    by (cases op; cases "q_status z")
      (auto simp: phase_of_def creates_def split_beta Let_def secret_op_defs row_of_update
        can_submit_def can_claim_def held_def can_expire_def)
  qed
  show "phase_of t i = Some (SecretUsed, c) \<Longrightarrow> phase_of (snd (secret_step op t)) i \<in> {None, Some (SecretUsed, c)}"
    using row by (auto simp: phase_of_def)
  show "phase_of t i = Some (SecretDispatched, c) \<Longrightarrow>
       phase_of (snd (secret_step op t)) i \<in> {None, Some (SecretDispatched, c), Some (SecretUsed, None)}"
    using row by (fastforce simp: phase_of_def)
qed

interpretation links: secret_lifecycle table_ok phase_of secret_step
proof
  fix t :: secrets and i op
  assume t: "table_ok t"
  show "table_ok (snd (secret_step op t))" by (rule secret_step_ok [OF t])
  show "phase_of t i = None \<Longrightarrow> \<not> creates i op \<Longrightarrow> phase_of (snd (secret_step op t)) i = None"
    by (rule phase_of_step(1) [OF t])
next
  fix t :: secrets and i cid un
  assume t: "table_ok t" and w: "fst (secret_step (OpDispatch i cid un) t)"
  have "0 < fst (sql_update (held SecretClaimed i cid) (\<lambda>q. q\<lparr>q_status := SecretDispatched, q_until := Some (to_sql un)\<rparr>) t)"
    using w by (simp add: MarkDispatched_def split_beta)
  then obtain q where "row_of t i = Some q" "held SecretClaimed i cid q"
    using update_wins [of t "held SecretClaimed i cid" _ i] t by (auto simp: table_ok_def held_def)
  then show "phase_of t i = Some (SecretClaimed, Some cid) \<and>
      phase_of (snd (secret_step (OpDispatch i cid un) t)) i = Some (SecretDispatched, Some cid)"
    by (simp add: phase_of_def MarkDispatched_def split_beta row_of_update held_def)
next
  fix t :: secrets and i c op
  assume t: "table_ok t" and u: "phase_of t i = Some (SecretUsed, c)"
  then have "\<not> creates i op \<or> phase_of (snd (secret_step op t)) i = Some (SecretUsed, c)"
    by (cases op) (auto simp: phase_of_def creates_def Create_def row_of_append
        row_of_Some table_ok_def dest: row_of_append(2))
  then show "phase_of (snd (secret_step op t)) i \<in> {None, Some (SecretUsed, c)}"
    using phase_of_step(2) [OF t _ u, of op] by auto
next
  fix t :: secrets and i c op
  assume t: "table_ok t" and u: "phase_of t i = Some (SecretDispatched, c)"
  then have "\<not> creates i op \<or> phase_of (snd (secret_step op t)) i = Some (SecretDispatched, c)"
    by (cases op) (auto simp: phase_of_def creates_def Create_def row_of_append
        row_of_Some table_ok_def dest: row_of_append(2))
  then show "phase_of (snd (secret_step op t)) i \<in> {None, Some (SecretDispatched, c), Some (SecretUsed, None)}"
    using phase_of_step(3) [OF t _ u, of op] by auto
qed

text \<open>C3. The values of a request are sent at most once: among any saves, sweeps and retries in any order,
  at most one marks a request dispatched, and from then on the request is dispatched, used or deleted,
  never claimable again: a release matches claimed rows only, so not even a failed send frees it, as the
  repository says and the comments of the model and the port do not.\<close>

theorem secrets_dispatched_once:
  assumes "table_ok t" "\<forall>op \<in> set ops. \<not> creates i op"
  shows "wins (dispatches i) secret_step ops t \<le> 1 \<and>
    (wins (dispatches i) secret_step ops t = 1 \<longrightarrow>
       (case phase_of (fold (\<lambda>op t. snd (secret_step op t)) ops t) i of None \<Rightarrow> True
        | Some (st, c) \<Rightarrow> st = SecretDispatched \<or> st = SecretUsed))"
  using links.dispatched_once [OF assms] by (simp add: links.spent_def)

text \<open>Two saves race: the first claim lapses, the second takes over and dispatches; the first comes
  back too late.\<close>

lemma secrets_dispatched_once_witness:
  "\<exists>ops. wins (dispatches ''q1'') secret_step ops [demo_row] = 1 \<and>
     (case phase_of (fold (\<lambda>op t. snd (secret_step op t)) ops [demo_row]) ''q1'' of None \<Rightarrow> True
        | Some (st, c) \<Rightarrow> st = SecretDispatched \<or> st = SecretUsed)"
proof -
  let ?ops = "[OpSubmit ''q1'' [(''KEY'', ''x'')] 0 (24 * hour), OpClaim ''q1'' ''c1'' 0 minute,
    OpClaim ''q1'' ''c2'' (2 * minute) (4 * minute), OpDispatch ''q1'' ''c1'' (9 * minute),
    OpDispatch ''q1'' ''c2'' (9 * minute), OpDispatch ''q1'' ''c2'' (9 * minute)]"
  have w: "wins (dispatches ''q1'') secret_step ?ops [demo_row] = 1"
    by (simp add: dispatches_def secret_op_defs sql_update_def can_submit_def can_claim_def held_def
        insert_row_def sql_le_def to_sql_def second_def hour_def minute_def Let_def)
  have "table_ok [demo_row]" by (simp add: table_ok_def row_ok_def insert_row_def)
  then show ?thesis
    using secrets_dispatched_once [of "[demo_row]" ?ops "''q1''"] w
    by (intro exI [of _ ?ops]) (simp add: creates_def del: wins.simps fold_simps)
qed

end
