(* ===== verification/Secret_Usecase.thy ===== *)
theory Secret_Usecase
  imports Secret_Requests
begin

text \<open>
  The secret links usecase, \<open>internal/domain/usecase/secretreq/secretreq.go\<close>, with the shape
  check of a ciphertext (\<open>pkg/crypto/ecies.go\<close>). Every store call takes the next fault; the
  session's clock is the \<open>now\<close> of a call. Other components and packages the usecase is wired with
  are fields of \<open>deps\<close>: the caller's organization, server ownership, names for display, the token
  hash (SHA-256) and the parser of UUIDs. Random identifiers and tokens are arguments.
\<close>

subsection \<open>Constants and errors\<close>

definition SecretTokenPrefix :: string where "SecretTokenPrefix = ''wfx_''"
definition SubmitWindow :: duration where "SubmitWindow = 24 * hour"
definition UseWindow :: duration where "UseWindow = 24 * hour"
definition Retention :: duration where "Retention = 7 * 24 * hour"
definition MaxNames :: nat where "MaxNames = 32"
definition MaxNameBytes :: nat where "MaxNameBytes = 128"
definition MaxNoteBytes :: nat where "MaxNoteBytes = 500"
definition MaxMessageBytes :: nat where "MaxMessageBytes = 2000"
definition MaxCiphertextBytes :: nat where "MaxCiphertextBytes = 32768"
definition commitTries :: nat where "commitTries = 4"
definition ClaimTTL :: duration where "ClaimTTL = 2 * minute"

datatype reject =
    NamesRequired | TooManyNames | NameTooLong string | NameInvalid string | NameReserved string
  | NameTwice string | NoteUnknown string | NoteTooLong string | MessageTooLong | InvalidApp
  | ValueMissing string | NotExactlyNames | ValueTooLarge string | NotEncrypted string
  | OtherServer | OtherApp string | NotSubmitted | UsedAlready | RequestExpired

datatype secret_error = Rejected reject | NotFound | NoRequest | Forbidden | InUse | ClaimLost | StoreFailed
  | DepFailed string

record deps =
  dp_org :: "string \<Rightarrow> string + string"
  dp_owns :: "string \<Rightarrow> string \<Rightarrow> string + bool"
  dp_servers :: "string \<Rightarrow> string + (string \<times> string) list"
  dp_app :: "(string \<Rightarrow> string + (string \<times> string)) option"
  dp_hash :: "string \<Rightarrow> string"
  dp_uuid :: "string \<Rightarrow> bool"

subsection \<open>Shapes\<close>

definition upper :: "char \<Rightarrow> bool" where "upper c \<longleftrightarrow> CHR ''A'' \<le> c \<and> c \<le> CHR ''Z''"
definition digit :: "char \<Rightarrow> bool" where "digit c \<longleftrightarrow> CHR ''0'' \<le> c \<and> c \<le> CHR ''9''"

text \<open>\<open>^[A-Z][A-Z0-9_]*$\<close>\<close>

definition name_matches :: "string \<Rightarrow> bool" where
  "name_matches s = (case s of [] \<Rightarrow> False
     | c # r \<Rightarrow> upper c \<and> list_all (\<lambda>d. upper d \<or> digit d \<or> d = CHR ''_'') r)"

definition ReservedVariableName :: "string \<Rightarrow> bool" where
  "ReservedVariableName n \<longleftrightarrow> n = ''COMPOSE_PROJECT_NAME'' \<or> has_prefix ''WF_'' n"

definition ValidAppID :: "string \<Rightarrow> bool" where
  "ValidAppID i = (if i = [] \<or> i = ''.'' \<or> i = ''..'' then False
     else list_all (\<lambda>c. c \<noteq> CHR ''/'' \<and> c \<noteq> CHR 0x5C \<and> c \<noteq> CHR 0x00) i)"

text \<open>\<open>base64.StdEncoding.DecodeString\<close>: line breaks are skipped, padding is required.\<close>

definition b64_value :: "char \<Rightarrow> nat option" where
  "b64_value c =
     (let n = (of_char c :: nat) in
      if upper c then Some (n - 65)
      else if CHR ''a'' \<le> c \<and> c \<le> CHR ''z'' then Some (n - 97 + 26)
      else if digit c then Some (n - 48 + 52)
      else if c = CHR ''+'' then Some 62 else if c = CHR ''/'' then Some 63 else None)"

fun b64_groups :: "string \<Rightarrow> string option" where
  "b64_groups [] = Some []"
| "b64_groups (a # b # c # d # r) =
     (case (b64_value a, b64_value b) of
        (Some x, Some y) \<Rightarrow>
          if c = CHR ''='' \<and> d = CHR ''='' then
            (if r = [] then Some [char_of (x * 4 + y div 16)] else None)
          else (case b64_value c of
            None \<Rightarrow> None
          | Some z \<Rightarrow>
              if d = CHR ''='' then
                (if r = [] then Some [char_of (x * 4 + y div 16), char_of ((y mod 16) * 16 + z div 4)] else None)
              else (case (b64_value d, b64_groups r) of
                (Some w, Some rest) \<Rightarrow>
                  Some (char_of (x * 4 + y div 16) # char_of ((y mod 16) * 16 + z div 4) #
                        char_of ((z mod 4) * 64 + w) # rest)
              | _ \<Rightarrow> None))
      | _ \<Rightarrow> None)"
| "b64_groups _ = None"

definition b64_decode :: "string \<Rightarrow> string option" where
  "b64_decode s = b64_groups (filter (\<lambda>c. c \<noteq> CHR 0x0A \<and> c \<noteq> CHR 0x0D) s)"

text \<open>An uncompressed P-256 point, an IV and a GCM tag: 65, 12 and 16 bytes.\<close>

definition rawPubKeyLen :: nat where "rawPubKeyLen = 65"
definition ivLen :: nat where "ivLen = 12"
definition gcmTagLen :: nat where "gcmTagLen = 16"

definition decodePayload :: "string \<Rightarrow> string option" where
  "decodePayload s =
     (case b64_decode s of
        None \<Rightarrow> None
      | Some d \<Rightarrow> if length d < rawPubKeyLen + ivLen + gcmTagLen then None
                  else if hd d \<noteq> CHR 0x04 then None else Some d)"

definition CheckCiphertext :: "string \<Rightarrow> bool" where
  "CheckCiphertext s \<longleftrightarrow> decodePayload s \<noteq> None"

subsection \<open>Creating a request\<close>

fun check_names :: "string list \<Rightarrow> string list \<Rightarrow> secret_error + string list" where
  "check_names [] seen = Inr seen"
| "check_names (n # ns) seen =
     (if MaxNameBytes < length n then Inl (Rejected (NameTooLong n))
      else if \<not> name_matches n then Inl (Rejected (NameInvalid n))
      else if ReservedVariableName n then Inl (Rejected (NameReserved n))
      else if n \<in> set seen then Inl (Rejected (NameTwice n))
      else check_names ns (n # seen))"

fun check_notes :: "(string \<times> string) list \<Rightarrow> string list \<Rightarrow> secret_error + unit" where
  "check_notes [] seen = Inr ()"
| "check_notes ((n, note) # r) seen =
     (if n \<notin> set seen then Inl (Rejected (NoteUnknown n))
      else if MaxNoteBytes < length note then Inl (Rejected (NoteTooLong n))
      else check_notes r seen)"

definition check_request :: "string list \<Rightarrow> (string, string) gomap \<Rightarrow> string \<Rightarrow> secret_error + unit" where
  "check_request names notes msg =
     (if names = [] then Inl (Rejected NamesRequired)
      else if MaxNames < length names then Inl (Rejected TooManyNames)
      else case check_names names [] of
        Inl e \<Rightarrow> Inl e
      | Inr seen \<Rightarrow>
          (case check_notes notes seen of
             Inl e \<Rightarrow> Inl e
           | Inr _ \<Rightarrow> if MaxMessageBytes < length msg then Inl (Rejected MessageTooLong) else Inr ()))"

definition new_request :: "string \<Rightarrow> string \<Rightarrow> string \<Rightarrow> string \<Rightarrow> string \<Rightarrow> string list \<Rightarrow> (string, string) gomap
    \<Rightarrow> string \<Rightarrow> time \<Rightarrow> secret_request" where
  "new_request rid org server app user names notes msg now =
     \<lparr>s_id = rid, s_org = org, s_server = server, s_app = app, s_by = user, s_names = names, s_notes = notes,
      s_message = msg, s_status = SecretPending, s_ciphertexts = [], s_created = now,
      s_expires = now + SubmitWindow, s_submitted = None, s_used = None, s_ended = None, s_until = None\<rparr>"

text \<open>\<open>rid\<close> is the fresh id, \<open>raw\<close> the fresh token.\<close>

definition UCreate :: "deps \<Rightarrow> string \<Rightarrow> string \<Rightarrow> string \<Rightarrow> string option \<Rightarrow> string list \<Rightarrow> (string, string) gomap
    \<Rightarrow> string \<Rightarrow> string \<Rightarrow> time \<Rightarrow> fault \<Rightarrow> secrets \<Rightarrow> (secret_error + secret_request \<times> string) \<times> secrets" where
  "UCreate dp rid user server app_id names notes msg rand now f t =
     (let app = (case app_id of Some a \<Rightarrow> trim_space a | None \<Rightarrow> []) in
      case check_request names notes msg of
        Inl e \<Rightarrow> (Inl e, t)
      | Inr _ \<Rightarrow>
          if app \<noteq> [] \<and> \<not> ValidAppID app then (Inl (Rejected InvalidApp), t)
          else case dp_owns dp user server of
            Inl e \<Rightarrow> (Inl (DepFailed e), t)
          | Inr False \<Rightarrow> (Inl Forbidden, t)
          | Inr True \<Rightarrow>
              (case dp_org dp user of
                 Inl e \<Rightarrow> (Inl (DepFailed e), t)
               | Inr org \<Rightarrow>
                   let raw = SecretTokenPrefix @ rand;
                       req = new_request rid org server app user names notes msg now
                   in case attempt f (Create req (dp_hash dp raw)) t of
                        (Some True, t') \<Rightarrow> (Inr (req, raw), t')
                      | (_, t') \<Rightarrow> (Inl StoreFailed, t')))"

subsection \<open>Reading and submitting\<close>

definition UGet :: "deps \<Rightarrow> string \<Rightarrow> string \<Rightarrow> time \<Rightarrow> fault \<Rightarrow> secrets \<Rightarrow> secret_error + secret_request" where
  "UGet dp user rid now f t =
     (if \<not> dp_uuid dp rid then Inl NoRequest
      else case dp_org dp user of
        Inl e \<Rightarrow> Inl (DepFailed e)
      | Inr org \<Rightarrow>
          (case fst (attempt f (\<lambda>t. (Get org rid t, t)) t) of
             None \<Rightarrow> Inl StoreFailed
           | Some None \<Rightarrow> Inl NoRequest
           | Some (Some req) \<Rightarrow>
               let st = status_at now req;
                   st1 = (if st = SecretClaimed then SecretSubmitted else st)
               in Inr (req\<lparr>s_status := st1, s_ciphertexts := []\<rparr>)))"

definition pending :: "deps \<Rightarrow> string \<Rightarrow> string \<Rightarrow> time \<Rightarrow> fault \<Rightarrow> secrets \<Rightarrow> secret_error + secret_request" where
  "pending dp user raw now f t =
     (if \<not> has_prefix SecretTokenPrefix raw \<or> 128 < length raw then Inl NotFound
      else case fst (attempt f (\<lambda>t. (GetByTokenHash (dp_hash dp raw) t, t)) t) of
        None \<Rightarrow> Inl StoreFailed
      | Some None \<Rightarrow> Inl NotFound
      | Some (Some req) \<Rightarrow>
          (case dp_org dp user of
             Inl e \<Rightarrow> Inl (DepFailed e)
           | Inr org \<Rightarrow>
               if s_org req \<noteq> org \<or> status_at now req \<noteq> SecretPending then Inl NotFound else Inr req))"

record view =
  v_server :: string
  v_server_name :: string
  v_app :: string
  v_app_name :: string
  v_names :: "string list"
  v_notes :: "(string, string) gomap"
  v_message :: string
  v_expires :: time

definition UView :: "deps \<Rightarrow> string \<Rightarrow> string \<Rightarrow> time \<Rightarrow> fault \<Rightarrow> secrets \<Rightarrow> secret_error + view" where
  "UView dp user raw now f t =
     (case pending dp user raw now f t of
        Inl e \<Rightarrow> Inl e
      | Inr req \<Rightarrow>
          let sn = (case dp_servers dp user of
                      Inl _ \<Rightarrow> []
                    | Inr l \<Rightarrow> foldl (\<lambda>acc (i, nm). if i = s_server req then nm else acc) [] l);
              an = (if s_app req = [] then []
                    else case dp_app dp of
                      None \<Rightarrow> []
                    | Some get \<Rightarrow> (case get (s_app req) of
                         Inl _ \<Rightarrow> [] | Inr (srv, nm) \<Rightarrow> if srv = s_server req then nm else []))
          in Inr \<lparr>v_server = s_server req, v_server_name = sn, v_app = s_app req, v_app_name = an,
                 v_names = s_names req, v_notes = s_notes req, v_message = s_message req, v_expires = s_expires req\<rparr>)"

fun check_values :: "(string \<times> string) list \<Rightarrow> secret_error + unit" where
  "check_values [] = Inr ()"
| "check_values ((n, ct) # r) =
     (if MaxCiphertextBytes < length ct then Inl (Rejected (ValueTooLarge n))
      else if \<not> CheckCiphertext ct then Inl (Rejected (NotEncrypted n))
      else check_values r)"

text \<open>The clock is read twice: for the status and for the write.\<close>

definition USubmit :: "deps \<Rightarrow> string \<Rightarrow> string \<Rightarrow> (string, string) gomap \<Rightarrow> time \<Rightarrow> time \<Rightarrow> fault \<Rightarrow> fault \<Rightarrow> secrets
    \<Rightarrow> (secret_error + unit) \<times> secrets" where
  "USubmit dp user raw cts now0 now f1 f2 t =
     (case pending dp user raw now0 f1 t of
        Inl e \<Rightarrow> (Inl e, t)
      | Inr req \<Rightarrow>
          (case find (\<lambda>n. mget cts n = None) (s_names req) of
             Some n \<Rightarrow> (Inl (Rejected (ValueMissing n)), t)
           | None \<Rightarrow>
               if length cts \<noteq> length (s_names req) then (Inl (Rejected NotExactlyNames), t)
               else case check_values cts of
                 Inl e \<Rightarrow> (Inl e, t)
               | Inr _ \<Rightarrow>
                   (case attempt f2 (Submit (s_id req) cts now (now + UseWindow)) t of
                      (None, t') \<Rightarrow> (Inl StoreFailed, t')
                    | (Some False, t') \<Rightarrow> (Inl NotFound, t')
                    | (Some True, t') \<Rightarrow> (Inr (), t'))))"

subsection \<open>Claims\<close>

text \<open>\<open>ck_done\<close> is what \<open>sync.Once\<close> and \<open>err\<close> keep of the first \<open>Commit\<close>.\<close>

record claim =
  ck_id :: string
  ck_cid :: string
  ck_sent :: bool
  ck_done :: "secret_error option option"

definition UDispatch :: "time \<Rightarrow> fault \<Rightarrow> claim \<times> secrets \<Rightarrow> secret_error option \<times> claim \<times> secrets" where
  "UDispatch now f ct =
     (let (c, t) = ct in
      case attempt f (MarkDispatched (ck_id c) (ck_cid c) (now + ClaimTTL)) t of
        (None, t') \<Rightarrow> (Some StoreFailed, c, t')
      | (Some False, t') \<Rightarrow> (Some InUse, c, t')
      | (Some True, t') \<Rightarrow> (None, c\<lparr>ck_sent := True\<rparr>, t'))"

text \<open>One try of \<open>markUsed\<close>: its clock, its fault, and whether the context ends before the next.
  The last argument is how many tries are left; \<open>Commit\<close> starts with \<open>commitTries\<close>.\<close>

type_synonym try_env = "time \<times> fault \<times> bool"

fun mark_used :: "(nat \<Rightarrow> try_env) \<Rightarrow> claim \<Rightarrow> nat \<Rightarrow> secrets \<Rightarrow> bool option \<times> secrets" where
  "mark_used env c 0 t = (None, t)"
| "mark_used env c (Suc n) t =
     (let (now, f, stop) = env (commitTries - Suc n);
          (res, t') = attempt f (MarkUsed (ck_id c) (ck_cid c) now) t
      in if res \<noteq> None \<or> n = 0 \<or> stop then (res, t') else mark_used env c n t')"

definition UCommit :: "bool \<Rightarrow> (nat \<Rightarrow> try_env) \<Rightarrow> fault \<Rightarrow> claim \<times> secrets \<Rightarrow> secret_error option \<times> claim \<times> secrets" where
  "UCommit dispatched env f ct =
     (let (c, t) = ct in
      case ck_done c of
        Some e \<Rightarrow> (e, c, t)
      | None \<Rightarrow>
          let d = (dispatched \<or> ck_sent c);
              (res, t') = (if d then mark_used env c commitTries t else attempt f (Release (ck_id c) (ck_cid c)) t);
              err = (case res of None \<Rightarrow> Some StoreFailed
                     | Some ok \<Rightarrow> if \<not> ok \<and> d then Some ClaimLost else None)
          in (err, c\<lparr>ck_done := Some err\<rparr>, t'))"

definition UConsume :: "deps \<Rightarrow> string \<Rightarrow> string \<Rightarrow> string \<Rightarrow> string \<Rightarrow> string \<Rightarrow> time \<Rightarrow> fault \<Rightarrow> fault \<Rightarrow> secrets
    \<Rightarrow> (secret_error + (string, string) gomap \<times> claim) \<times> secrets" where
  "UConsume dp user server app rid cid now f1 f2 t =
     (if \<not> dp_uuid dp rid then (Inl NoRequest, t)
      else case dp_org dp user of
        Inl e \<Rightarrow> (Inl (DepFailed e), t)
      | Inr org \<Rightarrow>
          (case fst (attempt f1 (\<lambda>t. (Get org rid t, t)) t) of
             None \<Rightarrow> (Inl StoreFailed, t)
           | Some None \<Rightarrow> (Inl NoRequest, t)
           | Some (Some req) \<Rightarrow>
               if s_server req \<noteq> server then (Inl (Rejected OtherServer), t)
               else if s_app req \<noteq> [] \<and> s_app req \<noteq> app then (Inl (Rejected (OtherApp (s_app req))), t)
               else case status_at now req of
                 SecretPending \<Rightarrow> (Inl (Rejected NotSubmitted), t)
               | SecretUsed \<Rightarrow> (Inl (Rejected UsedAlready), t)
               | SecretExpired \<Rightarrow> (Inl (Rejected RequestExpired), t)
               | SecretClaimed \<Rightarrow> (Inl InUse, t)
               | SecretDispatched \<Rightarrow> (Inl (Rejected UsedAlready), t)
               | SecretSubmitted \<Rightarrow>
                   (case attempt f2 (Claim (s_id req) cid now (now + ClaimTTL)) t of
                      (None, t') \<Rightarrow> (Inl StoreFailed, t')
                    | (Some False, t') \<Rightarrow> (Inl InUse, t')
                    | (Some True, t') \<Rightarrow>
                        (Inr (s_ciphertexts req, \<lparr>ck_id = s_id req, ck_cid = cid, ck_sent = False, ck_done = None\<rparr>), t'))))"

subsection \<open>The sweep\<close>

definition Expire :: "time \<Rightarrow> fault \<Rightarrow> fault \<Rightarrow> secrets \<Rightarrow> nat option \<times> secrets" where
  "Expire now f1 f2 t =
     (case attempt f1 (expire_rows now) t of
        (None, t1) \<Rightarrow> (None, t1)
      | (Some n, t1) \<Rightarrow>
          (case attempt f2 (end_dispatched_rows now) t1 of
             (None, t2) \<Rightarrow> (None, t2) | (Some m, t2) \<Rightarrow> (Some (n + m), t2)))"

definition USweep :: "time \<Rightarrow> fault \<Rightarrow> fault \<Rightarrow> fault \<Rightarrow> secrets \<Rightarrow> secret_error option \<times> secrets" where
  "USweep now f1 f2 f3 t =
     (case Expire now f1 f2 t of
        (None, t1) \<Rightarrow> (Some StoreFailed, t1)
      | (Some _, t1) \<Rightarrow>
          (case attempt f3 (prune_rows (now - Retention)) t1 of
             (None, t2) \<Rightarrow> (Some StoreFailed, t2) | (Some _, t2) \<Rightarrow> (None, t2)))"

section \<open>Properties\<close>

subsection \<open>Requests\<close>

lemma check_names_Inr:
  "check_names ns seen = Inr s \<longleftrightarrow>
     s = rev ns @ seen \<and> distinct ns \<and> set ns \<inter> set seen = {} \<and>
     (\<forall>n \<in> set ns. length n \<le> MaxNameBytes \<and> name_matches n \<and> \<not> ReservedVariableName n)"
  by (induction ns arbitrary: seen) (auto simp: not_less)

lemma check_notes_Inr:
  "check_notes notes seen = Inr () \<longleftrightarrow> (\<forall>(n, note) \<in> set notes. n \<in> set seen \<and> length note \<le> MaxNoteBytes)"
  by (induction "notes" seen rule: check_notes.induct) (auto simp: not_less)

text \<open>A request is accepted exactly when it asks for one to thirty-two distinct, well-formed,
  unreserved names within the length bounds, its notes are for those names, and the note and message
  bounds hold.\<close>

theorem check_request_accepts:
  "check_request names notes msg = Inr () \<longleftrightarrow>
     names \<noteq> [] \<and> length names \<le> MaxNames \<and> distinct names \<and>
     (\<forall>n \<in> set names. length n \<le> MaxNameBytes \<and> name_matches n \<and> \<not> ReservedVariableName n) \<and>
     (\<forall>(n, note) \<in> set notes. n \<in> set names \<and> length note \<le> MaxNoteBytes) \<and>
     length msg \<le> MaxMessageBytes"
proof (cases "check_names names []")
  case (Inl e)
  then have "\<not> (distinct names \<and>
      (\<forall>n \<in> set names. length n \<le> MaxNameBytes \<and> name_matches n \<and> \<not> ReservedVariableName n))"
    using check_names_Inr [of names "[]" "rev names"] by auto
  then show ?thesis using Inl by (auto simp: check_request_def)
next
  case (Inr s)
  then show ?thesis using check_names_Inr [of names "[]" s] check_notes_Inr [of "notes" s]
    by (auto simp: check_request_def not_less split: sum.splits)
qed

lemma check_request_accepts_witness:
  "check_request [''DB_PASSWORD'', ''KEY''] [(''KEY'', ''from the console'')] [] = Inr ()"
  using check_request_accepts [of "[''DB_PASSWORD'', ''KEY'']" "[(''KEY'', ''from the console'')]" "[]"]
  by (simp add: MaxNames_def MaxNameBytes_def MaxNoteBytes_def MaxMessageBytes_def name_matches_def upper_def
      digit_def ReservedVariableName_def has_prefix_def less_eq_char_def)

lemma find_append_None: "find P xs = None \<Longrightarrow> find P (xs @ [x]) = (if P x then Some x else None)"
  by (induction xs) (auto split: if_splits)

text \<open>A link works for exactly the members of the organization that asked, for its window: after
  \<open>Create\<close>, opening it before its stored deadline gives the request as it was asked, and a user of
  another organization gets the same answer as for a link that does not exist.\<close>

theorem link_opens:
  assumes "UCreate dp rid user server app_id names notes msg rand now f t = (Inr (req, raw), t')"
    and "length raw \<le> 128" "to_sql later < to_sql (now + SubmitWindow)"
  shows "pending dp user' raw later NoFault t' =
    (case dp_org dp user' of
       Inl e \<Rightarrow> Inl (DepFailed e)
     | Inr org \<Rightarrow> if s_org req \<noteq> org then Inl NotFound
                 else Inr (req\<lparr>s_created := from_sql (to_sql now), s_expires := from_sql (to_sql (now + SubmitWindow))\<rparr>))"
proof -
  obtain org app where r: "req = new_request rid org server app user names notes msg now"
    "raw = SecretTokenPrefix @ rand" "attempt f (Create req (dp_hash dp raw)) t = (Some True, t')"
    using assms(1) by (auto simp: UCreate_def Let_def split: sum.splits if_splits bool.splits prod.splits option.splits)
  have c: "t' = t @ [insert_row req (dp_hash dp raw)]" "find (\<lambda>q. q_token_hash q = dp_hash dp raw) t = None"
    using attempt_Some [OF r(3)] by (auto simp: Create_def find_None_iff split: if_splits)
  have g: "GetByTokenHash (dp_hash dp raw) t' = Some (hydrate (insert_row req (dp_hash dp raw)))"
    using c by (simp add: GetByTokenHash_def find_append_None insert_row_def)
  have h: "hydrate (insert_row req (dp_hash dp raw)) =
      req\<lparr>s_created := from_sql (to_sql now), s_expires := from_sql (to_sql (now + SubmitWindow))\<rparr>"
    by (simp add: r(1) new_request_def hydrate_def insert_row_def)
  have st: "status_at later (hydrate (insert_row req (dp_hash dp raw))) = SecretPending"
    using assms(3) by (simp add: status_at_hydrate insert_row_def r(1) new_request_def Let_def)
  show ?thesis
    using assms(2) g st unfolding h
    by (auto simp: pending_def attempt_def r(2) split: sum.split)
qed

subsection \<open>Submitting\<close>

lemma check_values_Inr:
  "check_values cts = Inr () \<longleftrightarrow> (\<forall>(n, ct) \<in> set cts. length ct \<le> MaxCiphertextBytes \<and> CheckCiphertext ct)"
  by (induction cts rule: check_values.induct) (auto simp: not_less)

lemma hydrate_simps [simp]: "s_id (hydrate q) = q_id q" "s_org (hydrate q) = q_org q"
  "s_server (hydrate q) = q_server q" "s_names (hydrate q) = q_names q" "s_status (hydrate q) = q_status q"
  by (simp_all add: hydrate_def)

lemma pending_Inr:
  assumes "pending dp user raw now f t = Inr req"
  obtains q where "q \<in> set t" "req = hydrate q" "dp_org dp user = Inr (q_org q)"
    "status_at now (hydrate q) = SecretPending" "q_token_hash q = dp_hash dp raw"
  using assms
  by (auto simp: pending_def attempt_def GetByTokenHash_def dest!: find_SomeD
      split: if_splits sum.splits option.splits fault.splits)

text \<open>C21. Only ciphertexts are ever stored: a submission that is accepted puts exactly the posted values
  into the caller's organization's pending request, one for every requested name and no other, each of the
  shape of an encrypted value and within the size bound.\<close>

theorem submit_stores_ciphertexts:
  assumes "USubmit dp user raw cts now0 now f1 f2 t = (Inr (), t')" "table_ok t" "wf_map cts"
  shows "\<exists>q. q \<in> set t \<and> dp_org dp user = Inr (q_org q) \<and> q_status q = SecretPending \<and>
    row_of t' (q_id q) = Some (q\<lparr>q_status := SecretSubmitted, q_ciphertexts := Some cts,
      q_submitted := Some (to_sql now), q_expires := to_sql (now + UseWindow)\<rparr>) \<and>
    (distinct (q_names q) \<longrightarrow> set (keys cts) = set (q_names q)) \<and>
    (\<forall>(n, ct) \<in> set cts. length ct \<le> MaxCiphertextBytes \<and> CheckCiphertext ct)"
proof -
  obtain req where p: "pending dp user raw now0 f1 t = Inr req" "find (\<lambda>n. mget cts n = None) (s_names req) = None"
    "length cts = length (s_names req)" "check_values cts = Inr ()"
    "attempt f2 (Submit (s_id req) cts now (now + UseWindow)) t = (Some True, t')"
    using assms(1) by (auto simp: USubmit_def split: sum.splits option.splits if_splits prod.splits bool.splits)
  obtain q where q: "q \<in> set t" "req = hydrate q" "dp_org dp user = Inr (q_org q)"
    using pending_Inr [OF p(1)] by metis
  have d: "distinct (map q_id t)" using assms(2) by (simp add: table_ok_def)
  let ?f = "\<lambda>q. q\<lparr>q_status := SecretSubmitted, q_ciphertexts := Some cts, q_submitted := Some (to_sql now),
      q_expires := to_sql (now + UseWindow)\<rparr>"
  have sb: "Submit (q_id q) cts now (now + UseWindow) t = (True, t')"
    using attempt_Some [OF p(5)] q(2) by (simp add: hydrate_def)
  then have u: "0 < fst (sql_update (can_submit (to_sql now) (q_id q)) ?f t)"
    "t' = snd (sql_update (can_submit (to_sql now) (q_id q)) ?f t)"
    by (auto simp: Submit_def split_beta)
  obtain q' where "row_of t (q_id q) = Some q'" "can_submit (to_sql now) (q_id q) q'"
    using update_wins [OF d u(1), of "q_id q"] by (auto simp: can_submit_def)
  moreover have row: "row_of t (q_id q) = Some q" using q(1) row_of_Some [OF d] by auto
  ultimately have cs: "can_submit (to_sql now) (q_id q) q" by simp
  have "row_of t' (q_id q) = Some (?f q)"
    using row cs by (simp add: u(2) row_of_update)
  moreover have "set (keys cts) = set (q_names q)" if "distinct (q_names q)"
  proof -
    have sub: "set (q_names q) \<subseteq> set (keys cts)"
    proof
      fix n assume "n \<in> set (q_names q)"
      then have "mget cts n \<noteq> None" using p(2) q(2) by (auto simp: find_None_iff)
      then show "n \<in> set (keys cts)" unfolding keys_mget by simp
    qed
    have "card (set (q_names q)) = card (set (keys cts))"
      using distinct_card [OF that] distinct_card [of "keys cts"] assms(3) p(3) q(2) by (simp add: wf_map_def)
    then show ?thesis using sub card_subset_eq by (metis List.finite_set)
  qed
  ultimately show ?thesis
    using q cs p(4) check_values_Inr [of cts] by (intro exI [of _ q]) (auto simp: can_submit_def)
qed

text \<open>A ciphertext's shape: a hundred and twenty-four base64 characters that start with the point's
  marker.\<close>

abbreviation demo_deps :: deps where
  "demo_deps \<equiv> \<lparr>dp_org = (\<lambda>u. if u = ''u1'' then Inr ''o1'' else Inr ''o2''), dp_owns = (\<lambda>u s. Inr (u = ''u1'')),
     dp_servers = (\<lambda>u. Inr []), dp_app = None, dp_hash = (\<lambda>s. s), dp_uuid = (\<lambda>s. True)\<rparr>"

abbreviation demo_ct :: string where
  "demo_ct \<equiv> ''BAAA'' @ replicate 120 (CHR ''A'')"

lemma b64_As: "b64_groups (replicate (4 * n) (CHR ''A'')) = Some (replicate (3 * n) (CHR 0x00))"
proof (induction n)
  case (Suc n)
  have "replicate (4 * Suc n) (CHR ''A'') = CHR ''A'' # CHR ''A'' # CHR ''A'' # CHR ''A'' # replicate (4 * n) (CHR ''A'')"
    by (simp add: numeral_eq_Suc)
  moreover have "b64_value (CHR ''A'') = Some 0" by (simp add: b64_value_def upper_def less_eq_char_def)
  moreover have "replicate (3 * Suc n) (CHR 0x00) = CHR 0x00 # CHR 0x00 # CHR 0x00 # replicate (3 * n) (CHR 0x00)"
    by (simp add: numeral_eq_Suc)
  moreover have "char_of (0::nat) = CHR 0x00" by (simp add: char_of_def)
  ultimately show ?case using Suc by simp
qed simp

lemma demo_ct_ok: "CheckCiphertext demo_ct" "length demo_ct = 124"
proof -
  have v: "b64_value (CHR ''A'') = Some 0" "b64_value (CHR ''B'') = Some 1"
    by (simp_all add: b64_value_def upper_def less_eq_char_def)
  have "char_of (4::nat) = CHR 0x04" "char_of (0::nat) = CHR 0x00"
    by (simp_all add: char_of_def bit_iff_odd)
  then have "b64_decode demo_ct = Some (CHR 0x04 # CHR 0x00 # CHR 0x00 # replicate 90 (CHR 0x00))"
    using b64_As [of 30] v by (simp add: b64_decode_def)
  then show "CheckCiphertext demo_ct"
    by (simp add: CheckCiphertext_def decodePayload_def rawPubKeyLen_def ivLen_def gcmTagLen_def)
  show "length demo_ct = 124" by simp
qed

lemma link_opens_witness:
  "\<exists>req raw t'. UCreate demo_deps ''q1'' ''u1'' ''s1'' None [''KEY''] [] [] ''r'' 0 NoFault [] = (Inr (req, raw), t') \<and>
     pending demo_deps ''u2'' raw hour NoFault t' = Inl NotFound"
proof -
  have "UCreate demo_deps ''q1'' ''u1'' ''s1'' None [''KEY''] [] [] ''r'' 0 NoFault [] =
      (Inr (new_request ''q1'' ''o1'' ''s1'' [] ''u1'' [''KEY''] [] [] 0, ''wfx_r''),
       [insert_row (new_request ''q1'' ''o1'' ''s1'' [] ''u1'' [''KEY''] [] [] 0) ''wfx_r''])"
    by (simp add: UCreate_def check_request_def MaxNames_def MaxNameBytes_def name_matches_def upper_def
        ReservedVariableName_def has_prefix_def less_eq_char_def attempt_def Create_def SecretTokenPrefix_def
        MaxMessageBytes_def Let_def)
  note c = this
  have "pending demo_deps ''u2'' ''wfx_r'' hour NoFault
      [insert_row (new_request ''q1'' ''o1'' ''s1'' [] ''u1'' [''KEY''] [] [] 0) ''wfx_r''] = Inl NotFound"
    using link_opens [OF c, of hour "''u2''"]
    by (simp add: new_request_def to_sql_def second_def hour_def SubmitWindow_def)
  then show ?thesis using c by blast
qed

lemma submit_stores_ciphertexts_witness:
  "\<exists>dp raw t t'. USubmit dp ''u1'' raw [(''KEY'', demo_ct)] 0 0 NoFault NoFault t = (Inr (), t') \<and> CheckCiphertext demo_ct"
proof -
  let ?row = "demo_row\<lparr>q_token_hash := ''wfx_r''\<rparr>"
  have "status_at 0 (hydrate ?row) = SecretPending"
    by (simp add: status_at_hydrate insert_row_def to_sql_def second_def hour_def Let_def)
  then have p: "pending demo_deps ''u1'' ''wfx_r'' 0 NoFault [?row] = Inr (hydrate ?row)"
    by (simp add: pending_def SecretTokenPrefix_def has_prefix_def attempt_def GetByTokenHash_def insert_row_def)
  obtain t' where u: "USubmit demo_deps ''u1'' ''wfx_r'' [(''KEY'', demo_ct)] 0 0 NoFault NoFault [?row] = (Inr (), t')"
    using p demo_ct_ok
    by (simp add: USubmit_def insert_row_def MaxCiphertextBytes_def attempt_def Submit_def sql_update_def can_submit_def
        to_sql_def second_def hour_def)
  have "table_ok [?row]" by (simp add: table_ok_def row_ok_def insert_row_def)
  then have "CheckCiphertext demo_ct"
    using submit_stores_ciphertexts [OF u] by (auto simp: wf_map_def)
  then show ?thesis using u by blast
qed

subsection \<open>Using the values\<close>

text \<open>C15. A save gets a request's values only by taking the request: when \<open>Consume\<close> hands them out, the
  request is of the caller's organization, for that server and app, read submitted at that moment, and is
  now held by this claim alone; no other request changed.\<close>

theorem consume_takes_request:
  assumes "UConsume dp user server app rid cid now f1 f2 t = (Inr (cts, c), t')" "table_ok t"
  shows "\<exists>q. row_of t rid = Some q \<and> dp_org dp user = Inr (q_org q) \<and> q_server q = server \<and>
    (q_app q = None \<or> q_app q = Some [] \<or> q_app q = Some app) \<and>
    status_at now (hydrate q) = SecretSubmitted \<and> q_ciphertexts q = Some cts \<and>
    row_of t' rid = Some (q\<lparr>q_status := SecretClaimed, q_claim := Some cid, q_until := Some (to_sql (now + ClaimTTL))\<rparr>) \<and>
    (\<forall>i. i \<noteq> rid \<longrightarrow> row_of t' i = row_of t i) \<and>
    c = \<lparr>ck_id = rid, ck_cid = cid, ck_sent = False, ck_done = None\<rparr>"
proof -
  have d: "distinct (map q_id t)" using assms(2) by (simp add: table_ok_def)
  obtain org req where r: "dp_org dp user = Inr org" "Get org rid t = Some req" "s_server req = server"
    "s_app req = [] \<or> s_app req = app" "status_at now req = SecretSubmitted"
    "attempt f2 (Claim (s_id req) cid now (now + ClaimTTL)) t = (Some True, t')" "cts = s_ciphertexts req"
    "c = \<lparr>ck_id = s_id req, ck_cid = cid, ck_sent = False, ck_done = None\<rparr>"
    using assms(1) by (auto simp: UConsume_def attempt_def [of f1]
        split: sum.splits option.splits if_splits prod.splits bool.splits secret_status.splits fault.splits)
  obtain q where q: "req = hydrate q" "q \<in> set t" "q_id q = rid" "q_org q = org"
    using r(2) by (auto simp: Get_def dest!: find_SomeD)
  have row: "row_of t rid = Some q" using row_of_Some [OF d] q by auto
  let ?f = "\<lambda>q. q\<lparr>q_status := SecretClaimed, q_claim := Some cid, q_until := Some (to_sql (now + ClaimTTL))\<rparr>"
  have t': "t' = snd (sql_update (can_claim (to_sql now) rid) ?f t)"
    using attempt_Some [OF r(6)] q by (auto simp: Claim_def split_beta)
  have ok: "row_ok q" using assms(2) q(2) by (simp add: table_ok_def)
  have cc: "can_claim (to_sql now) rid q"
    using row_status_tests [OF ok q(3)] r(5) q(1) by simp
  then have "q_ciphertexts q \<noteq> None" using ok by (auto simp: row_ok_def can_claim_def)
  then have "q_ciphertexts q = Some cts" using r(7) q(1) by (auto simp: hydrate_def)
  moreover have "row_of t' i = row_of t i" if "i \<noteq> rid" for i
  proof (cases "row_of t i")
    case (Some z)
    then have "q_id z = i" using row_of_Some [OF d] by simp
    then show ?thesis using that Some by (simp add: t' row_of_update can_claim_def)
  qed (simp add: t' row_of_update)
  moreover have "q_app q = None \<or> q_app q = Some [] \<or> q_app q = Some app"
    using r(4) q(1) by (auto simp: hydrate_def split: option.splits)
  ultimately show ?thesis
    using r(1,3,5,8) q row cc by (intro exI [of _ q]) (auto simp: t' row_of_update)
qed

lemma mark_used_cases:
  assumes "table_ok t" "phase_of t i = Some p" "p \<in> {(SecretDispatched, Some cid), (SecretUsed, None)}"
    "ck_id c = i" "ck_cid c = cid" "mark_used env c n t = (res, t')"
  shows "table_ok t' \<and> phase_of t' i \<in> {Some (SecretDispatched, Some cid), Some (SecretUsed, None)} \<and>
    (res = Some True \<longrightarrow> phase_of t' i = Some (SecretUsed, None))"
  using assms(1,2,3,6)
proof (induction n arbitrary: t p)
  case (Suc n)
  obtain now f stop where e: "env (commitTries - Suc n) = (now, f, stop)" by (rule prod_cases3)
  obtain r1 t1 where a: "attempt f (MarkUsed i cid now) t = (r1, t1)" by (cases "attempt f (MarkUsed i cid now) t")
  obtain q where q: "row_of t i = Some q" "p = (q_status q, q_claim q)" "q_id q = i"
    using Suc.prems(2) by (auto simp: phase_of_def row_of_def dest: find_SomeD)
  have upd: "phase_of (snd (MarkUsed i cid now t)) i = Some (SecretUsed, None)"
    using q Suc.prems(3) by (auto simp: phase_of_def MarkUsed_def split_beta row_of_update held_def end_used_def)
  have ok: "table_ok (snd (MarkUsed i cid now t))" using secret_step_ok [OF Suc.prems(1), of "OpUse i cid now"] by simp
  have t1: "table_ok t1" "phase_of t1 i \<in> {Some p, Some (SecretUsed, None)}"
    "r1 \<noteq> None \<Longrightarrow> phase_of t1 i = Some (SecretUsed, None)"
    by (cases f; use a upd ok Suc.prems(1,2) in \<open>auto simp: attempt_def split_beta\<close>)+
  obtain p1 where p1: "phase_of t1 i = Some p1" "p1 \<in> {(SecretDispatched, Some cid), (SecretUsed, None)}"
    using t1(2) Suc.prems(3) by auto
  show ?case
  proof (cases "r1 \<noteq> None \<or> n = 0 \<or> stop")
    case True
    then have "res = r1" "t' = t1" using Suc.prems(4) e a assms(4,5) by auto
    then show ?thesis using t1 p1 by auto
  next
    case False
    then have "mark_used env c n t1 = (res, t')" using Suc.prems(4) e a assms(4,5) by auto
    then show ?thesis using Suc.IH [OF t1(1) p1] by blast
  qed
qed simp

text \<open>C14. After its dispatch a save can only end the request: whatever the send answered, whatever
  store calls fail, \<open>Commit\<close> never makes the request claimable again; when it reports no error the
  values are deleted; and a second \<open>Commit\<close> does nothing and answers the same. The comments of the model
  and the port speak of a release after a failed send; neither \<open>Commit\<close> nor the statement does it.\<close>

theorem commit_after_dispatch:
  assumes "table_ok t" "phase_of t (ck_id c) = Some (SecretDispatched, Some (ck_cid c))"
    "ck_sent c" "ck_done c = None" "UCommit dispatched env f (c, t) = (err, c', t')"
  shows "phase_of t' (ck_id c) \<in> {Some (SecretDispatched, Some (ck_cid c)), Some (SecretUsed, None)} \<and>
    (err = None \<longrightarrow> (\<exists>q. row_of t' (ck_id c) = Some q \<and> q_status q = SecretUsed \<and> q_ciphertexts q = None)) \<and>
    UCommit d2 env2 f2 (c', u) = (err, c', u)"
proof -
  obtain res where m: "mark_used env c commitTries t = (res, t')"
    "err = (case res of None \<Rightarrow> Some StoreFailed | Some ok \<Rightarrow> if \<not> ok \<and> True then Some ClaimLost else None)"
    "c' = c\<lparr>ck_done := Some err\<rparr>"
    using assms(3-5) by (auto simp: UCommit_def Let_def split: prod.splits)
  note k = mark_used_cases [OF assms(1,2) _ refl refl m(1)]
  have "\<exists>q. row_of t' (ck_id c) = Some q \<and> q_status q = SecretUsed \<and> q_ciphertexts q = None" if "err = None"
  proof -
    have "res = Some True" using that m(2) by (auto split: option.splits if_splits)
    then have p: "phase_of t' (ck_id c) = Some (SecretUsed, None)" "table_ok t'" using k by auto
    then obtain q where q: "row_of t' (ck_id c) = Some q" "q_status q = SecretUsed" by (auto simp: phase_of_def)
    then have "q \<in> set t'" using row_of_Some p(2) by (auto simp: table_ok_def)
    then have "row_ok q" using p(2) by (simp add: table_ok_def)
    then show ?thesis using q by (auto simp: row_ok_def)
  qed
  then show ?thesis using k m(3) by (auto simp: UCommit_def)
qed

lemma update_none: "\<forall>z \<in> set t. \<not> P z \<Longrightarrow> snd (sql_update P f t) = t"
  by (simp add: sql_update_def map_idI)

lemma MarkUsed_snd:
  "snd (MarkUsed rid cid now t) = snd (sql_update (held SecretDispatched rid cid) (end_used (to_sql now)) t)"
  by (simp add: MarkUsed_def split_beta)

text \<open>C22. What a lost reply does to the retries: when the first write that ends the request was applied but
  its answer did not arrive, the next try finds nothing to end, and \<open>Commit\<close> reports the claim lost
  although its own write ended the request and no other save took it.\<close>

theorem commit_lost_reply:
  assumes "row_of t (ck_id c) = Some q" "held SecretDispatched (ck_id c) (ck_cid c) q"
    "ck_sent c" "ck_done c = None"
    "env 0 = (now, FailAfter, False)" "env 1 = (now', NoFault, False)" "table_ok t"
  shows "fst (UCommit dispatched env f (c, t)) = Some ClaimLost \<and>
    row_of (snd (snd (UCommit dispatched env f (c, t)))) (ck_id c) = Some (end_used (to_sql now) q)"
proof -
  let ?P = "held SecretDispatched (ck_id c) (ck_cid c)"
  let ?t1 = "snd (MarkUsed (ck_id c) (ck_cid c) now t)"
  have id: "q_id (end_used s z) = q_id z" for s z by (simp add: end_used_def)
  have r1: "row_of ?t1 (ck_id c) = Some (end_used (to_sql now) q)"
    using assms(1,2) by (simp add: MarkUsed_def split_beta row_of_update id)
  have ok: "distinct (map q_id ?t1)"
    using secret_step_ok [OF assms(7), of "OpUse (ck_id c) (ck_cid c) now"] by (simp add: table_ok_def)
  have "\<not> 0 < fst (sql_update ?P (end_used (to_sql now')) ?t1)"
  proof
    assume "0 < fst (sql_update ?P (end_used (to_sql now')) ?t1)"
    then obtain z where "row_of ?t1 (ck_id c) = Some z" "?P z"
      using update_wins [OF ok, of ?P] by (auto simp: held_def)
    then show False using r1 by (auto simp: held_def end_used_def)
  qed
  then have w: "fst (MarkUsed (ck_id c) (ck_cid c) now' ?t1) = False" by (simp add: MarkUsed_def split_beta)
  have none: "filter ?P ?t1 = []" using \<open>\<not> 0 < fst _\<close> by (simp add: sql_update_def)
  then have "\<forall>z \<in> set ?t1. \<not> ?P z" by (simp add: filter_empty_conv)
  then have "snd (MarkUsed (ck_id c) (ck_cid c) now' ?t1) = ?t1"
    unfolding MarkUsed_snd [of _ _ now'] by (rule update_none)
  then have second: "MarkUsed (ck_id c) (ck_cid c) now' ?t1 = (False, ?t1)"
    using w by (metis prod.collapse)
  have "mark_used env c (Suc (Suc (Suc (Suc 0)))) t = (Some False, ?t1)"
    by (simp add: commitTries_def assms(5) assms(6) [unfolded One_nat_def] attempt_def second all_bool_eq)
  then have "mark_used env c commitTries t = (Some False, ?t1)"
    by (simp add: commitTries_def numeral_eq_Suc)
  then show ?thesis using assms(3,4) r1 by (simp add: UCommit_def Let_def)
qed

text \<open>The sweep does not miss or overreach: when it reports no error, every request past its
  deadline is stored as ended and holds no values, and every dispatch whose holder went away is ended
  used; in every case a request that still waits, or that a live save holds, is left as it is.\<close>

theorem sweep_ends_expired:
  assumes "table_ok t" "USweep now f1 f2 f3 t = (err, t')"
  shows "(err = None \<longrightarrow> (\<forall>q \<in> set t'.
        (status_at now (hydrate q) = SecretExpired \<longrightarrow> q_status q = SecretExpired \<and> q_ciphertexts q = None) \<and>
        (q_status q = SecretDispatched \<longrightarrow> \<not> sql_le (q_until q) (to_sql now)))) \<and>
    (\<forall>q \<in> set t. status_at now (hydrate q) \<in> {SecretPending, SecretSubmitted, SecretClaimed} \<longrightarrow> q \<in> set t')"
proof -
  define t1 t2 t3 where "t1 = snd (expire_rows now t)" and "t2 = snd (end_dispatched_rows now t1)"
    and "t3 = snd (prune_rows (now - Retention) t2)"
  have ok1: "table_ok t1" using secret_step_ok [OF assms(1), of "OpExpire now"] by (simp add: t1_def split_beta Let_def)
  have ok2: "table_ok t2" using secret_step_ok [OF ok1, of "OpEnd now"] by (simp add: t2_def split_beta Let_def)
  have live: "\<not> can_expire (to_sql now) q \<and> q_status q \<noteq> SecretDispatched \<and> q_ended q = None"
    if "q \<in> set t" "status_at now (hydrate q) \<in> {SecretPending, SecretSubmitted, SecretClaimed}" for q
  proof -
    have "row_ok q" using assms(1) that(1) by (simp add: table_ok_def)
    then show ?thesis using row_status_tests [of q "q_id q" now] that(2)
      by (cases "q_status q") (auto simp: row_ok_def status_at_hydrate)
  qed
  have k1: "q \<in> set t1" if "q \<in> set t" "status_at now (hydrate q) \<in> {SecretPending, SecretSubmitted, SecretClaimed}" for q
    using live [OF that] that(1) unfolding t1_def expire_rows_def sql_update_mem by force
  have k2: "q \<in> set t2" if "q \<in> set t" "status_at now (hydrate q) \<in> {SecretPending, SecretSubmitted, SecretClaimed}" for q
    using live [OF that] k1 [OF that] unfolding t2_def end_dispatched_rows_def sql_update_mem by force
  have k3: "q \<in> set t3" if "q \<in> set t" "status_at now (hydrate q) \<in> {SecretPending, SecretSubmitted, SecretClaimed}" for q
    using live [OF that] k2 [OF that] by (simp add: t3_def prune_rows_def Let_def)
  have "t' \<in> {t, t1, t2, t3} \<and> (err = None \<longrightarrow> t' = t3)"
    using assms(2)
    by (cases f1; cases f2; cases f3)
      (auto simp: USweep_def Expire_def attempt_def t1_def t2_def t3_def split_beta)
  moreover have "\<not> can_expire (to_sql now) q \<and> (q_status q = SecretDispatched \<longrightarrow> \<not> sql_le (q_until q) (to_sql now))"
    if "q \<in> set t3" for q
  proof -
    have "q \<in> set t2" using that by (auto simp: t3_def prune_rows_def Let_def)
    then obtain q1 where q1: "q1 \<in> set t1" "q = (if q_status q1 = SecretDispatched \<and> sql_le (q_until q1) (to_sql now)
        then end_used (to_sql now) q1 else q1)"
      unfolding t2_def end_dispatched_rows_def sql_update_mem by auto
    obtain q0 where "q1 = (if can_expire (to_sql now) q0 then q0\<lparr>q_status := SecretExpired, q_ciphertexts := None,
        q_ended := Some (to_sql now), q_claim := None, q_until := None\<rparr> else q0)"
      using q1(1) unfolding t1_def expire_rows_def sql_update_mem by auto
    then show ?thesis using q1(2) by (auto simp: end_used_def can_expire_def)
  qed
  moreover have "row_ok q" if "q \<in> set t3" for q
    using ok2 that by (auto simp: t3_def prune_rows_def Let_def table_ok_def)
  ultimately have fin: "t' \<in> {t, t1, t2, t3}" "err = None \<Longrightarrow> t' = t3"
    and e3: "\<And>q. q \<in> set t3 \<Longrightarrow> \<not> can_expire (to_sql now) q"
    and d3: "\<And>q. q \<in> set t3 \<Longrightarrow> q_status q = SecretDispatched \<Longrightarrow> \<not> sql_le (q_until q) (to_sql now)"
    and r3: "\<And>q. q \<in> set t3 \<Longrightarrow> row_ok q" by blast+
  have "q_status q = SecretExpired \<and> q_ciphertexts q = None"
    if "q \<in> set t3" "status_at now (hydrate q) = SecretExpired" for q
  proof -
    have "q_status q = SecretExpired"
      using row_status_tests [OF r3 [OF that(1)] refl, of now] e3 [OF that(1)] that(2) by simp
    then show ?thesis using r3 [OF that(1)] by (auto simp: row_ok_def)
  qed
  moreover have "q \<in> set t'" if "q \<in> set t" "status_at now (hydrate q) \<in> {SecretPending, SecretSubmitted, SecretClaimed}" for q
    using fin(1) k1 [OF that] k2 [OF that] k3 [OF that] that(1) by auto
  ultimately show ?thesis using fin(2) d3 by simp
qed

text \<open>One request through its life: submitted, taken, dispatched.\<close>

abbreviation row_submitted :: secret_row where
  "row_submitted \<equiv> demo_row\<lparr>q_status := SecretSubmitted, q_ciphertexts := Some [(''KEY'', demo_ct)], q_submitted := Some 0\<rparr>"

abbreviation row_dispatched :: secret_row where
  "row_dispatched \<equiv> row_submitted\<lparr>q_status := SecretDispatched, q_claim := Some ''c1'', q_until := Some 120\<rparr>"

abbreviation claim_sent :: claim where
  "claim_sent \<equiv> \<lparr>ck_id = ''q1'', ck_cid = ''c1'', ck_sent = True, ck_done = None\<rparr>"

lemma demo_tables: "table_ok [row_submitted]" "table_ok [row_dispatched]"
  "row_of [row_dispatched] ''q1'' = Some row_dispatched"
  by (simp_all add: table_ok_def row_ok_def insert_row_def row_of_def)

lemma consume_takes_request_witness:
  "\<exists>c t'. UConsume demo_deps ''u1'' ''s1'' ''a1'' ''q1'' ''c1'' 0 NoFault NoFault [row_submitted] =
       (Inr ([(''KEY'', demo_ct)], c), t') \<and>
     row_of t' ''q1'' = Some (row_submitted\<lparr>q_status := SecretClaimed, q_claim := Some ''c1'', q_until := Some 120\<rparr>)"
proof -
  have u: "UConsume demo_deps ''u1'' ''s1'' ''a1'' ''q1'' ''c1'' 0 NoFault NoFault [row_submitted] =
      (Inr ([(''KEY'', demo_ct)], \<lparr>ck_id = ''q1'', ck_cid = ''c1'', ck_sent = False, ck_done = None\<rparr>),
       [row_submitted\<lparr>q_status := SecretClaimed, q_claim := Some ''c1'', q_until := Some 120\<rparr>])"
    by (simp add: UConsume_def attempt_def Get_def insert_row_def status_at_def hydrate_def from_sql_def to_sql_def
        second_def hour_def Let_def Claim_def sql_update_def can_claim_def ClaimTTL_def minute_def)
  have "row_of [row_submitted] ''q1'' = Some row_submitted" by (simp add: row_of_def insert_row_def)
  then have "row_of [row_submitted\<lparr>q_status := SecretClaimed, q_claim := Some ''c1'', q_until := Some 120\<rparr>] ''q1'' =
      Some (row_submitted\<lparr>q_status := SecretClaimed, q_claim := Some ''c1'', q_until := Some 120\<rparr>)"
    using consume_takes_request [OF u demo_tables(1)] by (simp add: to_sql_def ClaimTTL_def minute_def second_def)
  then show ?thesis using u by blast
qed

lemma commit_after_dispatch_witness:
  "\<exists>env err c' t'. UCommit False env NoFault (claim_sent, [row_dispatched]) = (err, c', t') \<and>
     phase_of t' ''q1'' \<in> {Some (SecretDispatched, Some ''c1''), Some (SecretUsed, None)}"
proof -
  obtain err c' t' where u: "UCommit False (\<lambda>n. (0, FailBefore, n = 2)) NoFault (claim_sent, [row_dispatched]) = (err, c', t')"
    by (rule prod_cases3)
  have "phase_of t' (ck_id claim_sent) \<in> {Some (SecretDispatched, Some (ck_cid claim_sent)), Some (SecretUsed, None)}"
    using commit_after_dispatch [OF demo_tables(2) _ _ _ u] demo_tables(3)
    by (simp add: phase_of_def)
  then show ?thesis using u by (intro exI [of _ "\<lambda>n. (0, FailBefore, n = 2)"] exI) auto
qed

lemma commit_lost_reply_witness:
  "\<exists>env. fst (UCommit True env NoFault (claim_sent, [row_dispatched])) = Some ClaimLost"
proof -
  let ?env = "\<lambda>n::nat. (second, if n = 0 then FailAfter else NoFault, False)"
  have "fst (UCommit True ?env NoFault (claim_sent, [row_dispatched])) = Some ClaimLost"
    using commit_lost_reply [of "[row_dispatched]" claim_sent row_dispatched ?env second second True NoFault]
      demo_tables(2,3) by (simp add: held_def insert_row_def)
  then show ?thesis by blast
qed

lemma sweep_ends_expired_witness:
  "\<exists>t'. USweep (25 * hour) NoFault NoFault NoFault [demo_row, row_dispatched\<lparr>q_id := ''q2''\<rparr>] = (None, t') \<and>
     t' \<noteq> [] \<and> list_all (\<lambda>q. q_ciphertexts q = None) t'"
proof -
  let ?t = "[demo_row, row_dispatched\<lparr>q_id := ''q2''\<rparr>]"
  obtain t' where u: "USweep (25 * hour) NoFault NoFault NoFault ?t = (None, t')" "map q_status t' = [SecretExpired, SecretUsed]"
    by (simp add: USweep_def Expire_def attempt_def expire_rows_def end_dispatched_rows_def prune_rows_def
        sql_update_def can_expire_def insert_row_def sql_le_def end_used_def to_sql_def second_def hour_def Retention_def)
  have ok: "table_ok ?t" by (simp add: table_ok_def row_ok_def insert_row_def)
  have ok': "table_ok t'"
    using u(1) secret_step_ok [OF secret_step_ok [OF secret_step_ok [OF ok, of "OpExpire (25 * hour)"], of "OpEnd (25 * hour)"],
        of "OpPrune (25 * hour - Retention)"]
    by (simp add: USweep_def Expire_def attempt_def split_beta Let_def)
  have "\<forall>q \<in> set t'. \<not> (q_status q = SecretDispatched \<and> sql_le (q_until q) (to_sql (25 * hour)))"
    using sweep_ends_expired [OF ok u(1)] by auto
  moreover have "list_all (\<lambda>q. q_ciphertexts q = None) t'"
  proof -
    have "q_status q \<in> {SecretExpired, SecretUsed}" if "q \<in> set t'" for q
      using u(2) that by (metis image_eqI list.set_map list.set(1,2) insert_iff)
    moreover have "q_ciphertexts q = None" if "row_ok q" "q_status q \<in> {SecretExpired, SecretUsed}" for q
      using that by (auto simp: row_ok_def)
    ultimately show ?thesis using ok' unfolding list_all_iff table_ok_def by blast
  qed
  moreover have "t' \<noteq> []" using u(2) by auto
  ultimately show ?thesis using u(1) by blast
qed

end
