(* ===== verification/Rollout_Scope.thy ===== *)
theory Rollout_Scope
  imports Secret_Usecase "HOL-Library.Product_Lexorder" "HOL-Library.Option_ord"
begin

text \<open>
  What a rollout covers, \<open>internal/domain/model/rollout.go\<close>: the two kinds of scope, and the
  merge by which a running reload takes in another request. The JSON column holds the scope it
  encodes; a document that does not decode is \<open>BadDoc\<close>. A scope read as the other kind's has that
  kind's fields empty, as Go's decoder leaves them.

  Scopes are ordered by what they ask for; the merge is their least upper bound.
\<close>

datatype rollout_state = RolloutQueued | RolloutRunning | RolloutDone | RolloutStopped | RolloutFailed

definition Active :: "rollout_state \<Rightarrow> bool" where
  "Active s \<longleftrightarrow> s = RolloutQueued \<or> s = RolloutRunning"

record upgrade_scope =
  us_template :: string
  us_revision :: int

record reload_scope =
  rs_names :: "string list"
  rs_servers :: "string list"
  rs_all_stale :: "string list"
  rs_apps :: "string list"
  rs_revisions :: "(string, int) gomap"
  rs_settle :: time

datatype scope_doc = UpgradeDoc upgrade_scope | ReloadDoc reload_scope | BadDoc string

record rollout =
  ro_id :: string
  ro_org :: string
  ro_kind :: string
  ro_scope :: scope_doc
  ro_scope_key :: string
  ro_scope_rev :: int
  ro_state :: rollout_state
  ro_stop :: bool
  ro_app :: string
  ro_server :: string
  ro_done :: int
  ro_skipped :: int
  ro_total :: int
  ro_skip_ids :: "string list"
  ro_error :: string
  ro_owner :: string
  ro_until :: "time option"
  ro_created :: time
  ro_by :: string
  ro_finished :: "time option"

definition RolloutTemplateUpgrade :: string where "RolloutTemplateUpgrade = ''template_upgrade''"
definition RolloutVarsReload :: string where "RolloutVarsReload = ''vars_reload''"

definition UpgradeScopeKey :: "string \<Rightarrow> string \<Rightarrow> string" where
  "UpgradeScopeKey org tpl = org @ '':'' @ tpl"

subsection \<open>Validation\<close>

definition SharedVariableNameMax :: nat where "SharedVariableNameMax = 255"

definition letter :: "char \<Rightarrow> bool" where
  "letter c \<longleftrightarrow> upper c \<or> (CHR ''a'' \<le> c \<and> c \<le> CHR ''z'') \<or> c = CHR ''_''"

definition sharedVariableName :: "string \<Rightarrow> bool" where
  "sharedVariableName s = (case s of [] \<Rightarrow> False | c # r \<Rightarrow> letter c \<and> list_all (\<lambda>d. letter d \<or> digit d) r)"

definition ValidateSharedVariableName :: "string \<Rightarrow> bool" where
  "ValidateSharedVariableName n =
     (if n = [] then False
      else if SharedVariableNameMax < length n then False
      else if \<not> sharedVariableName n then False
      else \<not> ReservedVariableName n)"

definition validate_scope :: "reload_scope \<Rightarrow> bool" where
  "validate_scope s = (list_all ValidAppID (rs_apps s) \<and> list_all ValidateSharedVariableName (rs_names s))"

subsection \<open>Merging\<close>

definition joined :: "string list \<Rightarrow> string list \<Rightarrow> string list" where
  "joined a b = remdups_adj (sort (a @ b))"

definition merge_revision :: "string \<times> int \<Rightarrow> (string, int) gomap \<Rightarrow> (string, int) gomap" where
  "merge_revision kv m =
     (case mget m (fst kv) of Some cur \<Rightarrow> if cur < snd kv then mput (fst kv) (snd kv) m else m
      | None \<Rightarrow> mput (fst kv) (snd kv) m)"

definition Merge :: "reload_scope \<Rightarrow> reload_scope \<Rightarrow> reload_scope" where
  "Merge s t =
     \<lparr>rs_names = joined (rs_names s) (rs_names t), rs_servers = joined (rs_servers s) (rs_servers t),
      rs_all_stale = joined (rs_all_stale s) (rs_all_stale t), rs_apps = joined (rs_apps s) (rs_apps t),
      rs_revisions = fold (fold merge_revision) [rs_revisions s, rs_revisions t] [],
      rs_settle = (if rs_settle s < rs_settle t then rs_settle t else rs_settle s)\<rparr>"

definition Servers :: "reload_scope \<Rightarrow> string list" where
  "Servers s = joined (rs_servers s) (rs_all_stale s)"

definition Wants :: "reload_scope \<Rightarrow> string \<Rightarrow> string \<Rightarrow> string list \<Rightarrow> bool" where
  "Wants s server app stale =
     (if stale = [] then False
      else if server \<in> set (rs_all_stale s) \<or> app \<in> set (rs_apps s) then True
      else if server \<notin> set (rs_servers s) then False
      else list_ex (\<lambda>n. n \<in> set (rs_names s)) stale)"

subsection \<open>The order of scopes\<close>

lemma joined_set [simp]: "set (joined a b) = set a \<union> set b"
  by (simp add: joined_def)

lemma strict_remdups_adj: "sorted xs \<Longrightarrow> sorted_wrt (<) (remdups_adj xs)"
  for xs :: "'a::linorder list"
  by (induction xs rule: remdups_adj.induct) (auto simp: less_le)

lemma joined_sorted: "sorted_wrt (<) (joined a b)"
  by (simp add: joined_def strict_remdups_adj)

definition scope_ok :: "reload_scope \<Rightarrow> bool" where
  "scope_ok s \<longleftrightarrow> wf_map (rs_revisions s)"

definition scope_le :: "reload_scope \<Rightarrow> reload_scope \<Rightarrow> bool" where
  "scope_le s t \<longleftrightarrow> set (rs_names s) \<subseteq> set (rs_names t) \<and> set (rs_servers s) \<subseteq> set (rs_servers t) \<and>
     set (rs_all_stale s) \<subseteq> set (rs_all_stale t) \<and> set (rs_apps s) \<subseteq> set (rs_apps t) \<and>
     (\<forall>k. mget (rs_revisions s) k \<le> mget (rs_revisions t) k) \<and> rs_settle s \<le> rs_settle t"

lemma scope_le_refl [simp, intro]: "scope_le s s"
  by (simp add: scope_le_def)

lemma scope_le_trans: "scope_le s t \<Longrightarrow> scope_le t u \<Longrightarrow> scope_le s u"
  unfolding scope_le_def by (meson order.trans)

lemma mget_merge_revision: "mget (merge_revision kv m) k = (if k = fst kv then max (mget m k) (Some (snd kv)) else mget m k)"
  by (auto simp: merge_revision_def max_def split: option.split)

lemma mget_merge_revisions:
  "wf_map l \<Longrightarrow> mget (fold merge_revision l acc) k = max (mget acc k) (mget l k)"
proof (induction l arbitrary: acc)
  case (Cons kv l)
  then have "mget l (fst kv) = None" by (simp add: wf_map_def map_of_eq_None_iff)
  moreover have "max (a :: int option) None = a" for a by (cases a) (simp_all add: max_def)
  ultimately show ?case using Cons
    by (cases kv) (simp add: wf_map_def mget_merge_revision)
next
  case Nil
  show ?case by (cases "mget acc k") (simp_all add: max_def)
qed

lemma wf_merge_revision: "wf_map m \<Longrightarrow> wf_map (merge_revision kv m)"
  by (simp add: merge_revision_def split: option.split)

lemma Merge_ok: "scope_ok (Merge s t)"
proof -
  have "wf_map (fold merge_revision l acc)" if "wf_map acc" for l acc
    using that by (induction l arbitrary: acc) (simp_all add: wf_merge_revision)
  then show ?thesis by (simp add: scope_ok_def Merge_def)
qed

lemma Merge_le_iff:
  assumes "scope_ok s" "scope_ok t"
  shows "scope_le (Merge s t) u \<longleftrightarrow> scope_le s u \<and> scope_le t u"
proof -
  have "mget (rs_revisions (Merge s t)) k = max (mget (rs_revisions s) k) (mget (rs_revisions t) k)" for k
  proof -
    have "max None a = (a :: int option)" for a by (cases a) (simp_all add: max_def)
    with assms show ?thesis by (simp add: Merge_def scope_ok_def mget_merge_revisions)
  qed
  then have r: "(\<forall>k. mget (rs_revisions (Merge s t)) k \<le> mget (rs_revisions u) k) \<longleftrightarrow>
      (\<forall>k. mget (rs_revisions s) k \<le> mget (rs_revisions u) k) \<and>
      (\<forall>k. mget (rs_revisions t) k \<le> mget (rs_revisions u) k)"
    by (simp only: max.bounded_iff) blast
  have "rs_settle (Merge s t) \<le> rs_settle u \<longleftrightarrow> rs_settle s \<le> rs_settle u \<and> rs_settle t \<le> rs_settle u"
    by (auto simp: Merge_def)
  moreover have "set (rs_names (Merge s t)) = set (rs_names s) \<union> set (rs_names t)"
    "set (rs_servers (Merge s t)) = set (rs_servers s) \<union> set (rs_servers t)"
    "set (rs_all_stale (Merge s t)) = set (rs_all_stale s) \<union> set (rs_all_stale t)"
    "set (rs_apps (Merge s t)) = set (rs_apps s) \<union> set (rs_apps t)"
    by (simp_all add: Merge_def)
  ultimately show ?thesis unfolding scope_le_def r by (simp only: Un_subset_iff) blast
qed

lemma Wants_mono: "scope_le s t \<Longrightarrow> Wants s srv app stale \<Longrightarrow> Wants t srv app stale"
  unfolding Wants_def scope_le_def list_ex_iff by (auto split: if_splits)

text \<open>The merge is above both, whatever the lists hold.\<close>

lemma merge_revisions_ge: "max (mget acc k) (mget l k) \<le> mget (fold merge_revision l acc) k"
proof (induction l arbitrary: acc)
  case (Cons kv l)
  have "mget acc k \<le> mget (merge_revision kv acc) k"
    by (simp add: mget_merge_revision)
  moreover have "mget (kv # l) k = (if fst kv = k then Some (snd kv) else mget l k)" by (cases kv) auto
  moreover have "fst kv = k \<Longrightarrow> Some (snd kv) \<le> mget (merge_revision kv acc) k"
    by (auto simp: mget_merge_revision)
  moreover have "max (mget (merge_revision kv acc) k) (mget l k) \<le> mget (fold merge_revision (kv # l) acc) k"
    using Cons.IH [of "merge_revision kv acc"] by simp
  ultimately show ?case by (auto intro: order.trans)
next
  case Nil
  have "max (mget acc k) None = mget acc k" by (cases "mget acc k") (simp_all add: max_def)
  then show ?case by simp
qed

lemma Merge_upper: "scope_le s (Merge s t) \<and> scope_le t (Merge s t)"
proof -
  let ?m = "fold merge_revision (rs_revisions s) []"
  have m: "rs_revisions (Merge s t) = fold merge_revision (rs_revisions t) ?m" by (simp add: Merge_def)
  have "mget (rs_revisions s) k \<le> mget (rs_revisions (Merge s t)) k \<and>
      mget (rs_revisions t) k \<le> mget (rs_revisions (Merge s t)) k" for k
  proof -
    have "mget (rs_revisions s) k \<le> mget ?m k"
      using merge_revisions_ge [of "[]" k "rs_revisions s"] by (simp only: max.bounded_iff)
    moreover have "mget ?m k \<le> mget (rs_revisions (Merge s t)) k \<and> mget (rs_revisions t) k \<le> mget (rs_revisions (Merge s t)) k"
      using merge_revisions_ge [of ?m k "rs_revisions t"] unfolding m by (simp only: max.bounded_iff)
    ultimately show ?thesis using order.trans by blast
  qed
  moreover have "rs_settle s \<le> rs_settle (Merge s t) \<and> rs_settle t \<le> rs_settle (Merge s t)"
    by (simp add: Merge_def)
  moreover have "set (rs_names (Merge s t)) = set (rs_names s) \<union> set (rs_names t)"
    "set (rs_servers (Merge s t)) = set (rs_servers s) \<union> set (rs_servers t)"
    "set (rs_all_stale (Merge s t)) = set (rs_all_stale s) \<union> set (rs_all_stale t)"
    "set (rs_apps (Merge s t)) = set (rs_apps s) \<union> set (rs_apps t)"
    by (simp_all add: Merge_def)
  ultimately show ?thesis unfolding scope_le_def by simp
qed

text \<open>C30. Merging two reload scopes gives the least scope that asks for everything either asks for:
  a scope is above the merge exactly when it is above both. So every stale app one of the requests
  wants, the merged rollout wants, and no server's revision or the time to settle is lowered.\<close>

theorem merge_is_join:
  assumes "scope_ok s" "scope_ok t"
  shows "(scope_le (Merge s t) u \<longleftrightarrow> scope_le s u \<and> scope_le t u) \<and>
    (Wants s srv app stale \<or> Wants t srv app stale \<longrightarrow> Wants (Merge s t) srv app stale)"
  using Merge_le_iff [OF assms] Wants_mono by blast

abbreviation demo_scope :: "string \<Rightarrow> string \<Rightarrow> reload_scope" where
  "demo_scope n srv \<equiv> \<lparr>rs_names = [n], rs_servers = [srv], rs_all_stale = [], rs_apps = [],
     rs_revisions = [(srv, 3)], rs_settle = 0\<rparr>"

lemma demo_wants: "Wants (demo_scope n srv) srv2 app [m] \<longleftrightarrow> srv2 = srv \<and> m = n"
  by (auto simp: Wants_def)

lemma merge_is_join_witness:
  "Wants (Merge (demo_scope ''A'' ''s1'') (demo_scope ''B'' ''s2'')) ''s2'' ''app'' [''B'']"
proof -
  have "scope_ok (demo_scope n srv)" for n srv by (simp add: scope_ok_def wf_map_def)
  from merge_is_join [OF this this, of "''A''" "''s1''" "''B''" "''s2''" _ "''s2''" "''app''" "[''B'']"]
  show ?thesis unfolding demo_wants by blast
qed

text \<open>The names and the servers of a scope are two lists, so the least scope above two requests can
  want an app that neither wants: here one stale for \<open>A\<close> on the server that was named with \<open>B\<close>.\<close>

lemma merge_wants_more:
  "\<exists>s t. Wants (Merge s t) ''s2'' ''app'' [''A''] \<and> \<not> Wants s ''s2'' ''app'' [''A''] \<and> \<not> Wants t ''s2'' ''app'' [''A'']"
proof (intro exI conjI)
  show "Wants (Merge (demo_scope ''A'' ''s1'') (demo_scope ''B'' ''s2'')) ''s2'' ''app'' [''A'']"
    by (simp add: Wants_def Merge_def)
qed (simp_all add: demo_wants)

end
