(* ===== verification/Rollout_Store.thy ===== *)
theory Rollout_Store
  imports Rollout_Scope
begin

text \<open>
  The rollout queue's table: \<open>internal/infra/db/repository/rollout/repo.go\<close> over the statements
  of \<open>sqlc/query/sqlite/rollouts.sql\<close> and migration 0015. Each statement is one function on the
  list of rows; its boolean says whether a row was changed. A row's organization exists (the
  insert's foreign key failing is an error of the call), and the skip list's JSON column holds the
  list.

  What the workers rely on: a scope has at most one active rollout; an ended rollout stays as it is
  until it is pruned; a scope revision names one scope; and while a worker owns a row nobody else
  changes its counts.
\<close>

record rollout_row =
  rw_id :: string
  rw_org :: string
  rw_kind :: string
  rw_scope :: scope_doc
  rw_scope_key :: string
  rw_scope_rev :: int
  rw_state :: rollout_state
  rw_stop :: bool
  rw_app :: string
  rw_server :: string
  rw_done :: int
  rw_skipped :: int
  rw_total :: int
  rw_skip_ids :: "string list"
  rw_error :: string
  rw_owner :: string
  rw_until :: "sqltime option"
  rw_created :: sqltime
  rw_by :: string
  rw_finished :: "sqltime option"

type_synonym rollouts = "rollout_row list"

definition hydrate_rollout :: "rollout_row \<Rightarrow> rollout" where
  "hydrate_rollout q = \<lparr>ro_id = rw_id q, ro_org = rw_org q, ro_kind = rw_kind q, ro_scope = rw_scope q,
     ro_scope_key = rw_scope_key q, ro_scope_rev = rw_scope_rev q, ro_state = rw_state q, ro_stop = rw_stop q,
     ro_app = rw_app q, ro_server = rw_server q, ro_done = rw_done q, ro_skipped = rw_skipped q,
     ro_total = rw_total q, ro_skip_ids = rw_skip_ids q, ro_error = rw_error q, ro_owner = rw_owner q,
     ro_until = map_option from_sql (rw_until q), ro_created = from_sql (rw_created q), ro_by = rw_by q,
     ro_finished = map_option from_sql (rw_finished q)\<rparr>"

abbreviation active_row :: "rollout_row \<Rightarrow> bool" where
  "active_row q \<equiv> Active (rw_state q)"

subsection \<open>Statements\<close>

text \<open>An insert that conflicts with the primary key, or with the index on the active rollouts of a
  scope, does nothing.\<close>

definition queued_row :: "time \<Rightarrow> rollout \<Rightarrow> rollout_row" where
  "queued_row now ro = \<lparr>rw_id = ro_id ro, rw_org = ro_org ro, rw_kind = ro_kind ro, rw_scope = ro_scope ro,
     rw_scope_key = ro_scope_key ro, rw_scope_rev = 1, rw_state = RolloutQueued, rw_stop = False, rw_app = [],
     rw_server = [], rw_done = 0, rw_skipped = 0, rw_total = 0, rw_skip_ids = [], rw_error = [], rw_owner = [],
     rw_until = None, rw_created = to_sql now, rw_by = ro_by ro, rw_finished = None\<rparr>"

definition InsertRollout :: "time \<Rightarrow> rollout \<Rightarrow> rollouts \<Rightarrow> bool \<times> rollouts" where
  "InsertRollout now ro t =
     (if list_ex (\<lambda>q. rw_id q = ro_id ro \<or>
           active_row q \<and> rw_kind q = ro_kind ro \<and> rw_scope_key q = ro_scope_key ro) t
      then (False, t)
      else (True, t @ [queued_row now ro]))"

definition GetRollout :: "string \<Rightarrow> rollouts \<Rightarrow> rollout option" where
  "GetRollout i t = map_option hydrate_rollout (find (\<lambda>q. rw_id q = i) t)"

definition GetActiveRollout :: "string \<Rightarrow> string \<Rightarrow> rollouts \<Rightarrow> rollout option" where
  "GetActiveRollout k key t =
     map_option hydrate_rollout (find (\<lambda>q. rw_kind q = k \<and> rw_scope_key q = key \<and> active_row q) t)"

text \<open>Active first, then the newest, then the greatest id.\<close>

definition active_first :: "rollouts \<Rightarrow> rollouts" where
  "active_first t = rev (sort_key (\<lambda>q. (active_row q, rw_created q, rw_id q)) (rev t))"

definition ListRollouts :: "string \<Rightarrow> string \<Rightarrow> string \<Rightarrow> rollouts \<Rightarrow> rollout list" where
  "ListRollouts org k key t =
     map hydrate_rollout
      (if key = [] then take 100 (active_first (filter (\<lambda>q. rw_org q = org \<and> rw_kind q = k) t))
       else take 21 (active_first (filter (\<lambda>q. rw_org q = org \<and> rw_kind q = k \<and> rw_scope_key q = key) t)))"

definition changed_rows :: "nat \<times> rollouts \<Rightarrow> bool \<times> rollouts" where
  "changed_rows r = (0 < fst r, snd r)"

definition ExtendRollout :: "string \<Rightarrow> int \<Rightarrow> scope_doc \<Rightarrow> rollouts \<Rightarrow> bool \<times> rollouts" where
  "ExtendRollout i rv doc t = changed_rows (sql_update
     (\<lambda>q. rw_id q = i \<and> rw_scope_rev q = rv \<and> active_row q \<and> \<not> rw_stop q)
     (\<lambda>q. q\<lparr>rw_scope := doc, rw_scope_rev := rw_scope_rev q + 1\<rparr>) t)"

definition RequestStop :: "string \<Rightarrow> string \<Rightarrow> rollouts \<Rightarrow> bool \<times> rollouts" where
  "RequestStop org i t = changed_rows (sql_update
     (\<lambda>q. rw_id q = i \<and> rw_org q = org \<and> active_row q) (\<lambda>q. q\<lparr>rw_stop := True\<rparr>) t)"

definition unleased :: "sqltime \<Rightarrow> rollout_row \<Rightarrow> bool" where
  "unleased now q \<longleftrightarrow> rw_until q = None \<or> sql_le (rw_until q) now"

definition ListClaimable :: "time \<Rightarrow> rollouts \<Rightarrow> string list" where
  "ListClaimable now t =
     map rw_id (take 10 (sort_key (\<lambda>q. (rw_created q, rw_id q))
       (filter (\<lambda>q. active_row q \<and> unleased (to_sql now) q) t)))"

definition ClaimRollout :: "string \<Rightarrow> string \<Rightarrow> time \<Rightarrow> time \<Rightarrow> rollouts \<Rightarrow> bool \<times> rollouts" where
  "ClaimRollout i w now until t = changed_rows (sql_update
     (\<lambda>q. rw_id q = i \<and> active_row q \<and> unleased (to_sql now) q)
     (\<lambda>q. q\<lparr>rw_owner := w, rw_until := Some (to_sql until), rw_state := RolloutRunning\<rparr>) t)"

definition driven_by :: "string \<Rightarrow> string \<Rightarrow> rollout_row \<Rightarrow> bool" where
  "driven_by i w q \<longleftrightarrow> rw_id q = i \<and> rw_owner q = w \<and> rw_state q = RolloutRunning"

definition RenewLease :: "string \<Rightarrow> string \<Rightarrow> time \<Rightarrow> rollouts \<Rightarrow> bool \<times> rollouts" where
  "RenewLease i w until t =
     changed_rows (sql_update (driven_by i w) (\<lambda>q. q\<lparr>rw_until := Some (to_sql until)\<rparr>) t)"

text \<open>The zero time leaves the rollout claimable at once.\<close>

definition ReleaseLease :: "string \<Rightarrow> string \<Rightarrow> time \<Rightarrow> rollouts \<Rightarrow> bool \<times> rollouts" where
  "ReleaseLease i w until t = changed_rows (sql_update (\<lambda>q. rw_id q = i \<and> rw_owner q = w)
     (\<lambda>q. q\<lparr>rw_owner := [], rw_until := (if is_zero until then None else Some (to_sql until))\<rparr>) t)"

definition StopUnleased :: "string \<Rightarrow> string \<Rightarrow> time \<Rightarrow> rollouts \<Rightarrow> bool \<times> rollouts" where
  "StopUnleased org i now t = changed_rows (sql_update
     (\<lambda>q. rw_id q = i \<and> rw_org q = org \<and> active_row q \<and> (rw_owner q = [] \<or> unleased (to_sql now) q))
     (\<lambda>q. q\<lparr>rw_state := RolloutStopped, rw_stop := True, rw_app := [], rw_server := [], rw_owner := [],
           rw_until := None, rw_finished := Some (to_sql now)\<rparr>) t)"

definition StartStep :: "string \<Rightarrow> string \<Rightarrow> string \<Rightarrow> string \<Rightarrow> int \<Rightarrow> rollouts \<Rightarrow> bool \<times> rollouts" where
  "StartStep i w app srv tot t = changed_rows (sql_update (driven_by i w)
     (\<lambda>q. q\<lparr>rw_app := app, rw_server := srv, rw_total := tot\<rparr>) t)"

definition CountStep :: "string \<Rightarrow> string \<Rightarrow> int \<Rightarrow> int \<Rightarrow> string list \<Rightarrow> rollouts \<Rightarrow> bool \<times> rollouts" where
  "CountStep i w d s skips t = changed_rows (sql_update (driven_by i w)
     (\<lambda>q. q\<lparr>rw_done := rw_done q + d, rw_skipped := rw_skipped q + s, rw_skip_ids := skips\<rparr>) t)"

definition FinishRollout :: "string \<Rightarrow> string \<Rightarrow> rollout_state \<Rightarrow> string \<Rightarrow> string \<Rightarrow> string \<Rightarrow> time
    \<Rightarrow> rollouts \<Rightarrow> bool \<times> rollouts" where
  "FinishRollout i w st msg app srv now t = changed_rows (sql_update (driven_by i w)
     (\<lambda>q. q\<lparr>rw_state := st, rw_error := msg, rw_app := app, rw_server := srv, rw_owner := [],
           rw_until := None, rw_finished := Some (to_sql now)\<rparr>) t)"

definition CompleteRollout :: "string \<Rightarrow> string \<Rightarrow> int \<Rightarrow> time \<Rightarrow> rollouts \<Rightarrow> bool \<times> rollouts" where
  "CompleteRollout i w rv now t = changed_rows (sql_update (\<lambda>q. driven_by i w q \<and> rw_scope_rev q = rv)
     (\<lambda>q. q\<lparr>rw_state := RolloutDone, rw_app := [], rw_server := [], rw_owner := [],
           rw_until := None, rw_finished := Some (to_sql now)\<rparr>) t)"

definition ended_in :: "string \<Rightarrow> string \<Rightarrow> rollout_row \<Rightarrow> bool" where
  "ended_in k key q \<longleftrightarrow> rw_kind q = k \<and> rw_scope_key q = key \<and> \<not> active_row q"

definition kept_ids :: "string \<Rightarrow> string \<Rightarrow> nat \<Rightarrow> rollouts \<Rightarrow> string list" where
  "kept_ids k key keep t =
     map rw_id (take keep (rev (sort_key (\<lambda>q. (rw_finished q, rw_id q)) (filter (ended_in k key) t))))"

definition PruneRollouts :: "string \<Rightarrow> string \<Rightarrow> nat \<Rightarrow> rollouts \<Rightarrow> unit \<times> rollouts" where
  "PruneRollouts k key keep t =
     ((), filter (\<lambda>q. \<not> (ended_in k key q \<and> rw_id q \<notin> set (kept_ids k key keep t))) t)"

text \<open>What deletes rollouts from outside: a template that goes (\<open>templates.sql\<close>), and an organization,
  by the foreign key.\<close>

definition DeleteTemplateRollouts :: "string \<Rightarrow> rollouts \<Rightarrow> rollouts" where
  "DeleteTemplateRollouts key t =
     filter (\<lambda>q. \<not> (rw_kind q = RolloutTemplateUpgrade \<and> rw_scope_key q = key)) t"

definition delete_org :: "string \<Rightarrow> rollouts \<Rightarrow> rollouts" where
  "delete_org org t = filter (\<lambda>q. rw_org q \<noteq> org) t"

subsection \<open>Operations\<close>

datatype rollout_op =
    OpInsert time rollout
  | OpExtend string int scope_doc
  | OpStop string string
  | OpClaimLease string string time time
  | OpRenew string string time
  | OpReleaseLease string string time
  | OpStopUnleased string string time
  | OpStart string string string string int
  | OpCount string string int int "string list"
  | OpFinish string string rollout_state string string string time
  | OpComplete string string int time
  | OpPruneEnded string string nat
  | OpDropTemplate string
  | OpDropOrg string

fun rollout_exec :: "rollout_op \<Rightarrow> rollouts \<Rightarrow> rollouts" where
  "rollout_exec (OpInsert now ro) t = snd (InsertRollout now ro t)"
| "rollout_exec (OpExtend i rv doc) t = snd (ExtendRollout i rv doc t)"
| "rollout_exec (OpStop org i) t = snd (RequestStop org i t)"
| "rollout_exec (OpClaimLease i w now un) t = snd (ClaimRollout i w now un t)"
| "rollout_exec (OpRenew i w un) t = snd (RenewLease i w un t)"
| "rollout_exec (OpReleaseLease i w un) t = snd (ReleaseLease i w un t)"
| "rollout_exec (OpStopUnleased org i now) t = snd (StopUnleased org i now t)"
| "rollout_exec (OpStart i w a s n) t = snd (StartStep i w a s n t)"
| "rollout_exec (OpCount i w d s ids) t = snd (CountStep i w d s ids t)"
| "rollout_exec (OpFinish i w st m a s now) t = snd (FinishRollout i w st m a s now t)"
| "rollout_exec (OpComplete i w rv now) t = snd (CompleteRollout i w rv now t)"
| "rollout_exec (OpPruneEnded k key keep) t = snd (PruneRollouts k key keep t)"
| "rollout_exec (OpDropTemplate key) t = DeleteTemplateRollouts key t"
| "rollout_exec (OpDropOrg org) t = delete_org org t"

text \<open>The worker an operation names; the others are requests' operations.\<close>

fun op_worker :: "rollout_op \<Rightarrow> string option" where
  "op_worker (OpClaimLease i w now un) = Some w"
| "op_worker (OpRenew i w un) = Some w"
| "op_worker (OpReleaseLease i w un) = Some w"
| "op_worker (OpStart i w a s n) = Some w"
| "op_worker (OpCount i w d s ids) = Some w"
| "op_worker (OpFinish i w st m a s now) = Some w"
| "op_worker (OpComplete i w rv now) = Some w"
| "op_worker _ = None"

text \<open>A worker's id is not empty, and a finish is stopped or failed.\<close>

definition op_ok :: "rollout_op \<Rightarrow> bool" where
  "op_ok op \<longleftrightarrow> op_worker op \<noteq> Some [] \<and>
     (case op of OpFinish i w st m a s now \<Rightarrow> st = RolloutStopped \<or> st = RolloutFailed | _ \<Rightarrow> True)"

subsection \<open>What an operation does to a row\<close>

text \<open>Every operation but an insert and a prune changes each row on its own.\<close>

definition guarded :: "('r \<Rightarrow> bool) \<Rightarrow> ('r \<Rightarrow> 'r) \<Rightarrow> 'r \<Rightarrow> 'r" where
  "guarded P f q = (if P q then f q else q)"

fun op_row :: "rollout_op \<Rightarrow> rollout_row \<Rightarrow> rollout_row" where
  "op_row (OpExtend i rv doc) = guarded (\<lambda>q. rw_id q = i \<and> rw_scope_rev q = rv \<and> active_row q \<and> \<not> rw_stop q)
     (\<lambda>q. q\<lparr>rw_scope := doc, rw_scope_rev := rw_scope_rev q + 1\<rparr>)"
| "op_row (OpStop org i) = guarded (\<lambda>q. rw_id q = i \<and> rw_org q = org \<and> active_row q) (\<lambda>q. q\<lparr>rw_stop := True\<rparr>)"
| "op_row (OpClaimLease i w now un) = guarded (\<lambda>q. rw_id q = i \<and> active_row q \<and> unleased (to_sql now) q)
     (\<lambda>q. q\<lparr>rw_owner := w, rw_until := Some (to_sql un), rw_state := RolloutRunning\<rparr>)"
| "op_row (OpRenew i w un) = guarded (driven_by i w) (\<lambda>q. q\<lparr>rw_until := Some (to_sql un)\<rparr>)"
| "op_row (OpReleaseLease i w un) = guarded (\<lambda>q. rw_id q = i \<and> rw_owner q = w)
     (\<lambda>q. q\<lparr>rw_owner := [], rw_until := (if is_zero un then None else Some (to_sql un))\<rparr>)"
| "op_row (OpStopUnleased org i now) = guarded
     (\<lambda>q. rw_id q = i \<and> rw_org q = org \<and> active_row q \<and> (rw_owner q = [] \<or> unleased (to_sql now) q))
     (\<lambda>q. q\<lparr>rw_state := RolloutStopped, rw_stop := True, rw_app := [], rw_server := [], rw_owner := [],
           rw_until := None, rw_finished := Some (to_sql now)\<rparr>)"
| "op_row (OpStart i w a s n) = guarded (driven_by i w) (\<lambda>q. q\<lparr>rw_app := a, rw_server := s, rw_total := n\<rparr>)"
| "op_row (OpCount i w d s ids) = guarded (driven_by i w)
     (\<lambda>q. q\<lparr>rw_done := rw_done q + d, rw_skipped := rw_skipped q + s, rw_skip_ids := ids\<rparr>)"
| "op_row (OpFinish i w st m a s now) = guarded (driven_by i w)
     (\<lambda>q. q\<lparr>rw_state := st, rw_error := m, rw_app := a, rw_server := s, rw_owner := [],
           rw_until := None, rw_finished := Some (to_sql now)\<rparr>)"
| "op_row (OpComplete i w rv now) = guarded (\<lambda>q. driven_by i w q \<and> rw_scope_rev q = rv)
     (\<lambda>q. q\<lparr>rw_state := RolloutDone, rw_app := [], rw_server := [], rw_owner := [],
           rw_until := None, rw_finished := Some (to_sql now)\<rparr>)"
| "op_row _ = (\<lambda>q. q)"

definition updates :: "rollout_op \<Rightarrow> bool" where
  "updates op \<longleftrightarrow> (case op of OpInsert now ro \<Rightarrow> False | OpPruneEnded k key n \<Rightarrow> False
     | OpDropTemplate key \<Rightarrow> False | OpDropOrg org \<Rightarrow> False | _ \<Rightarrow> True)"

text \<open>Deletions of rollouts that may be active.\<close>

definition drops :: "rollout_op \<Rightarrow> bool" where
  "drops op \<longleftrightarrow> (case op of OpDropTemplate key \<Rightarrow> True | OpDropOrg org \<Rightarrow> True | _ \<Rightarrow> False)"

lemmas statement_defs = ExtendRollout_def RequestStop_def ClaimRollout_def RenewLease_def ReleaseLease_def
  StopUnleased_def StartStep_def CountStep_def FinishRollout_def CompleteRollout_def

lemma snd_changed [simp]: "snd (changed_rows (sql_update P f t)) = map (guarded P f) t"
  by (simp add: changed_rows_def sql_update_def guarded_def)

lemma fst_changed [simp]: "fst (changed_rows (sql_update P f t)) \<longleftrightarrow> (\<exists>q \<in> set t. P q)"
  by (auto simp: changed_rows_def sql_update_def filter_empty_conv)

lemma exec_update: "updates op \<Longrightarrow> rollout_exec op t = map (op_row op) t"
  by (cases op) (simp_all add: statement_defs updates_def)

subsection \<open>The table's invariant\<close>

text \<open>An active rollout has no end time, an ended one has one and no owner; only a running rollout is
  owned.\<close>

definition rollout_ok :: "rollout_row \<Rightarrow> bool" where
  "rollout_ok q \<longleftrightarrow> (active_row q \<longleftrightarrow> rw_finished q = None) \<and>
     (rw_owner q = [] \<or> rw_state q = RolloutRunning) \<and> 1 \<le> rw_scope_rev q"

definition rollouts_ok :: "rollouts \<Rightarrow> bool" where
  "rollouts_ok t \<longleftrightarrow> (\<forall>q \<in> set t. rollout_ok q) \<and> distinct (map rw_id t) \<and>
     distinct (map (\<lambda>q. (rw_kind q, rw_scope_key q)) (filter active_row t))"

lemma op_row_ok: "op_ok op \<Longrightarrow> rollout_ok q \<Longrightarrow> rollout_ok (op_row op q)"
  by (cases op) (auto simp: guarded_def rollout_ok_def op_ok_def Active_def driven_by_def)

lemma op_row_same [simp]:
  "rw_id (op_row op q) = rw_id q" "rw_kind (op_row op q) = rw_kind q"
  "rw_scope_key (op_row op q) = rw_scope_key q" "rw_org (op_row op q) = rw_org q"
  by (cases op; simp add: guarded_def)+

lemma queued_row_ok [simp]:
  "rollout_ok (queued_row now ro)" "active_row (queued_row now ro)" "rw_id (queued_row now ro) = ro_id ro"
  "rw_kind (queued_row now ro) = ro_kind ro" "rw_scope_key (queued_row now ro) = ro_scope_key ro"
  "rw_owner (queued_row now ro) = []"
  by (simp_all add: queued_row_def rollout_ok_def Active_def)

text \<open>An operation can end a rollout but never make an ended one active.\<close>

lemma ended_final:
  assumes "op_ok op" "rollout_ok q" "\<not> active_row q"
  shows "op_row op q = q"
proof -
  have "rw_owner q = []" "rw_state q \<noteq> RolloutRunning" "\<not> active_row q"
    using assms(2,3) by (auto simp: rollout_ok_def Active_def)
  with assms(1) show ?thesis by (cases op) (simp_all add: guarded_def op_ok_def driven_by_def)
qed

lemma distinct_filter_map:
  assumes "distinct (map g (filter P t))" "\<And>q. q \<in> set t \<Longrightarrow> P (f q) \<Longrightarrow> P q" "\<And>q. g (f q) = g q"
  shows "distinct (map g (filter P (map f t)))"
proof -
  have "map g (filter P (map f t)) = map g (filter (P \<circ> f) t)"
    by (simp add: filter_map comp_def assms(3))
  also have "filter (P \<circ> f) t = filter (P \<circ> f) (filter P t)"
    using assms(2) by (auto simp: comp_def intro!: filter_cong)
  finally show ?thesis using distinct_map_filter [OF assms(1), of "P \<circ> f"] by simp
qed

lemma rollouts_ok_update:
  assumes "op_ok op" "rollouts_ok t"
  shows "rollouts_ok (map (op_row op) t)"
proof -
  have "active_row q" if "q \<in> set t" "active_row (op_row op q)" for q
    using ended_final [OF assms(1), of q] assms(2) that unfolding rollouts_ok_def by metis
  then show ?thesis using assms op_row_ok [OF assms(1)] unfolding rollouts_ok_def
    by (auto simp: comp_def intro!: distinct_filter_map)
qed

lemma rollouts_ok_filter:
  assumes "rollouts_ok t"
  shows "rollouts_ok (filter P t)"
proof -
  let ?g = "\<lambda>q. (rw_kind q, rw_scope_key q)"
  have "filter active_row (filter P t) = filter P (filter active_row t)"
    unfolding filter_filter by (rule filter_cong) auto
  then have "distinct (map ?g (filter active_row (filter P t)))"
    using assms distinct_map_filter [of ?g "filter active_row t" P] by (simp only: rollouts_ok_def)
  moreover have "distinct (map rw_id (filter P t))" "\<forall>q \<in> set (filter P t). rollout_ok q"
    using assms distinct_map_filter [of rw_id t P] by (auto simp: rollouts_ok_def)
  ultimately show ?thesis unfolding rollouts_ok_def by blast
qed

lemma exec_delete:
  assumes "\<not> updates op" "\<And>now ro. op \<noteq> OpInsert now ro"
  obtains P where "rollout_exec op t = filter P t" "\<And>q. \<not> P q \<Longrightarrow> drops op \<or> \<not> active_row q"
proof (cases op)
  case (OpPruneEnded k key n)
  then show ?thesis
    by (intro that [of "\<lambda>q. \<not> (ended_in k key q \<and> rw_id q \<notin> set (kept_ids k key n t))"])
      (auto simp: PruneRollouts_def ended_in_def)
next
  case (OpDropTemplate key)
  then show ?thesis
    by (intro that [of "\<lambda>q. \<not> (rw_kind q = RolloutTemplateUpgrade \<and> rw_scope_key q = key)"])
      (auto simp: DeleteTemplateRollouts_def drops_def)
next
  case (OpDropOrg org)
  then show ?thesis by (intro that [of "\<lambda>q. rw_org q \<noteq> org"]) (auto simp: delete_org_def drops_def)
qed (use assms in \<open>simp_all add: updates_def\<close>)

lemma rollouts_ok_exec:
  assumes "op_ok op" "rollouts_ok t"
  shows "rollouts_ok (rollout_exec op t)"
proof (cases "updates op")
  case True
  then show ?thesis using exec_update rollouts_ok_update [OF assms] by simp
next
  case False
  then consider (ins) now ro where "op = OpInsert now ro" | (del) "\<And>now ro. op \<noteq> OpInsert now ro"
    by blast
  then show ?thesis
  proof cases
    case ins
    show ?thesis
    proof (cases "list_ex (\<lambda>q. rw_id q = ro_id ro \<or>
        active_row q \<and> rw_kind q = ro_kind ro \<and> rw_scope_key q = ro_scope_key ro) t")
      case False
      then have free: "ro_id ro \<notin> set (map rw_id t)"
        "(ro_kind ro, ro_scope_key ro) \<notin> set (map (\<lambda>q. (rw_kind q, rw_scope_key q)) (filter active_row t))"
        by (auto simp: list_ex_iff)
      show ?thesis using assms(2) free False
        by (auto simp: ins InsertRollout_def rollouts_ok_def queued_row_ok)
    qed (use assms(2) in \<open>simp add: ins InsertRollout_def\<close>)
  next
    case del
    with False obtain P where "rollout_exec op t = filter P t" by (rule exec_delete)
    then show ?thesis using rollouts_ok_filter [OF assms(2)] by simp
  qed
qed

text \<open>C27. Whatever requests and workers do, at most one rollout of a scope is queued or running, only a
  running one has an owner, and exactly the ended ones have an end time.\<close>

theorem one_active_rollout:
  assumes "list_all op_ok ops"
  shows "rollouts_ok (fold rollout_exec ops [])"
proof -
  have "rollouts_ok (fold rollout_exec ops t)" if "rollouts_ok t" for t
    using assms that by (induction ops arbitrary: t) (simp_all add: rollouts_ok_exec)
  moreover have "rollouts_ok []" by (simp add: rollouts_ok_def)
  ultimately show ?thesis by blast
qed

subsection \<open>The contract of the table towards a worker\<close>

definition look :: "rollouts \<Rightarrow> string \<Rightarrow> rollout_row option" where
  "look t i = find (\<lambda>q. rw_id q = i) t"

text \<open>What can become of a row: it keeps what it is about, its scope changes only with its revision,
  a stop request stays, and once ended it stays as it is.\<close>

definition evolves :: "rollout_row \<Rightarrow> rollout_row \<Rightarrow> bool" where
  "evolves q q' \<longleftrightarrow> rw_id q' = rw_id q \<and> rw_org q' = rw_org q \<and> rw_kind q' = rw_kind q \<and>
     rw_scope_key q' = rw_scope_key q \<and> rw_scope_rev q \<le> rw_scope_rev q' \<and>
     (rw_scope_rev q' = rw_scope_rev q \<longrightarrow> rw_scope q' = rw_scope q) \<and> (rw_stop q \<longrightarrow> rw_stop q') \<and>
     (active_row q \<or> q' = q)"

text \<open>The columns only the owner writes.\<close>

definition same_work :: "rollout_row \<Rightarrow> rollout_row \<Rightarrow> bool" where
  "same_work q q' \<longleftrightarrow> rw_app q' = rw_app q \<and> rw_server q' = rw_server q \<and> rw_done q' = rw_done q \<and>
     rw_skipped q' = rw_skipped q \<and> rw_total q' = rw_total q \<and> rw_skip_ids q' = rw_skip_ids q \<and>
     rw_error q' = rw_error q \<and> rw_state q' = rw_state q \<and> rw_finished q' = rw_finished q"

text \<open>Everything but this worker's own writes; its lease renewals run beside its steps.\<close>

definition of_others :: "string \<Rightarrow> rollout_op \<Rightarrow> bool" where
  "of_others w op \<longleftrightarrow> (case op of OpRenew _ _ _ \<Rightarrow> True | _ \<Rightarrow> op_worker op \<noteq> Some w)"

locale leased_rows =
  fixes ok :: "'s \<Rightarrow> bool" and exec :: "'o \<Rightarrow> 's \<Rightarrow> 's" and find_row :: "'s \<Rightarrow> string \<Rightarrow> 'r option"
    and legal :: "'o \<Rightarrow> bool" and others :: "string \<Rightarrow> 'o \<Rightarrow> bool" and owner :: "'r \<Rightarrow> string"
    and becomes :: "'r \<Rightarrow> 'r \<Rightarrow> bool" and same :: "'r \<Rightarrow> 'r \<Rightarrow> bool"
  assumes ok_exec: "ok s \<Longrightarrow> legal op \<Longrightarrow> ok (exec op s)"
    and fence: "ok s \<Longrightarrow> legal op \<Longrightarrow> others w op \<Longrightarrow> w \<noteq> [] \<Longrightarrow> find_row (exec op s) i = Some q' \<Longrightarrow>
      owner q' = w \<Longrightarrow> \<exists>q. find_row s i = Some q \<and> owner q = w \<and> same q q' \<and> becomes q q'"
    and evolve: "ok s \<Longrightarrow> legal op \<Longrightarrow> find_row s i = Some q \<Longrightarrow> find_row (exec op s) i = Some q' \<Longrightarrow> becomes q q'"
    and same_refl: "same q q" and same_trans: "same q r \<Longrightarrow> same r u \<Longrightarrow> same q u"
    and becomes_refl: "becomes q q" and becomes_trans: "becomes q r \<Longrightarrow> becomes r u \<Longrightarrow> becomes q u"
begin

lemma ok_run: "ok s \<Longrightarrow> list_all legal ops \<Longrightarrow> ok (fold exec ops s)"
  by (induction ops arbitrary: s) (simp_all add: ok_exec)

text \<open>A worker that owns a row after the others did whatever they did owned it all along, and finds
  its own columns as it left them.\<close>

lemma fence_run:
  "ok s \<Longrightarrow> list_all legal ops \<Longrightarrow> list_all (others w) ops \<Longrightarrow> w \<noteq> [] \<Longrightarrow>
   find_row (fold exec ops s) i = Some q' \<Longrightarrow> owner q' = w \<Longrightarrow>
   \<exists>q. find_row s i = Some q \<and> owner q = w \<and> same q q' \<and> becomes q q'"
proof (induction ops arbitrary: s)
  case Nil
  then show ?case by (auto intro: same_refl becomes_refl)
next
  case (Cons op ops)
  then obtain q where q: "find_row (exec op s) i = Some q" "owner q = w" "same q q'" "becomes q q'"
    using Cons.IH [of "exec op s"] ok_exec [of s op] by fastforce
  moreover obtain r where "find_row s i = Some r" "owner r = w" "same r q" "becomes r q"
    using Cons.prems fence [of s op w i q] q by auto
  ultimately show ?case by (blast intro: same_trans becomes_trans)
qed

text \<open>As long as a row is not deleted it only evolves.\<close>

lemma evolve_run:
  assumes "ok s" "list_all legal ops" "find_row s i = Some q"
    "\<And>n. n \<le> length ops \<Longrightarrow> find_row (fold exec (take n ops) s) i \<noteq> None"
    "find_row (fold exec ops s) i = Some q'"
  shows "becomes q q'"
  using assms
proof (induction ops arbitrary: s q)
  case (Cons op ops)
  obtain r where r: "find_row (exec op s) i = Some r" using Cons.prems(4) [of 1] by auto
  have "becomes r q'"
  proof (rule Cons.IH [OF _ _ r])
    show "find_row (fold exec (take n ops) (exec op s)) i \<noteq> None" if "n \<le> length ops" for n
      using Cons.prems(4) [of "Suc n"] that by simp
  qed (use Cons.prems in \<open>simp_all add: ok_exec\<close>)
  then show ?case using Cons.prems evolve [OF _ _ _ r] becomes_trans by auto
qed (use becomes_refl in simp)

end

lemma look_id: "look t i = Some q \<Longrightarrow> rw_id q = i \<and> q \<in> set t"
  by (auto simp: look_def find_Some_iff)

lemma look_map: "(\<And>q. rw_id (f q) = rw_id q) \<Longrightarrow> look (map f t) i = map_option f (look t i)"
  by (induction t) (auto simp: look_def)

lemma look_append: "look (t @ u) i = (case look t i of None \<Rightarrow> look u i | Some q \<Rightarrow> Some q)"
  by (induction t) (auto simp: look_def)

lemma look_filter: "distinct (map rw_id t) \<Longrightarrow>
    look (filter P t) i = (case look t i of Some q \<Rightarrow> if P q then Some q else None | None \<Rightarrow> None)"
proof (induction t)
  case (Cons q t)
  have "look (filter P t) i = None" if "i \<notin> rw_id ` set t"
    using that by (auto simp: look_def find_None_iff)
  with Cons show ?case by (auto simp: look_def)
qed (simp add: look_def)

lemma op_row_evolves: "op_ok op \<Longrightarrow> rollout_ok q \<Longrightarrow> evolves q (op_row op q)"
proof (cases "active_row q")
  case True
  then show ?thesis by (cases op) (simp_all add: evolves_def guarded_def)
next
  assume "op_ok op" "rollout_ok q"
  moreover case False
  ultimately show ?thesis using ended_final [of op q] by (simp add: evolves_def)
qed

lemma op_row_fence:
  assumes "of_others w op" "rw_owner (op_row op q) = w" "w \<noteq> []"
  shows "rw_owner q = w \<and> same_work q (op_row op q)"
  using assms by (cases op) (auto simp: of_others_def guarded_def same_work_def driven_by_def split: if_splits)

lemma evolves_refl [simp]: "evolves q q"
  by (simp add: evolves_def)

lemma evolves_trans: "evolves q r \<Longrightarrow> evolves r u \<Longrightarrow> evolves q u"
  by (auto simp: evolves_def)

text \<open>What a lookup finds after an operation.\<close>

definition inserts :: "string \<Rightarrow> rollout_op \<Rightarrow> bool" where
  "inserts i op \<longleftrightarrow> (case op of OpInsert now ro \<Rightarrow> ro_id ro = i | _ \<Rightarrow> False)"

lemma look_exec_update: "updates op \<Longrightarrow> look (rollout_exec op t) i = map_option (op_row op) (look t i)"
  by (simp add: exec_update look_map)

lemma look_exec_insert:
  "look (rollout_exec (OpInsert now ro) t) i = look t i \<or>
   look t i = None \<and> ro_id ro = i \<and> look (rollout_exec (OpInsert now ro) t) i = Some (queued_row now ro)"
proof -
  have "look [queued_row now ro] i = (if ro_id ro = i then Some (queued_row now ro) else None)"
    by (simp add: look_def)
  then show ?thesis by (auto simp: InsertRollout_def look_append split: option.split)
qed

lemma look_exec_delete:
  assumes "rollouts_ok t" "\<not> updates op" "\<And>now ro. op \<noteq> OpInsert now ro"
  shows "look (rollout_exec op t) i = look t i \<or>
    look (rollout_exec op t) i = None \<and> (\<exists>q. look t i = Some q \<and> (drops op \<or> \<not> active_row q))"
proof -
  obtain P where P: "rollout_exec op t = filter P t" "\<And>q. \<not> P q \<Longrightarrow> drops op \<or> \<not> active_row q"
    using exec_delete [OF assms(2,3)] by blast
  have "distinct (map rw_id t)" using assms(1) by (simp add: rollouts_ok_def)
  then show ?thesis using P by (auto simp: look_filter split: option.split)
qed

lemma look_exec_cases:
  assumes "rollouts_ok t" "op_ok op"
  obtains (row) q where "look t i = Some q" "look (rollout_exec op t) i = Some (op_row op q)" "evolves q (op_row op q)"
  | (none) "look t i = None" "look (rollout_exec op t) i = None"
  | (new) now ro where "look t i = None" "op = OpInsert now ro" "ro_id ro = i"
      "look (rollout_exec op t) i = Some (queued_row now ro)"
  | (gone) q where "look t i = Some q" "drops op \<or> \<not> active_row q" "look (rollout_exec op t) i = None"
proof -
  have ev: "evolves q (op_row op q)" if "look t i = Some q" for q
    using assms look_id [OF that] op_row_evolves by (auto simp: rollouts_ok_def)
  show ?thesis
  proof (cases "updates op")
    case True
    then show ?thesis using that(1,2) ev look_exec_update [OF True, of t i] by (cases "look t i") auto
  next
    case False
    then have same: "op_row op q = q" for q by (cases op) (simp_all add: updates_def)
    show ?thesis
    proof (cases "\<exists>now ro. op = OpInsert now ro")
      case True
      then obtain now ro where "op = OpInsert now ro" by blast
      then show ?thesis using that(1-3) look_exec_insert [of now ro t i] same by (cases "look t i") auto
    next
      case no: False
      then show ?thesis using that(1,2,4) look_exec_delete [OF assms(1) False, of i] same by (cases "look t i") auto
    qed
  qed
qed

interpretation lease: leased_rows rollouts_ok rollout_exec look op_ok of_others rw_owner evolves same_work
proof
  fix s op w i q'
  assume a: "rollouts_ok s" "op_ok op" "of_others w op" "w \<noteq> []" "look (rollout_exec op s) i = Some q'" "rw_owner q' = w"
  from a(1,2) show "\<exists>q. look s i = Some q \<and> rw_owner q = w \<and> same_work q q' \<and> evolves q q'"
    by (rule look_exec_cases [of s op i]) (use a op_row_fence [of w op] in auto)
next
  fix s op i q q'
  assume a: "rollouts_ok s" "op_ok op" "look s i = Some q" "look (rollout_exec op s) i = Some q'"
  from a(1,2) show "evolves q q'"
    by (rule look_exec_cases [of s op i]) (use a in auto)
qed (auto simp: rollouts_ok_exec same_work_def intro: evolves_trans)

lemma gone_stays:
  "rollouts_ok t \<Longrightarrow> list_all op_ok ops \<Longrightarrow> list_all (\<lambda>op. \<not> inserts i op) ops \<Longrightarrow> look t i = None \<Longrightarrow>
   look (fold rollout_exec ops t) i = None"
proof (induction ops arbitrary: t)
  case (Cons op ops)
  then have "look (rollout_exec op t) i = None"
    by (auto simp: inserts_def elim!: look_exec_cases [of t op i])
  with Cons show ?case by (simp add: rollouts_ok_exec)
qed simp

text \<open>A row that is still there has evolved.\<close>

lemma present_evolves:
  "rollouts_ok t \<Longrightarrow> list_all op_ok ops \<Longrightarrow> list_all (\<lambda>op. \<not> inserts i op) ops \<Longrightarrow>
   look (fold rollout_exec ops t) i = Some q' \<Longrightarrow> \<exists>q. look t i = Some q \<and> evolves q q'"
proof (induction ops arbitrary: t)
  case (Cons op ops)
  then have t: "rollouts_ok t" "op_ok op" "rollouts_ok (rollout_exec op t)" by (simp_all add: rollouts_ok_exec)
  with Cons obtain q where q: "look (rollout_exec op t) i = Some q" "evolves q q'" by auto
  from t(1,2) show ?case
    by (rule look_exec_cases [of t op i]) (use q Cons.prems evolves_trans in \<open>auto simp: inserts_def\<close>)
qed (auto)

lemma look_mem: "distinct (map rw_id t) \<Longrightarrow> q \<in> set t \<Longrightarrow> look t (rw_id q) = Some q"
  by (induction t) (auto simp: look_def)

text \<open>C28. A rollout's history: it keeps its organization, kind and scope key, its scope changes only
  together with its revision, which only grows, a stop request stays, an ended rollout never changes
  again, and, but for a template or an organization that is deleted, only an ended rollout goes.\<close>

theorem rollout_history:
  assumes "rollouts_ok t" "list_all op_ok ops" "list_all (\<lambda>op. \<not> inserts i op \<and> \<not> drops op) ops"
    "look t i = Some q"
  shows "case look (fold rollout_exec ops t) i of
      Some q' \<Rightarrow> evolves q q'
    | None \<Rightarrow> (\<exists>n r. n \<le> length ops \<and> look (fold rollout_exec (take n ops) t) i = Some r \<and>
        evolves q r \<and> \<not> active_row r)"
  using assms
proof (induction ops arbitrary: t q)
  case (Cons op ops)
  have ok: "rollouts_ok (rollout_exec op t)" using Cons.prems by (simp add: rollouts_ok_exec)
  from Cons.prems(1) have "op_ok op \<Longrightarrow> ?case"
  proof (rule look_exec_cases [of t op i])
    fix r assume r: "look t i = Some r" "look (rollout_exec op t) i = Some (op_row op r)" "evolves r (op_row op r)"
    have step: "case look (fold rollout_exec ops (rollout_exec op t)) i of
      Some q' \<Rightarrow> evolves (op_row op r) q'
    | None \<Rightarrow> (\<exists>n u. n \<le> length ops \<and> look (fold rollout_exec (take n ops) (rollout_exec op t)) i = Some u \<and>
        evolves (op_row op r) u \<and> \<not> active_row u)"
      using Cons.IH [OF ok _ _ r(2)] Cons.prems by simp
    show ?case
    proof (cases "look (fold rollout_exec ops (rollout_exec op t)) i")
      case None
      with step obtain n u where "n \<le> length ops" "look (fold rollout_exec (take n ops) (rollout_exec op t)) i = Some u"
        "evolves (op_row op r) u" "\<not> active_row u" by auto
      then show ?thesis using None r Cons.prems(4) evolves_trans
        by (auto intro!: exI [of _ "Suc n"])
    next
      case (Some q')
      then show ?thesis using step r Cons.prems(4) evolves_trans by auto
    qed
  next
    fix r assume "look t i = Some r" "drops op \<or> \<not> active_row r" "look (rollout_exec op t) i = None"
    then show ?case using gone_stays [OF ok, of ops i] Cons.prems(2,3,4)
      by (auto simp: list_all_iff intro!: exI [of _ 0])
  qed (use Cons.prems in auto)
  then show ?case using Cons.prems by simp
qed simp

subsection \<open>Concrete histories\<close>

definition demo_rollout :: "string \<Rightarrow> rollout" where
  "demo_rollout i = \<lparr>ro_id = i, ro_org = ''o1'', ro_kind = RolloutVarsReload, ro_scope = BadDoc [], ro_scope_key = ''o1'',
     ro_scope_rev = 0, ro_state = RolloutQueued, ro_stop = False, ro_app = [], ro_server = [], ro_done = 0,
     ro_skipped = 0, ro_total = 0, ro_skip_ids = [], ro_error = [], ro_owner = [], ro_until = None, ro_created = 0,
     ro_by = ''u1'', ro_finished = None\<rparr>"

lemma one_active_rollout_witness:
  "rollouts_ok (fold rollout_exec [OpInsert 0 (demo_rollout ''r1''), OpInsert 0 (demo_rollout ''r2''),
     OpClaimLease ''r1'' ''w1'' 0 (120 * second)] [])"
  by (rule one_active_rollout) (simp add: op_ok_def)

lemma rollout_history_witness:
  "evolves (queued_row 0 (demo_rollout ''r1'')) ((queued_row 0 (demo_rollout ''r1''))\<lparr>rw_stop := True\<rparr>)"
proof -
  let ?q = "queued_row 0 (demo_rollout ''r1'')"
  have "rollouts_ok [?q]" by (simp add: rollouts_ok_def)
  from rollout_history [OF this, of "[OpStop ''o1'' ''r1'']" "''r1''" ?q] show ?thesis
    by (simp add: look_def op_ok_def inserts_def drops_def RequestStop_def guarded_def)
      (simp add: queued_row_def demo_rollout_def)
qed

end
