(* ===== verification/Status_Cache.thy ===== *)
theory Status_Cache
  imports Prelude
begin

text \<open>
  The in-memory status cache of \<open>internal/domain/service/status/cache.go\<close> with the reports it
  keeps (\<open>internal/domain/command/app.go\<close>): each server's liveness, which lapses a
  \<open>ttl\<close> after its last pulse, and its latest report of container statuses. The mutex makes
  each method one function. \<open>reflect.DeepEqual\<close> also tells a nil list from an empty one;
  here they are one value.
\<close>

subsection \<open>Reports\<close>

datatype status_code = StatusUnknown | StatusActive | StatusIdle | StatusRestarting
  | StatusProblematic | StatusStopped | StatusOther int

record container_status =
  cs_id :: string
  cs_name :: string
  cs_code :: status_code
  cs_exit :: int
  cs_error :: string

record backup_health =
  bh_name :: string
  bh_state :: string
  bh_success :: int
  bh_error :: string

record app_status =
  as_app :: string
  as_code :: status_code
  as_containers :: "container_status list"
  as_stale :: "string list"
  as_backups :: "backup_health list"

record report =
  rp_apps :: "app_status list"
  rp_rev :: int
  rp_has_rev :: bool
  rp_received :: time

subsection \<open>The cache\<close>

datatype liveness = LivenessOnline | LivenessUnknown

record app_entry =
  ap_apps :: "app_status list"
  ap_expires :: time
  ap_received :: time
  ap_rev :: int
  ap_has_rev :: bool

record cache =
  ca_ttl :: duration
  ca_servers :: "(string, time) gomap"
  ca_apps :: "(string, app_entry) gomap"
  ca_vars :: "(string, int) gomap"

definition NewCache :: "duration \<Rightarrow> cache" where
  "NewCache ttl = \<lparr>ca_ttl = ttl, ca_servers = [], ca_apps = [], ca_vars = []\<rparr>"

definition SetVarsRevision :: "string \<Rightarrow> int \<Rightarrow> cache \<Rightarrow> cache" where
  "SetVarsRevision sid rv c = c\<lparr>ca_vars := mput sid rv (ca_vars c)\<rparr>"

definition VarsRevision :: "string \<Rightarrow> cache \<Rightarrow> int option" where
  "VarsRevision sid c = mget (ca_vars c) sid"

definition MarkOnline :: "string \<Rightarrow> time \<Rightarrow> cache \<Rightarrow> bool \<times> cache" where
  "MarkOnline sid now c =
     (case mget (ca_servers c) sid of None \<Rightarrow> True | Some ex \<Rightarrow> ex < now,
      c\<lparr>ca_servers := mput sid (now + ca_ttl c) (ca_servers c)\<rparr>)"

definition SetAppStatus :: "string \<Rightarrow> app_status list \<Rightarrow> int option \<Rightarrow> time \<Rightarrow> cache \<Rightarrow> (bool \<times> bool) \<times> cache" where
  "SetAppStatus sid apps rv now c =
     (let changed = (case mget (ca_apps c) sid of None \<Rightarrow> True | Some e \<Rightarrow> ap_apps e \<noteq> apps);
          e = \<lparr>ap_apps = apps, ap_expires = now + ca_ttl c, ap_received = now,
               ap_rev = (case rv of None \<Rightarrow> 0 | Some r \<Rightarrow> r), ap_has_rev = (rv \<noteq> None)\<rparr>;
          (flip, c') = MarkOnline sid now (c\<lparr>ca_apps := mput sid e (ca_apps c)\<rparr>)
      in ((changed, flip), c'))"

definition LatestReport :: "string \<Rightarrow> time \<Rightarrow> cache \<Rightarrow> report option" where
  "LatestReport sid now c =
     (case mget (ca_apps c) sid of None \<Rightarrow> None
      | Some e \<Rightarrow> if ap_expires e < now then None
          else Some \<lparr>rp_apps = ap_apps e, rp_rev = ap_rev e, rp_has_rev = ap_has_rev e, rp_received = ap_received e\<rparr>)"

definition ExpireStale :: "time \<Rightarrow> cache \<Rightarrow> string list \<times> cache" where
  "ExpireStale now c =
     (map fst (filter (\<lambda>(sid, ex). ex < now) (ca_servers c)),
      c\<lparr>ca_servers := filter (\<lambda>(sid, ex). \<not> ex < now) (ca_servers c)\<rparr>)"

definition ServerLiveness :: "string \<Rightarrow> time \<Rightarrow> cache \<Rightarrow> liveness" where
  "ServerLiveness sid now c =
     (case mget (ca_servers c) sid of None \<Rightarrow> LivenessUnknown
      | Some ex \<Rightarrow> if ex < now then LivenessUnknown else LivenessOnline)"

definition AppStatuses :: "string \<Rightarrow> time \<Rightarrow> cache \<Rightarrow> app_status list option" where
  "AppStatuses sid now c =
     (case mget (ca_apps c) sid of None \<Rightarrow> None | Some e \<Rightarrow> if ap_expires e < now then None else Some (ap_apps e))"

definition Forget :: "string \<Rightarrow> cache \<Rightarrow> cache" where
  "Forget sid c = c\<lparr>ca_servers := mdel sid (ca_servers c), ca_apps := mdel sid (ca_apps c), ca_vars := mdel sid (ca_vars c)\<rparr>"

subsection \<open>Histories\<close>

datatype cache_op = Pulse string time | Status string "app_status list" "int option" time
  | Sweep_stale time | Drop_server string

text \<open>An operation's reports: the servers it says came online, and those it says went unknown.\<close>

fun cache_step :: "cache_op \<Rightarrow> cache \<Rightarrow> (string list \<times> string list) \<times> cache" where
  "cache_step (Pulse sid now) c = (let (t, c') = MarkOnline sid now c in ((if t then [sid] else [], []), c'))"
| "cache_step (Status sid apps rv now) c =
     (let ((_, t), c') = SetAppStatus sid apps rv now c in ((if t then [sid] else [], []), c'))"
| "cache_step (Sweep_stale now) c = (let (flipped, c') = ExpireStale now c in (([], flipped), c'))"
| "cache_step (Drop_server sid) c = (([], []), Forget sid c)"

text \<open>One server's reports along a history, \<open>True\<close> for online.\<close>

fun flips :: "string \<Rightarrow> cache_op list \<Rightarrow> cache \<Rightarrow> bool list" where
  "flips sid [] c = []"
| "flips sid (op # ops) c =
     (let ((on, off), c') = cache_step op c
      in map (\<lambda>_. True) (filter (\<lambda>i. i = sid) on) @ map (\<lambda>_. False) (filter (\<lambda>i. i = sid) off) @ flips sid ops c')"

text \<open>No report of unknown without a report of online before it and after the last unknown.\<close>

fun flips_ok :: "bool \<Rightarrow> bool list \<Rightarrow> bool" where
  "flips_ok known [] = True"
| "flips_ok known (True # bs) = flips_ok True bs"
| "flips_ok known (False # bs) = (known \<and> flips_ok False bs)"

definition cache_ok :: "cache \<Rightarrow> bool" where
  "cache_ok c \<longleftrightarrow> wf_map (ca_servers c) \<and> wf_map (ca_apps c)"

lemma wf_map_filter: "wf_map m \<Longrightarrow> wf_map (filter P m)"
  by (simp add: wf_map_def distinct_map_filter)

lemma mget_filter: "wf_map m \<Longrightarrow> mget (filter P m) k = (case mget m k of Some v \<Rightarrow> if P (k, v) then Some v else None | None \<Rightarrow> None)"
  by (induction m) (auto simp: wf_map_def split: option.splits dest: map_of_SomeD, force dest: map_of_SomeD)

lemma cache_step_ok: "cache_ok c \<Longrightarrow> cache_ok (snd (cache_step op c))"
  by (cases op) (auto simp: cache_ok_def MarkOnline_def SetAppStatus_def ExpireStale_def Forget_def Let_def
      wf_map_filter split_def)

lemma filter_eq_keys: "wf_map m \<Longrightarrow> filter (\<lambda>i. i = k) (map fst (filter P m)) =
    (case mget m k of Some v \<Rightarrow> if P (k, v) then [k] else [] | None \<Rightarrow> [])"
proof (induction m)
  case (Cons kv m)
  have "filter (\<lambda>i. i = k) (map fst (filter P m)) = []" if "k \<notin> set (keys m)"
    using that by (force simp: filter_empty_conv)
  with Cons show ?case
    by (cases kv) (auto simp: wf_map_def map_of_eq_None_iff split: option.splits)
qed (simp add: wf_map_def)

lemma mget_dropped: "mget m k = None \<Longrightarrow> mget (filter P m) k = None"
  by (metis (no_types, lifting) filter_is_subset image_mono map_of_eq_None_iff subsetD)

text \<open>What the cache tells the browsers about one server makes sense whatever pulses, reports,
  sweeps and deletions happen in whatever order: a server is reported to have gone unknown only after it
  was reported online, and once per time, and it reads online exactly until its time to live after its
  last pulse.\<close>

theorem liveness_reports:
  "flips_ok False (flips sid ops (NewCache ttl)) \<and>
   (ServerLiveness sid now (snd (MarkOnline sid t c)) = LivenessOnline \<longleftrightarrow> now \<le> t + ca_ttl c)"
proof
  have "flips_ok known (flips sid ops c)" if "cache_ok c" "mget (ca_servers c) sid = None \<or> known" for known c
    using that
  proof (induction ops arbitrary: c known)
    case (Cons op ops)
    have IH: "flips_ok k (flips sid ops (snd (cache_step op c)))"
      if "mget (ca_servers (snd (cache_step op c))) sid = None \<or> k" for k
      by (rule Cons.IH [OF cache_step_ok [OF Cons.prems(1)] that])
    have wf: "wf_map (ca_servers c)" using Cons.prems(1) by (simp add: cache_ok_def)
    show ?case
    proof (cases op)
      case (Pulse i u)
      then show ?thesis using IH [of True] IH [of known] Cons.prems(2)
        by (cases "i = sid") (auto simp: MarkOnline_def split: option.split)
    next
      case (Status i a r u)
      then show ?thesis using IH [of True] IH [of known] Cons.prems(2)
        by (cases "i = sid") (auto simp: MarkOnline_def SetAppStatus_def Let_def split: option.split)
    next
      case (Sweep_stale u)
      then show ?thesis using IH [of known] IH [of False] Cons.prems(2)
        by (auto simp: ExpireStale_def filter_eq_keys [OF wf] mget_filter [OF wf] split: option.splits)
    next
      case (Drop_server i)
      then show ?thesis using IH [of known] Cons.prems(2) by (auto simp: Forget_def)
    qed
  qed simp
  then show "flips_ok False (flips sid ops (NewCache ttl))" by (simp add: NewCache_def cache_ok_def)
qed (simp add: ServerLiveness_def MarkOnline_def)

end
