(* ===== verification/Rollout_Wait.thy ===== *)
theory Rollout_Wait
  imports Status_Cache
begin

text \<open>
  How a rollout's step decides that an app runs again, \<open>internal/domain/usecase/rollouts/wait.go\<close>:
  the verdict on one status report and the loop that waits for two healthy reports. The loop is given
  the instants of its turns; a list that ends is a context that ended during a sleep. An error is
  a constructor that carries what its message names.
\<close>

subsection \<open>The verdict on a report\<close>

definition serviceName :: "string \<Rightarrow> string \<Rightarrow> string" where
  "serviceName app name =
     (case cut_prefix (''wf-'' @ app @ ''-'') name of
        None \<Rightarrow> name
      | Some rest \<Rightarrow>
          (case last_index (CHR ''-'') rest of
             None \<Rightarrow> name
           | Some i \<Rightarrow>
               if i = 0 \<or> i = length rest - 1 then name
               else case ParseUint32 (drop (i + 1) rest) of None \<Rightarrow> name | Some _ \<Rightarrow> take i rest))"

datatype wait_reason = NoReason | IsRestarting string | ExitedWith string int | HasNoContainers

record verdict =
  jd_healthy :: bool
  jd_crashed :: bool
  jd_reason :: wait_reason

definition undecided :: verdict where
  "undecided = \<lparr>jd_healthy = False, jd_crashed = False, jd_reason = NoReason\<rparr>"

definition judgeApp :: "app_status \<Rightarrow> verdict" where
  "judgeApp a =
     (case find (\<lambda>c. cs_code c = StatusRestarting \<or> cs_code c = StatusProblematic) (as_containers a) of
        Some c \<Rightarrow> \<lparr>jd_healthy = False, jd_crashed = True,
          jd_reason = (if cs_code c = StatusRestarting then IsRestarting (serviceName (as_app a) (cs_name c))
            else ExitedWith (serviceName (as_app a) (cs_name c)) (cs_exit c))\<rparr>
      | None \<Rightarrow>
          if as_code a = StatusActive then undecided\<lparr>jd_healthy := True\<rparr>
          else if as_containers a = [] then undecided\<lparr>jd_reason := HasNoContainers\<rparr>
          else if list_ex (\<lambda>c. cs_code c \<noteq> StatusActive \<and> cs_code c \<noteq> StatusStopped) (as_containers a) then undecided
          else undecided\<lparr>jd_healthy := list_ex (\<lambda>c. cs_code c = StatusActive) (as_containers a)\<rparr>)"

definition no_status :: app_status where
  "no_status = \<lparr>as_app = [], as_code = StatusUnknown, as_containers = [], as_stale = [], as_backups = []\<rparr>"

definition findApp :: "app_status list \<Rightarrow> string \<Rightarrow> app_status \<times> bool" where
  "findApp apps app = (case find (\<lambda>a. as_app a = app) apps of Some a \<Rightarrow> (a, True) | None \<Rightarrow> (no_status, False))"

text \<open>The container run test of a reload's candidates.\<close>

definition running :: "app_status \<Rightarrow> bool" where
  "running a \<longleftrightarrow> list_ex (\<lambda>c. cs_code c = StatusActive) (as_containers a)"

subsection \<open>The wait\<close>

datatype wait_error = CrashSeen wait_reason | ContextEnded | SentNoReport | NoContainersLater | ReasonLater wait_reason
  | HealthyOnce | NotRunning status_code

record wait_state =
  ws_last :: app_status
  ws_reported :: bool
  ws_listed :: bool
  ws_seen :: time
  ws_healthy :: time

definition judge_in :: "string \<Rightarrow> report \<Rightarrow> verdict" where
  "judge_in app rep = (let (a, listed) = findApp (rp_apps rep) app in if listed then judgeApp a else undecided)"

text \<open>One reading of a report; \<open>Inl\<close> is a return.\<close>

definition read_report :: "string \<Rightarrow> duration \<Rightarrow> report \<Rightarrow> wait_state
    \<Rightarrow> (app_status \<times> wait_error option) + wait_state" where
  "read_report app settle rep st =
     (let (a, listed) = findApp (rp_apps rep) app;
          j = judge_in app rep;
          st1 = st\<lparr>ws_seen := rp_received rep, ws_reported := True, ws_last := a, ws_listed := listed\<rparr>
      in if jd_crashed j then Inl (a, Some (CrashSeen (jd_reason j)))
         else if \<not> jd_healthy j then Inr (st1\<lparr>ws_healthy := zero_time\<rparr>)
         else if is_zero (ws_healthy st) then Inr (st1\<lparr>ws_healthy := rp_received rep\<rparr>)
         else if settle \<le> time_sub (rp_received rep) (ws_healthy st) then Inl (a, None)
         else Inr st1)"

definition at_bound :: "wait_state \<Rightarrow> app_status \<times> wait_error option" where
  "at_bound st =
     (ws_last st,
      if \<not> ws_reported st then Some SentNoReport
      else if \<not> ws_listed st then Some NoContainersLater
      else let j = judgeApp (ws_last st)
           in if jd_reason j \<noteq> NoReason then Some (ReasonLater (jd_reason j))
              else if jd_healthy j then Some HealthyOnce
              else if as_code (ws_last st) = StatusIdle then None
              else Some (NotRunning (as_code (ws_last st))))"

fun await_loop :: "(time \<Rightarrow> report option) \<Rightarrow> string \<Rightarrow> time \<Rightarrow> duration \<Rightarrow> time \<Rightarrow> time list \<Rightarrow> wait_state
    \<Rightarrow> app_status \<times> wait_error option" where
  "await_loop latest app since settle deadline [] st = (ws_last st, Some ContextEnded)"
| "await_loop latest app since settle deadline (now # polls) st =
     (case (case latest now of
              Some rep \<Rightarrow> if since < rp_received rep \<and> rp_received rep \<noteq> ws_seen st
                          then read_report app settle rep st else Inr st
            | None \<Rightarrow> Inr st) of
        Inl r \<Rightarrow> r
      | Inr st1 \<Rightarrow>
          if \<not> now < deadline then at_bound st1
          else await_loop latest app since settle deadline polls st1)"

definition awaitRunning :: "(time \<Rightarrow> report option) \<Rightarrow> duration \<Rightarrow> duration \<Rightarrow> string \<Rightarrow> time \<Rightarrow> time \<Rightarrow> time list
    \<Rightarrow> app_status \<times> wait_error option" where
  "awaitRunning latest health settle app since start polls =
     await_loop latest app since settle (start + health) polls
       \<lparr>ws_last = no_status, ws_reported = False, ws_listed = False, ws_seen = zero_time, ws_healthy = zero_time\<rparr>"

subsection \<open>Facts\<close>

lemma judge_healthy:
  "jd_healthy (judgeApp a) \<longleftrightarrow>
     list_all (\<lambda>c. cs_code c \<notin> {StatusRestarting, StatusProblematic}) (as_containers a) \<and>
     (as_code a = StatusActive \<or>
      running a \<and> list_all (\<lambda>c. cs_code c \<in> {StatusActive, StatusStopped}) (as_containers a))"
  by (auto simp: judgeApp_def undecided_def running_def list_all_iff list_ex_iff find_None_iff find_Some_iff
      split: option.split)

lemma judge_crashed:
  "jd_crashed (judgeApp a) \<longleftrightarrow> list_ex (\<lambda>c. cs_code c \<in> {StatusRestarting, StatusProblematic}) (as_containers a)"
  by (auto simp: judgeApp_def undecided_def list_ex_iff find_None_iff find_Some_iff Let_def split: option.split)

lemma not_both: "jd_healthy (judge_in app rep) \<Longrightarrow> \<not> jd_crashed (judge_in app rep)"
  by (auto simp: judge_in_def judge_healthy judge_crashed list_all_iff list_ex_iff undecided_def split: prod.splits if_splits)

text \<open>A fresh report: one received after the step.\<close>

definition fresh :: "(time \<Rightarrow> report option) \<Rightarrow> time \<Rightarrow> time \<Rightarrow> report \<Rightarrow> bool" where
  "fresh latest since t rep \<longleftrightarrow> latest t = Some rep \<and> since < rp_received rep"

text \<open>What the loop knows after the turns \<open>past\<close>: nothing read so far shows a crash, the state holds the
  last report read, and the healthy run began with a report read at some turn and had no unhealthy
  one since.\<close>

definition no_crash :: "(time \<Rightarrow> report option) \<Rightarrow> string \<Rightarrow> time \<Rightarrow> time list \<Rightarrow> bool" where
  "no_crash latest app since past \<longleftrightarrow>
     (\<forall>t \<in> set past. \<forall>rep. fresh latest since t rep \<longrightarrow> \<not> jd_crashed (judge_in app rep))"

definition last_known :: "(time \<Rightarrow> report option) \<Rightarrow> string \<Rightarrow> time \<Rightarrow> time list \<Rightarrow> wait_state \<Rightarrow> bool" where
  "last_known latest app since past st \<longleftrightarrow>
     (\<exists>t \<in> set past. \<exists>rep. fresh latest since t rep \<and> rp_received rep = ws_seen st \<and>
        (ws_last st, ws_listed st) = findApp (rp_apps rep) app \<and>
        (is_zero (ws_healthy st) \<or> jd_healthy (judge_in app rep)))"

definition healthy_since :: "(time \<Rightarrow> report option) \<Rightarrow> string \<Rightarrow> time \<Rightarrow> time list \<Rightarrow> time \<Rightarrow> bool" where
  "healthy_since latest app since past h \<longleftrightarrow>
     (\<exists>pre t suf r. past = pre @ t # suf \<and> fresh latest since t r \<and> rp_received r = h \<and>
        (\<forall>u \<in> set (t # suf). \<forall>rep. fresh latest since u rep \<longrightarrow> jd_healthy (judge_in app rep)))"

definition wait_inv :: "(time \<Rightarrow> report option) \<Rightarrow> string \<Rightarrow> time \<Rightarrow> time list \<Rightarrow> wait_state \<Rightarrow> bool" where
  "wait_inv latest app since past st \<longleftrightarrow>
     no_crash latest app since past \<and>
     (if ws_reported st then last_known latest app since past st
      else is_zero (ws_seen st) \<and> is_zero (ws_healthy st)) \<and>
     (is_zero (ws_healthy st) \<or> healthy_since latest app since past (ws_healthy st))"

lemma no_crash_snoc [simp]: "no_crash latest app since (past @ [u]) \<longleftrightarrow>
    no_crash latest app since past \<and> (\<forall>rep. fresh latest since u rep \<longrightarrow> \<not> jd_crashed (judge_in app rep))"
  by (auto simp: no_crash_def)

lemma last_known_mono: "last_known latest app since past st \<Longrightarrow> last_known latest app since (past @ [u]) st"
  by (auto simp: last_known_def)

lemma healthy_since_snoc:
  assumes "healthy_since latest app since past h"
    "\<And>rep. fresh latest since u rep \<Longrightarrow> jd_healthy (judge_in app rep)"
  shows "healthy_since latest app since (past @ [u]) h"
proof -
  obtain pre t suf r where "past = pre @ t # suf" "fresh latest since t r" "rp_received r = h"
    "\<forall>u \<in> set (t # suf). \<forall>rep. fresh latest since u rep \<longrightarrow> jd_healthy (judge_in app rep)"
    using assms(1) by (auto simp: healthy_since_def)
  with assms(2) have "past @ [u] = pre @ t # (suf @ [u])" "fresh latest since t r" "rp_received r = h"
    "\<forall>u \<in> set (t # suf @ [u]). \<forall>rep. fresh latest since u rep \<longrightarrow> jd_healthy (judge_in app rep)"
    by auto
  then show ?thesis unfolding healthy_since_def by blast
qed

text \<open>A report is known by the time it was received.\<close>

definition stamped :: "(time \<Rightarrow> report option) \<Rightarrow> bool" where
  "stamped latest \<longleftrightarrow> (\<forall>t u r r'. latest t = Some r \<longrightarrow> latest u = Some r' \<longrightarrow>
     rp_received r = rp_received r' \<longrightarrow> r = r')"

text \<open>A turn that finds nothing new.\<close>

lemma wait_inv_skip:
  assumes "wait_inv latest app since past st"
    "\<And>rep. fresh latest since u rep \<Longrightarrow> \<not> jd_crashed (judge_in app rep) \<and>
       (is_zero (ws_healthy st) \<or> jd_healthy (judge_in app rep))"
  shows "wait_inv latest app since (past @ [u]) st"
  using assms healthy_since_snoc [of latest app since past "ws_healthy st" u] last_known_mono [of latest app since past st u]
  by (auto simp: wait_inv_def split: if_splits)

text \<open>A turn that reads a new report and goes on.\<close>

lemma wait_inv_read:
  assumes inv: "wait_inv latest app since past st" and f: "fresh latest since u rep"
    and r: "read_report app settle rep st = Inr st'"
  shows "wait_inv latest app since (past @ [u]) st'"
proof -
  have one: "rep' = rep" if "fresh latest since u rep'" for rep' using that f by (simp add: fresh_def)
  obtain a listed where a: "findApp (rp_apps rep) app = (a, listed)" by fastforce
  let ?st1 = "st\<lparr>ws_seen := rp_received rep, ws_reported := True, ws_last := a, ws_listed := listed\<rparr>"
  consider (bad) "\<not> jd_healthy (judge_in app rep)" "st' = ?st1\<lparr>ws_healthy := zero_time\<rparr>"
    | (first) "jd_healthy (judge_in app rep)" "is_zero (ws_healthy st)" "st' = ?st1\<lparr>ws_healthy := rp_received rep\<rparr>"
    | (more) "jd_healthy (judge_in app rep)" "\<not> is_zero (ws_healthy st)" "st' = ?st1"
    using r a by (auto simp: read_report_def Let_def split: if_splits)
  note turn = this
  have "\<not> jd_crashed (judge_in app rep)"
    using r by (auto simp: read_report_def Let_def split: if_splits prod.splits)
  then have crash: "no_crash latest app since (past @ [u])"
    using inv one by (auto simp: wait_inv_def)
  have st': "ws_reported st'" "ws_seen st' = rp_received rep" "(ws_last st', ws_listed st') = (a, listed)"
    "is_zero (ws_healthy st') \<or> jd_healthy (judge_in app rep)"
    by (rule turn; simp)+
  have known: "last_known latest app since (past @ [u]) st'"
    unfolding last_known_def
    by (rule bexI [of _ u], rule exI [of _ rep]) (use f st' a in simp_all)
  have "is_zero (ws_healthy st') \<or> healthy_since latest app since (past @ [u]) (ws_healthy st')"
  proof (rule turn)
    assume first: "jd_healthy (judge_in app rep)" "st' = ?st1\<lparr>ws_healthy := rp_received rep\<rparr>"
    then have "\<forall>r. fresh latest since u r \<longrightarrow> jd_healthy (judge_in app r)" using one by blast
    then have "healthy_since latest app since (past @ [u]) (rp_received rep)"
      unfolding healthy_since_def using f
      by (intro exI [of _ past] exI [of _ u] exI [of _ "[]"] exI [of _ rep]) simp
    with first show ?thesis by simp
  next
    assume more: "jd_healthy (judge_in app rep)" "\<not> is_zero (ws_healthy st)" "st' = ?st1"
    with inv have "healthy_since latest app since past (ws_healthy st)" by (simp add: wait_inv_def)
    from healthy_since_snoc [OF this, of u] one more(1) have "healthy_since latest app since (past @ [u]) (ws_healthy st)"
      by blast
    with more(3) show ?thesis by simp
  qed simp
  with crash known st' show ?thesis by (simp add: wait_inv_def)
qed

text \<open>Why the wait may succeed: two healthy reports far enough apart with nothing unhealthy between
  them, or at the bound an app that is idle for no bad reason.\<close>

definition two_healthy :: "(time \<Rightarrow> report option) \<Rightarrow> string \<Rightarrow> time \<Rightarrow> duration \<Rightarrow> time list \<Rightarrow> app_status \<Rightarrow> bool" where
  "two_healthy latest app since settle used a \<longleftrightarrow>
     (\<exists>pre t suf u r r'. used = pre @ t # suf @ [u] \<and> fresh latest since t r \<and> fresh latest since u r' \<and>
        settle \<le> time_sub (rp_received r') (rp_received r) \<and> findApp (rp_apps r') app = (a, True) \<and>
        (\<forall>v \<in> set (t # suf @ [u]). \<forall>rep. fresh latest since v rep \<longrightarrow> jd_healthy (judge_in app rep)))"

definition idle_at_bound :: "(time \<Rightarrow> report option) \<Rightarrow> string \<Rightarrow> time \<Rightarrow> time \<Rightarrow> time list \<Rightarrow> app_status \<Rightarrow> bool" where
  "idle_at_bound latest app since deadline used a \<longleftrightarrow>
     deadline \<le> last used \<and> as_code a = StatusIdle \<and> as_containers a \<noteq> [] \<and>
     (\<exists>t \<in> set used. \<exists>r. fresh latest since t r \<and> findApp (rp_apps r) app = (a, True))"

definition success_reason :: "(time \<Rightarrow> report option) \<Rightarrow> string \<Rightarrow> time \<Rightarrow> duration \<Rightarrow> time \<Rightarrow> time list \<Rightarrow> app_status \<Rightarrow> bool" where
  "success_reason latest app since settle deadline used a \<longleftrightarrow>
     no_crash latest app since used \<and>
     (two_healthy latest app since settle used a \<or> idle_at_bound latest app since deadline used a)"

lemma read_success:
  assumes inv: "wait_inv latest app since past st" and f: "fresh latest since u rep"
    and r: "read_report app settle rep st = Inl (a, None)"
  shows "success_reason latest app since settle deadline (past @ [u]) a"
proof -
  have one: "rep' = rep" if "fresh latest since u rep'" for rep' using that f by (simp add: fresh_def)
  have h: "jd_healthy (judge_in app rep)" "\<not> jd_crashed (judge_in app rep)" "\<not> is_zero (ws_healthy st)"
    "settle \<le> time_sub (rp_received rep) (ws_healthy st)" "a = fst (findApp (rp_apps rep) app)"
    using r by (auto simp: read_report_def Let_def split: prod.splits if_splits)
  then have a: "findApp (rp_apps rep) app = (a, True)"
    by (auto simp: judge_in_def undecided_def split: prod.splits if_splits)
  obtain pre t suf r0 where i: "past = pre @ t # suf" "fresh latest since t r0" "rp_received r0 = ws_healthy st"
    "\<forall>u \<in> set (t # suf). \<forall>rep. fresh latest since u rep \<longrightarrow> jd_healthy (judge_in app rep)"
    using inv h(3) unfolding wait_inv_def healthy_since_def by blast
  have "\<forall>r. fresh latest since u r \<longrightarrow> jd_healthy (judge_in app r)" using h(1) one by blast
  with i(4) have "\<forall>v \<in> set (t # suf @ [u]). \<forall>r. fresh latest since v r \<longrightarrow> jd_healthy (judge_in app r)" by auto
  then have "two_healthy latest app since settle (past @ [u]) a"
    unfolding two_healthy_def
    by (intro exI [of _ pre] exI [of _ t] exI [of _ suf] exI [of _ u] exI [of _ r0] exI [of _ rep]) (simp add: i(1-3) f a h(4) del: ball_simps)
  moreover have "no_crash latest app since (past @ [u])"
    using inv h(2) one by (auto simp: wait_inv_def)
  ultimately show ?thesis by (simp add: success_reason_def)
qed

lemma bound_success:
  assumes inv: "wait_inv latest app since used st" and r: "at_bound st = (a, None)"
    and d: "used \<noteq> []" "deadline \<le> last used"
  shows "success_reason latest app since settle deadline used a"
proof -
  have h: "ws_reported st" "ws_listed st" "ws_last st = a" "jd_reason (judgeApp a) = NoReason"
    "\<not> jd_healthy (judgeApp a)" "as_code a = StatusIdle"
    using r by (auto simp: at_bound_def Let_def split: if_splits)
  then have "as_containers a \<noteq> []" by (auto simp: judgeApp_def undecided_def)
  moreover obtain t rep where "t \<in> set used" "fresh latest since t rep" "findApp (rp_apps rep) app = (a, True)"
  proof -
    have "last_known latest app since used st" using inv h(1) by (simp add: wait_inv_def)
    then obtain t rep where t: "t \<in> set used" "fresh latest since t rep"
      "(ws_last st, ws_listed st) = findApp (rp_apps rep) app"
      unfolding last_known_def by blast
    from t(3) h(2,3) have "findApp (rp_apps rep) app = (a, True)" by simp
    with t(1,2) show ?thesis by (rule that)
  qed
  ultimately have "idle_at_bound latest app since deadline used a"
    using d h(6) unfolding idle_at_bound_def by blast
  with inv d show ?thesis by (simp add: success_reason_def wait_inv_def)
qed

lemma await_loop_success:
  assumes "await_loop latest app since settle deadline polls st = (a, None)"
    "wait_inv latest app since past st" "stamped latest" "0 \<le> since"
  shows "\<exists>n \<le> length polls. success_reason latest app since settle deadline (past @ take n polls) a"
  using assms(1,2)
proof (induction polls arbitrary: past st)
  case (Cons u polls)
  let ?turn = "case latest u of
      Some rep \<Rightarrow> if since < rp_received rep \<and> rp_received rep \<noteq> ws_seen st then read_report app settle rep st else Inr st
    | None \<Rightarrow> Inr st"
  have go_on: ?case if st1: "?turn = Inr st1" and inv: "wait_inv latest app since (past @ [u]) st1" for st1
  proof (cases "u < deadline")
    case True
    then have "await_loop latest app since settle deadline polls st1 = (a, None)" using Cons.prems(1) st1 by simp
    from Cons.IH [OF this inv] obtain n where "n \<le> length polls"
      "success_reason latest app since settle deadline ((past @ [u]) @ take n polls) a" by blast
    then show ?thesis by (intro exI [of _ "Suc n"]) simp
  next
    case False
    then have "at_bound st1 = (a, None)" using Cons.prems(1) st1 by simp
    from bound_success [OF inv this, of deadline settle] False show ?thesis
      by (intro exI [of _ 1]) simp
  qed
  show ?case
  proof (cases "\<exists>rep. fresh latest since u rep \<and> rp_received rep \<noteq> ws_seen st")
    case True
    then obtain rep where rep: "fresh latest since u rep" "rp_received rep \<noteq> ws_seen st" by blast
    then have turn: "?turn = read_report app settle rep st" by (simp add: fresh_def)
    show ?thesis
    proof (cases "read_report app settle rep st")
      case (Inr st1)
      then show ?thesis using go_on [of st1] turn wait_inv_read [OF Cons.prems(2) rep(1) Inr] by simp
    next
      case (Inl res)
      then have "read_report app settle rep st = Inl (a, None)" using Cons.prems(1) turn by simp
      from read_success [OF Cons.prems(2) rep(1) this] show ?thesis by (intro exI [of _ 1]) simp
    qed
  next
    case False
    then have turn: "?turn = Inr st" by (auto simp: fresh_def split: option.split)
    have "\<not> jd_crashed (judge_in app rep) \<and> (is_zero (ws_healthy st) \<or> jd_healthy (judge_in app rep))"
      if f: "fresh latest since u rep" for rep
    proof -
      have seen: "rp_received rep = ws_seen st" using False f by blast
      then have "last_known latest app since past st"
        using Cons.prems(2) f assms(4) by (auto simp: wait_inv_def fresh_def zero_time_def split: if_splits)
      then obtain t r where t: "t \<in> set past" "fresh latest since t r" "rp_received r = ws_seen st"
        "is_zero (ws_healthy st) \<or> jd_healthy (judge_in app r)"
        by (auto simp: last_known_def)
      moreover from this have "r = rep" using f seen assms(3) unfolding stamped_def fresh_def by metis
      ultimately show ?thesis using Cons.prems(2) by (auto simp: wait_inv_def no_crash_def)
    qed
    from go_on [OF turn wait_inv_skip [OF Cons.prems(2) this]] show ?thesis .
  qed
qed simp

text \<open>C29. A step counts an app as running again only on evidence. When the wait succeeds there were
  turns of its loop such that no report received after the step and read in them shows a container
  crashed; and either two healthy reports lie at least the settle time apart with no unhealthy one
  between, or the bound was reached with the app idle, its containers listed and none of them crashed.\<close>

theorem await_running_sound:
  assumes "awaitRunning latest health settle app since start polls = (a, None)" "stamped latest" "0 \<le> since"
  shows "\<exists>n \<le> length polls. success_reason latest app since settle (start + health) (take n polls) a"
proof -
  let ?st = "\<lparr>ws_last = no_status, ws_reported = False, ws_listed = False, ws_seen = zero_time, ws_healthy = zero_time\<rparr>"
  have "wait_inv latest app since [] ?st" by (simp add: wait_inv_def no_crash_def)
  from await_loop_success [OF assms(1) [unfolded awaitRunning_def] this assms(2,3)] show ?thesis by simp
qed

abbreviation demo_status :: app_status where
  "demo_status \<equiv> \<lparr>as_app = ''a1'', as_code = StatusActive,
     as_containers = [\<lparr>cs_id = ''c1'', cs_name = ''wf-a1-web-1'', cs_code = StatusActive, cs_exit = 0, cs_error = []\<rparr>],
     as_stale = [], as_backups = []\<rparr>"

definition demo_reports :: "time \<Rightarrow> report option" where
  "demo_reports t = (if t < 30 * second then None
     else Some \<lparr>rp_apps = [demo_status], rp_rev = 1, rp_has_rev = True, rp_received = 30 * second * (t div (30 * second))\<rparr>)"

lemma await_running_sound_witness:
  "\<exists>n \<le> 2. success_reason demo_reports ''a1'' 0 (20 * second) (0 + 300 * second)
     (take n [30 * second, 60 * second]) demo_status"
proof -
  have "awaitRunning demo_reports (300 * second) (20 * second) ''a1'' 0 0 [30 * second, 60 * second] = (demo_status, None)"
    by (simp add: awaitRunning_def demo_reports_def read_report_def findApp_def judge_in_def judgeApp_def undecided_def
        no_status_def zero_time_def second_def time_sub_def max_duration_def min_duration_def)
  moreover have "stamped demo_reports" by (auto simp: stamped_def demo_reports_def split: if_splits)
  ultimately show ?thesis using await_running_sound [of demo_reports "300 * second" "20 * second" "''a1''" 0 0
      "[30 * second, 60 * second]" demo_status] by (simp add: numeral_2_eq_2)
qed

end
