(* ===== verification/Rollouts.thy ===== *)
theory Rollouts
  imports Rollout_Store Rollout_Wait
begin

text \<open>
  The rollouts usecase, \<open>internal/domain/usecase/rollouts\<close>: queueing (\<open>usecase.go\<close>,
  \<open>upgrade.go\<close>, \<open>reload.go\<close>), the two kinds' picks and runs, and the worker (\<open>worker.go\<close>).

  The record \<open>rx\<close> holds one API process's surroundings: the table it shares with others, the
  turns to come, one per store call (what the others, the lease renewals among them, do to the
  table before the call, whether it fails, the clock then, and whether the worker's context has
  ended by then), the wake-up flag and the notifications sent. What lies outside is in \<open>rdeps\<close> as
  functions of the time: the app catalog, the members, the status cache, the template store, the
  command dispatcher and when its answers come, the instants of a wait's turns, and when the process
  stops (\<open>xd_stop\<close>) or a step's context has ended (\<open>xd_dead\<close>). The wording of a failure is the
  parameter \<open>xd_text\<close>.
\<close>

subsection \<open>Timing (usecase.go)\<close>

record timing =
  tm_lease :: duration
  tm_renew :: duration
  tm_idle :: duration
  tm_command :: duration
  tm_health :: duration
  tm_health_poll :: duration
  tm_health_settle :: duration
  tm_settle :: duration
  tm_settle_poll :: duration

definition defaultTiming :: timing where
  "defaultTiming = \<lparr>tm_lease = 2 * minute, tm_renew = 30 * second, tm_idle = minute,
     tm_command = 10 * minute + 30 * second, tm_health = 5 * minute, tm_health_poll = 5 * second,
     tm_health_settle = 20 * second, tm_settle = 5 * minute, tm_settle_poll = 5 * second\<rparr>"

definition withDefaults :: "timing \<Rightarrow> timing" where
  "withDefaults t =
     (let d = (\<lambda>f. if f t = 0 then f defaultTiming else f t)
      in \<lparr>tm_lease = d tm_lease, tm_renew = d tm_renew, tm_idle = d tm_idle, tm_command = d tm_command,
          tm_health = d tm_health, tm_health_poll = d tm_health_poll, tm_health_settle = d tm_health_settle,
          tm_settle = d tm_settle, tm_settle_poll = d tm_settle_poll\<rparr>)"

definition keepEnded :: nat where "keepEnded = 20"
definition extendTries :: nat where "extendTries = 5"

subsection \<open>Surroundings\<close>

record template_instance =
  ti_id :: string
  ti_key :: string
  ti_app :: string
  ti_server :: string
  ti_revision :: int

datatype app_answer = AppNamed string | AppMissing | AppFails
datatype update_answer = UpdateSkips | UpdateFails string | UpdateSent
datatype command_answer = Answered bool string bool | NoAnswer | WaitEnded

datatype step_failure = BadScope | SendFailed string | CommandFailed string | NoAnswerInTime
  | NotRunningAgain wait_error | StillStale "string list" | UnknownKind string

record rdeps =
  xd_owner :: string
  xd_timing :: timing
  xd_apps :: "(time \<Rightarrow> string \<Rightarrow> app_answer) option"
  xd_members :: "(time \<Rightarrow> string \<Rightarrow> string list option) option"
  xd_cache :: "time \<Rightarrow> cache"
  xd_template :: "time \<Rightarrow> string \<Rightarrow> string \<Rightarrow> string + string \<times> int"
  xd_revision :: "time \<Rightarrow> string \<Rightarrow> int \<Rightarrow> string option"
  xd_upgradable :: "time \<Rightarrow> string \<Rightarrow> string \<Rightarrow> int \<Rightarrow> template_instance list option"
  xd_update :: "time \<Rightarrow> string \<Rightarrow> string \<Rightarrow> template_instance \<Rightarrow> int \<Rightarrow> update_answer"
  xd_instance :: "time \<Rightarrow> string \<Rightarrow> int option"
  xd_dispatch :: "time \<Rightarrow> string \<Rightarrow> string \<Rightarrow> string \<Rightarrow> string option"
  xd_answer :: "time \<Rightarrow> string \<Rightarrow> time \<times> command_answer"
  xd_polls :: "time \<Rightarrow> time list"
  xd_dead :: "time \<Rightarrow> bool"
  xd_stop :: "time \<Rightarrow> bool"
  xd_text :: "step_failure \<Rightarrow> string"

record turn =
  tu_ops :: "rollout_op list"
  tu_fault :: fault
  tu_now :: time
  tu_dead :: bool

record rollout_view =
  vw_id :: string
  vw_kind :: string
  vw_scope_key :: string
  vw_revision :: int
  vw_state :: rollout_state
  vw_stop :: bool
  vw_done :: int
  vw_skipped :: int
  vw_total :: int
  vw_app :: string
  vw_server :: string
  vw_app_name :: string
  vw_error :: string
  vw_created :: time
  vw_by :: string
  vw_finished :: "time option"

record rx =
  x_rows :: rollouts
  x_env :: "turn list"
  x_now :: time
  x_dead :: bool
  x_wake :: bool
  x_sent :: "(string \<times> rollout_view) list"

definition xcall :: "(rollouts \<Rightarrow> 'a \<times> rollouts) \<Rightarrow> rx \<Rightarrow> 'a option \<times> rx" where
  "xcall m x =
     (let tu = (case x_env x of [] \<Rightarrow> \<lparr>tu_ops = [], tu_fault = NoFault, tu_now = x_now x, tu_dead = False\<rparr> | e # _ \<Rightarrow> e);
          (res, rows) = attempt (tu_fault tu) m (fold rollout_exec (tu_ops tu) (x_rows x))
      in (res, x\<lparr>x_rows := rows, x_env := tl (x_env x), x_now := tu_now tu, x_dead := (x_dead x \<or> tu_dead tu)\<rparr>))"

definition xread :: "(rollouts \<Rightarrow> 'a) \<Rightarrow> rx \<Rightarrow> 'a option \<times> rx" where
  "xread f x = xcall (\<lambda>t. (f t, t)) x"

subsection \<open>Views and events (usecase.go)\<close>

definition upgradeScope :: "rollout \<Rightarrow> upgrade_scope option" where
  "upgradeScope r =
     (case ro_scope r of UpgradeDoc s \<Rightarrow> if us_template s = [] \<or> us_revision s < 1 then None else Some s
      | _ \<Rightarrow> None)"

definition empty_scope :: reload_scope where
  "empty_scope = \<lparr>rs_names = [], rs_servers = [], rs_all_stale = [], rs_apps = [], rs_revisions = [], rs_settle = zero_time\<rparr>"

definition reloadScope :: "rollout \<Rightarrow> reload_scope option" where
  "reloadScope r = (case ro_scope r of ReloadDoc s \<Rightarrow> Some s | UpgradeDoc _ \<Rightarrow> Some empty_scope | BadDoc _ \<Rightarrow> None)"

definition viewOf :: "rollout \<Rightarrow> string \<Rightarrow> rollout_view" where
  "viewOf r name =
     (let v = \<lparr>vw_id = ro_id r, vw_kind = ro_kind r, vw_scope_key = ro_scope_key r, vw_revision = 0,
            vw_state = ro_state r, vw_stop = ro_stop r, vw_done = ro_done r, vw_skipped = ro_skipped r,
            vw_total = ro_total r, vw_app = ro_app r, vw_server = ro_server r, vw_app_name = name,
            vw_error = ro_error r, vw_created = ro_created r, vw_by = ro_by r, vw_finished = ro_finished r\<rparr>
      in if ro_kind r = RolloutTemplateUpgrade
         then (case upgradeScope r of Some s \<Rightarrow> v\<lparr>vw_scope_key := us_template s, vw_revision := us_revision s\<rparr> | None \<Rightarrow> v)
         else v)"

definition appName :: "rdeps \<Rightarrow> string \<Rightarrow> rx \<Rightarrow> string" where
  "appName dp app x =
     (if app = [] then []
      else case xd_apps dp of None \<Rightarrow> []
           | Some f \<Rightarrow> (case f (x_now x) app of AppNamed n \<Rightarrow> n | _ \<Rightarrow> []))"

definition publish :: "rdeps \<Rightarrow> string \<Rightarrow> rollout_view \<Rightarrow> rx \<Rightarrow> rx" where
  "publish dp org v x =
     (case xd_members dp of None \<Rightarrow> x
      | Some f \<Rightarrow> (case f (x_now x) org of None \<Rightarrow> x
          | Some users \<Rightarrow> x\<lparr>x_sent := x_sent x @ map (\<lambda>u. (u, v)) users\<rparr>))"

definition Wake :: "rx \<Rightarrow> rx" where
  "Wake x = x\<lparr>x_wake := True\<rparr>"

definition changed :: "rdeps \<Rightarrow> string \<Rightarrow> string \<Rightarrow> string \<Rightarrow> rx \<Rightarrow> rollout option \<times> rx" where
  "changed dp i app name x =
     (case xread (GetRollout i) x of
        (Some (Some r), x1) \<Rightarrow>
          (let n = (if app = [] \<or> ro_app r \<noteq> app then appName dp (ro_app r) x1 else name)
           in (Some r, publish dp (ro_org r) (viewOf r n) x1))
      | (_, x1) \<Rightarrow> (None, x1))"

definition ended :: "rdeps \<Rightarrow> string \<Rightarrow> rx \<Rightarrow> rx" where
  "ended dp i x =
     (case changed dp i [] [] x of
        (None, x1) \<Rightarrow> x1
      | (Some r, x1) \<Rightarrow> snd (xcall (PruneRollouts (ro_kind r) (ro_scope_key r) keepEnded) x1))"

definition finish :: "rdeps \<Rightarrow> rollout \<Rightarrow> rollout_state \<Rightarrow> string \<Rightarrow> string \<Rightarrow> string \<Rightarrow> rx \<Rightarrow> rx" where
  "finish dp r st msg app srv x =
     (case xcall (FinishRollout (ro_id r) (xd_owner dp) st msg app srv (x_now x)) x of
        (Some True, x1) \<Rightarrow> ended dp (ro_id r) x1
      | (_, x1) \<Rightarrow> x1)"

subsection \<open>Requests (usecase.go, upgrade.go, reload.go)\<close>

datatype rollouts_error = StoreErr | NotFound | ActiveAlready | Stopping | BadKind | UnreadableScope
  | TemplateErr string | KeptChanging

definition queue :: "rdeps \<Rightarrow> rollout \<Rightarrow> rx \<Rightarrow> (rollouts_error option \<times> bool \<times> rollout_view option) \<times> rx" where
  "queue dp r x =
     (case xcall (InsertRollout (x_now x) r) x of
        (None, x1) \<Rightarrow> ((Some StoreErr, False, None), x1)
      | (Some False, x1) \<Rightarrow> ((None, False, None), x1)
      | (Some True, x1) \<Rightarrow>
          (let (res, x2) = xread (GetRollout (ro_id r)) x1;
               x3 = Wake x2
           in case res of
                None \<Rightarrow> ((Some StoreErr, True, None), x3)
              | Some None \<Rightarrow> ((Some NotFound, True, None), x3)
              | Some (Some stored) \<Rightarrow>
                  (let v = viewOf stored (appName dp (ro_app stored) x3)
                   in ((None, True, Some v), publish dp (ro_org stored) v x3))))"

text \<open>The views of a list; each app is looked up once.\<close>

fun list_views :: "rdeps \<Rightarrow> rollout list \<Rightarrow> (string, string) gomap \<Rightarrow> rx \<Rightarrow> rollout_view list" where
  "list_views dp [] names x = []"
| "list_views dp (r # rs) names x =
     (case mget names (ro_app r) of
        Some n \<Rightarrow> viewOf r n # list_views dp rs names x
      | None \<Rightarrow> (let n = appName dp (ro_app r) x in viewOf r n # list_views dp rs (mput (ro_app r) n names) x))"

definition RList :: "rdeps \<Rightarrow> string \<Rightarrow> string \<Rightarrow> string \<Rightarrow> rx \<Rightarrow> (rollouts_error + rollout_view list) \<times> rx" where
  "RList dp org k key x =
     (let lst = (\<lambda>key. case xread (ListRollouts org k key) x of
                   (None, x1) \<Rightarrow> (Inl StoreErr, x1) | (Some rs, x1) \<Rightarrow> (Inr (list_views dp rs [] x1), x1))
      in if k \<noteq> RolloutTemplateUpgrade \<and> k \<noteq> RolloutVarsReload then (Inl BadKind, x)
         else if k = RolloutVarsReload \<and> key \<noteq> [] \<and> key \<noteq> org then (Inl NotFound, x)
         else if k = RolloutTemplateUpgrade \<and> key \<noteq> []
              then (case xd_template dp (x_now x) org key of
                      Inl e \<Rightarrow> (Inl (TemplateErr e), x)
                    | Inr _ \<Rightarrow> lst (UpgradeScopeKey org key))
         else lst key)"

definition RStop :: "rdeps \<Rightarrow> string \<Rightarrow> string \<Rightarrow> rx \<Rightarrow> (rollouts_error + rollout_view) \<times> rx" where
  "RStop dp org i x =
     (let answer = (\<lambda>requested x2.
            case xread (GetRollout i) x2 of
              (None, x3) \<Rightarrow> (Inl StoreErr, x3)
            | (Some None, x3) \<Rightarrow> (Inl NotFound, x3)
            | (Some (Some r), x3) \<Rightarrow>
                if ro_org r \<noteq> org then (Inl NotFound, x3)
                else let v = viewOf r (appName dp (ro_app r) x3)
                     in (Inr v, if requested then publish dp org v (Wake x3) else x3))
      in case xcall (StopUnleased org i (x_now x)) x of
           (None, x1) \<Rightarrow> (Inl StoreErr, x1)
         | (Some True, x1) \<Rightarrow> answer False (ended dp i x1)
         | (Some False, x1) \<Rightarrow>
             (case xcall (RequestStop org i) x1 of
                (None, x2) \<Rightarrow> (Inl StoreErr, x2)
              | (Some requested, x2) \<Rightarrow> answer requested x2))"

definition new_rollout :: "string \<Rightarrow> string \<Rightarrow> string \<Rightarrow> scope_doc \<Rightarrow> string \<Rightarrow> string \<Rightarrow> rollout" where
  "new_rollout i org k doc key user = \<lparr>ro_id = i, ro_org = org, ro_kind = k, ro_scope = doc, ro_scope_key = key,
     ro_scope_rev = 0, ro_state = RolloutQueued, ro_stop = False, ro_app = [], ro_server = [], ro_done = 0,
     ro_skipped = 0, ro_total = 0, ro_skip_ids = [], ro_error = [], ro_owner = [], ro_until = None,
     ro_created = zero_time, ro_by = user, ro_finished = None\<rparr>"

definition QueueUpgrade :: "rdeps \<Rightarrow> string \<Rightarrow> string \<Rightarrow> string \<Rightarrow> string \<Rightarrow> int \<Rightarrow> rx
    \<Rightarrow> (rollouts_error + rollout_view option) \<times> rx" where
  "QueueUpgrade dp new user org tid rv x =
     (case xd_template dp (x_now x) org tid of
        Inl e \<Rightarrow> (Inl (TemplateErr e), x)
      | Inr (tpl, latest) \<Rightarrow>
          (let r = (if rv = 0 then latest else rv)
           in case xd_revision dp (x_now x) tpl r of
                Some e \<Rightarrow> (Inl (TemplateErr e), x)
              | None \<Rightarrow>
                  (case queue dp (new_rollout new org RolloutTemplateUpgrade
                            (UpgradeDoc \<lparr>us_template = tpl, us_revision = r\<rparr>) (UpgradeScopeKey org tpl) user) x of
                     ((Some e, ok, v), x1) \<Rightarrow> (Inl e, x1)
                   | ((None, ok, v), x1) \<Rightarrow> (if ok then Inr v else Inl ActiveAlready, x1))))"

text \<open>The ids come from the generator, one per try that queues.\<close>

fun reload_tries :: "rdeps \<Rightarrow> nat \<Rightarrow> (nat \<Rightarrow> string) \<Rightarrow> string \<Rightarrow> string \<Rightarrow> reload_scope \<Rightarrow> rx
    \<Rightarrow> (rollouts_error + unit) \<times> rx" where
  "reload_tries dp 0 new user org s x = (Inl KeptChanging, x)"
| "reload_tries dp (Suc n) new user org s x =
     (case xread (GetActiveRollout RolloutVarsReload org) x of
        (None, x1) \<Rightarrow> (Inl StoreErr, x1)
      | (Some None, x1) \<Rightarrow>
          (case queue dp (new_rollout (new n) org RolloutVarsReload (ReloadDoc s) org user) x1 of
             ((Some e, ok, v), x2) \<Rightarrow> (Inl e, x2)
           | ((None, True, v), x2) \<Rightarrow> (Inr (), x2)
           | ((None, False, v), x2) \<Rightarrow> reload_tries dp n new user org s x2)
      | (Some (Some active), x1) \<Rightarrow>
          if ro_stop active then (Inl Stopping, x1)
          else (case reloadScope active of
                  None \<Rightarrow> (Inl UnreadableScope, x1)
                | Some cur \<Rightarrow>
                    (case xcall (ExtendRollout (ro_id active) (ro_scope_rev active) (ReloadDoc (Merge cur s))) x1 of
                       (None, x2) \<Rightarrow> (Inl StoreErr, x2)
                     | (Some True, x2) \<Rightarrow> (Inr (), Wake x2)
                     | (Some False, x2) \<Rightarrow> reload_tries dp n new user org s x2)))"

definition QueueReload :: "rdeps \<Rightarrow> (nat \<Rightarrow> string) \<Rightarrow> string \<Rightarrow> string \<Rightarrow> reload_scope \<Rightarrow> rx
    \<Rightarrow> (rollouts_error + unit) \<times> rx" where
  "QueueReload dp new user org s x =
     reload_tries dp extendTries new user org (s\<lparr>rs_settle := x_now x + tm_settle (xd_timing dp)\<rparr>) x"

subsection \<open>Picks (upgrade.go, reload.go)\<close>

record pick =
  pk_app :: string
  pk_server :: string
  pk_skip :: string
  pk_remaining :: int
  pk_wait :: bool
  pk_inst :: "template_instance option"
  pk_seen :: int

definition no_pick :: pick where
  "no_pick = \<lparr>pk_app = [], pk_server = [], pk_skip = [], pk_remaining = 0, pk_wait = False, pk_inst = None, pk_seen = 0\<rparr>"

datatype pick_error = PickBadScope | PickStore

definition upgrade_next :: "rdeps \<Rightarrow> rollout \<Rightarrow> time \<Rightarrow> pick_error + pick" where
  "upgrade_next dp r now =
     (case upgradeScope r of None \<Rightarrow> Inl PickBadScope
      | Some s \<Rightarrow>
          (case xd_upgradable dp now (ro_org r) (us_template s) (us_revision s) of
             None \<Rightarrow> Inl PickStore
           | Some insts \<Rightarrow>
               (case filter (\<lambda>i. ti_id i \<notin> set (ro_skip_ids r)) insts of
                  [] \<Rightarrow> Inr no_pick
                | i # rest \<Rightarrow> Inr \<lparr>pk_app = ti_app i, pk_server = ti_server i, pk_skip = ti_id i,
                    pk_remaining = int (length (i # rest)), pk_wait = False, pk_inst = Some i, pk_seen = 0\<rparr>)))"

record candidate =
  cd_server :: string
  cd_app :: string
  cd_rev :: int

text \<open>A server whose report is missing or behind the scope's revision.\<close>

definition unsettled :: "rdeps \<Rightarrow> reload_scope \<Rightarrow> time \<Rightarrow> string \<Rightarrow> bool" where
  "unsettled dp s now sid =
     (case LatestReport sid now (xd_cache dp now) of None \<Rightarrow> True
      | Some rep \<Rightarrow> rp_has_rev rep \<and> rp_rev rep < (case mget (rs_revisions s) sid of None \<Rightarrow> 0 | Some v \<Rightarrow> v))"

definition server_candidates :: "rdeps \<Rightarrow> rollout \<Rightarrow> reload_scope \<Rightarrow> time \<Rightarrow> string \<Rightarrow> candidate list" where
  "server_candidates dp r s now sid =
     (case LatestReport sid now (xd_cache dp now) of None \<Rightarrow> []
      | Some rep \<Rightarrow>
          map (\<lambda>a. \<lparr>cd_server = sid, cd_app = as_app a, cd_rev = rp_rev rep\<rparr>)
            (filter (\<lambda>a. as_app a \<notin> set (ro_skip_ids r) \<and> running a \<and> Wants s sid (as_app a) (as_stale a)) (rp_apps rep)))"

definition reload_next :: "rdeps \<Rightarrow> rollout \<Rightarrow> time \<Rightarrow> pick_error + pick" where
  "reload_next dp r now =
     (case reloadScope r of None \<Rightarrow> Inl PickBadScope
      | Some s \<Rightarrow>
          (let (waiting, todo) = fold (\<lambda>sid (w, td).
                 if unsettled dp s now sid then (w \<or> now < rs_settle s, td)
                 else (w, td @ server_candidates dp r s now sid)) (Servers s) (False, [])
           in case sort_key (\<lambda>c. cd_server c @ ''/'' @ cd_app c) todo of
                [] \<Rightarrow> Inr (no_pick\<lparr>pk_wait := waiting\<rparr>)
              | c # rest \<Rightarrow> Inr \<lparr>pk_app = cd_app c, pk_server = cd_server c, pk_skip = cd_app c,
                  pk_remaining = int (length (c # rest)), pk_wait = False, pk_inst = None, pk_seen = cd_rev c\<rparr>))"

subsection \<open>Runs (upgrade.go, reload.go)\<close>

datatype step_outcome = StepDone bool | StepSkipped | StepFailed step_failure

text \<open>A run's result, the time it ends, and whether the worker's context has ended by then.\<close>

type_synonym run_result = "step_outcome \<times> time \<times> bool"

definition await_command :: "rdeps \<Rightarrow> time \<Rightarrow> string \<Rightarrow> step_failure option \<times> bool \<times> time \<times> bool" where
  "await_command dp now app =
     (let (t, ans) = xd_answer dp now app
      in case ans of
           Answered True err sk \<Rightarrow> (None, sk, t, xd_dead dp t)
         | Answered False err sk \<Rightarrow>
             (Some (CommandFailed (if err = [] then ''the agent reported a failure'' else err)), False, t, xd_dead dp t)
         | NoAnswer \<Rightarrow> (Some NoAnswerInTime, False, t, xd_dead dp t)
         | WaitEnded \<Rightarrow> (Some NoAnswerInTime, False, t, True))"

definition await_app :: "rdeps \<Rightarrow> time \<Rightarrow> string \<Rightarrow> string \<Rightarrow> (app_status \<times> wait_error option) \<times> time \<times> bool" where
  "await_app dp now sid app =
     (let polls = xd_polls dp now;
          res = awaitRunning (\<lambda>t. LatestReport sid t (xd_cache dp t)) (tm_health (xd_timing dp))
                  (tm_health_settle (xd_timing dp)) app now now polls;
          t = (if polls = [] then now else last polls)
      in (res, t, xd_dead dp t \<or> snd res = Some ContextEnded))"

definition upgrade_run :: "rdeps \<Rightarrow> rollout \<Rightarrow> pick \<Rightarrow> time \<Rightarrow> run_result" where
  "upgrade_run dp r p now =
     (case (upgradeScope r, pk_inst p) of
        (Some s, Some i) \<Rightarrow>
          (case xd_update dp now (ro_by r) (ro_org r) i (us_revision s) of
             UpdateSkips \<Rightarrow> (StepSkipped, now, xd_dead dp now)
           | UpdateFails e \<Rightarrow> (StepFailed (SendFailed e), now, xd_dead dp now)
           | UpdateSent \<Rightarrow>
               (case await_command dp now (pk_app p) of
                  (Some f, _, t, dead) \<Rightarrow> (StepFailed f, t, dead)
                | (None, _, t, dead) \<Rightarrow>
                    (case await_app dp t (pk_server p) (pk_app p) of
                       ((st, Some e), u, dead2) \<Rightarrow> (StepFailed (NotRunningAgain e), u, dead \<or> dead2)
                     | ((st, None), u, dead2) \<Rightarrow>
                         (StepDone (case xd_instance dp u (ti_id i) of None \<Rightarrow> True | Some rv \<Rightarrow> rv < us_revision s),
                          u, dead \<or> dead2))))
      | _ \<Rightarrow> (StepFailed BadScope, now, xd_dead dp now))"

definition reload_once :: "rdeps \<Rightarrow> rollout \<Rightarrow> pick \<Rightarrow> time \<Rightarrow> run_result" where
  "reload_once dp r p now =
     (case xd_dispatch dp now (pk_server p) (ro_by r) (pk_app p) of
        Some e \<Rightarrow> (StepFailed (SendFailed e), now, xd_dead dp now)
      | None \<Rightarrow>
          (case await_command dp now (pk_app p) of
             (Some f, _, t, dead) \<Rightarrow> (StepFailed f, t, dead)
           | (None, True, t, dead) \<Rightarrow> (StepSkipped, t, dead)
           | (None, False, t, dead) \<Rightarrow>
               (case await_app dp t (pk_server p) (pk_app p) of
                  ((st, Some e), u, dead2) \<Rightarrow> (StepFailed (NotRunningAgain e), u, dead \<or> dead2)
                | ((st, None), u, dead2) \<Rightarrow>
                    (case reloadScope r of
                       None \<Rightarrow> (StepFailed BadScope, u, dead \<or> dead2)
                     | Some s \<Rightarrow>
                         if Wants s (pk_server p) (pk_app p) (as_stale st) \<and>
                            (case LatestReport (pk_server p) u (xd_cache dp u) of
                               None \<Rightarrow> False | Some rep \<Rightarrow> rp_rev rep = pk_seen p)
                         then (StepFailed (StillStale (as_stale st)), u, dead \<or> dead2)
                         else (StepDone False, u, dead \<or> dead2)))))"

definition deleted :: "rdeps \<Rightarrow> string \<Rightarrow> time \<Rightarrow> bool" where
  "deleted dp app now = (case xd_apps dp of None \<Rightarrow> False | Some f \<Rightarrow> f now app = AppMissing)"

definition reload_run :: "rdeps \<Rightarrow> rollout \<Rightarrow> pick \<Rightarrow> time \<Rightarrow> run_result" where
  "reload_run dp r p now =
     (case reload_once dp r p now of
        (StepFailed f, t, dead) \<Rightarrow> if \<not> dead \<and> deleted dp (pk_app p) t then (StepSkipped, t, dead) else (StepFailed f, t, dead)
      | res \<Rightarrow> res)"

subsection \<open>The worker (worker.go)\<close>

datatype what_next = Again | End | Park

definition kind_next :: "rdeps \<Rightarrow> rollout \<Rightarrow> time \<Rightarrow> (pick_error + pick) option" where
  "kind_next dp r now =
     (if ro_kind r = RolloutTemplateUpgrade then Some (upgrade_next dp r now)
      else if ro_kind r = RolloutVarsReload then Some (reload_next dp r now)
      else None)"

definition kind_run :: "rdeps \<Rightarrow> rollout \<Rightarrow> pick \<Rightarrow> time \<Rightarrow> run_result" where
  "kind_run dp r p now =
     (if ro_kind r = RolloutTemplateUpgrade then upgrade_run dp r p now else reload_run dp r p now)"

text \<open>The step on a picked app: start it, run it, record its outcome.\<close>

definition record_outcome :: "rdeps \<Rightarrow> rollout \<Rightarrow> pick \<Rightarrow> string \<Rightarrow> step_outcome \<Rightarrow> rx \<Rightarrow> what_next \<times> rx" where
  "record_outcome dp r p name out x =
     (if x_dead x then (End, x)
      else case out of
        StepFailed f \<Rightarrow> (End, finish dp r RolloutFailed (xd_text dp f) (pk_app p) (pk_server p) x)
      | _ \<Rightarrow>
          (let dn = (if out = StepSkipped then 0 else 1);
               sn = (if out = StepSkipped then 1 else 0);
               skips = (if out = StepSkipped \<or> out = StepDone True then ro_skip_ids r @ [pk_skip p] else ro_skip_ids r)
           in case xcall (CountStep (ro_id r) (xd_owner dp) dn sn skips) x of
                (Some True, x1) \<Rightarrow> (Again, snd (changed dp (ro_id r) (pk_app p) name x1))
              | (_, x1) \<Rightarrow> (End, x1)))"

definition take_step :: "rdeps \<Rightarrow> rollout \<Rightarrow> pick \<Rightarrow> rx \<Rightarrow> what_next \<times> rx" where
  "take_step dp r p x =
     (case xcall (StartStep (ro_id r) (xd_owner dp) (pk_app p) (pk_server p)
              (ro_done r + ro_skipped r + pk_remaining p)) x of
        (Some True, x1) \<Rightarrow>
          (let name = appName dp (pk_app p) x1;
               (_, x2) = changed dp (ro_id r) (pk_app p) name x1;
               (out, t, dead) = kind_run dp r p (x_now x2)
           in record_outcome dp r p name out (x2\<lparr>x_now := t, x_dead := (x_dead x2 \<or> dead)\<rparr>))
      | (_, x1) \<Rightarrow> (End, x1))"

definition try_complete :: "rdeps \<Rightarrow> rollout \<Rightarrow> rx \<Rightarrow> what_next \<times> rx" where
  "try_complete dp r x =
     (case xcall (CompleteRollout (ro_id r) (xd_owner dp) (ro_scope_rev r) (x_now x)) x of
        (None, x1) \<Rightarrow> (End, x1)
      | (Some True, x1) \<Rightarrow> (End, ended dp (ro_id r) x1)
      | (Some False, x1) \<Rightarrow> (Again, x1))"

definition step :: "rdeps \<Rightarrow> rollout \<Rightarrow> rx \<Rightarrow> what_next \<times> rx" where
  "step dp r x =
     (if ro_stop r then (End, finish dp r RolloutStopped [] [] [] x)
      else case kind_next dp r (x_now x) of
        None \<Rightarrow> (End, finish dp r RolloutFailed (xd_text dp (UnknownKind (ro_kind r))) [] [] x)
      | Some (Inl PickBadScope) \<Rightarrow> (End, finish dp r RolloutFailed (xd_text dp BadScope) [] [] x)
      | Some (Inl PickStore) \<Rightarrow> (End, x)
      | Some (Inr p) \<Rightarrow>
          if pk_app p = [] then (if pk_wait p then (Park, x) else try_complete dp r x)
          else take_step dp r p x)"

text \<open>One turn of the drive: read the rollout, check that it is still ours, take a step.\<close>

definition drive_turn :: "rdeps \<Rightarrow> string \<Rightarrow> rx \<Rightarrow> what_next \<times> rx" where
  "drive_turn dp i x =
     (case xread (GetRollout i) x of
        (Some (Some r), x1) \<Rightarrow>
          if ro_owner r \<noteq> xd_owner dp \<or> \<not> Active (ro_state r) then (End, x1) else step dp r x1
      | (_, x1) \<Rightarrow> (End, x1))"

text \<open>The loop ends when the context does; \<open>n\<close> bounds its turns, and \<open>None\<close> is a loop that has not
  ended by then.\<close>

fun drive_loop :: "nat \<Rightarrow> rdeps \<Rightarrow> string \<Rightarrow> rx \<Rightarrow> bool option \<times> rx" where
  "drive_loop 0 dp i x = (None, x)"
| "drive_loop (Suc n) dp i x =
     (if x_dead x then (Some False, x)
      else case drive_turn dp i x of
        (Again, x1) \<Rightarrow> drive_loop n dp i x1
      | (End, x1) \<Rightarrow> (Some False, x1)
      | (Park, x1) \<Rightarrow> (Some True, x1))"

definition release :: "rdeps \<Rightarrow> string \<Rightarrow> time \<Rightarrow> rx \<Rightarrow> rx" where
  "release dp i until x = snd (xcall (ReleaseLease i (xd_owner dp) until) x)"

text \<open>The drive's context starts as the process's; afterwards the lease is parked, given back when the
  process stops, or left as it is.\<close>

definition drive :: "nat \<Rightarrow> rdeps \<Rightarrow> string \<Rightarrow> rx \<Rightarrow> bool option \<times> rx" where
  "drive n dp i x =
     (case drive_loop n dp i (x\<lparr>x_dead := xd_stop dp (x_now x)\<rparr>) of
        (Some True, x1) \<Rightarrow> (Some True, release dp i (x_now x1 + tm_settle_poll (xd_timing dp)) x1)
      | (Some False, x1) \<Rightarrow> (Some False, if xd_stop dp (x_now x1) then release dp i zero_time x1 else x1)
      | (None, x1) \<Rightarrow> (None, x1))"

text \<open>The claimable rollouts of one listing: whether one was claimed, whether one waits, and whether
  the pass goes on.\<close>

fun pass_ids :: "nat \<Rightarrow> rdeps \<Rightarrow> string list \<Rightarrow> bool \<Rightarrow> bool \<Rightarrow> rx \<Rightarrow> (bool \<times> bool \<times> bool) option \<times> rx" where
  "pass_ids n dp [] claimed waiting x = (Some (claimed, waiting, True), x)"
| "pass_ids n dp (i # is) claimed waiting x =
     (case xcall (ClaimRollout i (xd_owner dp) (x_now x) (x_now x + tm_lease (xd_timing dp))) x of
        (None, x1) \<Rightarrow> (Some (claimed, waiting, False), x1)
      | (Some False, x1) \<Rightarrow> pass_ids n dp is claimed waiting x1
      | (Some True, x1) \<Rightarrow>
          (case drive n dp i x1 of
             (None, x2) \<Rightarrow> (None, x2)
           | (Some w, x2) \<Rightarrow> pass_ids n dp is True (w \<or> waiting) x2))"

fun pass :: "nat \<Rightarrow> nat \<Rightarrow> rdeps \<Rightarrow> bool \<Rightarrow> rx \<Rightarrow> bool option \<times> rx" where
  "pass 0 n dp waiting x = (None, x)"
| "pass (Suc m) n dp waiting x =
     (if xd_stop dp (x_now x) then (Some waiting, x)
      else case xread (ListClaimable (x_now x)) x of
        (None, x1) \<Rightarrow> (Some waiting, x1)
      | (Some ids, x1) \<Rightarrow>
          (case pass_ids n dp ids False waiting x1 of
             (None, x2) \<Rightarrow> (None, x2)
           | (Some (claimed, w, on), x2) \<Rightarrow>
               if on \<and> claimed then pass m n dp w x2 else (Some w, x2)))"

text \<open>One lease renewal; \<open>True\<close> cancels the drive.\<close>

definition keep_lease :: "rdeps \<Rightarrow> string \<Rightarrow> rx \<Rightarrow> bool \<times> rx" where
  "keep_lease dp i x =
     (case xcall (RenewLease i (xd_owner dp) (x_now x + tm_lease (xd_timing dp))) x of
        (Some False, x1) \<Rightarrow> (\<not> x_dead x1, x1)
      | (_, x1) \<Rightarrow> (False, x1))"

end
