(* ===== verification/Rollout_Props.thy ===== *)
theory Rollout_Props
  imports Rollouts
begin

text \<open>
  What the rollouts guarantee whatever other processes do to the table between two calls and
  whatever calls fail: a worker's step counts its app exactly once, a rollout is marked done only
  when nothing of its final scope was left, an accepted reload made exactly one change to the table
  (\<open>wrote_once\<close>) after which an active rollout's scope covered it, and a stop that is answered has
  ended the rollout or left its request in the table.

  The locale \<open>table_inv\<close> carries an invariant of the table through the calls and the handlers
  built from them; the properties interpret it on what they follow.
\<close>

subsection \<open>One store call\<close>

definition next_ops :: "rx \<Rightarrow> rollout_op list" where
  "next_ops x = (case x_env x of [] \<Rightarrow> [] | e # _ \<Rightarrow> tu_ops e)"

text \<open>The table a call finds.\<close>

definition others_rows :: "rx \<Rightarrow> rollouts" where
  "others_rows x = fold rollout_exec (next_ops x) (x_rows x)"

lemma xcall_rows:
  "xcall m x = (res, x') \<Longrightarrow> x_rows x' = others_rows x \<or> x_rows x' = snd (m (others_rows x))"
  by (auto simp: xcall_def others_rows_def next_ops_def attempt_def split_beta Let_def split: list.splits fault.splits)

lemma xcall_Some:
  "xcall m x = (Some v, x') \<Longrightarrow> m (others_rows x) = (v, x_rows x')"
  by (auto simp: xcall_def others_rows_def next_ops_def attempt_def split_beta Let_def split: list.splits fault.splits)

lemma xcall_env: "x_env (snd (xcall m x)) = tl (x_env x)"
  by (simp add: xcall_def split_beta Let_def)

definition env_in :: "(rollout_op \<Rightarrow> bool) \<Rightarrow> rx \<Rightarrow> bool" where
  "env_in E x \<longleftrightarrow> (\<forall>tu \<in> set (x_env x). list_all E (tu_ops tu))"

lemma env_in_xcall [simp]: "env_in E x \<Longrightarrow> env_in E (snd (xcall m x))"
  by (cases "x_env x") (auto simp: env_in_def xcall_env)

lemma env_in_xread [simp]: "env_in E x \<Longrightarrow> env_in E (snd (xread f x))"
  by (simp add: xread_def)

lemma env_in_next: "env_in E x \<Longrightarrow> list_all E (next_ops x)"
  by (auto simp: env_in_def next_ops_def split: list.split)

lemma xread_Some: "xread f x = (Some v, x') \<Longrightarrow> v = f (others_rows x) \<and> x_rows x' = others_rows x"
  unfolding xread_def by (drule xcall_Some) auto

lemma xread_rows: "x_rows (snd (xread f x)) = others_rows x"
  unfolding xread_def by (cases "xcall (\<lambda>t. (f t, t)) x") (auto dest: xcall_rows)

text \<open>What changes only the notifications or the wake-up flag.\<close>

lemma publish_frame [simp]:
  "x_rows (publish dp org v x) = x_rows x" "x_env (publish dp org v x) = x_env x"
  "x_now (publish dp org v x) = x_now x" "x_dead (publish dp org v x) = x_dead x"
  by (simp_all add: publish_def split: option.split)

lemma Wake_frame [simp]:
  "x_rows (Wake x) = x_rows x" "x_env (Wake x) = x_env x" "x_now (Wake x) = x_now x"
  by (simp_all add: Wake_def)

lemma env_in_frame [simp]:
  "env_in E (publish dp org v x) = env_in E x" "env_in E (Wake x) = env_in E x"
  "env_in E (x\<lparr>x_now := t\<rparr>) = env_in E x" "env_in E (x\<lparr>x_dead := d\<rparr>) = env_in E x"
  by (simp_all add: env_in_def)

lemma changed_cases:
  obtains x1 where "xread (GetRollout i) x = (fst (xread (GetRollout i) x), x1)"
    "x_rows (snd (changed dp i app name x)) = x_rows x1" "x_env (snd (changed dp i app name x)) = x_env x1"
proof -
  obtain res x1 where e: "xread (GetRollout i) x = (res, x1)" by fastforce
  then show ?thesis
    by (intro that [of x1]) (auto simp: changed_def Let_def split: option.split)
qed

lemma changed_rows [simp]: "x_rows (snd (changed dp i app name x)) = others_rows x"
  by (rule changed_cases [of i x dp app name]) (metis snd_conv xread_rows)

lemma changed_env [simp]: "env_in E x \<Longrightarrow> env_in E (snd (changed dp i app name x))"
  by (rule changed_cases [of i x dp app name]) (metis env_in_def env_in_xread snd_conv)

text \<open>A step that was started: the surroundings \<open>z\<close> its run leaves, and what it records there.\<close>

lemma take_step_started:
  assumes "xcall (StartStep (ro_id r) (xd_owner dp) (pk_app p) (pk_server p)
      (ro_done r + ro_skipped r + pk_remaining p)) x = (Some True, x1)"
  obtains z t d out where "z = snd (changed dp (ro_id r) (pk_app p) (appName dp (pk_app p) x1) x1)\<lparr>x_now := t, x_dead := d\<rparr>"
    "take_step dp r p x = record_outcome dp r p (appName dp (pk_app p) x1) out z"
proof -
  let ?y = "snd (changed dp (ro_id r) (pk_app p) (appName dp (pk_app p) x1) x1)"
  obtain out t dead where "kind_run dp r p (x_now ?y) = (out, t, dead)" by (metis prod_cases3)
  then show ?thesis using assms
    by (intro that [where z = "?y\<lparr>x_now := t, x_dead := (x_dead ?y \<or> dead)\<rparr>" and t = t
          and d = "x_dead ?y \<or> dead" and out = out])
      (simp_all add: take_step_def Let_def split_beta)
qed

subsection \<open>Invariants of the table\<close>

locale table_inv =
  fixes I :: "rollouts \<Rightarrow> bool" and E :: "rollout_op \<Rightarrow> bool"
  assumes exec: "I t \<Longrightarrow> E op \<Longrightarrow> I (rollout_exec op t)"
begin

definition inv :: "rx \<Rightarrow> bool" where
  "inv x \<longleftrightarrow> I (x_rows x) \<and> env_in E x"

lemma others: "inv x \<Longrightarrow> I (others_rows x)"
proof -
  have "list_all E ops \<Longrightarrow> I t \<Longrightarrow> I (fold rollout_exec ops t)" for ops t
    by (induction ops arbitrary: t) (simp_all add: exec)
  then show "inv x \<Longrightarrow> I (others_rows x)" using env_in_next [of E x] by (simp add: others_rows_def inv_def)
qed

lemma call: "inv x \<Longrightarrow> (\<And>t. I t \<Longrightarrow> I (snd (m t))) \<Longrightarrow> inv (snd (xcall m x))"
  using xcall_rows [of m x "fst (xcall m x)" "snd (xcall m x)"] others [of x]
  by (auto simp: inv_def)

lemma read: "inv x \<Longrightarrow> inv (snd (xread f x))"
  using others [of x] by (simp add: inv_def xread_rows)

lemma op_call: "inv x \<Longrightarrow> E op \<Longrightarrow> (\<And>t. snd (m t) = rollout_exec op t) \<Longrightarrow> inv (snd (xcall m x))"
  using call [of x m] exec by simp

lemma changed_inv: "inv x \<Longrightarrow> inv (snd (changed dp i app name x))"
  using others [of x] by (simp add: inv_def)

lemma ended_inv:
  assumes "inv x" "\<And>k key. E (OpPruneEnded k key keepEnded)"
  shows "inv (ended dp i x)"
proof -
  obtain res x1 where c: "changed dp i [] [] x = (res, x1)" by fastforce
  then have i1: "inv x1" using changed_inv [OF assms(1), of dp i "[]" "[]"] by simp
  show ?thesis
  proof (cases res)
    case (Some r)
    have "inv (snd (xcall (PruneRollouts (ro_kind r) (ro_scope_key r) keepEnded) x1))"
      by (rule op_call [OF i1 assms(2) [of "ro_kind r" "ro_scope_key r"]]) simp
    then show ?thesis using c Some by (simp add: ended_def)
  qed (use c i1 in \<open>simp add: ended_def\<close>)
qed

lemma finish_inv:
  assumes "inv x" "\<And>k key. E (OpPruneEnded k key keepEnded)"
    "\<And>now. E (OpFinish (ro_id r) (xd_owner dp) st msg app srv now)"
  shows "inv (finish dp r st msg app srv x)"
proof -
  let ?m = "FinishRollout (ro_id r) (xd_owner dp) st msg app srv (x_now x)"
  obtain res x1 where c: "xcall ?m x = (res, x1)" by fastforce
  have "inv (snd (xcall ?m x))" by (rule op_call [OF assms(1) assms(3) [of "x_now x"]]) simp
  with c have i1: "inv x1" by simp
  with c ended_inv [OF i1 assms(2)] show ?thesis
    by (auto simp: finish_def split: option.split bool.split)
qed

lemma record_inv:
  assumes "inv x" "\<And>k key. E (OpPruneEnded k key keepEnded)"
    "\<And>d s ids. E (OpCount (ro_id r) (xd_owner dp) d s ids)"
    "\<And>msg now. E (OpFinish (ro_id r) (xd_owner dp) RolloutFailed msg (pk_app p) (pk_server p) now)"
  shows "inv (snd (record_outcome dp r p name out x))"
proof -
  have count: "inv (snd (case xcall (CountStep (ro_id r) (xd_owner dp) d s ids) x of
      (Some True, x4) \<Rightarrow> (Again, snd (changed dp (ro_id r) (pk_app p) name x4)) | (_, x4) \<Rightarrow> (End, x4)))" for d s ids
  proof -
    obtain res x4 where e4: "xcall (CountStep (ro_id r) (xd_owner dp) d s ids) x = (res, x4)" by fastforce
    have "inv (snd (xcall (CountStep (ro_id r) (xd_owner dp) d s ids) x))"
      by (rule op_call [OF assms(1,3)]) simp
    with e4 changed_inv show ?thesis by (simp split: option.split bool.split)
  qed
  have "inv (finish dp r RolloutFailed msg (pk_app p) (pk_server p) x)" for msg
    using assms(1,2,4) by (rule finish_inv)
  with assms(1) count show ?thesis by (cases out) (simp_all add: record_outcome_def Let_def)
qed

lemma take_step_inv:
  assumes "inv x" "\<And>k key. E (OpPruneEnded k key keepEnded)"
    "\<And>n. E (OpStart (ro_id r) (xd_owner dp) (pk_app p) (pk_server p) n)"
    "\<And>d s ids. E (OpCount (ro_id r) (xd_owner dp) d s ids)"
    "\<And>msg now. E (OpFinish (ro_id r) (xd_owner dp) RolloutFailed msg (pk_app p) (pk_server p) now)"
  shows "inv (snd (take_step dp r p x))"
proof -
  let ?start = "StartStep (ro_id r) (xd_owner dp) (pk_app p) (pk_server p) (ro_done r + ro_skipped r + pk_remaining p)"
  obtain res1 x1 where e1: "xcall ?start x = (res1, x1)" by fastforce
  have "inv (snd (xcall ?start x))"
    by (rule op_call [OF assms(1,3)]) simp
  with e1 have i1: "inv x1" by simp
  show ?thesis
  proof (cases "res1 = Some True")
    case True
    with e1 have e: "xcall ?start x = (Some True, x1)" by simp
    obtain z t d out where
      z: "z = snd (changed dp (ro_id r) (pk_app p) (appName dp (pk_app p) x1) x1)\<lparr>x_now := t, x_dead := d\<rparr>" and
      step: "take_step dp r p x = record_outcome dp r p (appName dp (pk_app p) x1) out z"
      by (rule take_step_started [OF e])
    have "inv z" using changed_inv [OF i1] by (simp add: z inv_def)
    from record_inv [OF this assms(2,4,5)] show ?thesis by (simp add: step)
  next
    case False
    then show ?thesis using e1 i1 by (auto simp: take_step_def split: option.split bool.split)
  qed
qed

end

subsection \<open>The columns a worker owns\<close>

definition counts :: "rollout_row \<Rightarrow> int \<times> int \<times> string list" where
  "counts q = (rw_done q, rw_skipped q, rw_skip_ids q)"

text \<open>As long as the worker owns the row, a column has the value it knows.\<close>

definition owned_col :: "string \<Rightarrow> string \<Rightarrow> (rollout_row \<Rightarrow> 'a) \<Rightarrow> 'a \<Rightarrow> rollouts \<Rightarrow> bool" where
  "owned_col w i g c t \<longleftrightarrow> rollouts_ok t \<and> (\<forall>q. look t i = Some q \<longrightarrow> rw_owner q = w \<longrightarrow> g q = c)"

definition leaves :: "string \<Rightarrow> (rollout_row \<Rightarrow> 'a) \<Rightarrow> rollout_op \<Rightarrow> bool" where
  "leaves w g op \<longleftrightarrow> w \<noteq> [] \<and> op_ok op \<and>
     (\<forall>q. rw_owner (op_row op q) = w \<longrightarrow> rw_owner q = w \<and> g (op_row op q) = g q)"

lemma owned_exec:
  assumes "owned_col w i g c t" "leaves w g op"
  shows "owned_col w i g c (rollout_exec op t)"
proof -
  have t: "rollouts_ok t" and op: "op_ok op" using assms by (simp_all add: owned_col_def leaves_def)
  from t op show ?thesis
    by (rule look_exec_cases [of t op i]) (use assms rollouts_ok_exec [OF op t] in \<open>auto simp: owned_col_def leaves_def\<close>)
qed

interpretation cnt: table_inv "owned_col w i counts c" "leaves w counts" for w i c
  by unfold_locales (rule owned_exec)

interpretation tot: table_inv "owned_col w i rw_total c" "leaves w rw_total" for w i c
  by unfold_locales (rule owned_exec)

definition others_only :: "string \<Rightarrow> rx \<Rightarrow> bool" where
  "others_only w x \<longleftrightarrow> env_in (\<lambda>op. op_ok op \<and> of_others w op) x"

lemma counts_same: "same_work q q' \<Longrightarrow> counts q' = counts q"
  by (simp add: same_work_def counts_def)

lemma total_same: "same_work q q' \<Longrightarrow> rw_total q' = rw_total q"
  by (simp add: same_work_def)

lemma env_in_mono: "env_in E x \<Longrightarrow> (\<And>op. E op \<Longrightarrow> F op) \<Longrightarrow> env_in F x"
  by (auto simp: env_in_def list_all_iff)

lemma others_leave:
  assumes "w \<noteq> []" "others_only w x" "\<And>q q'. same_work q q' \<Longrightarrow> g q' = g q"
  shows "env_in (leaves w g) x"
proof -
  have "leaves w g op" if "op_ok op" "of_others w op" for op
    using that assms(1,3) op_row_fence [of w op] unfolding leaves_def by blast
  then show ?thesis using env_in_mono assms(2) unfolding others_only_def by blast
qed

lemma cnt_inv: "w \<noteq> [] \<Longrightarrow> others_only w x \<Longrightarrow> cnt.inv w i c x \<longleftrightarrow> owned_col w i counts c (x_rows x)"
  using others_leave [of w x counts] counts_same by (simp add: cnt.inv_def)

lemma tot_inv: "w \<noteq> [] \<Longrightarrow> others_only w x \<Longrightarrow> tot.inv w i c x \<longleftrightarrow> owned_col w i rw_total c (x_rows x)"
  using others_leave [of w x rw_total] total_same by (simp add: tot.inv_def)

text \<open>The worker's own statements but its count leave the counts alone, and all but its start leave the
  total.\<close>

lemma leaves_counts:
  assumes "w \<noteq> []"
  shows "leaves w counts (OpStart i w a s n)" "leaves w counts (OpPruneEnded k key keep)"
    "st = RolloutStopped \<or> st = RolloutFailed \<Longrightarrow> leaves w counts (OpFinish i w st m a s now)" "leaves w counts (OpComplete i w rv now)"
  using assms by (auto simp: leaves_def op_ok_def guarded_def counts_def)

lemma owned_running: "rollouts_ok t \<Longrightarrow> look t i = Some q \<Longrightarrow> rw_owner q = w \<Longrightarrow> w \<noteq> [] \<Longrightarrow> driven_by i w q"
  using look_id [of t i q] by (auto simp: rollouts_ok_def rollout_ok_def driven_by_def)

lemma owned_update:
  assumes "rollouts_ok t" "op_ok op" "updates op" "w \<noteq> []"
    "\<And>q. look t i = Some q \<Longrightarrow> rw_owner (op_row op q) = w \<Longrightarrow> g (op_row op q) = c"
  shows "owned_col w i g c (rollout_exec op t)"
  using assms rollouts_ok_exec [OF assms(2,1)] by (auto simp: owned_col_def look_exec_update)

lemma start_total:
  assumes "rollouts_ok t" "w \<noteq> []"
  shows "owned_col w i rw_total n (snd (StartStep i w a s n t))"
proof -
  have "owned_col w i rw_total n (rollout_exec (OpStart i w a s n) t)"
    by (rule owned_update) (use assms owned_running in \<open>auto simp: op_ok_def updates_def guarded_def\<close>)
  then show ?thesis by simp
qed

lemma count_counts:
  assumes "owned_col w i counts (d, k, ids) t" "w \<noteq> []"
  shows "owned_col w i counts (d + dn, k + sn, skips) (snd (CountStep i w dn sn skips t))"
proof -
  have "owned_col w i counts (d + dn, k + sn, skips) (rollout_exec (OpCount i w dn sn skips) t)"
    by (rule owned_update)
      (use assms owned_running [of t i] in \<open>auto simp: owned_col_def op_ok_def updates_def guarded_def counts_def split: if_splits\<close>)
  then show ?thesis by simp
qed

lemma count_total:
  assumes "owned_col w i rw_total n t" "w \<noteq> []"
  shows "owned_col w i rw_total n (snd (CountStep i w dn sn skips t))"
proof -
  have "leaves w rw_total (OpCount i w dn sn skips)"
    using assms(2) by (auto simp: leaves_def op_ok_def guarded_def)
  from owned_exec [OF assms(1) this] show ?thesis by simp
qed

definition counts_of :: "rollout \<Rightarrow> int \<times> int \<times> string list" where
  "counts_of r = (ro_done r, ro_skipped r, ro_skip_ids r)"

text \<open>A row one step further than \<open>r\<close>: its app counted once, as done or as skipped, out of the total
  the step started with; what was skipped, and what must not be picked again, is on the list.\<close>

definition counted :: "rollout \<Rightarrow> pick \<Rightarrow> rollout_row \<Rightarrow> bool" where
  "counted r p q \<longleftrightarrow>
     (counts q = (ro_done r + 1, ro_skipped r, ro_skip_ids r) \<or>
      counts q = (ro_done r + 1, ro_skipped r, ro_skip_ids r @ [pk_skip p]) \<or>
      counts q = (ro_done r, ro_skipped r + 1, ro_skip_ids r @ [pk_skip p])) \<and>
     rw_total q = ro_done r + ro_skipped r + pk_remaining p"

lemma others_only_frame [simp]:
  "others_only w x \<Longrightarrow> others_only w (snd (xcall m x))"
  "others_only w x \<Longrightarrow> others_only w (snd (changed dp i app name x))"
  "others_only w (x\<lparr>x_now := t, x_dead := d\<rparr>) = others_only w x"
  by (simp_all add: others_only_def)

lemma counts_stay:
  assumes "cnt.inv w i c x" "look (x_rows x) i = Some q" "rw_owner q = w"
  shows "counts q = c"
  using assms by (simp add: cnt.inv_def owned_col_def)

text \<open>The count at the end of a step, under whatever the call's turn brings.\<close>

lemma count_call:
  assumes w: "w \<noteq> []" and o: "others_only w x"
    and c: "owned_col w i counts (d, k, ids) (x_rows x)" and t: "owned_col w i rw_total n (x_rows x)"
    and x': "xcall (CountStep i w dn sn skips) x = (res, x')" and g: "res = Some True \<or> res \<noteq> Some True \<and> y = x'"
    and y: "res = Some True \<Longrightarrow> x_rows y = x_rows x' \<or> x_rows y = others_rows x'"
    and q: "look (x_rows y) i = Some q" "rw_owner q = w"
  shows "(counts q = (d, k, ids) \<and> res \<noteq> Some True) \<or> counts q = (d + dn, k + sn, skips) \<and> rw_total q = n"
proof -
  let ?t = "others_rows x"
  have t0: "owned_col w i counts (d, k, ids) ?t" "owned_col w i rw_total n ?t"
    using cnt.others [of w i "(d, k, ids)" x] tot.others [of w i n x] c t w o by (simp_all add: cnt_inv tot_inv)
  have t1: "owned_col w i counts (d + dn, k + sn, skips) (snd (CountStep i w dn sn skips ?t))"
    "owned_col w i rw_total n (snd (CountStep i w dn sn skips ?t))"
    using count_counts [OF t0(1) w] count_total [OF t0(2) w] by auto
  have o': "others_only w x'" using others_only_frame(1) [OF o, of "CountStep i w dn sn skips"] x' by simp
  show ?thesis
  proof (cases "res = Some True")
    case True
    with x' have "x_rows x' = snd (CountStep i w dn sn skips ?t)" using xcall_Some by fastforce
    with t1 have e: "owned_col w i counts (d + dn, k + sn, skips) (x_rows x')" "owned_col w i rw_total n (x_rows x')"
      by simp_all
    then have "owned_col w i counts (d + dn, k + sn, skips) (others_rows x')" "owned_col w i rw_total n (others_rows x')"
      using cnt.others [of w i _ x'] tot.others [of w i n x'] w o' by (simp_all add: cnt_inv tot_inv)
    with e y [OF True] q show ?thesis by (auto simp: owned_col_def)
  next
    case False
    with g have "y = x'" by simp
    with xcall_rows [OF x'] have "x_rows y = ?t \<or> x_rows y = snd (CountStep i w dn sn skips ?t)" by simp
    with t0 t1 q False show ?thesis by (auto simp: owned_col_def)
  qed
qed

lemma record_counts:
  assumes w: "w = xd_owner dp" "w \<noteq> []" and o: "others_only w z"
    and c: "owned_col w (ro_id r) counts (counts_of r) (x_rows z)"
    and t: "owned_col w (ro_id r) rw_total (ro_done r + ro_skipped r + pk_remaining p) (x_rows z)"
    and s: "record_outcome dp r p name out z = (th, x2)" and q: "look (x_rows x2) (ro_id r) = Some q" "rw_owner q = w"
  shows "counts q = counts_of r \<and> th = End \<or> counted r p q \<and> th \<noteq> Park"
proof (cases "x_dead z")
  case True
  with s have "th = End" "x2 = z" by (auto simp: record_outcome_def)
  with c q show ?thesis by (simp add: owned_col_def)
next
  case alive: False
  have rec: "counts q = counts_of r \<and> th = End \<or>
      counts q = (ro_done r + dn, ro_skipped r + sn, skips) \<and> rw_total q = ro_done r + ro_skipped r + pk_remaining p \<and> th \<noteq> Park"
    if e: "(case xcall (CountStep (ro_id r) w dn sn skips) z of
      (Some True, x1) \<Rightarrow> (Again, snd (changed dp (ro_id r) (pk_app p) name x1)) | (_, x1) \<Rightarrow> (End, x1)) = (th, x2)" for dn sn skips
  proof -
    obtain res x4 where e4: "xcall (CountStep (ro_id r) w dn sn skips) z = (res, x4)" by fastforce
    from e e4 have f: "res = Some True \<and> th = Again \<and> x2 = snd (changed dp (ro_id r) (pk_app p) name x4) \<or>
        res \<noteq> Some True \<and> th = End \<and> x2 = x4"
      by (auto split: option.splits bool.splits)
    have "(counts q = (ro_done r, ro_skipped r, ro_skip_ids r) \<and> res \<noteq> Some True) \<or>
        counts q = (ro_done r + dn, ro_skipped r + sn, skips) \<and> rw_total q = ro_done r + ro_skipped r + pk_remaining p"
      by (rule count_call [OF w(2) o c [unfolded counts_of_def] t e4 _ _ q]) (use f in auto)
    with f show ?thesis by (auto simp: counts_of_def)
  qed
  show ?thesis
  proof (cases out)
    case (StepFailed f)
    have "cnt.inv w (ro_id r) (counts_of r) (finish dp r RolloutFailed (xd_text dp f) (pk_app p) (pk_server p) z)"
      by (rule cnt.finish_inv) (use c w o leaves_counts in \<open>simp_all add: cnt_inv\<close>)
    moreover have "th = End" "x2 = finish dp r RolloutFailed (xd_text dp f) (pk_app p) (pk_server p) z"
      using s alive StepFailed by (auto simp: record_outcome_def)
    ultimately show ?thesis using counts_stay q by blast
  next
    case StepSkipped
    with s alive rec [of 0 1] w show ?thesis by (auto simp: record_outcome_def counted_def)
  next
    case (StepDone b)
    with s alive rec [of 1 0] w show ?thesis by (cases b) (auto simp: record_outcome_def counted_def)
  qed
qed

lemma take_step_counts:
  assumes w: "w = xd_owner dp" "w \<noteq> []" and o: "others_only w x"
    and c: "owned_col w (ro_id r) counts (counts_of r) (x_rows x)"
    and s: "take_step dp r p x = (th, x2)" and q: "look (x_rows x2) (ro_id r) = Some q" "rw_owner q = w"
  shows "counts q = counts_of r \<and> th = End \<or> counted r p q \<and> th \<noteq> Park"
proof -
  let ?i = "ro_id r" and ?n = "ro_done r + ro_skipped r + pk_remaining p"
  let ?start = "StartStep ?i w (pk_app p) (pk_server p) ?n"
  obtain res1 x1 where e1: "xcall ?start x = (res1, x1)" by fastforce
  have o1: "others_only w x1" using others_only_frame(1) [OF o, of ?start] e1 by simp
  have "cnt.inv w ?i (counts_of r) (snd (xcall ?start x))"
    by (rule cnt.op_call [of _ _ _ _ "OpStart ?i w (pk_app p) (pk_server p) ?n"])
      (use c w o leaves_counts(1) in \<open>simp_all add: cnt_inv\<close>)
  then have c1: "owned_col w ?i counts (counts_of r) (x_rows x1)" using e1 w o1 by (simp add: cnt_inv)
  show ?thesis
  proof (cases "res1 = Some True")
    case False
    then have "th = End" "x2 = x1" using s e1 w(1) by (auto simp: take_step_def split: option.splits bool.splits)
    with c1 q show ?thesis by (simp add: owned_col_def)
  next
    case True
    have "rollouts_ok (others_rows x)" using cnt.others [of w ?i "counts_of r" x] c w o by (simp add: cnt_inv owned_col_def)
    from start_total [OF this w(2), of ?i ?n] xcall_Some [of ?start x True x1] e1 True
    have t1: "owned_col w ?i rw_total ?n (x_rows x1)" by (metis snd_conv)
    let ?name = "appName dp (pk_app p) x1"
    have e: "xcall (StartStep ?i (xd_owner dp) (pk_app p) (pk_server p) ?n) x = (Some True, x1)"
      using e1 True w(1) by simp
    obtain z t d out where z: "z = snd (changed dp ?i (pk_app p) ?name x1)\<lparr>x_now := t, x_dead := d\<rparr>" and
      step: "take_step dp r p x = record_outcome dp r p ?name out z"
      by (rule take_step_started [OF e])
    have "others_only w z" using o1 by (simp add: z)
    moreover have "owned_col w ?i counts (counts_of r) (x_rows z)" "owned_col w ?i rw_total ?n (x_rows z)"
      using cnt.others [of w ?i "counts_of r" x1] tot.others [of w ?i ?n x1] c1 t1 w o1
      by (simp_all add: z cnt_inv tot_inv)
    moreover have "record_outcome dp r p ?name out z = (th, x2)" using step s by simp
    ultimately show ?thesis using q by (rule record_counts [OF w])
  qed
qed

lemma upgrade_remaining: "upgrade_next dp r now = Inr p \<Longrightarrow> pk_app p \<noteq> [] \<Longrightarrow> 1 \<le> pk_remaining p"
  by (auto simp: upgrade_next_def no_pick_def split: option.splits list.splits)

lemma reload_remaining: "reload_next dp r now = Inr p \<Longrightarrow> pk_app p \<noteq> [] \<Longrightarrow> 1 \<le> pk_remaining p"
  by (auto simp: reload_next_def no_pick_def split_beta Let_def split: option.splits list.splits)

lemma kind_next_remaining: "kind_next dp r now = Some (Inr p) \<Longrightarrow> pk_app p \<noteq> [] \<Longrightarrow> 1 \<le> pk_remaining p"
  unfolding kind_next_def using upgrade_remaining reload_remaining by (metis option.distinct(1) option.sel)

lemma GetRollout_look: "GetRollout i t = map_option hydrate_rollout (look t i)"
  by (simp add: GetRollout_def look_def)

lemma hydrate_row [simp]:
  "counts_of (hydrate_rollout q) = counts q" "ro_id (hydrate_rollout q) = rw_id q"
  "ro_owner (hydrate_rollout q) = rw_owner q" "ro_scope (hydrate_rollout q) = rw_scope q"
  "ro_scope_rev (hydrate_rollout q) = rw_scope_rev q" "ro_org (hydrate_rollout q) = rw_org q"
  "ro_stop (hydrate_rollout q) = rw_stop q" "ro_state (hydrate_rollout q) = rw_state q"
  by (simp_all add: hydrate_rollout_def counts_of_def counts_def)

lemma get_rollout:
  assumes "xread (GetRollout i) x = (Some (Some r), x1)"
  obtains q where "look (x_rows x1) i = Some q" "r = hydrate_rollout q" "rw_id q = i" "x_rows x1 = others_rows x"
proof -
  from xread_Some [OF assms] have e: "map_option hydrate_rollout (look (others_rows x) i) = Some r" "x_rows x1 = others_rows x"
    by (simp_all add: GetRollout_look)
  then obtain q where "look (others_rows x) i = Some q" "r = hydrate_rollout q" by auto
  with e(2) look_id show ?thesis by (intro that [of q]) auto
qed

text \<open>C23. A step counts its app exactly once. A worker reads a rollout it owns and takes a step, while
  between any two of its calls the others do anything and any call may fail or lose its answer. If it
  still owns the row afterwards, the row's counts are the ones it read or exactly one step further: one
  app more done or skipped out of the total the step started with, which they do not exceed. They are
  one further whenever the loop goes on after a picked app.\<close>

theorem step_counts_once:
  assumes "rollouts_ok (x_rows x)" "others_only (xd_owner dp) x" "xd_owner dp \<noteq> []"
    "xread (GetRollout i) x = (Some (Some r), x1)" "step dp r x1 = (th, x2)"
    "look (x_rows x2) i = Some q" "rw_owner q = xd_owner dp"
  shows "counts q = counts_of r \<and> (th = Again \<longrightarrow> (\<exists>p. kind_next dp r (x_now x1) = Some (Inr p) \<and> pk_app p = [])) \<or>
    (\<exists>p. kind_next dp r (x_now x1) = Some (Inr p) \<and> counted r p q \<and> rw_done q + rw_skipped q \<le> rw_total q)"
proof -
  let ?w = "xd_owner dp"
  obtain q1 where q1: "look (x_rows x1) i = Some q1" "r = hydrate_rollout q1" "rw_id q1 = i" "x_rows x1 = others_rows x"
    using get_rollout [OF assms(4)] by blast
  have o1: "others_only ?w x1" using assms(2,4) env_in_xread [of _ x "GetRollout i"] by (simp add: others_only_def)
  have "rollouts_ok (x_rows x1)"
    using lease.ok_run [OF assms(1)] env_in_next [OF assms(2) [unfolded others_only_def]]
    by (simp add: q1(4) others_rows_def list_all_iff)
  then have c1: "owned_col ?w i counts (counts_of r) (x_rows x1)" using q1 by (simp add: owned_col_def)
  then have inv1: "cnt.inv ?w i (counts_of r) x1" using cnt_inv assms(3) o1 by blast
  have id: "ro_id r = i" using q1 by simp
  have fin: "counts q = counts_of r" if "x2 = finish dp r st msg a s x1" "st = RolloutStopped \<or> st = RolloutFailed" for st msg a s
  proof -
    have "cnt.inv ?w i (counts_of r) (finish dp r st msg a s x1)"
      by (rule cnt.finish_inv [OF inv1]) (use leaves_counts assms(3) that in simp_all)
    with that counts_stay assms(6,7) show ?thesis by blast
  qed
  have same: "counts q = counts_of r" if "x2 = x1" using counts_stay [OF inv1] that assms(6,7) by simp
  show ?thesis
  proof (cases "ro_stop r")
    case True
    then show ?thesis using assms(5) fin by (auto simp: step_def)
  next
    case running: False
    show ?thesis
    proof (cases "kind_next dp r (x_now x1)")
      case None
      then show ?thesis using assms(5) running fin by (auto simp: step_def)
    next
      case (Some n)
      show ?thesis
      proof (cases n)
        case (Inl e)
        then show ?thesis using assms(5) running Some fin same by (cases e) (auto simp: step_def)
      next
        case (Inr p)
        show ?thesis
        proof (cases "pk_app p = []")
          case False
          then have "take_step dp r p x1 = (th, x2)" using assms(5) running Some Inr by (simp add: step_def)
          from take_step_counts [OF refl assms(3) o1 _ this, unfolded id, OF c1 assms(6,7)]
          have "counts q = counts_of r \<and> th = End \<or> counted r p q \<and> th \<noteq> Park" .
          moreover have "rw_done q + rw_skipped q \<le> rw_total q" if "counted r p q"
            using that kind_next_remaining [OF Some [unfolded Inr] False] by (auto simp: counted_def counts_def)
          ultimately show ?thesis using Some Inr by auto
        next
          case True
          have "cnt.inv ?w i (counts_of r) (snd (try_complete dp r x1))"
          proof -
            let ?m = "CompleteRollout i ?w (ro_scope_rev r) (x_now x1)"
            obtain res y where e: "xcall ?m x1 = (res, y)" by fastforce
            have "cnt.inv ?w i (counts_of r) (snd (xcall ?m x1))"
              by (rule cnt.op_call [OF inv1 leaves_counts(4) [OF assms(3), of i "ro_scope_rev r" "x_now x1"]]) simp
            with e have y: "cnt.inv ?w i (counts_of r) y" by simp
            have "cnt.inv ?w i (counts_of r) (ended dp i y)"
              by (rule cnt.ended_inv [OF y]) (use leaves_counts assms(3) in simp)
            with y e id show ?thesis by (auto simp: try_complete_def split: option.split bool.split)
          qed
          then have "counts q = counts_of r" if "x2 = snd (try_complete dp r x1)"
            using that counts_stay assms(6,7) by blast
          then show ?thesis using same assms(5) running Some Inr True by (auto simp: step_def split: if_splits)
        qed
      qed
    qed
  qed
qed

subsection \<open>What a rollout that is done has seen\<close>

text \<open>A row that is done has one of these scopes.\<close>

definition done_in :: "string \<Rightarrow> scope_doc set \<Rightarrow> rollouts \<Rightarrow> bool" where
  "done_in i A t \<longleftrightarrow> rollouts_ok t \<and>
     (\<forall>q. look t i = Some q \<longrightarrow> rw_state q = RolloutDone \<longrightarrow> rw_scope q \<in> A)"

definition completes_not :: "string \<Rightarrow> rollout_op \<Rightarrow> bool" where
  "completes_not i op \<longleftrightarrow> op_ok op \<and> (case op of OpComplete j w rv now \<Rightarrow> j \<noteq> i | _ \<Rightarrow> True)"

lemma completes_not_row:
  assumes "completes_not i op" "rw_id q = i" "rollout_ok q" "rw_state (op_row op q) = RolloutDone"
  shows "rw_state q = RolloutDone \<and> rw_scope (op_row op q) = rw_scope q"
proof (cases "active_row q")
  case True
  then have "rw_state q \<noteq> RolloutDone" by (auto simp: Active_def)
  with assms True show ?thesis
    by (cases op) (auto simp: completes_not_def op_ok_def guarded_def driven_by_def split: if_splits)
next
  case False
  have "op_row op q = q" using assms(1) by (intro ended_final [OF _ assms(3) False]) (simp add: completes_not_def)
  with assms(4) show ?thesis by simp
qed

lemma done_exec:
  assumes "done_in i A t" "completes_not i op"
  shows "done_in i A (rollout_exec op t)"
proof -
  have t: "rollouts_ok t" and op: "op_ok op" using assms by (simp_all add: done_in_def completes_not_def)
  from t op show ?thesis
  proof (rule look_exec_cases [of t op i])
    fix q assume q: "look t i = Some q" "look (rollout_exec op t) i = Some (op_row op q)"
    then have "rw_id q = i" "rollout_ok q" using look_id [OF q(1)] t by (auto simp: rollouts_ok_def)
    with q assms completes_not_row [OF assms(2)] rollouts_ok_exec [OF op t] show ?thesis by (auto simp: done_in_def)
  qed (use rollouts_ok_exec [OF op t] in \<open>auto simp: done_in_def queued_row_def\<close>)
qed

interpretation fin: table_inv "done_in i A" "completes_not i" for i A
  by unfold_locales (rule done_exec)

text \<open>The others, when none of them completes the rollout.\<close>

definition others_no_complete :: "string \<Rightarrow> string \<Rightarrow> rx \<Rightarrow> bool" where
  "others_no_complete w i x \<longleftrightarrow> env_in (\<lambda>op. completes_not i op \<and> of_others w op) x"

lemma others_no_complete_frame [simp]:
  "others_no_complete w i x \<Longrightarrow> others_no_complete w i (snd (xcall m x))"
  "others_no_complete w i x \<Longrightarrow> others_no_complete w i (snd (xread f x))"
  by (simp_all add: others_no_complete_def)

lemma others_no_complete_env: "others_no_complete w i x \<Longrightarrow> env_in (completes_not i) x"
  unfolding others_no_complete_def by (erule env_in_mono) simp

lemma fin_own:
  assumes "w \<noteq> []"
  shows "completes_not i (OpPruneEnded k key keep)" "completes_not i (OpStart j w a s n)"
    "completes_not i (OpCount j w d s' ids)"
    "st = RolloutStopped \<or> st = RolloutFailed \<Longrightarrow> completes_not i (OpFinish j w st m a s now)"
  using assms by (auto simp: completes_not_def op_ok_def)

text \<open>A completion that goes through finds the scope the worker read, for the revision is the same.\<close>

lemma complete_scope:
  assumes t: "rollouts_ok t" and q: "look t i = Some q" and w: "w \<noteq> []"
    and ops: "list_all op_ok ops" "list_all (of_others w) ops"
    and q': "look (snd (CompleteRollout i w (rw_scope_rev q) now (fold rollout_exec ops t))) i = Some q'"
    and undone: "done_in i {} (fold rollout_exec ops t)" and d: "rw_state q' = RolloutDone"
  shows "rw_scope q' = rw_scope q"
proof -
  let ?u = "fold rollout_exec ops t" and ?op = "OpComplete i w (rw_scope_rev q) now"
  obtain r where r: "look ?u i = Some r" "q' = op_row ?op r"
    using q' look_exec_update [of ?op ?u i] by (cases "look ?u i") (simp_all add: updates_def)
  have nd: "rw_state r \<noteq> RolloutDone" using undone r(1) by (auto simp: done_in_def)
  with r(2) d have g: "driven_by i w r" "rw_scope_rev r = rw_scope_rev q" "rw_scope q' = rw_scope r"
    by (auto simp: guarded_def split: if_splits)
  from lease.fence_run [OF t ops w r(1)] g(1) q have "evolves q r" by (auto simp: driven_by_def)
  with g show ?thesis by (simp add: evolves_def)
qed

text \<open>C24. No reload is lost to a race with the end of a rollout. While others extend the rollout, ask it to
  stop or take its lease over, a turn of a worker's loop that leaves it done has read, at its start, a row
  with the very scope the rollout ended with and no request to stop, and what it picked from that row at
  that instant is neither an app to work on nor a wait: an extension that arrived later would have
  changed the scope.\<close>

theorem done_scope_seen:
  assumes "rollouts_ok (x_rows x)" "others_no_complete (xd_owner dp) i x" "xd_owner dp \<noteq> []"
    "\<And>q. look (x_rows x) i = Some q \<Longrightarrow> rw_state q \<noteq> RolloutDone"
    "drive_turn dp i x = (th, x2)" "look (x_rows x2) i = Some q" "rw_state q = RolloutDone"
  shows "\<exists>q1 p. look (others_rows x) i = Some q1 \<and> rw_scope q1 = rw_scope q \<and> \<not> rw_stop q1 \<and>
    kind_next dp (hydrate_rollout q1) (x_now (snd (xread (GetRollout i) x))) = Some (Inr p) \<and>
    pk_app p = [] \<and> \<not> pk_wait p"
proof -
  let ?w = "xd_owner dp"
  have inv: "fin.inv i {} x"
    using assms(1,2,4) others_no_complete_env by (auto simp: fin.inv_def done_in_def)
  have absurd: "fin.inv i {} x2 \<Longrightarrow> False"
    using assms(6,7) by (auto simp: fin.inv_def done_in_def)
  obtain res x1 where e: "xread (GetRollout i) x = (res, x1)" by fastforce
  then have inv1: "fin.inv i {} x1" and o1: "others_no_complete ?w i x1"
    using fin.read [OF inv, of "GetRollout i"] assms(2) others_no_complete_frame(2) [of ?w i x "GetRollout i"] by simp_all
  from assms(5) e absurd inv1 obtain r where r: "res = Some (Some r)" "step dp r x1 = (th, x2)"
    by (auto simp: drive_turn_def split: option.splits if_splits)
  obtain q1 where q1: "look (x_rows x1) i = Some q1" "r = hydrate_rollout q1" "rw_id q1 = i" "x_rows x1 = others_rows x"
    using get_rollout e r(1) by blast
  have id: "ro_id r = i" using q1 by simp
  have finish: "x2 \<noteq> finish dp r st msg a s x1" if "st = RolloutStopped \<or> st = RolloutFailed" for st msg a s
    using fin.finish_inv [OF inv1, of r dp st msg a s] fin_own(1,4) [OF assms(3)] that absurd by blast
  have run: "snd (step dp r x1) = x2" using r(2) by simp
  show ?thesis
  proof (cases "ro_stop r")
    case True
    then show ?thesis using run finish [of RolloutStopped "[]" "[]" "[]"] by (simp add: step_def)
  next
    case go: False
    consider (none) "kind_next dp r (x_now x1) = None" | (bad) "kind_next dp r (x_now x1) = Some (Inl PickBadScope)"
      | (store) "kind_next dp r (x_now x1) = Some (Inl PickStore)"
      | (pick) p where "kind_next dp r (x_now x1) = Some (Inr p)"
      by (cases "kind_next dp r (x_now x1)") (metis old.sum.exhaust pick_error.exhaust)+
    then show ?thesis
    proof cases
      case (pick p)
      show ?thesis
      proof (cases "pk_app p = []")
        case False
        then have "x2 = snd (take_step dp r p x1)" using run go pick by (simp add: step_def)
        moreover have "fin.inv i {} (snd (take_step dp r p x1))"
          by (rule fin.take_step_inv [OF inv1]) (use fin_own [OF assms(3)] in auto)
        ultimately show ?thesis using absurd by simp
      next
        case empty: True
        show ?thesis
        proof (cases "pk_wait p")
          case True
          then show ?thesis using run go pick empty absurd inv1 by (simp add: step_def)
        next
          case False
          let ?m = "CompleteRollout i ?w (ro_scope_rev r) (x_now x1)"
          have t: "x2 = snd (try_complete dp r x1)" using run go pick empty False by (simp add: step_def)
          obtain res' y where y: "xcall ?m x1 = (res', y)" by fastforce
          have ok1: "rollouts_ok (x_rows x1)" using inv1 by (simp add: fin.inv_def done_in_def)
          have ops: "list_all op_ok (next_ops x1)" "list_all (of_others ?w) (next_ops x1)"
            using env_in_next [OF o1 [unfolded others_no_complete_def]]
            by (auto simp: list_all_iff completes_not_def)
          have und: "done_in i {} (others_rows x1)" using fin.others [OF inv1] .
          have "done_in i {rw_scope q1} (x_rows y)"
          proof -
            have "rollouts_ok (snd (?m (others_rows x1)))"
              using rollouts_ok_exec [of "OpComplete i ?w (ro_scope_rev r) (x_now x1)" "others_rows x1"] und assms(3)
              by (simp add: done_in_def op_ok_def)
            moreover have "rw_scope u = rw_scope q1"
              if "look (snd (?m (others_rows x1))) i = Some u" "rw_state u = RolloutDone" for u
              using complete_scope [OF ok1 q1(1) assms(3) ops, of "x_now x1" u] that und q1(2)
              by (simp add: others_rows_def)
            ultimately have "done_in i {rw_scope q1} (snd (?m (others_rows x1)))" by (simp add: done_in_def)
            moreover have "done_in i {rw_scope q1} (others_rows x1)" using und by (auto simp: done_in_def)
            ultimately show ?thesis using xcall_rows [OF y] by auto
          qed
          then have iy: "fin.inv i {rw_scope q1} y"
            using others_no_complete_env [OF others_no_complete_frame(1) [OF o1, of ?m]] y by (simp add: fin.inv_def)
          have "fin.inv i {rw_scope q1} (ended dp i y)"
            by (rule fin.ended_inv [OF iy]) (rule fin_own(1) [OF assms(3)])
          with iy y t id have "fin.inv i {rw_scope q1} x2"
            by (auto simp: try_complete_def split: option.splits bool.splits)
          then have "rw_scope q1 = rw_scope q" using assms(6,7) by (auto simp: fin.inv_def done_in_def)
          moreover have "x1 = snd (xread (GetRollout i) x)" "\<not> rw_stop q1" using e go q1(2) by simp_all
          ultimately show ?thesis using q1 pick empty False by (intro exI [of _ q1] exI [of _ p]) simp
        qed
      qed
    next
      case none
      then show ?thesis
        using run go finish [of RolloutFailed "xd_text dp (UnknownKind (ro_kind r))" "[]" "[]"] by (simp add: step_def)
    next
      case bad
      then show ?thesis using run go finish [of RolloutFailed "xd_text dp BadScope" "[]" "[]"] by (simp add: step_def)
    qed (use run go absurd inv1 in \<open>simp add: step_def\<close>)
  qed
qed

subsection \<open>Requests\<close>

text \<open>The others' operations still to come, and how a call splits them.\<close>

definition turn_ops :: "rx \<Rightarrow> rollout_op list" where
  "turn_ops x = concat (map tu_ops (x_env x))"

lemma turn_ops_xcall: "turn_ops x = next_ops x @ turn_ops (snd (xcall m x))"
  by (cases "x_env x") (simp_all add: turn_ops_def next_ops_def xcall_env)

lemma turn_ops_xread: "turn_ops x = next_ops x @ turn_ops (snd (xread f x))"
  unfolding xread_def by (rule turn_ops_xcall)

lemma turn_ops_frame [simp]:
  "turn_ops (publish dp org v x) = turn_ops x" "turn_ops (Wake x) = turn_ops x"
  by (simp_all add: turn_ops_def publish_def Wake_def split: option.split)

text \<open>A request wrote once: after some of the others' operations its own, which made \<open>P\<close> true, and then
  nothing but the rest of the others' operations it saw.\<close>

definition wrote_once :: "rollout_op set \<Rightarrow> (rollouts \<Rightarrow> bool) \<Rightarrow> rx \<Rightarrow> rx \<Rightarrow> bool" where
  "wrote_once S P x x' \<longleftrightarrow> (\<exists>pre op post. turn_ops x = pre @ post @ turn_ops x' \<and> op \<in> S \<and>
     P (rollout_exec op (fold rollout_exec pre (x_rows x))) \<and>
     x_rows x' = fold rollout_exec (pre @ op # post) (x_rows x))"

lemma wrote_later:
  assumes "x_rows y = others_rows x" "turn_ops x = next_ops x @ turn_ops y" "wrote_once S P y x'"
  shows "wrote_once S P x x'"
proof -
  obtain pre op post where w: "turn_ops y = pre @ post @ turn_ops x'" "op \<in> S"
     "P (rollout_exec op (fold rollout_exec pre (x_rows y)))" "x_rows x' = fold rollout_exec (pre @ op # post) (x_rows y)"
    using assms(3) by (auto simp: wrote_once_def)
  then show ?thesis using assms(1,2) unfolding wrote_once_def others_rows_def
    by (intro exI [of _ "next_ops x @ pre"] exI [of _ op] exI [of _ post]) simp
qed

lemma wrote_now:
  assumes "x_rows y = rollout_exec op (others_rows x)" "turn_ops x = next_ops x @ turn_ops y" "op \<in> S" "P (x_rows y)"
    "x_rows x' = fold rollout_exec post (x_rows y)" "turn_ops y = post @ turn_ops x'"
  shows "wrote_once S P x x'"
  unfolding wrote_once_def using assms
  by (intro exI [of _ "next_ops x"] exI [of _ op] exI [of _ post]) (simp add: others_rows_def)

text \<open>An id is never used for two scopes.\<close>

definition ids_mean :: "(string \<Rightarrow> string \<times> string) \<Rightarrow> rollouts \<Rightarrow> bool" where
  "ids_mean K t \<longleftrightarrow> (\<forall>q \<in> set t. K (rw_id q) = (rw_kind q, rw_scope_key q))"

definition means :: "(string \<Rightarrow> string \<times> string) \<Rightarrow> rollout_op \<Rightarrow> bool" where
  "means K op \<longleftrightarrow> (case op of OpInsert now ro \<Rightarrow> K (ro_id ro) = (ro_kind ro, ro_scope_key ro) | _ \<Rightarrow> True)"

lemma ids_mean_exec: "ids_mean K t \<Longrightarrow> means K op \<Longrightarrow> ids_mean K (rollout_exec op t)"
proof (cases "updates op")
  case True
  then show "ids_mean K t \<Longrightarrow> means K op \<Longrightarrow> ids_mean K (rollout_exec op t)"
    by (simp add: ids_mean_def exec_update)
next
  case False
  assume a: "ids_mean K t" "means K op"
  show ?thesis
  proof (cases "\<exists>now ro. op = OpInsert now ro")
    case True
    with a show ?thesis by (auto simp: ids_mean_def means_def InsertRollout_def split: if_splits)
  next
    case no: False
    then obtain P where "rollout_exec op t = filter P t" using exec_delete [OF False] by metis
    with a show ?thesis by (simp add: ids_mean_def)
  qed
qed

interpretation mean: table_inv "ids_mean K" "means K" for K
  by unfold_locales (rule ids_mean_exec)

text \<open>An active reload rollout of the organization that asks for at least \<open>s\<close> and will not just stop.\<close>

definition covers :: "rollouts \<Rightarrow> string \<Rightarrow> reload_scope \<Rightarrow> bool" where
  "covers t org s \<longleftrightarrow> (\<exists>q \<in> set t. active_row q \<and> \<not> rw_stop q \<and> rw_kind q = RolloutVarsReload \<and>
     rw_scope_key q = org \<and> (\<exists>c. rw_scope q = ReloadDoc c \<and> scope_le s c))"

text \<open>The writes of one request: a new rollout with the scope, or an extension to a merge with it.\<close>

definition reload_writes :: "(nat \<Rightarrow> string) \<Rightarrow> string \<Rightarrow> string \<Rightarrow> reload_scope \<Rightarrow> rollout_op set" where
  "reload_writes new user org s =
     {OpInsert now (new_rollout (new n) org RolloutVarsReload (ReloadDoc s) org user) | now n. True} \<union>
     {OpExtend j rv (ReloadDoc (Merge cur s)) | j rv cur. True}"

lemma queue_covers:
  assumes "queue dp (new_rollout (new n) org RolloutVarsReload (ReloadDoc s) org user) x = ((e, True, v), x')"
  shows "wrote_once (reload_writes new user org s) (\<lambda>t. covers t org s) x x'"
proof -
  let ?r = "new_rollout (new n) org RolloutVarsReload (ReloadDoc s) org user"
  let ?m = "InsertRollout (x_now x) ?r"
  obtain res0 x1 where e1: "xcall ?m x = (res0, x1)" by fastforce
  with assms have "res0 = Some True" by (auto simp: queue_def split: option.splits bool.splits)
  with e1 have x1: "xcall ?m x = (Some True, x1)" by simp
  obtain res x2 where x2: "xread (GetRollout (ro_id ?r)) x1 = (res, x2)" by fastforce
  from xcall_Some [OF x1] have rows: "x_rows x1 = others_rows x @ [queued_row (x_now x) ?r]"
    by (auto simp: InsertRollout_def split: if_splits)
  have "covers (x_rows x1) org s"
    unfolding covers_def rows
    by (rule bexI [of _ "queued_row (x_now x) ?r"]) (simp_all add: new_rollout_def queued_row_def Active_def)
  moreover have "x_rows x1 = rollout_exec (OpInsert (x_now x) ?r) (others_rows x)" using xcall_Some [OF x1] by simp
  moreover have "x_rows x' = x_rows x2" "turn_ops x' = turn_ops x2"
    using assms x1 x2 by (auto simp: queue_def Let_def split: option.splits)
  moreover have "x_rows x2 = others_rows x1" "turn_ops x1 = next_ops x1 @ turn_ops x2"
    using xread_rows [of "GetRollout (ro_id ?r)" x1] turn_ops_xread [of x1 "GetRollout (ro_id ?r)"] x2 by simp_all
  moreover have "turn_ops x = next_ops x @ turn_ops x1" using turn_ops_xcall [of x ?m] x1 by simp
  ultimately show ?thesis
    by (intro wrote_now [where y = x1 and op = "OpInsert (x_now x) ?r" and post = "next_ops x1"])
      (auto simp: reload_writes_def others_rows_def)
qed

lemma reload_tries_covers:
  assumes "reload_tries dp n new user org s x = (Inr (), x')" "mean.inv K x"
    "\<And>k. K (new k) = (RolloutVarsReload, org)"
  shows "wrote_once (reload_writes new user org s) (\<lambda>t. covers t org s) x x'"
  using assms(1,2)
proof (induction n arbitrary: x)
  case (Suc n)
  obtain res x1 where x1: "xread (GetActiveRollout RolloutVarsReload org) x = (res, x1)" by fastforce
  have later: ?case if "wrote_once (reload_writes new user org s) (\<lambda>t. covers t org s) x1 x'"
    using wrote_later [OF _ _ that, of x] turn_ops_xread [of x "GetActiveRollout RolloutVarsReload org"]
      xread_rows [of "GetActiveRollout RolloutVarsReload org" x] x1 by simp
  have i1: "mean.inv K x1" using mean.read [OF Suc.prems(2), of "GetActiveRollout RolloutVarsReload org"] x1 by simp
  show ?case
  proof (cases "\<exists>active. res = Some (Some active)")
    case False
    let ?r = "new_rollout (new n) org RolloutVarsReload (ReloadDoc s) org user"
    obtain e ok v x2 where q: "queue dp ?r x1 = ((e, ok, v), x2)" by (metis prod_cases4 surj_pair)
    from False Suc.prems(1) x1 have res: "res = Some None" by (auto split: option.splits)
    show ?thesis
    proof (cases ok)
      case True
      then have "x' = x2" using Suc.prems(1) x1 res q by (auto split: option.splits)
      then show ?thesis using later queue_covers [of dp new n org s user x1 e v x2] q True by simp
    next
      case False
      have refused: "xcall (InsertRollout (x_now x1) ?r) x1 = (Some False, x2)"
      proof -
        obtain r0 x0 where "xcall (InsertRollout (x_now x1) ?r) x1 = (r0, x0)" by fastforce
        then show ?thesis using Suc.prems(1) x1 res q False
          by (auto simp: queue_def Let_def split_beta split: option.splits bool.splits)
      qed
      then have x2: "x2 = snd (xcall (InsertRollout (x_now x1) ?r) x1)" by simp
      have quiet: "x_rows x2 = others_rows x1"
        using xcall_Some [OF refused] by (auto simp: InsertRollout_def split: if_splits)
      have "mean.inv K x2"
      proof -
        note x2
        moreover have "means K (OpInsert (x_now x1) ?r)" by (simp add: means_def new_rollout_def assms(3))
        ultimately show ?thesis using mean.op_call [OF i1, of "OpInsert (x_now x1) ?r" "InsertRollout (x_now x1) ?r"] by simp
      qed
      moreover have "reload_tries dp n new user org s x2 = (Inr (), x')"
        using Suc.prems(1) x1 res q False by (auto split: option.splits)
      ultimately have w: "wrote_once (reload_writes new user org s) (\<lambda>t. covers t org s) x2 x'" using Suc.IH by blast
      have "x_rows x2 = others_rows x1" "turn_ops x1 = next_ops x1 @ turn_ops x2"
        using quiet x2 turn_ops_xcall [of x1 "InsertRollout (x_now x1) ?r"] by simp_all
      from wrote_later [OF this w] show ?thesis by (rule later)
    qed
  next
    case True
    then obtain active where res: "res = Some (Some active)" by blast
    from Suc.prems(1) x1 res obtain cur where cur: "reloadScope active = Some cur" "\<not> ro_stop active"
      by (auto split: if_splits option.splits)
    let ?m = "ExtendRollout (ro_id active) (ro_scope_rev active) (ReloadDoc (Merge cur s))"
    obtain ok x2 where x2: "xcall ?m x1 = (ok, x2)" by fastforce
    have step: "(Inr (), x') = (case ok of None \<Rightarrow> (Inl StoreErr, x2) | Some True \<Rightarrow> (Inr (), Wake x2)
        | Some False \<Rightarrow> reload_tries dp n new user org s x2)"
      using Suc.prems(1) x1 res cur x2 by (simp split: option.splits bool.splits)
    have act: "K (ro_id active) = (RolloutVarsReload, org)"
    proof -
      from xread_Some [of "GetActiveRollout RolloutVarsReload org" x "Some active" x1] x1 res
      have "map_option hydrate_rollout (find (\<lambda>q. rw_kind q = RolloutVarsReload \<and> rw_scope_key q = org \<and> active_row q)
          (others_rows x)) = Some active" by (simp add: GetActiveRollout_def)
      then obtain q where f: "find (\<lambda>q. rw_kind q = RolloutVarsReload \<and> rw_scope_key q = org \<and> active_row q) (others_rows x) = Some q"
        and h: "active = hydrate_rollout q" by blast
      from f have "q \<in> set (others_rows x)" "rw_kind q = RolloutVarsReload" "rw_scope_key q = org"
        by (metis (mono_tags, lifting) find_Some_iff nth_mem)+
      with mean.others [OF Suc.prems(2)] h show ?thesis by (auto simp: ids_mean_def)
    qed
    have i2: "mean.inv K x2"
      using mean.op_call [OF i1, of "OpExtend (ro_id active) (ro_scope_rev active) (ReloadDoc (Merge cur s))" ?m] x2
      by (simp add: means_def)
    show ?thesis
    proof (cases "ok = Some True")
      case True
      then have x': "x' = Wake x2" using step by simp
      let ?P = "\<lambda>q. rw_id q = ro_id active \<and> rw_scope_rev q = ro_scope_rev active \<and> active_row q \<and> \<not> rw_stop q"
      from xcall_Some [of ?m x1 True x2] x2 True have m: "?m (others_rows x1) = (True, x_rows x2)" by simp
      then have "fst (?m (others_rows x1))" by simp
      then have "\<exists>q \<in> set (others_rows x1). ?P q" unfolding ExtendRollout_def fst_changed .
      then obtain q where q: "q \<in> set (others_rows x1)" "?P q" by blast
      let ?f = "\<lambda>q. q\<lparr>rw_scope := ReloadDoc (Merge cur s), rw_scope_rev := rw_scope_rev q + 1\<rparr>"
      have rows: "x_rows x2 = map (guarded ?P ?f) (others_rows x1)"
      proof -
        from m have "x_rows x2 = snd (?m (others_rows x1))" by simp
        then show ?thesis unfolding ExtendRollout_def snd_changed .
      qed
      have "K (rw_id q) = (rw_kind q, rw_scope_key q)" using mean.others [OF i1] q(1) by (simp add: ids_mean_def)
      with act q(2) have kk: "rw_kind q = RolloutVarsReload" "rw_scope_key q = org" by auto
      have "covers (x_rows x2) org s"
        unfolding covers_def
      proof (rule bexI [of _ "guarded ?P ?f q"])
        show "guarded ?P ?f q \<in> set (x_rows x2)" using q(1) by (simp add: rows)
      qed (use q(2) kk Merge_upper [of s cur] Merge_upper [of cur s] in \<open>auto simp: guarded_def\<close>)
      moreover have "x_rows x2 = rollout_exec (OpExtend (ro_id active) (ro_scope_rev active) (ReloadDoc (Merge cur s))) (others_rows x1)"
        using m by simp
      ultimately have "wrote_once (reload_writes new user org s) (\<lambda>t. covers t org s) x1 x'"
        using turn_ops_xcall [of x1 ?m] x2 x'
        by (intro wrote_now [where y = x2 and post = "[]"
              and op = "OpExtend (ro_id active) (ro_scope_rev active) (ReloadDoc (Merge cur s))"])
          (auto simp: reload_writes_def)
      then show ?thesis by (rule later)
    next
      case False
      then have "reload_tries dp n new user org s x2 = (Inr (), x')"
        using step by (auto split: option.splits bool.splits)
      with Suc.IH i2 have w: "wrote_once (reload_writes new user org s) (\<lambda>t. covers t org s) x2 x'" by blast
      have no: "ok = Some False" using step False by (auto split: option.splits)
      let ?P = "\<lambda>q. rw_id q = ro_id active \<and> rw_scope_rev q = ro_scope_rev active \<and> active_row q \<and> \<not> rw_stop q"
      from xcall_Some [of ?m x1 False x2] x2 no have m: "?m (others_rows x1) = (False, x_rows x2)" by simp
      then have "\<not> fst (?m (others_rows x1))" by simp
      then have none: "\<not> ?P q" if "q \<in> set (others_rows x1)" for q using that unfolding ExtendRollout_def fst_changed by blast
      have "x_rows x2 = snd (?m (others_rows x1))" using m by simp
      also have "\<dots> = others_rows x1"
        unfolding ExtendRollout_def snd_changed by (rule map_idI) (use none in \<open>auto simp: guarded_def\<close>)
      finally have "wrote_once (reload_writes new user org s) (\<lambda>t. covers t org s) x1 x'"
        using wrote_later [OF _ _ w, of x1] turn_ops_xcall [of x1 ?m] x2 by simp
      then show ?thesis by (rule later)
    qed
  qed
qed simp

text \<open>C25. An accepted reload is queued. Whatever others do to the table between the calls, when
  \<open>QueueReload\<close> reports no error it has made exactly one change to the table, a new rollout with the
  requested scope or an extension to a merge with it, right after which an active reload rollout of the
  organization, not asked to stop, had a scope that asks for everything requested. Everything else in
  the table's history is the others' operations, each once and in their order.\<close>

theorem reload_queued:
  assumes "QueueReload dp new user org s x = (Inr (), x')" "ids_mean K (x_rows x)" "env_in (means K) x"
    "\<And>k. K (new k) = (RolloutVarsReload, org)"
  shows "\<exists>pre op post t. let s' = s\<lparr>rs_settle := x_now x + tm_settle (xd_timing dp)\<rparr> in
    turn_ops x = pre @ post @ turn_ops x' \<and>
    ((\<exists>now n. op = OpInsert now (new_rollout (new n) org RolloutVarsReload (ReloadDoc s') org user)) \<or>
     (\<exists>j rv cur. op = OpExtend j rv (ReloadDoc (Merge cur s')))) \<and>
    t = rollout_exec op (fold rollout_exec pre (x_rows x)) \<and> covers t org s' \<and>
    x_rows x' = fold rollout_exec post t"
proof -
  let ?s = "s\<lparr>rs_settle := x_now x + tm_settle (xd_timing dp)\<rparr>"
  have "wrote_once (reload_writes new user org ?s) (\<lambda>t. covers t org ?s) x x'"
    using reload_tries_covers [OF assms(1) [unfolded QueueReload_def], of K] assms(2-4) by (simp add: mean.inv_def)
  then obtain pre op post where "turn_ops x = pre @ post @ turn_ops x'" "op \<in> reload_writes new user org ?s"
     "covers (rollout_exec op (fold rollout_exec pre (x_rows x))) org ?s"
     "x_rows x' = fold rollout_exec (pre @ op # post) (x_rows x)" unfolding wrote_once_def by blast
  then show ?thesis unfolding Let_def reload_writes_def
    by (intro exI [of _ pre] exI [of _ op] exI [of _ post] exI [of _ "rollout_exec op (fold rollout_exec pre (x_rows x))"]) simp
qed

text \<open>The row of a rollout, if it is there, is not to go on.\<close>

definition halted :: "string \<Rightarrow> rollouts \<Rightarrow> bool" where
  "halted i t \<longleftrightarrow> rollouts_ok t \<and> (\<forall>q. look t i = Some q \<longrightarrow> \<not> active_row q \<or> rw_stop q)"

lemma halted_run:
  assumes "halted i t" "list_all op_ok ops" "list_all (\<lambda>op. \<not> inserts i op) ops"
  shows "halted i (fold rollout_exec ops t)"
  unfolding halted_def
proof (intro conjI allI impI)
  have t: "rollouts_ok t" using assms(1) by (simp add: halted_def)
  then show "rollouts_ok (fold rollout_exec ops t)" using lease.ok_run assms(2) by (simp add: list_all_iff)
  fix q' assume "look (fold rollout_exec ops t) i = Some q'"
  from present_evolves [OF t assms(2,3) this] obtain q where "look t i = Some q" "evolves q q'" by blast
  with assms(1) show "\<not> active_row q' \<or> rw_stop q'" by (auto simp: halted_def evolves_def)
qed

interpretation halt: table_inv "halted i" "\<lambda>op. op_ok op \<and> \<not> inserts i op" for i
  by unfold_locales (use halted_run [of _ _ "[_]"] in simp)

lemma changed_look:
  assumes "fst (changed_rows (sql_update P f t))" "rollouts_ok t" "\<And>q. P q \<Longrightarrow> rw_id q = i" "\<And>q. rw_id (f q) = rw_id q"
  shows "\<exists>q. P q \<and> look (snd (changed_rows (sql_update P f t))) i = Some (f q)"
proof -
  from assms(1) obtain q where q: "q \<in> set t" "P q" by auto
  have "look t i = Some q"
    using look_mem [OF _ q(1)] assms(2,3) q(2) by (auto simp: rollouts_ok_def)
  moreover from this have "look (map (guarded P f) t) i = Some (f q)"
    using look_map [of "guarded P f" t i] q(2) assms(4) by (simp add: guarded_def)
  ultimately show ?thesis using q(2) by auto
qed

text \<open>C26. A stop that is answered took effect. Whatever others do to the table between the calls, a
  worker's steps and the clean-up included, when \<open>Stop\<close> answers with the rollout, the organization's
  row of it in the table it leaves has ended or carries the stop request, the answer shows that row,
  and after any further operations the row, as long as it is there, is still ended or asked to stop.\<close>

theorem stop_takes_effect:
  assumes "RStop dp org i x = (Inr v, x')" "rollouts_ok (x_rows x)"
    "env_in (\<lambda>op. op_ok op \<and> \<not> inserts i op) x"
  shows "(\<exists>q name. look (x_rows x') i = Some q \<and> rw_org q = org \<and> (\<not> active_row q \<or> rw_stop q) \<and>
       v = viewOf (hydrate_rollout q) name) \<and>
    (\<forall>ops q. (\<forall>op \<in> set ops. op_ok op \<and> \<not> inserts i op) \<longrightarrow>
       look (fold rollout_exec ops (x_rows x')) i = Some q \<longrightarrow> \<not> active_row q \<or> rw_stop q)"
proof -
  let ?E = "\<lambda>op. op_ok op \<and> \<not> inserts i op"
  have ok: "rollouts_ok (others_rows y)" if "rollouts_ok (x_rows y)" "env_in ?E y" for y
    using lease.ok_run [OF that(1)] env_in_next [OF that(2)] by (simp add: others_rows_def list_all_iff)
  let ?m1 = "StopUnleased org i (x_now x)"
  obtain r1 x1 where e1: "xcall ?m1 x = (r1, x1)" by fastforce
  define answer where "answer = (\<lambda>requested x2.
      case xread (GetRollout i) x2 of
        (None, x3) \<Rightarrow> (Inl StoreErr, x3)
      | (Some None, x3) \<Rightarrow> (Inl NotFound, x3)
      | (Some (Some r), x3) \<Rightarrow>
          if ro_org r \<noteq> org then (Inl NotFound, x3)
          else let v = viewOf r (appName dp (ro_app r) x3)
               in (Inr v, if requested then publish dp org v (Wake x3) else x3))"
  have stop: "(case xcall ?m1 x of
       (None, x1) \<Rightarrow> (Inl StoreErr, x1)
     | (Some True, x1) \<Rightarrow> answer False (ended dp i x1)
     | (Some False, x1) \<Rightarrow>
         (case xcall (RequestStop org i) x1 of
            (None, x2) \<Rightarrow> (Inl StoreErr, x2)
          | (Some requested, x2) \<Rightarrow> answer requested x2)) = (Inr v, x')"
    using assms(1) unfolding RStop_def answer_def Let_def .
  have read: "\<exists>q name. look (x_rows x') i = Some q \<and> rw_org q = org \<and> v = viewOf (hydrate_rollout q) name \<and>
      x_rows x' = others_rows y" if "answer b y = (Inr v, x')" for b y
  proof -
    obtain res z where e: "xread (GetRollout i) y = (res, z)" by fastforce
    with that obtain r where r: "res = Some (Some r)" "ro_org r = org" "x_rows x' = x_rows z"
        "v = viewOf r (appName dp (ro_app r) z)"
      by (auto simp: answer_def Let_def split: option.splits if_splits)
    then obtain q where "look (x_rows z) i = Some q" "r = hydrate_rollout q" "x_rows z = others_rows y"
      using get_rollout e by blast
    with r show ?thesis by auto
  qed
  have finish: ?thesis if "answer b y = (Inr v, x')" "halted i (x_rows x')" for b y
  proof -
    from read [OF that(1)] obtain q name where q: "look (x_rows x') i = Some q" "rw_org q = org" "v = viewOf (hydrate_rollout q) name"
      by blast
    have "\<not> active_row q \<or> rw_stop q" using that(2) q(1) by (simp add: halted_def)
    then have "\<exists>q name. look (x_rows x') i = Some q \<and> rw_org q = org \<and> (\<not> active_row q \<or> rw_stop q) \<and>
       v = viewOf (hydrate_rollout q) name" using q by blast
    moreover have "\<not> active_row u \<or> rw_stop u"
      if "\<forall>op \<in> set ops. ?E op" "look (fold rollout_exec ops (x_rows x')) i = Some u" for ops u
      using halted_run [OF \<open>halted i (x_rows x')\<close>, of ops] that by (auto simp: halted_def list_all_iff)
    ultimately show ?thesis by blast
  qed
  have t0: "rollouts_ok (others_rows x)" using ok assms(2,3) by blast
  have x1: "rollouts_ok (x_rows x1)" "env_in ?E x1"
    using xcall_rows [OF e1] t0 rollouts_ok_exec [of "OpStopUnleased org i (x_now x)" "others_rows x"]
      env_in_xcall [OF assms(3), of ?m1] e1 by (auto simp: op_ok_def)
  show ?thesis
  proof (cases "r1 = Some True")
    case True
    from xcall_Some [of ?m1 x True x1] e1 True have m: "?m1 (others_rows x) = (True, x_rows x1)" by simp
    then have u: "fst (?m1 (others_rows x))" "x_rows x1 = snd (?m1 (others_rows x))" by simp_all
    obtain q where q: "rw_org q = org" "look (x_rows x1) i = Some (q\<lparr>rw_state := RolloutStopped, rw_stop := True,
        rw_app := [], rw_server := [], rw_owner := [], rw_until := None, rw_finished := Some (to_sql (x_now x))\<rparr>)"
      using changed_look [OF u(1) [unfolded StopUnleased_def] t0, of i] unfolding u(2) StopUnleased_def by auto
    then have "halt.inv i x1" using x1 by (simp add: halt.inv_def halted_def)
    then have "halt.inv i (ended dp i x1)" by (rule halt.ended_inv) (simp add: op_ok_def inserts_def)
    from halt.others [OF this] have h: "halted i (others_rows (ended dp i x1))" .
    have a: "answer False (ended dp i x1) = (Inr v, x')" using stop e1 True by simp
    show ?thesis by (rule finish [OF a]) (use read [OF a] h in auto)
  next
    case False
    with stop e1 have r1: "r1 = Some False" by (auto split: option.splits)
    let ?m2 = "RequestStop org i" and ?P = "\<lambda>q. rw_id q = i \<and> rw_org q = org \<and> active_row q"
    obtain r2 x2 where e2: "xcall ?m2 x1 = (r2, x2)" by fastforce
    with stop e1 r1 obtain b where b: "r2 = Some b" "answer b x2 = (Inr v, x')" by (auto split: option.splits)
    have t1: "rollouts_ok (others_rows x1)" using ok x1 by blast
    from xcall_Some [of ?m2 x1 b x2] e2 b(1)
    have u: "b = fst (?m2 (others_rows x1))" "x_rows x2 = snd (?m2 (others_rows x1))" by simp_all
    have t2: "rollouts_ok (x_rows x2)" "env_in ?E x2"
      using xcall_rows [OF e2] t1 rollouts_ok_exec [of "OpStop org i" "others_rows x1"]
        env_in_xcall [OF x1(2), of ?m2] e2 by (auto simp: op_ok_def)
    from env_in_next [OF t2(2)] have n: "list_all op_ok (next_ops x2)" "list_all (\<lambda>op. \<not> inserts i op) (next_ops x2)"
      by (auto simp: list_all_iff)
    from read [OF b(2)] obtain q3 where q3: "look (x_rows x') i = Some q3" "rw_org q3 = org" "x_rows x' = others_rows x2"
      by blast
    have h2: "halted i (x_rows x2)"
    proof (cases b)
      case True
      have f: "fst (changed_rows (sql_update ?P (\<lambda>q. q\<lparr>rw_stop := True\<rparr>) (others_rows x1)))"
        using u(1) True unfolding RequestStop_def by blast
      obtain q where "?P q" "look (x_rows x2) i = Some (q\<lparr>rw_stop := True\<rparr>)"
        using changed_look [OF f t1, of i] unfolding u(2) RequestStop_def by auto
      then show ?thesis using t2 by (simp add: halted_def)
    next
      case False
      with u(1) have "\<not> fst (?m2 (others_rows x1))" by simp
      then have "\<not> (\<exists>q \<in> set (others_rows x1). ?P q)" unfolding RequestStop_def fst_changed .
      then have none: "\<not> ?P q" if "q \<in> set (others_rows x1)" for q using that by blast
      have rows: "x_rows x2 = others_rows x1"
        unfolding u(2) RequestStop_def snd_changed by (rule map_idI) (use none in \<open>auto simp: guarded_def\<close>)
      from present_evolves [OF t2(1) n, of q3] q3(1,3) obtain q2 where
        q2: "look (x_rows x2) i = Some q2" "evolves q2 q3" by (auto simp: others_rows_def)
      have "rw_org q2 = org" using q2(2) q3(2) by (simp add: evolves_def)
      with none look_id [OF q2(1)] rows have "\<not> active_row q2" by auto
      then show ?thesis using t2 q2(1) by (simp add: halted_def)
    qed
    show ?thesis by (rule finish [OF b(2)]) (use halted_run [OF h2 n] q3(3) in \<open>simp add: others_rows_def\<close>)
  qed
qed

subsection \<open>Concrete runs\<close>

definition demo_deps :: rdeps where
  "demo_deps = \<lparr>xd_owner = ''w1'', xd_timing = defaultTiming, xd_apps = None, xd_members = None,
     xd_cache = (\<lambda>_. NewCache minute), xd_template = (\<lambda>_ _ t. Inr (t, 2)), xd_revision = (\<lambda>_ _ _. None),
     xd_upgradable = (\<lambda>_ _ _ _. Some [\<lparr>ti_id = ''n1'', ti_key = ''k1'', ti_app = ''a1'', ti_server = ''s1'', ti_revision = 1\<rparr>]),
     xd_update = (\<lambda>_ _ _ _ _. UpdateSkips), xd_instance = (\<lambda>_ _. None), xd_dispatch = (\<lambda>_ _ _ _. None),
     xd_answer = (\<lambda>t _. (t, NoAnswer)), xd_polls = (\<lambda>_. []), xd_dead = (\<lambda>_. False), xd_stop = (\<lambda>_. False),
     xd_text = (\<lambda>_. ''failed'')\<rparr>"

text \<open>A running upgrade of worker \<open>w1\<close>, and a running reload.\<close>

definition demo_row :: "string \<Rightarrow> scope_doc \<Rightarrow> rollout_row" where
  "demo_row k doc = (queued_row 0 (new_rollout ''r1'' ''o1'' k doc ''o1'' ''u1''))
     \<lparr>rw_state := RolloutRunning, rw_owner := ''w1'', rw_until := Some 120\<rparr>"

definition demo_rx :: "rollout_row \<Rightarrow> rx" where
  "demo_rx q = \<lparr>x_rows = [q], x_env = [], x_now = 0, x_dead = False, x_wake = False, x_sent = []\<rparr>"

lemmas demo_row_simps = demo_row_def queued_row_def new_rollout_def

lemma demo_rows_ok: "rollouts_ok (x_rows (demo_rx (demo_row k doc)))"
  by (simp add: demo_rx_def rollouts_ok_def rollout_ok_def demo_row_simps Active_def)

lemma demo_env: "env_in E (demo_rx q)"
  by (simp add: env_in_def demo_rx_def)

lemma demo_read: "xread (GetRollout ''r1'') (demo_rx (demo_row k doc)) =
    (Some (Some (hydrate_rollout (demo_row k doc))), demo_rx (demo_row k doc))"
  by (simp add: xread_def xcall_def demo_rx_def attempt_def GetRollout_def demo_row_simps)

lemmas demo_run_simps = xread_def xcall_def demo_rx_def attempt_def GetRollout_def demo_row_simps hydrate_rollout_def
  demo_deps_def changed_rows_def sql_update_def driven_by_def Let_def

abbreviation demo_upgrade :: rollout_row where
  "demo_upgrade \<equiv> demo_row RolloutTemplateUpgrade (UpgradeDoc \<lparr>us_template = ''t1'', us_revision = 2\<rparr>)"

lemma demo_step:
  "step demo_deps (hydrate_rollout demo_upgrade) (demo_rx demo_upgrade) =
    (Again, demo_rx (demo_upgrade\<lparr>rw_app := ''a1'', rw_server := ''s1'', rw_total := 1, rw_skipped := 1,
      rw_skip_ids := [''n1'']\<rparr>))"
  by (simp add: step_def kind_next_def upgrade_next_def upgradeScope_def take_step_def StartStep_def CountStep_def
      kind_run_def upgrade_run_def record_outcome_def changed_def appName_def publish_def viewOf_def demo_run_simps)

lemma step_counts_once_witness:
  "\<exists>q. rw_done q + rw_skipped q = 1 \<and> rw_done q + rw_skipped q \<le> rw_total q \<and>
    x_rows (snd (step demo_deps (hydrate_rollout demo_upgrade) (demo_rx demo_upgrade))) = [q]"
proof -
  let ?q = "demo_upgrade\<lparr>rw_app := ''a1'', rw_server := ''s1'', rw_total := 1, rw_skipped := 1, rw_skip_ids := [''n1'']\<rparr>"
  have l: "look (x_rows (demo_rx ?q)) ''r1'' = Some ?q" "rw_owner ?q = xd_owner demo_deps" "xd_owner demo_deps \<noteq> []"
    by (simp_all add: look_def demo_rx_def demo_row_simps demo_deps_def)
  from step_counts_once [OF demo_rows_ok _ l(3) demo_read demo_step l(1,2)]
  have "counts ?q = counts_of (hydrate_rollout demo_upgrade) \<or> rw_done ?q + rw_skipped ?q \<le> rw_total ?q"
    using demo_env by (auto simp: others_only_def)
  then have "rw_done ?q + rw_skipped ?q \<le> rw_total ?q"
    by (simp add: counts_def demo_row_simps)
  moreover have "x_rows (snd (step demo_deps (hydrate_rollout demo_upgrade) (demo_rx demo_upgrade))) = [?q]"
    unfolding demo_step snd_conv by (simp only: demo_rx_def rx.simps)
  moreover have "rw_done ?q + rw_skipped ?q = 1"
    by (simp add: demo_row_simps)
  ultimately show ?thesis by blast
qed

abbreviation demo_reload :: rollout_row where
  "demo_reload \<equiv> demo_row RolloutVarsReload (ReloadDoc empty_scope)"

lemma done_scope_seen_witness:
  "\<exists>p. kind_next demo_deps (hydrate_rollout demo_reload) 0 = Some (Inr p) \<and> pk_app p = [] \<and> \<not> pk_wait p"
proof -
  let ?q = "demo_reload\<lparr>rw_state := RolloutDone, rw_owner := [], rw_until := None, rw_finished := Some 0\<rparr>"
  have turn: "drive_turn demo_deps ''r1'' (demo_rx demo_reload) = (End, demo_rx ?q)"
    by (simp add: drive_turn_def step_def kind_next_def reload_next_def reloadScope_def Servers_def joined_def
        empty_scope_def RolloutVarsReload_def RolloutTemplateUpgrade_def no_pick_def try_complete_def CompleteRollout_def
        ended_def changed_def appName_def publish_def PruneRollouts_def kept_ids_def ended_in_def Active_def
        keepEnded_def to_sql_def demo_run_simps)
  have l: "look (x_rows (demo_rx ?q)) ''r1'' = Some ?q" "rw_state ?q = RolloutDone" "xd_owner demo_deps \<noteq> []"
    by (simp_all add: look_def demo_rx_def demo_row_simps demo_deps_def)
  have "rw_state q \<noteq> RolloutDone" if "look (x_rows (demo_rx demo_reload)) ''r1'' = Some q" for q
    using that by (auto simp: look_def demo_rx_def demo_row_simps)
  from done_scope_seen [OF demo_rows_ok _ l(3) this turn l(1,2)] demo_env obtain q1 p where
    f: "look (others_rows (demo_rx demo_reload)) ''r1'' = Some q1" "pk_app p = []" "\<not> pk_wait p"
      "kind_next demo_deps (hydrate_rollout q1) (x_now (snd (xread (GetRollout ''r1'') (demo_rx demo_reload)))) = Some (Inr p)"
    by (auto simp: others_no_complete_def)
  from f(1) have "q1 = demo_reload" by (simp add: others_rows_def next_ops_def look_def demo_rx_def demo_row_simps)
  moreover have "x_now (snd (xread (GetRollout ''r1'') (demo_rx demo_reload))) = 0"
    unfolding demo_read by (simp add: demo_rx_def)
  ultimately show ?thesis using f(2-4) by auto
qed

lemma reload_queued_witness:
  "covers (x_rows (snd (QueueReload demo_deps (\<lambda>_. ''r9'') ''u1'' ''o1'' empty_scope ((demo_rx demo_reload)\<lparr>x_rows := []\<rparr>))))
     ''o1'' (empty_scope\<lparr>rs_settle := 300 * second\<rparr>)"
proof -
  let ?x = "(demo_rx demo_reload)\<lparr>x_rows := []\<rparr>"
  obtain res x' where r: "QueueReload demo_deps (\<lambda>_. ''r9'') ''u1'' ''o1'' empty_scope ?x = (res, x')" by fastforce
  then have "res = Inr ()"
    by (auto simp: QueueReload_def extendTries_def numeral_eq_Suc GetActiveRollout_def queue_def InsertRollout_def
        Wake_def publish_def appName_def demo_run_simps)
  with r have q: "QueueReload demo_deps (\<lambda>_. ''r9'') ''u1'' ''o1'' empty_scope ?x = (Inr (), x')" by simp
  have alone: "turn_ops ?x = []" by (simp add: turn_ops_def demo_rx_def)
  have s: "300 * second = x_now ?x + tm_settle (xd_timing demo_deps)"
    by (simp add: demo_rx_def demo_deps_def defaultTiming_def minute_def second_def)
  have e: "ids_mean (\<lambda>_. (RolloutVarsReload, ''o1'')) (x_rows ?x)" "env_in (means (\<lambda>_. (RolloutVarsReload, ''o1''))) ?x"
    by (simp_all add: ids_mean_def env_in_def demo_rx_def)
  from reload_queued [OF q e refl] show ?thesis
    unfolding Let_def alone q snd_conv s by (elim exE conjE) simp
qed

lemma stop_takes_effect_witness:
  "\<exists>q. look (x_rows (snd (RStop demo_deps ''o1'' ''r1'' (demo_rx demo_reload)))) ''r1'' = Some q \<and> rw_stop q"
proof -
  obtain res x' where r: "RStop demo_deps ''o1'' ''r1'' (demo_rx demo_reload) = (res, x')" by fastforce
  then have s: "(\<exists>v. res = Inr v) \<and> x_rows x' = [demo_reload\<lparr>rw_stop := True\<rparr>]"
    by (auto simp: RStop_def StopUnleased_def RequestStop_def unleased_def sql_le_def to_sql_def Active_def
        Wake_def publish_def appName_def demo_run_simps)
  with r obtain v where "RStop demo_deps ''o1'' ''r1'' (demo_rx demo_reload) = (Inr v, x')" by blast
  from stop_takes_effect [OF this demo_rows_ok demo_env] obtain q where
    q: "look (x_rows x') ''r1'' = Some q" "\<not> active_row q \<or> rw_stop q" by blast
  have "q = demo_reload\<lparr>rw_stop := True\<rparr>" using q(1) s by (simp add: look_def demo_row_simps)
  then show ?thesis using q r by auto
qed

end
