(* ===== verification/Durations.thy ===== *)
theory Durations
  imports Float64
begin

text \<open>
  The text form of a duration as Go's \<open>time\<close> package reads and writes it: \<open>ParseDuration\<close> and
  \<open>Duration.String\<close>, on bytes. The unsigned 64-bit arithmetic is written out where it can wrap, and a
  fraction is scaled in binary64. The parser's errors are one: no modelled code reads their texts.
  The lemma at the end is the round trip.
\<close>

subsection \<open>Reading\<close>

text \<open>The digits before the point; \<open>None\<close> is an overflow.\<close>

fun leading_int :: "nat \<Rightarrow> string \<Rightarrow> (nat \<times> string) option" where
  "leading_int x [] = Some (x, [])"
| "leading_int x (c # s) =
     (if \<not> dec_digit c then Some (x, c # s)
      else if x > 922337203685477580 then None
      else let y = 10 * x + (of_char c - 48) in if y > 2 ^ 63 then None else leading_int y s)"

text \<open>The digits after the point. Digits past the precision of a 64-bit number are read over.\<close>

fun leading_fraction :: "nat \<Rightarrow> f64 \<Rightarrow> bool \<Rightarrow> string \<Rightarrow> nat \<times> f64 \<times> string" where
  "leading_fraction x scale over [] = (x, scale, [])"
| "leading_fraction x scale over (c # s) =
     (if \<not> dec_digit c then (x, scale, c # s)
      else if over \<or> x > 922337203685477580 then leading_fraction x scale True s
      else let y = 10 * x + (of_char c - 48) in
        if y > 2 ^ 63 then leading_fraction x scale True s
        else leading_fraction y (fmul scale (Fin 10)) False s)"

definition unit_map :: "(string \<times> nat) list" where
  "unit_map = [(''ns'', 1), (''us'', 1000), ([CHR 0xC2, CHR 0xB5, CHR ''s''], 1000),
     ([CHR 0xCE, CHR 0xBC, CHR ''s''], 1000), (''ms'', 1000000), (''s'', 1000000000),
     (''m'', 60000000000), (''h'', 3600000000000)]"

definition unit_char :: "char \<Rightarrow> bool" where
  "unit_char c \<longleftrightarrow> \<not> (c = CHR ''.'' \<or> dec_digit c)"

definition scaled :: "nat \<Rightarrow> f64 \<Rightarrow> nat \<Rightarrow> nat" where
  "scaled f scale u = nat (int_of_f64 (fmul (f64_of_int (int f)) (fdiv (f64_of_int (int u)) scale)))"

text \<open>The fraction, if there is one, and whether it has digits.\<close>

definition read_fraction :: "string \<Rightarrow> nat \<times> f64 \<times> string \<times> bool" where
  "read_fraction s =
     (case s of
        [] \<Rightarrow> (0, Fin 1, [], False)
      | c # r \<Rightarrow>
        if c = CHR ''.''
        then (case leading_fraction 0 (Fin 1) False r of (f, sc, r1) \<Rightarrow> (f, sc, r1, length r1 \<noteq> length r))
        else (0, Fin 1, s, False))"

text \<open>One number with its unit: its value and what follows it.\<close>

definition parse_term :: "string \<Rightarrow> (nat \<times> string) option" where
  "parse_term s =
     (if \<not> (case s of [] \<Rightarrow> False | c # _ \<Rightarrow> c = CHR ''.'' \<or> dec_digit c) then None
      else case leading_int 0 s of None \<Rightarrow> None
      | Some (v, s1) \<Rightarrow>
        (case read_fraction s1 of (f, scale, s2, post) \<Rightarrow>
          (let u = takeWhile unit_char s2
           in if length s1 = length s \<and> \<not> post then None
              else if u = [] then None
              else case map_of unit_map u of None \<Rightarrow> None
              | Some un \<Rightarrow>
                if v > 2 ^ 63 div un then None
                else let w = v * un + (if 0 < f then scaled f scale un else 0) in
                  if 0 < f \<and> w > 2 ^ 63 then None else Some (w, dropWhile unit_char s2))))"

lemma leading_int_length: "leading_int x s = Some (y, r) \<Longrightarrow> length r \<le> length s"
  by (induction x s rule: leading_int.induct) (auto simp: Let_def split: if_splits)

lemma leading_fraction_length: "leading_fraction x sc ov s = (y, sc', r) \<Longrightarrow> length r \<le> length s"
  by (induction s arbitrary: x sc ov) (auto simp: Let_def le_Suc_eq split: if_splits)

lemma unit_shorter: "takeWhile unit_char t \<noteq> [] \<Longrightarrow> length (dropWhile unit_char t) < length t"
  by (cases t) (auto simp: less_Suc_eq_le length_dropWhile_le split: if_splits)

lemma fraction_length: "read_fraction s = (f, sc, r, post) \<Longrightarrow> length r \<le> length s"
  by (auto simp: read_fraction_def split: list.splits if_splits prod.splits dest: leading_fraction_length)

lemma parse_term_length:
  assumes "parse_term s = Some (v, r)"
  shows "length r < length s"
proof -
  from assms obtain x s1 where 1: "leading_int 0 s = Some (x, s1)"
    by (auto simp: parse_term_def split: if_splits option.splits)
  obtain f sc s2 post where 2: "read_fraction s1 = (f, sc, s2, post)" by (metis prod_cases4)
  from assms 1 2 have "takeWhile unit_char s2 \<noteq> []" "r = dropWhile unit_char s2"
    by (auto simp: parse_term_def Let_def split: if_splits option.splits)
  then show ?thesis
    using leading_int_length [OF 1] fraction_length [OF 2] unit_shorter [of s2] by simp
qed

function parse_terms :: "nat \<Rightarrow> string \<Rightarrow> nat option" where
  "parse_terms d s =
     (if s = [] then Some d
      else case parse_term s of None \<Rightarrow> None
      | Some (v, r) \<Rightarrow>
        (let d1 = (d + v) mod 2 ^ 64 in if d1 > 2 ^ 63 then None else parse_terms d1 r))"
  by pat_completeness auto
termination by (relation "measure (\<lambda>(d, s). length s)") (auto dest: parse_term_length)

declare parse_terms.simps [simp del]

definition ParseDuration :: "string \<Rightarrow> duration option" where
  "ParseDuration s0 =
     (let neg = (case s0 of c # _ \<Rightarrow> c = CHR ''-'' | [] \<Rightarrow> False);
          s = (case s0 of c # r \<Rightarrow> if c = CHR ''-'' \<or> c = CHR ''+'' then r else s0 | [] \<Rightarrow> s0)
      in if s = ''0'' then Some 0
         else if s = [] then None
         else case parse_terms 0 s of None \<Rightarrow> None
         | Some d \<Rightarrow> if neg then Some (- int d) else if d > 2 ^ 63 - 1 then None else Some (int d))"

subsection \<open>Writing\<close>

text \<open>\<open>fmtFrac\<close>: the fraction's digits without trailing zeros, with the point, and what is left of
  the number.\<close>

fun fmt_frac :: "nat \<Rightarrow> nat \<Rightarrow> bool \<Rightarrow> string \<Rightarrow> string \<times> nat" where
  "fmt_frac 0 v pr acc = ((if pr then CHR ''.'' # acc else acc), v)"
| "fmt_frac (Suc n) v pr acc =
     (let digit = v mod 10; pr1 = (pr \<or> digit \<noteq> 0)
      in fmt_frac n (v div 10) pr1 (if pr1 then char_of (48 + digit) # acc else acc))"

definition duration_string :: "duration \<Rightarrow> string" where
  "duration_string d =
     (let u = nat \<bar>d\<bar>; sign = (if d < 0 then ''-'' else []) in
      if u = 0 then ''0s''
      else if u < 1000 then sign @ show_nat u @ ''ns''
      else if u < 1000000 then
        (case fmt_frac 3 u False [] of (fr, w) \<Rightarrow> sign @ show_nat w @ fr @ [CHR 0xC2, CHR 0xB5, CHR ''s''])
      else if u < 1000000000 then (case fmt_frac 6 u False [] of (fr, w) \<Rightarrow> sign @ show_nat w @ fr @ ''ms'')
      else case fmt_frac 9 u False [] of (fr, w) \<Rightarrow>
        (let secs = show_nat (w mod 60) @ fr @ ''s''; mins = w div 60 in
         if mins = 0 then sign @ secs
         else if mins div 60 = 0 then sign @ show_nat (mins mod 60) @ ''m'' @ secs
         else sign @ show_nat (mins div 60) @ ''h'' @ show_nat (mins mod 60) @ ''m'' @ secs))"

subsection \<open>The round trip\<close>

text \<open>Digits.\<close>

abbreviation digits_value :: "nat \<Rightarrow> string \<Rightarrow> nat" where
  "digits_value \<equiv> foldl (\<lambda>v c. 10 * v + (of_char c - 48))"

lemma digit_char [simp]: "d < 10 \<Longrightarrow> dec_digit (char_of (48 + d))" "d < 10 \<Longrightarrow> of_char (char_of (48 + d) :: char) = 48 + (d :: nat)"
  by (simp_all add: dec_digit_def)

lemma show_nat_digits: "list_all dec_digit (show_nat n) \<and> show_nat n \<noteq> [] \<and> dec_value (show_nat n) = n"
proof (induction n rule: show_nat.induct)
  case (1 n)
  have m: "n mod 10 < 10" by simp
  show ?case
  proof (cases "n < 10")
    case True
    then show ?thesis by (simp add: show_nat.simps [of n] dec_value_def)
  next
    case False
    with 1 show ?thesis by (simp add: show_nat.simps [of n] dec_value_def digit_char(2) [OF m])
  qed
qed

lemma digits_value_mono: "x \<le> y \<Longrightarrow> digits_value x ds \<le> digits_value y ds"
  by (induction ds arbitrary: x y) simp_all

lemma digits_value_ge: "x \<le> digits_value x ds"
proof (induction ds arbitrary: x)
  case (Cons c ds)
  show ?case using Cons [of "10 * x + (of_char c - 48)"] by simp
qed simp

lemma leading_int_digits:
  assumes "list_all dec_digit ds" "digits_value x ds \<le> 2 ^ 63" "r = [] \<or> \<not> dec_digit (hd r)"
  shows "leading_int x (ds @ r) = Some (digits_value x ds, r)"
  using assms(1,2)
proof (induction ds arbitrary: x)
  case Nil
  then show ?case using assms(3) by (cases r) simp_all
next
  case (Cons c ds)
  have "10 * x + (of_char c - 48) \<le> 2 ^ 63"
    using Cons.prems(2) digits_value_ge [of "10 * x + (of_char c - 48)" ds] by simp
  with Cons show ?case by (simp add: Let_def)
qed

text \<open>The fraction that is written: its digits, without trailing zeros, are the number's last ones.\<close>

lemma digits_value_add: "digits_value x ds = x * 10 ^ length ds + digits_value 0 ds"
proof (induction ds arbitrary: x)
  case (Cons c ds)
  show ?case
    using Cons [of "10 * x + (of_char c - 48)"] Cons [of "of_char c - 48"] by (simp add: algebra_simps)
qed simp

lemma fmt_frac_printing:
  "\<exists>ds. fmt_frac n v True acc = (CHR ''.'' # ds @ acc, v div 10 ^ n) \<and> length ds = n \<and>
    list_all dec_digit ds \<and> dec_value ds = v mod 10 ^ n"
proof (induction n arbitrary: v acc)
  case 0
  show ?case by (simp add: dec_value_def)
next
  case (Suc n)
  let ?c = "char_of (48 + v mod 10) :: char"
  obtain ds where ds: "fmt_frac n (v div 10) True (?c # acc) = (CHR ''.'' # ds @ ?c # acc, v div 10 div 10 ^ n)"
    "length ds = n" "list_all dec_digit ds" "dec_value ds = v div 10 mod 10 ^ n"
    using Suc [of "v div 10" "?c # acc"] by auto
  have "dec_value (ds @ [?c]) = 10 * (v div 10 mod 10 ^ n) + v mod 10"
    using ds(4) by (simp add: dec_value_def)
  also have "\<dots> = v mod 10 ^ Suc n"
    using mod_mult2_eq [of v 10 "10 ^ n"] by simp
  finally show ?case
    using ds by (intro exI [of _ "ds @ [?c]"]) (simp add: Let_def div_mult2_eq)
qed

lemma fmt_frac_cases:
  assumes "fmt_frac n v False [] = (fr, w)"
  shows "w = v div 10 ^ n \<and> (fr = [] \<and> v mod 10 ^ n = 0 \<or>
    (\<exists>ds. fr = CHR ''.'' # ds \<and> ds \<noteq> [] \<and> length ds \<le> n \<and> list_all dec_digit ds \<and> 0 < dec_value ds \<and>
      dec_value ds * 10 ^ (n - length ds) = v mod 10 ^ n))"
  using assms
proof (induction n arbitrary: v)
  case 0
  then show ?case by simp
next
  case (Suc n)
  have m: "v mod 10 ^ Suc n = 10 * (v div 10 mod 10 ^ n) + v mod 10"
    using mod_mult2_eq [of v 10 "10 ^ n"] by simp
  show ?case
  proof (cases "v mod 10 = 0")
    case True
    then have "fmt_frac n (v div 10) False [] = (fr, w)" using Suc.prems by simp
    from Suc.IH [OF this] show ?thesis
    proof (elim conjE disjE exE)
      assume "w = v div 10 div 10 ^ n" "fr = []" "v div 10 mod 10 ^ n = 0"
      then show ?thesis using True m by (simp add: div_mult2_eq)
    next
      fix ds
      assume "w = v div 10 div 10 ^ n" "fr = CHR ''.'' # ds" "ds \<noteq> []" "length ds \<le> n" "list_all dec_digit ds"
        "0 < dec_value ds" and e: "dec_value ds * 10 ^ (n - length ds) = v div 10 mod 10 ^ n"
      moreover from this have "dec_value ds * 10 ^ (Suc n - length ds) = v mod 10 ^ Suc n"
        using True m by (simp add: Suc_diff_le)
      ultimately show ?thesis by (simp add: div_mult2_eq)
    qed
  next
    case False
    let ?c = "char_of (48 + v mod 10) :: char"
    obtain ds where ds: "fmt_frac n (v div 10) True [?c] = (CHR ''.'' # ds @ [?c], v div 10 div 10 ^ n)"
      "length ds = n" "list_all dec_digit ds" "dec_value ds = v div 10 mod 10 ^ n"
      using fmt_frac_printing [of n "v div 10" "[?c]"] by auto
    have "dec_value (ds @ [?c]) = v mod 10 ^ Suc n" using ds(4) m by (simp add: dec_value_def)
    moreover have "v mod 10 ^ Suc n \<noteq> 0" using False m by auto
    ultimately show ?thesis using ds Suc.prems False by (auto simp: Let_def div_mult2_eq)
  qed
qed

text \<open>The fraction that is read. Powers of ten up to the ninth are exact in binary64.\<close>

lemma pow10_bound: "k \<le> 9 \<Longrightarrow> (10 :: int) ^ k \<le> 2 ^ 53"
  using power_increasing [of k 9 "10 :: int"] by simp

lemma rnd_int: "\<bar>n\<bar> \<le> 2 ^ 53 \<Longrightarrow> rnd (of_int n) = Fin (of_int n)"
  using f64_of_int_exact [of n] by (simp add: f64_of_int_def)

lemma fmul_pow10:
  assumes "Suc k \<le> 9"
  shows "fmul (Fin (10 ^ k)) (Fin 10) = Fin (10 ^ Suc k)"
  using rnd_int [of "10 ^ Suc k"] pow10_bound [OF assms] by (simp add: mult.commute)

lemma leading_fraction_digits:
  assumes "list_all dec_digit ds" "k + length ds \<le> 9" "x < 10 ^ k" "r = [] \<or> \<not> dec_digit (hd r)"
  shows "leading_fraction x (Fin (10 ^ k)) False (ds @ r) = (digits_value x ds, Fin (10 ^ (k + length ds)), r)"
  using assms(1-3)
proof (induction ds arbitrary: x k)
  case Nil
  then show ?case using assms(4) by (cases r) simp_all
next
  case (Cons c ds)
  have "x < 10 ^ 8" using Cons.prems(2,3) power_increasing [of k 8 "10 :: nat"] by simp
  moreover have "of_char c - 48 < (10 :: nat)" using Cons.prems(1) by (auto simp: dec_digit_def)
  moreover from this Cons.prems(3) have "10 * x + (of_char c - 48) < 10 ^ Suc k" by simp
  ultimately show ?case
    using Cons.IH [of "Suc k" "10 * x + (of_char c - 48)"] Cons.prems fmul_pow10 [of k] by (simp add: Let_def)
qed

lemma scaled_exact:
  assumes "k \<le> n" "n \<le> 9" "f < 10 ^ k"
  shows "scaled f (Fin (10 ^ k)) (10 ^ n) = f * 10 ^ (n - k)"
proof -
  have b: "(10 :: int) ^ m \<le> 2 ^ 53" if "m \<le> 9" for m using pow10_bound [OF that] .
  have less: "int a \<le> 2 ^ 53" if "a < 10 ^ m" "m \<le> 9" for a m
  proof -
    have "int a \<le> int (10 ^ m)" using that(1) by (simp only: of_nat_le_iff less_imp_le)
    also have "\<dots> \<le> 2 ^ 53" using b [OF that(2)] by simp
    finally show ?thesis .
  qed
  have lt: "f * 10 ^ (n - k) < 10 ^ n"
    using assms(1,3) by (simp add: power_diff flip: power_add)
      (metis (no_types, lifting) assms(1) le_add_diff_inverse mult_less_cancel2 power_add power_diff
        zero_less_numeral zero_less_power zero_neq_numeral)
  have f: "int f \<le> 2 ^ 53" using less [of f k] assms by simp
  have n: "f64_of_int (int (10 ^ n)) = Fin (of_int (10 ^ n))"
    using f64_of_int_exact [of "int (10 ^ n)"] b [of n] assms by simp
  have d: "fdiv (Fin (of_int (10 ^ n))) (Fin (10 ^ k)) = Fin (of_int (10 ^ (n - k)))"
  proof -
    have "(10 :: rat) ^ n / 10 ^ k = of_int (10 ^ (n - k))" 
      using assms(1) power_diff [of "10 :: rat" k n] by simp
    then show ?thesis using rnd_int [of "10 ^ (n - k)"] b [of "n - k"] assms by simp
  qed
  have "int (f * 10 ^ (n - k)) \<le> 2 ^ 53" using less [OF lt] assms by blast
  then have "fmul (Fin (of_int (int f))) (Fin (of_int (10 ^ (n - k)))) = Fin (of_int (int (f * 10 ^ (n - k))))"
    using rnd_int [of "int (f * 10 ^ (n - k))"] by simp
  then show ?thesis
    using f64_of_int_exact [of "int f"] f n d by (simp add: scaled_def del: of_nat_mult of_nat_power)
qed

text \<open>A number with its unit, with or without a fraction.\<close>

definition fraction_text :: "nat \<Rightarrow> string \<Rightarrow> nat \<Rightarrow> bool" where
  "fraction_text un fr fv \<longleftrightarrow> fr = [] \<and> fv = 0 \<or>
    (\<exists>ds n. un = 10 ^ n \<and> n \<le> 9 \<and> fr = CHR ''.'' # ds \<and> ds \<noteq> [] \<and> length ds \<le> n \<and> list_all dec_digit ds \<and>
      0 < dec_value ds \<and> dec_value ds * 10 ^ (n - length ds) = fv)"

lemma fmt_frac_text:
  assumes "fmt_frac n v False [] = (fr, w)" "n \<le> 9"
  shows "w = v div 10 ^ n" "fraction_text (10 ^ n) fr (v mod 10 ^ n)"
  using fmt_frac_cases [OF assms(1)] assms(2) by (auto simp: fraction_text_def)

lemma dec_value_bound: "list_all dec_digit ds \<Longrightarrow> dec_value ds < 10 ^ length ds"
proof (induction ds rule: rev_induct)
  case (snoc c ds)
  then have "of_char c - 48 < (10 :: nat)" "dec_value ds < 10 ^ length ds" by (auto simp: dec_digit_def)
  then show ?case by (simp add: dec_value_def)
qed (simp add: dec_value_def)

lemma unit_split:
  assumes "list_all unit_char u" "r = [] \<or> \<not> unit_char (hd r)"
  shows "takeWhile unit_char (u @ r) = u" "dropWhile unit_char (u @ r) = r"
  using assms by (induction u) (cases r; simp)+

lemma read_fraction_text:
  assumes "fraction_text un fr fv" "u \<noteq> []" "list_all unit_char u"
  shows "\<exists>f sc. read_fraction (fr @ u @ r) = (f, sc, u @ r, fr \<noteq> []) \<and> (if 0 < f then scaled f sc un else 0) = fv"
  using assms(1) unfolding fraction_text_def
proof (elim disjE conjE exE)
  obtain c u' where u: "u = c # u'" "unit_char c" using assms(2,3) by (cases u) auto
  {
    assume "fr = []" "fv = 0"
    then show ?thesis using u by (auto simp: read_fraction_def unit_char_def)
  next
    fix ds n
    assume *: "un = 10 ^ n" "n \<le> 9" "fr = CHR ''.'' # ds" "ds \<noteq> []" "length ds \<le> n" "list_all dec_digit ds"
      "0 < dec_value ds" "dec_value ds * 10 ^ (n - length ds) = fv"
    have "leading_fraction 0 (Fin (10 ^ 0)) False (ds @ u @ r) = (digits_value 0 ds, Fin (10 ^ (0 + length ds)), u @ r)"
      using * u by (intro leading_fraction_digits) (auto simp: unit_char_def)
    then show ?thesis
      using * scaled_exact [of "length ds" n "dec_value ds"] dec_value_bound [of ds]
      by (simp add: read_fraction_def dec_value_def)
  }
qed

lemma point_no_digit: "\<not> dec_digit (CHR ''.'')"
  by (simp add: dec_digit_def)

lemma parse_term_text:
  assumes "fraction_text un fr fv" "map_of unit_map u = Some un" "u \<noteq> []" "list_all unit_char u" "0 < un"
    "r = [] \<or> \<not> unit_char (hd r)" "m * un + fv \<le> 2 ^ 63"
  shows "parse_term (show_nat m @ fr @ u @ r) = Some (m * un + fv, r)"
proof -
  let ?s = "show_nat m @ fr @ u @ r"
  have d: "list_all dec_digit (show_nat m)" "show_nat m \<noteq> []" "digits_value 0 (show_nat m) = m"
    using show_nat_digits [of m] by (simp_all add: dec_value_def)
  have m: "m \<le> 2 ^ 63 div un" using assms(5,7) by (simp add: less_eq_div_iff_mult_less_eq)
  also have "\<dots> \<le> 2 ^ 63" by simp
  finally have "m \<le> 2 ^ 63" .
  moreover have "fr @ u @ r = [] \<or> \<not> dec_digit (hd (fr @ u @ r))"
    using assms(1,3,4) by (cases u) (auto simp: fraction_text_def unit_char_def point_no_digit)
  ultimately have 1: "leading_int 0 ?s = Some (m, fr @ u @ r)"
    using leading_int_digits [of "show_nat m" 0 "fr @ u @ r"] d by simp
  obtain f sc where 2: "read_fraction (fr @ u @ r) = (f, sc, u @ r, fr \<noteq> [])"
    "(if 0 < f then scaled f sc un else 0) = fv"
    using read_fraction_text [OF assms(1,3,4)] by blast
  have "\<exists>c s. ?s = c # s \<and> dec_digit c" using d(1,2) by (cases "show_nat m") auto
  then show ?thesis
    using 1 2 m d(2) assms(2,3,7) unit_split [OF assms(4,6)]
    by (auto simp: parse_term_def Let_def not_less)
qed

lemma parse_terms_step:
  assumes "parse_term s = Some (v, r)" "d + v \<le> 2 ^ 63"
  shows "parse_terms d s = parse_terms (d + v) r"
proof -
  have "s \<noteq> []" using parse_term_length [OF assms(1)] by auto
  then show ?thesis using assms by (subst parse_terms.simps) (simp add: Let_def)
qed

lemma parse_terms_end [simp]: "parse_terms d [] = Some d"
  by (simp add: parse_terms.simps)

lemma ParseDuration_unsigned:
  assumes "parse_terms 0 (show_nat m @ t) = Some n" "t \<noteq> []" "n < 2 ^ 63"
  shows "ParseDuration (show_nat m @ t) = Some (int n)"
proof -
  obtain c s where c: "show_nat m = c # s" "dec_digit c"
    using show_nat_digits [of m] by (cases "show_nat m") auto
  have "c \<noteq> CHR ''-''" "c \<noteq> CHR ''+''" using c(2) by (auto simp: dec_digit_def)
  with c(1) assms show ?thesis by (auto simp: ParseDuration_def Let_def)
qed

lemmas unit_eval = unit_map_def unit_char_def dec_digit_def

lemma no_fraction [simp]: "fraction_text un [] 0"
  by (simp add: fraction_text_def)

lemma show_nat_starts: "\<not> unit_char (hd (show_nat m @ t))"
  using show_nat_digits [of m] by (cases "show_nat m") (auto simp: unit_char_def)

text \<open>The minutes and the hours before the seconds.\<close>

lemma parse_seconds:
  assumes "fraction_text (10 ^ 9) fr fv" "d + (m * 10 ^ 9 + fv) \<le> 2 ^ 63"
  shows "parse_terms d (show_nat m @ fr @ ''s'') = Some (d + (m * 10 ^ 9 + fv))"
  using parse_terms_step [OF parse_term_text [OF assms(1), of "''s''" "[]" m, simplified]] assms(2)
  by (simp add: unit_eval)

lemma parse_minutes:
  assumes "d + m * 60000000000 \<le> 2 ^ 63"
  shows "parse_terms d (show_nat m @ ''m'' @ show_nat k @ t) = parse_terms (d + m * 60000000000) (show_nat k @ t)"
  using parse_terms_step [OF parse_term_text [of 60000000000 "[]" 0 "''m''" "show_nat k @ t" m]] assms show_nat_starts [of k t]
  by (simp add: unit_eval)

lemma parse_hours:
  assumes "d + m * 3600000000000 \<le> 2 ^ 63"
  shows "parse_terms d (show_nat m @ ''h'' @ show_nat k @ t) = parse_terms (d + m * 3600000000000) (show_nat k @ t)"
  using parse_terms_step [OF parse_term_text [of 3600000000000 "[]" 0 "''h''" "show_nat k @ t" m]] assms show_nat_starts [of k t]
  by (simp add: unit_eval)

lemma parse_small:
  assumes "fraction_text un fr fv" "(u, un) \<in> set unit_map" "m * un + fv < 2 ^ 63"
  shows "ParseDuration (show_nat m @ fr @ u) = Some (int (m * un + fv))"
proof -
  have u: "map_of unit_map u = Some un" "u \<noteq> []" "list_all unit_char u" "0 < un"
    using assms(2) by (auto simp: unit_eval)
  have "parse_terms 0 (show_nat m @ fr @ u) = Some (m * un + fv)"
    using parse_terms_step [OF parse_term_text [OF assms(1) u, of "[]" m, simplified]] assms(3) by simp
  then show ?thesis using ParseDuration_unsigned [of m "fr @ u"] u(2) assms(3) by simp
qed

lemma show_nat_0: "show_nat 0 = ''0''"
  by code_simp

lemma show_nat_1: "show_nat 1 = ''1''"
  by code_simp

theorem ParseDuration_string:
  assumes "0 \<le> d" "d \<le> max_duration"
  shows "ParseDuration (duration_string d) = Some d"
proof -
  let ?u = "nat d"
  have d: "int ?u = d" "?u < 2 ^ 63" "\<not> d < 0" "nat \<bar>d\<bar> = ?u" using assms by (auto simp: max_duration_def)
  have units: "(''s'', 10 ^ 9) \<in> set unit_map" "(''ns'', 1) \<in> set unit_map" "(''ms'', 10 ^ 6) \<in> set unit_map"
    "([CHR 0xC2, CHR 0xB5, CHR ''s''], 10 ^ 3) \<in> set unit_map"
    by (simp_all add: unit_map_def)
  consider "?u = 0" | "0 < ?u" "?u < 1000" | "1000 \<le> ?u" "?u < 1000000" | "1000000 \<le> ?u" "?u < 1000000000"
    | "1000000000 \<le> ?u" by linarith
  then show ?thesis
  proof cases
    case 1
    then show ?thesis
      using parse_small [OF no_fraction units(1), of 0] d by (simp add: duration_string_def Let_def show_nat_0)
  next
    case 2
    then show ?thesis using parse_small [OF no_fraction units(2), of ?u] d by (simp add: duration_string_def Let_def)
  next
    case 3
    obtain fr w where f: "fmt_frac 3 ?u False [] = (fr, w)" by force
    with 3 show ?thesis
      using parse_small [OF fmt_frac_text(2) [OF f] units(4), of w] fmt_frac_text(1) [OF f] d
      by (auto simp: duration_string_def Let_def)
  next
    case 4
    obtain fr w where f: "fmt_frac 6 ?u False [] = (fr, w)" by force
    with 4 show ?thesis
      using parse_small [OF fmt_frac_text(2) [OF f] units(3), of w] fmt_frac_text(1) [OF f] d
      by (auto simp: duration_string_def Let_def)
  next
    case 5
    obtain fr w where f: "fmt_frac 9 ?u False [] = (fr, w)" by force
    define fv where "fv = ?u mod 10 ^ 9"
    have fr: "fraction_text (10 ^ 9) fr fv" and w: "?u = w * 10 ^ 9 + fv"
      using fmt_frac_text [OF f] by (simp_all add: fv_def)
    let ?h = "w div 60 div 60" and ?m = "w div 60 mod 60" and ?s = "w mod 60"
    have hms: "w = ?h * 3600 + ?m * 60 + ?s"
      using div_mult_mod_eq [of w 60] div_mult_mod_eq [of "w div 60" 60] by linarith
    have str: "duration_string d = (if w div 60 = 0 then show_nat ?s @ fr @ ''s''
      else if ?h = 0 then show_nat ?m @ ''m'' @ show_nat ?s @ fr @ ''s''
      else show_nat ?h @ ''h'' @ show_nat ?m @ ''m'' @ show_nat ?s @ fr @ ''s'')"
      using 5 f d by (auto simp: duration_string_def Let_def)
    have t: "parse_terms e (show_nat ?s @ fr @ ''s'') = Some ?u" if "e + (?s * 10 ^ 9 + fv) = ?u" for e
      using parse_seconds [OF fr, of e ?s] that d(2) by simp
    have u: "?h * 3600000000000 + ?m * 60000000000 + (?s * 10 ^ 9 + fv) = ?u"
    proof -
      have "h * 3600000000000 + m * 60000000000 + (k * 10 ^ 9 + fv) = y"
        if "x = h * 3600 + m * 60 + k" "y = x * 10 ^ 9 + fv" for x y h m k :: nat
        using that by simp
      from this [OF hms w] show ?thesis .
    qed
    consider "w div 60 = 0" | "w div 60 \<noteq> 0" "?h = 0" | "?h \<noteq> 0" by blast
    then have "\<exists>m r. duration_string d = show_nat m @ r \<and> r \<noteq> [] \<and> parse_terms 0 (show_nat m @ r) = Some ?u"
    proof cases
      case 1
      then show ?thesis using str t [of 0] u by (intro exI [of _ ?s] exI [of _ "fr @ ''s''"]) simp
    next
      case 2
      have "parse_terms 0 (show_nat ?m @ ''m'' @ show_nat ?s @ fr @ ''s'') =
          parse_terms (?m * 60000000000) (show_nat ?s @ fr @ ''s'')"
        using parse_minutes [of 0 ?m ?s "fr @ ''s''"] u d(2) by simp
      moreover have "?m * 60000000000 + (?s * 10 ^ 9 + fv) = ?u" using 2(2) u by linarith
      ultimately show ?thesis
        using str t 2 by (intro exI [of _ ?m] exI [of _ "''m'' @ show_nat ?s @ fr @ ''s''"]) simp
    next
      case 3
      have "parse_terms 0 (show_nat ?h @ ''h'' @ show_nat ?m @ ''m'' @ show_nat ?s @ fr @ ''s'') =
          parse_terms (?h * 3600000000000) (show_nat ?m @ ''m'' @ show_nat ?s @ fr @ ''s'')"
        using parse_hours [of 0 ?h ?m "''m'' @ show_nat ?s @ fr @ ''s''"] u d(2) by simp
      moreover have "\<dots> = parse_terms (?h * 3600000000000 + ?m * 60000000000) (show_nat ?s @ fr @ ''s'')"
        using parse_minutes [of "?h * 3600000000000" ?m ?s "fr @ ''s''"] u d(2) by simp
      ultimately show ?thesis
        using str t [OF u] 3
        by (intro exI [of _ ?h] exI [of _ "''h'' @ show_nat ?m @ ''m'' @ show_nat ?s @ fr @ ''s''"]) auto
    qed
    then show ?thesis using ParseDuration_unsigned d by metis
  qed
qed

end
