(* ===== verification/Go_Path.thy ===== *)
theory Go_Path
  imports Utf8
begin

text \<open>
  What the source uses of Go's \<open>path\<close> package: \<open>Clean\<close>, the lexically shortest form of a slash
  separated path, and the syntax check that \<open>Match\<close> makes of a pattern. The lemmas describe a path that
  is its own clean form: its components.
\<close>

subsection \<open>Components\<close>

fun split_on :: "char \<Rightarrow> string \<Rightarrow> string list" where
  "split_on c [] = [[]]"
| "split_on c (x # s) =
     (if x = c then [] # split_on c s
      else case split_on c s of w # ws \<Rightarrow> (x # w) # ws | [] \<Rightarrow> [[x]])"

fun join_with :: "char \<Rightarrow> string list \<Rightarrow> string" where
  "join_with c [] = []"
| "join_with c [w] = w"
| "join_with c (w # ws) = w @ c # join_with c ws"

abbreviation slash :: char where "slash \<equiv> CHR ''/''"

definition rooted :: "string \<Rightarrow> bool" where
  "rooted p \<longleftrightarrow> has_prefix ''/'' p"

text \<open>One component after those kept so far.\<close>

definition clean_step :: "bool \<Rightarrow> string list \<Rightarrow> string \<Rightarrow> string list" where
  "clean_step root out w =
     (if w = [] \<or> w = ''.'' then out
      else if w = ''..'' then
        (if out \<noteq> [] \<and> last out \<noteq> ''..'' then butlast out else if root then out else out @ [w])
      else out @ [w])"

definition Clean_path :: "string \<Rightarrow> string" where
  "Clean_path p =
     (if p = [] then ''.''
      else let ws = foldl (clean_step (rooted p)) [] (split_on slash p)
           in if rooted p then slash # join_with slash ws else if ws = [] then ''.'' else join_with slash ws)"

subsection \<open>Patterns\<close>

text \<open>\<open>getEsc\<close>: one possibly escaped character of a class; \<open>None\<close> is a malformed pattern.\<close>

definition get_esc :: "string \<Rightarrow> string option" where
  "get_esc s =
     (case s of [] \<Rightarrow> None
      | c # r \<Rightarrow>
        if c = CHR ''-'' \<or> c = CHR '']'' then None
        else let t = (if c = CHR 0x5C then r else s) in
          if t = [] \<or> rune_len t = 0 then None
          else let u = drop (rune_len t) t in if u = [] then None else Some u)"

lemma get_esc_shorter: "get_esc s = Some u \<Longrightarrow> length u < length s"
  by (auto simp: get_esc_def Let_def split: list.splits if_splits)

text \<open>The ranges of a class, up to its closing bracket.\<close>

function class_end :: "bool \<Rightarrow> string \<Rightarrow> string option" where
  "class_end some_range s =
     (if some_range \<and> has_prefix '']'' s then Some (tl s)
      else case get_esc s of None \<Rightarrow> None
      | Some t \<Rightarrow>
        if has_prefix ''-'' t then
          (case get_esc (tl t) of None \<Rightarrow> None | Some u \<Rightarrow> class_end True u)
        else class_end True t)"
  by pat_completeness auto
termination
proof (relation "measure (\<lambda>(b, s). length s)", goal_cases)
  case (2 b s t u)
  then have "length t < length s" "length u < length (tl t)" by (auto dest: get_esc_shorter)
  then show ?case by simp
qed (auto dest: get_esc_shorter)

declare class_end.simps [simp del]

lemma class_end_shorter: "class_end b s = Some u \<Longrightarrow> length u \<le> length s"
proof (induction b s rule: class_end.induct)
  case (1 b s)
  show ?case
  proof (cases "b \<and> has_prefix '']'' s")
    case True
    then have "u = tl s" using 1(3) by (subst (asm) class_end.simps) simp
    then show ?thesis by simp
  next
    case False
    with 1(3) obtain t where t: "get_esc s = Some t"
      by (auto simp: class_end.simps [of b s] split: option.splits)
    show ?thesis
    proof (cases "has_prefix ''-'' t")
      case True
      with 1(3) False t obtain v where v: "get_esc (tl t) = Some v" "class_end True v = Some u"
        by (auto simp: class_end.simps [of b s] split: option.splits)
      from 1(1) [OF False t True v(1) v(2)] get_esc_shorter [OF t] get_esc_shorter [OF v(1)] show ?thesis by simp
    next
      case no: False
      with 1(3) False t have "class_end True t = Some u" by (simp add: class_end.simps [of b s])
      from 1(2) [OF False t no this] get_esc_shorter [OF t] show ?thesis by simp
    qed
  qed
qed

text \<open>A chunk without a star.\<close>

function chunk_ok :: "string \<Rightarrow> bool" where
  "chunk_ok s =
     (case s of [] \<Rightarrow> True
      | c # r \<Rightarrow>
        if c = CHR ''['' then
          (case class_end False (if has_prefix ''^'' r then tl r else r) of None \<Rightarrow> False | Some u \<Rightarrow> chunk_ok u)
        else if c = CHR 0x5C then (if r = [] then False else chunk_ok (tl r))
        else chunk_ok r)"
  by pat_completeness auto
termination
proof (relation "measure length", goal_cases)
  case (2 s c r u)
  then show ?case
    using class_end_shorter [of False r u] class_end_shorter [of False "tl r" u] by (auto split: if_splits)
qed auto

declare chunk_ok.simps [simp del]

text \<open>\<open>scanChunk\<close>: how far a chunk reaches.\<close>

fun chunk_len :: "bool \<Rightarrow> string \<Rightarrow> nat" where
  "chunk_len inr [] = 0"
| "chunk_len inr (c # s) =
     (if c = CHR 0x5C then (case s of [] \<Rightarrow> 1 | _ # s1 \<Rightarrow> 2 + chunk_len inr s1)
      else if c = CHR ''['' then 1 + chunk_len True s
      else if c = CHR '']'' then 1 + chunk_len False s
      else if c = CHR ''*'' \<and> \<not> inr then 0
      else 1 + chunk_len inr s)"

definition skip_stars :: "string \<Rightarrow> string" where
  "skip_stars = dropWhile (\<lambda>c. c = CHR ''*'')"

lemma chunk_len_pos: "s \<noteq> [] \<Longrightarrow> hd s \<noteq> CHR ''*'' \<Longrightarrow> 0 < chunk_len False s"
  by (cases s) (auto split: list.splits)

text \<open>Every chunk is looked at, whatever the name that is matched.\<close>

function pattern_ok :: "string \<Rightarrow> bool" where
  "pattern_ok s =
     (let t = skip_stars s
      in if t = [] then True
         else chunk_ok (take (chunk_len False t) t) \<and> pattern_ok (drop (chunk_len False t) t))"
  by pat_completeness auto
termination
proof (relation "measure length", goal_cases)
  case (2 s t)
  then have "t \<noteq> []" "hd t \<noteq> CHR ''*''"
    using hd_dropWhile [of "\<lambda>c. c = CHR ''*''" s] by (auto simp: skip_stars_def)
  then have "0 < chunk_len False t" by (rule chunk_len_pos)
  moreover have "length t \<le> length s" using 2 by (simp add: skip_stars_def length_dropWhile_le)
  moreover have "0 < length t" using \<open>t \<noteq> []\<close> by simp
  ultimately have "length t - chunk_len False t < length s" by linarith
  then show ?case by simp
qed simp

declare pattern_ok.simps [simp del]

subsection \<open>Paths that are their own clean form\<close>

definition plain :: "string \<Rightarrow> bool" where
  "plain w \<longleftrightarrow> w \<noteq> [] \<and> w \<noteq> ''.'' \<and> w \<noteq> ''..'' \<and> slash \<notin> set w"

lemma split_on_nonempty [simp]: "split_on c s \<noteq> []"
  by (induction s) (auto split: list.split)

lemma split_on_no_sep: "w \<in> set (split_on c s) \<Longrightarrow> c \<notin> set w"
proof (induction s arbitrary: w)
  case (Cons x s)
  then show ?case by (cases "split_on c s") (auto split: if_splits)
qed simp

lemma split_on_word: "c \<notin> set w \<Longrightarrow> split_on c w = [w]"
  by (induction w) auto

lemma split_on_cons: "c \<notin> set w \<Longrightarrow> split_on c (w @ c # s) = w # split_on c s"
  by (induction w) auto

lemma split_join:
  "ws \<noteq> [] \<Longrightarrow> list_all (\<lambda>w. c \<notin> set w) ws \<Longrightarrow> split_on c (join_with c ws) = ws"
  by (induction c ws rule: join_with.induct) (auto simp: split_on_word split_on_cons)

text \<open>The components kept are plain ones after leading parents, which a rooted path does not have.\<close>

definition kept_ok :: "bool \<Rightarrow> string list \<Rightarrow> bool" where
  "kept_ok root ws \<longleftrightarrow> (\<exists>k vs. ws = replicate k ''..'' @ vs \<and> list_all plain vs \<and> (if root then k = 0 else True))"

lemma kept_ok_step:
  assumes "kept_ok root ws" "slash \<notin> set w"
  shows "kept_ok root (clean_step root ws w)"
proof -
  from assms(1) obtain k vs where w: "ws = replicate k ''..'' @ vs" "list_all plain vs" "if root then k = 0 else True"
    by (auto simp: kept_ok_def)
  consider "w = [] \<or> w = ''.''" | "w = ''..''" "vs \<noteq> []" | "w = ''..''" "vs = []" | "plain w"
    using assms(2) by (auto simp: plain_def)
  then show ?thesis
  proof cases
    case 1
    then show ?thesis using assms(1) by (auto simp: clean_step_def)
  next
    case 2
    then have "last ws = last vs" "butlast ws = replicate k ''..'' @ butlast vs" using w(1) by (auto simp: butlast_append)
    moreover have "plain (last vs)" "list_all plain (butlast vs)"
      using 2 w(2) by (auto simp: list_all_iff dest: in_set_butlastD)
    ultimately have "clean_step root ws w = replicate k ''..'' @ butlast vs" "list_all plain (butlast vs)"
      using 2 w(1) by (auto simp: clean_step_def plain_def)
    then show ?thesis using w(3) unfolding kept_ok_def by blast
  next
    case 3
    have "clean_step root ws w = (if root then ws else replicate (Suc k) ''..'' @ [])"
      using 3 w by (cases k) (auto simp: clean_step_def replicate_append_same)
    then show ?thesis using assms(1) by (auto simp: kept_ok_def intro: exI [of _ "Suc k"] split: if_splits)
  next
    case 4
    then have "clean_step root ws w = replicate k ''..'' @ (vs @ [w])" using w(1) by (auto simp: clean_step_def plain_def)
    then show ?thesis using 4 w unfolding kept_ok_def
      by (intro exI [of _ k] exI [of _ "vs @ [w]"]) auto
  qed
qed

lemma kept_ok_all: "kept_ok (rooted p) (foldl (clean_step (rooted p)) [] (split_on slash p))"
proof (rule foldl_invariant)
  show "kept_ok (rooted p) []" by (auto simp: kept_ok_def intro: exI [of _ 0])
qed (auto intro: kept_ok_step dest: split_on_no_sep)

lemma clean_relative:
  assumes "Clean_path p = p" "p \<noteq> ''.''" "\<not> has_prefix ''/'' p" "p \<noteq> ''..''" "\<not> has_prefix ''../'' p"
  shows "list_all plain (split_on slash p)"
proof -
  let ?ws = "foldl (clean_step (rooted p)) [] (split_on slash p)"
  have nr: "\<not> rooted p" using assms(3) by (simp add: rooted_def)
  from assms(1,2) nr have p: "?ws \<noteq> []" "join_with slash ?ws = p"
    by (auto simp: Clean_path_def Let_def split: if_splits)
  from kept_ok_all [of p] obtain k vs where k: "?ws = replicate k ''..'' @ vs" "list_all plain vs"
    by (auto simp: kept_ok_def)
  have "k = 0"
  proof (rule ccontr)
    assume "k \<noteq> 0"
    then obtain ws where ws: "?ws = ''..'' # ws" using k(1) by (cases k) auto
    with p(2) assms(4,5) show False by (cases ws) (auto simp: has_prefix_def)
  qed
  with k have "list_all plain ?ws" by simp
  moreover from this have "list_all (\<lambda>w. slash \<notin> set w) ?ws" by (auto simp: list_all_iff plain_def)
  ultimately show ?thesis using split_join [OF p(1)] p(2) by metis
qed

lemma clean_absolute:
  assumes "Clean_path p = p" "has_prefix ''/'' p" "p \<noteq> ''/''"
  shows "p = slash # tl p \<and> list_all plain (split_on slash (tl p))"
proof -
  let ?ws = "foldl (clean_step (rooted p)) [] (split_on slash p)"
  have r: "rooted p" using assms(2) by (simp add: rooted_def)
  from assms(2) have "p \<noteq> []" by (auto simp: has_prefix_def)
  with assms(1) r have p: "slash # join_with slash ?ws = p" by (auto simp: Clean_path_def Let_def)
  have ne: "?ws \<noteq> []" using p assms(3) by auto
  from kept_ok_all [of p] r have pl: "list_all plain ?ws" by (auto simp: kept_ok_def)
  then have "list_all (\<lambda>w. slash \<notin> set w) ?ws" by (auto simp: list_all_iff plain_def)
  from split_join [OF ne this] have "split_on slash (join_with slash ?ws) = ?ws" .
  moreover have "tl p = join_with slash ?ws" by (subst p [symmetric]) simp
  ultimately have "split_on slash (tl p) = ?ws" by simp
  with pl show ?thesis using p by (metis list.sel(3))
qed

text \<open>Plain components, resolved from a directory, lead below it.\<close>

lemma resolve_plain: "list_all plain ws \<Longrightarrow> foldl (clean_step True) base ws = base @ ws"
proof (induction ws arbitrary: base)
  case (Cons w ws)
  then have "clean_step True base w = base @ [w]" by (auto simp: clean_step_def plain_def)
  with Cons show ?case by simp
qed simp

end
