(* ===== verification/Recipe.thy ===== *)
theory Recipe
  imports Durations Go_Path
begin

text \<open>
  Backup recipes, \<open>internal/domain/backup/recipe\<close> (\<open>recipe.go\<close>, \<open>effective.go\<close>): what a compose file
  declares, the overrides an app keeps, and the effective backups the two make. Reading YAML is the
  caller's; here a compose file is what \<open>ParseCompose\<close> returns. An error is the field it names and a
  reason that carries what its message quotes; \<open>None\<close> is Go's nil error. A nil list and an empty one are
  the same here, they differ only in how they are written as JSON.
\<close>

subsection \<open>Types\<close>

definition TypeSQLite :: string where "TypeSQLite = ''sqlite''"
definition TypeFiles :: string where "TypeFiles = ''files''"
definition TypeCustom :: string where "TypeCustom = ''custom''"

definition Manual :: string where "Manual = ''manual''"

definition DefaultEvery :: string where "DefaultEvery = ''1h''"
definition MinEvery :: duration where "MinEvery = 5 * minute"
definition DefaultRecent :: duration where "DefaultRecent = 24 * hour"
definition DefaultDaily :: int where "DefaultDaily = 14"
definition DefaultMonthly :: int where "DefaultMonthly = 6"
definition maxTier :: int where "maxTier = 3650"
definition maxPathLen :: nat where "maxPathLen = 1024"
definition maxListLen :: nat where "maxListLen = 64"

definition ProfilePrefix :: string where "ProfilePrefix = ''wf-backup-''"
definition Profile :: "string \<Rightarrow> string" where "Profile name = ProfilePrefix @ name"

record keep =
  kp_recent :: string
  kp_daily :: "int option"
  kp_monthly :: "int option"

record retention =
  rt_recent :: duration
  rt_daily :: int
  rt_monthly :: int

definition Retention :: "keep option \<Rightarrow> retention" where
  "Retention k =
     (case k of
        None \<Rightarrow> \<lparr>rt_recent = DefaultRecent, rt_daily = DefaultDaily, rt_monthly = DefaultMonthly\<rparr>
      | Some k \<Rightarrow>
        \<lparr>rt_recent = (case ParseDuration (kp_recent k) of
            Some d \<Rightarrow> if kp_recent k \<noteq> [] then d else DefaultRecent | None \<Rightarrow> DefaultRecent),
         rt_daily = (case kp_daily k of Some n \<Rightarrow> n | None \<Rightarrow> DefaultDaily),
         rt_monthly = (case kp_monthly k of Some n \<Rightarrow> n | None \<Rightarrow> DefaultMonthly)\<rparr>)"

record backup_config =
  bc_name :: string
  bc_type :: string
  bc_enabled :: bool
  bc_storage :: string
  bc_every :: string
  bc_keep :: "keep option"
  bc_volume :: string
  bc_service :: string
  bc_path :: string
  bc_paths :: "string list option"
  bc_exclude :: "string list option"

definition List :: "string list option \<Rightarrow> string list" where
  "List p = (case p of None \<Rightarrow> [] | Some xs \<Rightarrow> xs)"

record recipe_template =
  tp_every :: string
  tp_keep :: keep
  tp_volume :: string
  tp_service :: string
  tp_path :: string
  tp_paths :: "string list"
  tp_exclude :: "string list"

record effective_backup =
  eb_name :: string
  eb_type :: string
  eb_enabled :: bool
  eb_storage :: string
  eb_every :: string
  eb_keep :: "keep option"
  eb_volume :: string
  eb_service :: string
  eb_path :: string
  eb_paths :: "string list"
  eb_exclude :: "string list"
  eb_in_recipe :: bool
  eb_from :: "(string, bool) gomap"
  eb_template :: "recipe_template option"

definition Interval :: "effective_backup \<Rightarrow> duration" where
  "Interval b =
     (if eb_every b = [] \<or> eb_every b = Manual then 0
      else case ParseDuration (eb_every b) of Some d \<Rightarrow> d | None \<Rightarrow> 0)"

definition Builtin :: "effective_backup \<Rightarrow> bool" where
  "Builtin b \<longleftrightarrow> eb_type b = TypeSQLite \<or> eb_type b = TypeFiles"

text \<open>What \<open>compose.go\<close> reads of the compose files.\<close>

record compose_files =
  cf_volumes :: "(string, bool) gomap"
  cf_services :: "(string, string list) gomap"
  cf_recipe :: "backup_config list"
  cf_unparsed :: bool

subsection \<open>Names, schedules, retentions, paths\<close>

definition name_end :: "char \<Rightarrow> bool" where
  "name_end c \<longleftrightarrow> between 0x61 0x7A c \<or> dec_digit c"

definition nameRE :: "string \<Rightarrow> bool" where
  "nameRE s \<longleftrightarrow> s \<noteq> [] \<and> length s \<le> 32 \<and> list_all (\<lambda>c. name_end c \<or> c = CHR ''-'') s \<and>
     name_end (hd s) \<and> name_end (last s)"

datatype reason = BadName string | BadStorage string | NeedsStorage | NeedsType | UnknownType string
  | BadEvery string | TooOften string | BadRecent string | BadCount int | VolumeAndService | NoTarget
  | NotAVolume string | NotAService string | TakesPath | NeedsPath | TakesPaths | NeedsPaths | TooMany
  | ListedTwice string | InsideListed string string | NotInVolume string | NotInContainer string
  | BadPattern string | CustomTakesService | CustomNeedsService | NeedsProfile string string
  | TypeChanged string string | NeedsTypeNew string | DeclaredAlready string

datatype recipe_error = Invalid string reason

definition ValidateName :: "string \<Rightarrow> bool" where
  "ValidateName s = nameRE s"

definition hasControl :: "string \<Rightarrow> bool" where
  "hasControl s \<longleftrightarrow> list_ex (\<lambda>c. byte c < 0x20 \<or> byte c = 0x7F) s"

definition validateEvery :: "string \<Rightarrow> string \<Rightarrow> recipe_error option" where
  "validateEvery every field =
     (if every = [] \<or> every = Manual then None
      else case ParseDuration every of
        None \<Rightarrow> Some (Invalid (field @ ''.every'') (BadEvery every))
      | Some d \<Rightarrow> if d < MinEvery then Some (Invalid (field @ ''.every'') (TooOften every)) else None)"

definition bad_count :: "string \<Rightarrow> int option \<Rightarrow> recipe_error option" where
  "bad_count field v =
     (case v of None \<Rightarrow> None | Some n \<Rightarrow> if n < 0 \<or> n > maxTier then Some (Invalid field (BadCount n)) else None)"

definition validateKeep :: "keep option \<Rightarrow> string \<Rightarrow> recipe_error option" where
  "validateKeep k field =
     (case k of None \<Rightarrow> None
      | Some k \<Rightarrow>
        if kp_recent k \<noteq> [] \<and> (case ParseDuration (kp_recent k) of None \<Rightarrow> True | Some d \<Rightarrow> d < 0)
        then Some (Invalid (field @ ''.keep.recent'') (BadRecent (kp_recent k)))
        else case bad_count (field @ ''.keep.daily'') (kp_daily k) of
          Some e \<Rightarrow> Some e
        | None \<Rightarrow> bad_count (field @ ''.keep.monthly'') (kp_monthly k))"

definition validateRelPath :: "string \<Rightarrow> string \<Rightarrow> recipe_error option" where
  "validateRelPath field p =
     (if p = [] \<or> maxPathLen < length p \<or> hasControl p \<or> has_prefix ''/'' p \<or> Clean_path p \<noteq> p \<or>
         p = ''.'' \<or> p = ''..'' \<or> has_prefix ''../'' p
      then Some (Invalid field (NotInVolume p)) else None)"

definition validateAbsPath :: "string \<Rightarrow> string \<Rightarrow> recipe_error option" where
  "validateAbsPath field p =
     (if maxPathLen < length p \<or> hasControl p \<or> \<not> has_prefix ''/'' p \<or> Clean_path p \<noteq> p \<or> p = ''/''
      then Some (Invalid field (NotInContainer p)) else None)"

definition trim_char :: "char \<Rightarrow> string \<Rightarrow> string" where
  "trim_char c s = rev (dropWhile (\<lambda>d. d = c) (rev (dropWhile (\<lambda>d. d = c) s)))"

definition validatePattern :: "string \<Rightarrow> string \<Rightarrow> recipe_error option" where
  "validatePattern field p =
     (if p = [] \<or> maxPathLen < length p \<or> hasControl p then Some (Invalid field (BadPattern p))
      else if \<not> pattern_ok (trim_char slash p) then Some (Invalid field (BadPattern p)) else None)"

subsection \<open>One entry\<close>

text \<open>The first error of a loop, and a field with its index.\<close>

fun first_error :: "(nat \<Rightarrow> 'a \<Rightarrow> 'e option) \<Rightarrow> nat \<Rightarrow> 'a list \<Rightarrow> 'e option" where
  "first_error f i [] = None"
| "first_error f i (x # xs) = (case f i x of Some e \<Rightarrow> Some e | None \<Rightarrow> first_error f (Suc i) xs)"

definition indexed :: "string \<Rightarrow> nat \<Rightarrow> string" where
  "indexed field i = field @ ''['' @ show_nat i @ '']''"

definition validateCustom :: "backup_config \<Rightarrow> compose_files \<Rightarrow> string \<Rightarrow> recipe_error option" where
  "validateCustom c cf field =
     (if bc_volume c \<noteq> [] \<or> bc_path c \<noteq> [] \<or> List (bc_paths c) \<noteq> [] \<or> List (bc_exclude c) \<noteq> [] \<or>
         bc_every c \<noteq> [] \<or> bc_keep c \<noteq> None
      then Some (Invalid field CustomTakesService)
      else if bc_service c = [] then Some (Invalid (field @ ''.service'') CustomNeedsService)
      else case mget (cf_services cf) (bc_service c) of
        None \<Rightarrow> Some (Invalid (field @ ''.service'') (NotAService (bc_service c)))
      | Some profiles \<Rightarrow>
          if list_ex (\<lambda>p. p = Profile (bc_name c)) profiles then None
          else Some (Invalid (field @ ''.service'') (NeedsProfile (bc_service c) (Profile (bc_name c)))))"

definition checkPath :: "bool \<Rightarrow> string \<Rightarrow> string \<Rightarrow> recipe_error option" where
  "checkPath in_volume f p = (if in_volume then validateRelPath f p else validateAbsPath f p)"

text \<open>The loop over the paths; \<open>seen\<close> are the earlier ones.\<close>

fun check_paths :: "bool \<Rightarrow> string \<Rightarrow> nat \<Rightarrow> string list \<Rightarrow> string list \<Rightarrow> recipe_error option" where
  "check_paths in_volume field i seen [] = None"
| "check_paths in_volume field i seen (p # ps) =
     (let f = indexed (field @ ''.paths'') i
      in case checkPath in_volume f p of
           Some e \<Rightarrow> Some e
         | None \<Rightarrow> if p \<in> set seen then Some (Invalid f (ListedTwice p))
                   else check_paths in_volume field (Suc i) (p # seen) ps)"

definition nested_path :: "string list \<Rightarrow> string \<Rightarrow> string option" where
  "nested_path ps p = find (\<lambda>q. p \<noteq> q \<and> has_prefix (q @ ''/'') p) ps"

definition check_target :: "backup_config \<Rightarrow> compose_files \<Rightarrow> string \<Rightarrow> recipe_error option" where
  "check_target c cf field =
     (if bc_volume c \<noteq> [] \<and> bc_service c \<noteq> [] then Some (Invalid field VolumeAndService)
      else if bc_volume c = [] \<and> bc_service c = [] then Some (Invalid field NoTarget)
      else if bc_volume c \<noteq> [] \<and> mget (cf_volumes cf) (bc_volume c) \<noteq> Some True
           then Some (Invalid (field @ ''.volume'') (NotAVolume (bc_volume c)))
      else if bc_service c \<noteq> [] \<and> mget (cf_services cf) (bc_service c) = None
           then Some (Invalid (field @ ''.service'') (NotAService (bc_service c)))
      else None)"

definition check_content :: "backup_config \<Rightarrow> string \<Rightarrow> recipe_error option" where
  "check_content c field =
     (let in_volume = (bc_volume c \<noteq> []); paths = List (bc_paths c); exclude = List (bc_exclude c)
      in if bc_type c = TypeSQLite then
           (if paths \<noteq> [] \<or> exclude \<noteq> [] then Some (Invalid field TakesPath)
            else if bc_path c = [] then Some (Invalid (field @ ''.path'') NeedsPath)
            else checkPath in_volume (field @ ''.path'') (bc_path c))
         else if bc_path c \<noteq> [] then Some (Invalid (field @ ''.path'') TakesPaths)
         else if \<not> in_volume \<and> paths = [] then Some (Invalid (field @ ''.paths'') NeedsPaths)
         else if maxListLen < length paths \<or> maxListLen < length exclude then Some (Invalid field TooMany)
         else case check_paths in_volume field 0 [] paths of Some e \<Rightarrow> Some e
         | None \<Rightarrow>
           (case first_error (\<lambda>i p. map_option (\<lambda>q. Invalid (indexed (field @ ''.paths'') i) (InsideListed p q))
              (nested_path paths p)) 0 paths of Some e \<Rightarrow> Some e
            | None \<Rightarrow> first_error (\<lambda>i p. validatePattern (indexed (field @ ''.exclude'') i) p) 0 exclude))"

definition validate :: "backup_config \<Rightarrow> compose_files \<Rightarrow> string \<Rightarrow> recipe_error option" where
  "validate c cf field =
     (if \<not> ValidateName (bc_name c) then Some (Invalid (field @ ''.name'') (BadName (bc_name c)))
      else if bc_storage c \<noteq> [] \<and> \<not> nameRE (bc_storage c)
           then Some (Invalid (field @ ''.storage'') (BadStorage (bc_storage c)))
      else if bc_enabled c \<and> bc_storage c = [] then Some (Invalid (field @ ''.storage'') NeedsStorage)
      else if bc_type c = TypeCustom then validateCustom c cf field
      else if bc_type c \<noteq> TypeSQLite \<and> bc_type c \<noteq> TypeFiles
           then Some (Invalid (field @ ''.type'') (if bc_type c = [] then NeedsType else UnknownType (bc_type c)))
      else case validateEvery (bc_every c) field of Some e \<Rightarrow> Some e
      | None \<Rightarrow> (case validateKeep (bc_keep c) field of Some e \<Rightarrow> Some e
      | None \<Rightarrow> (case check_target c cf field of Some e \<Rightarrow> Some e
      | None \<Rightarrow> check_content c field)))"

subsection \<open>The recipe and its overrides\<close>

definition FieldEvery :: string where "FieldEvery = ''every''"
definition FieldKeep :: string where "FieldKeep = ''keep''"
definition FieldVolume :: string where "FieldVolume = ''volume''"
definition FieldService :: string where "FieldService = ''service''"
definition FieldPath :: string where "FieldPath = ''path''"
definition FieldPaths :: string where "FieldPaths = ''paths''"
definition FieldExclude :: string where "FieldExclude = ''exclude''"

definition keepEqual :: "keep option \<Rightarrow> keep option \<Rightarrow> bool" where
  "keepEqual a b \<longleftrightarrow> Retention a = Retention b"

definition fromRecipe :: "backup_config \<Rightarrow> backup_config \<Rightarrow> (string, bool) gomap" where
  "fromRecipe r c =
     map (\<lambda>(f, same). (f, True)) (filter snd
       [(FieldEvery, bc_every c = bc_every r), (FieldKeep, keepEqual (bc_keep c) (bc_keep r)),
        (FieldVolume, bc_volume c = bc_volume r), (FieldService, bc_service c = bc_service r),
        (FieldPath, bc_path c = bc_path r), (FieldPaths, List (bc_paths c) = List (bc_paths r)),
        (FieldExclude, List (bc_exclude c) = List (bc_exclude r))])"

definition keep_of :: "retention \<Rightarrow> keep" where
  "keep_of r = \<lparr>kp_recent = duration_string (rt_recent r), kp_daily = Some (rt_daily r), kp_monthly = Some (rt_monthly r)\<rparr>"

definition finish :: "backup_config \<Rightarrow> bool \<Rightarrow> (string, bool) gomap \<Rightarrow> effective_backup" where
  "finish c in_recipe frm =
     (let b = \<lparr>eb_name = bc_name c, eb_type = bc_type c, eb_enabled = bc_enabled c, eb_storage = bc_storage c,
            eb_every = [], eb_keep = None, eb_volume = bc_volume c, eb_service = bc_service c, eb_path = bc_path c,
            eb_paths = List (bc_paths c), eb_exclude = List (bc_exclude c), eb_in_recipe = in_recipe,
            eb_from = frm, eb_template = None\<rparr>
      in if bc_type c \<noteq> TypeCustom
         then b\<lparr>eb_every := (if bc_every c = [] then DefaultEvery else bc_every c),
                eb_keep := Some (keep_of (Retention (bc_keep c)))\<rparr>
         else b)"

definition templateOf :: "backup_config \<Rightarrow> recipe_template" where
  "templateOf r = \<lparr>tp_every = (if bc_every r = [] then DefaultEvery else bc_every r),
     tp_keep = keep_of (Retention (bc_keep r)), tp_volume = bc_volume r, tp_service = bc_service r,
     tp_path = bc_path r, tp_paths = List (bc_paths r), tp_exclude = List (bc_exclude r)\<rparr>"

text \<open>Setting volume or service moves the backup to that addressing.\<close>

definition merge :: "backup_config \<Rightarrow> backup_config \<Rightarrow> backup_config" where
  "merge r ov =
     r\<lparr>bc_enabled := bc_enabled ov, bc_storage := bc_storage ov,
       bc_every := (if bc_every ov \<noteq> [] then bc_every ov else bc_every r),
       bc_keep := (if bc_keep ov \<noteq> None then bc_keep ov else bc_keep r),
       bc_volume := (if bc_volume ov \<noteq> [] \<or> bc_service ov \<noteq> [] then bc_volume ov else bc_volume r),
       bc_service := (if bc_volume ov \<noteq> [] \<or> bc_service ov \<noteq> [] then bc_service ov else bc_service r),
       bc_path := (if bc_path ov \<noteq> [] then bc_path ov else bc_path r),
       bc_paths := (if bc_paths ov \<noteq> None then bc_paths ov else bc_paths r),
       bc_exclude := (if bc_exclude ov \<noteq> None then bc_exclude ov else bc_exclude r)\<rparr>"

definition minimize :: "backup_config \<Rightarrow> backup_config \<Rightarrow> backup_config" where
  "minimize r ov =
     (let moved = ((bc_volume ov \<noteq> [] \<or> bc_service ov \<noteq> []) \<and>
                   (bc_volume ov \<noteq> bc_volume r \<or> bc_service ov \<noteq> bc_service r)) in
      \<lparr>bc_name = bc_name ov, bc_type = [], bc_enabled = bc_enabled ov, bc_storage = bc_storage ov,
       bc_every = (if bc_every ov \<noteq> [] \<and> bc_every ov \<noteq> bc_every r then bc_every ov else []),
       bc_keep = (if bc_keep ov \<noteq> None \<and> \<not> keepEqual (bc_keep ov) (bc_keep r) then bc_keep ov else None),
       bc_volume = (if moved then bc_volume ov else []), bc_service = (if moved then bc_service ov else []),
       bc_path = (if bc_path ov \<noteq> [] \<and> bc_path ov \<noteq> bc_path r then bc_path ov else []),
       bc_paths = (if bc_paths ov \<noteq> None \<and> List (bc_paths ov) \<noteq> List (bc_paths r) then bc_paths ov else None),
       bc_exclude = (if bc_exclude ov \<noteq> None \<and> List (bc_exclude ov) \<noteq> List (bc_exclude r)
                     then bc_exclude ov else None)\<rparr>)"

definition empty_config :: "backup_config \<Rightarrow> bool" where
  "empty_config c \<longleftrightarrow> \<not> bc_enabled c \<and> bc_storage c = [] \<and> bc_type c = [] \<and> bc_every c = [] \<and> bc_keep c = None \<and>
     bc_volume c = [] \<and> bc_service c = [] \<and> bc_path c = [] \<and> bc_paths c = None \<and> bc_exclude c = None"

text \<open>Names to positions; a later entry of a name is refused.\<close>

fun index_from :: "nat \<Rightarrow> (string, nat) gomap \<Rightarrow> backup_config list \<Rightarrow> recipe_error + (string, nat) gomap" where
  "index_from j m [] = Inr m"
| "index_from j m (ov # ovs) =
     (if \<not> ValidateName (bc_name ov) then Inl (Invalid (indexed ''backups'' j @ ''.name'') (BadName (bc_name ov)))
      else if mget m (bc_name ov) \<noteq> None then Inl (Invalid (indexed ''backups'' j @ ''.name'') (ListedTwice (bc_name ov)))
      else index_from (Suc j) (mput (bc_name ov) j m) ovs)"

definition indexOverrides :: "backup_config list \<Rightarrow> recipe_error + (string, nat) gomap" where
  "indexOverrides ovs = index_from 0 [] ovs"

definition Validate :: "compose_files \<Rightarrow> recipe_error option" where
  "Validate cf = first_error (\<lambda>i r. validate r cf (indexed ''x-winterflow.backups'' i)) 0 (cf_recipe cf)"

definition whole_entry :: "compose_files \<Rightarrow> backup_config \<Rightarrow> backup_config \<Rightarrow> string \<Rightarrow> recipe_error + effective_backup" where
  "whole_entry cf r c field =
     (case validate c cf field of Some e \<Rightarrow> Inl e
      | None \<Rightarrow> let eb = finish c True (fromRecipe r c)
                in Inr (if bc_type r \<noteq> TypeCustom then eb\<lparr>eb_template := Some (templateOf r)\<rparr> else eb))"

definition effective_entry :: "compose_files \<Rightarrow> backup_config list \<Rightarrow> (string, nat) gomap \<Rightarrow> nat \<Rightarrow> backup_config
    \<Rightarrow> recipe_error + effective_backup" where
  "effective_entry cf ovs by_name i r =
     (case mget by_name (bc_name r) of
        None \<Rightarrow> whole_entry cf r r (indexed ''x-winterflow.backups'' i)
      | Some j \<Rightarrow>
        (let field = indexed ''backups'' j; ov = ovs ! j
         in if bc_type ov \<noteq> [] \<and> bc_type ov \<noteq> bc_type r
            then Inl (Invalid (field @ ''.type'') (TypeChanged (bc_name r) (bc_type r)))
            else whole_entry cf r (merge r ov) field))"

definition added_entry :: "compose_files \<Rightarrow> nat \<Rightarrow> backup_config \<Rightarrow> recipe_error + effective_backup" where
  "added_entry cf j ov =
     (case validate ov cf (indexed ''backups'' j) of Some e \<Rightarrow> Inl e | None \<Rightarrow> Inr (finish ov False []))"

text \<open>A loop that appends results, up to the first error.\<close>

fun collect :: "(nat \<Rightarrow> 'a \<Rightarrow> 'e + 'b) \<Rightarrow> nat \<Rightarrow> 'a list \<Rightarrow> 'e + 'b list" where
  "collect f i [] = Inr []"
| "collect f i (x # xs) =
     (case f i x of Inl e \<Rightarrow> Inl e
      | Inr y \<Rightarrow> (case collect f (Suc i) xs of Inl e \<Rightarrow> Inl e | Inr ys \<Rightarrow> Inr (y # ys)))"

fun collect_added :: "compose_files \<Rightarrow> nat \<Rightarrow> backup_config list \<Rightarrow> recipe_error + effective_backup list" where
  "collect_added cf j [] = Inr []"
| "collect_added cf j (ov # ovs) =
     (if bc_name ov \<in> set (map bc_name (cf_recipe cf)) \<or> bc_type ov = [] then collect_added cf (Suc j) ovs
      else case added_entry cf j ov of Inl e \<Rightarrow> Inl e
      | Inr y \<Rightarrow> (case collect_added cf (Suc j) ovs of Inl e \<Rightarrow> Inl e | Inr ys \<Rightarrow> Inr (y # ys)))"

definition Effective :: "compose_files \<Rightarrow> backup_config list \<Rightarrow> recipe_error + effective_backup list" where
  "Effective cf ovs =
     (case Validate cf of Some e \<Rightarrow> Inl e
      | None \<Rightarrow> (case indexOverrides ovs of Inl e \<Rightarrow> Inl e
      | Inr by_name \<Rightarrow> (case collect (effective_entry cf ovs by_name) 0 (cf_recipe cf) of Inl e \<Rightarrow> Inl e
      | Inr out \<Rightarrow> (case collect_added cf 0 ovs of Inl e \<Rightarrow> Inl e | Inr added \<Rightarrow> Inr (out @ added)))))"

definition Check :: "compose_files \<Rightarrow> backup_config list \<Rightarrow> recipe_error + effective_backup list" where
  "Check cf ovs =
     (let names = map bc_name (cf_recipe cf)
      in case first_error (\<lambda>j ov.
            if bc_name ov \<notin> set names \<and> bc_type ov = []
            then Some (Invalid (indexed ''backups'' j) (NeedsTypeNew (bc_name ov)))
            else if bc_name ov \<in> set names \<and> bc_type ov \<noteq> []
            then Some (Invalid (indexed ''backups'' j) (DeclaredAlready (bc_name ov)))
            else None) 0 ovs of
          Some e \<Rightarrow> Inl e
        | None \<Rightarrow> Effective cf ovs)"

text \<open>The recipe entry a name stands for: the map of \<open>Clean\<close> keeps the last one of a name.\<close>

definition recipe_of :: "compose_files \<Rightarrow> string \<Rightarrow> backup_config option" where
  "recipe_of cf name = find (\<lambda>r. bc_name r = name) (rev (cf_recipe cf))"

definition clean_one :: "compose_files \<Rightarrow> backup_config \<Rightarrow> backup_config list \<times> string list" where
  "clean_one cf ov =
     (case recipe_of cf (bc_name ov) of
        None \<Rightarrow> if bc_type ov = [] then ([], [bc_name ov]) else ([ov], [])
      | Some r \<Rightarrow> let m = minimize r ov in if empty_config m then ([], []) else ([m], []))"

text \<open>The warnings are the names whose settings were dropped.\<close>

definition Clean :: "compose_files \<Rightarrow> backup_config list \<Rightarrow> backup_config list \<times> string list" where
  "Clean cf ovs =
     (if cf_unparsed cf then (ovs, [])
      else (concat (map (fst \<circ> clean_one cf) ovs), concat (map (snd \<circ> clean_one cf) ovs)))"

definition Declared :: "effective_backup list \<Rightarrow> (string, effective_backup) gomap" where
  "Declared bs = fold (\<lambda>b m. mput (eb_name b) b m) bs []"

lemma duration_examples: "ParseDuration ''1h'' = Some hour" "ParseDuration ''30m'' = Some (30 * minute)"
  by (simp_all add: ParseDuration_def parse_terms.simps parse_term_def dec_digit_def between_def byte_def read_fraction_def
      unit_map_def unit_char_def Let_def of_char_def hour_def minute_def second_def)

end
