(* ===== verification/Recipe_Props.thy ===== *)
theory Recipe_Props
  imports Recipe
begin

text \<open>
  What holds of backup recipes: storing a cleaned list of overrides changes nothing that runs, effective
  backups are valid and keep their retention through the text form, and accepted paths stay inside what
  they are relative to.
\<close>

subsection \<open>Validation does not depend on the field it reports\<close>

lemma seq_None: "(case x of None \<Rightarrow> y | Some e \<Rightarrow> Some e) = None \<longleftrightarrow> x = None \<and> y = None"
  by (simp split: option.split)

lemma guard_None: "(if b then Some e else y) = None \<longleftrightarrow> \<not> b \<and> y = None"
  by simp

lemma choice_None: "(if b then x else y) = None \<longleftrightarrow> (if b then x = None else y = None)"
  by simp

lemma result_Inr: "(case x of Inl e \<Rightarrow> Inl e | Inr y \<Rightarrow> f y) = Inr z \<longleftrightarrow> (\<exists>y. x = Inr y \<and> f y = Inr z)"
  by (cases x) auto

lemma error_Inr: "(case x of None \<Rightarrow> y | Some e \<Rightarrow> Inl e) = Inr z \<longleftrightarrow> x = None \<and> y = Inr z"
  by (cases x) auto

lemma find_append: "find P (xs @ ys) = (case find P xs of None \<Rightarrow> find P ys | Some x \<Rightarrow> Some x)"
  by (induction xs) auto

lemmas none_simps = seq_None guard_None choice_None

lemma first_error_None: "first_error f i xs = None \<longleftrightarrow> (\<forall>k < length xs. f (i + k) (xs ! k) = None)"
proof (induction xs arbitrary: i)
  case (Cons x xs)
  have "(\<forall>k < length (x # xs). f (i + k) ((x # xs) ! k) = None) \<longleftrightarrow>
      f i x = None \<and> (\<forall>k < length xs. f (Suc i + k) (xs ! k) = None)"
    by (auto simp: nth_Cons less_Suc_eq_0_disj split: nat.split)
  then show ?case using Cons by (auto split: option.split)
qed simp

lemma first_error_cong: "(\<And>i j x. (f i x = None) = (g j x = None)) \<Longrightarrow> (first_error f i xs = None) = (first_error g j xs = None)"
  by (simp add: first_error_None) metis

lemma checkPath_field: "(checkPath v f p = None) = (checkPath v g p = None)"
  by (simp add: checkPath_def validateRelPath_def validateAbsPath_def)

lemma check_paths_field: "(check_paths v f i seen ps = None) = (check_paths v g j seen ps = None)"
proof (induction ps arbitrary: i j seen)
  case (Cons p ps)
  show ?case
    using Cons [of "Suc i" "p # seen" "Suc j"] checkPath_field [of v "indexed (f @ ''.paths'') i" p "indexed (g @ ''.paths'') j"]
    by (auto simp: Let_def split: option.split)
qed simp

lemma check_content_field: "(check_content c f = None) = (check_content c g = None)"
proof -
  have 1: "(first_error (\<lambda>i p. map_option (\<lambda>q. Invalid (indexed (f @ ''.paths'') i) (InsideListed p q)) (nested_path ps p)) 0 xs = None) =
      (first_error (\<lambda>i p. map_option (\<lambda>q. Invalid (indexed (g @ ''.paths'') i) (InsideListed p q)) (nested_path ps p)) 0 xs = None)" for ps xs
    by (rule first_error_cong) simp
  have 2: "(first_error (\<lambda>i p. validatePattern (indexed (f @ ''.exclude'') i) p) 0 xs = None) =
      (first_error (\<lambda>i p. validatePattern (indexed (g @ ''.exclude'') i) p) 0 xs = None)" for xs
    by (rule first_error_cong) (simp add: validatePattern_def)
  have 3: "(check_paths v f 0 [] ps = None) = (check_paths v g 0 [] ps = None)"
    "(checkPath v (f @ ''.path'') p = None) = (checkPath v (g @ ''.path'') p = None)" for v ps p
    by (rule check_paths_field checkPath_field)+
  show ?thesis
    unfolding check_content_def Let_def none_simps 1 2 3 by simp
qed

lemma validateKeep_field: "(validateKeep k f = None) = (validateKeep k g = None)"
  by (auto simp: validateKeep_def bad_count_def split: option.split)

lemma validate_field: "(validate c cf f = None) = (validate c cf g = None)"
proof -
  have e: "(validateEvery s f = None) = (validateEvery s g = None)" for s
    by (simp add: validateEvery_def split: option.split)
  have t: "(check_target c cf f = None) = (check_target c cf g = None)"
    by (simp add: check_target_def)
  have u: "(validateCustom c cf f = None) = (validateCustom c cf g = None)"
    by (simp add: validateCustom_def split: option.split)
  show ?thesis
    using e [of "bc_every c"] t u validateKeep_field [of "bc_keep c" f g] check_content_field [of c f g]
    unfolding validate_def none_simps by simp
qed

definition valid :: "compose_files \<Rightarrow> backup_config \<Rightarrow> bool" where
  "valid cf c \<longleftrightarrow> validate c cf [] = None"

lemma validate_valid: "validate c cf f = None \<longleftrightarrow> valid cf c"
  unfolding valid_def by (rule validate_field)

text \<open>A valid entry of the recipe and the same entry with a retention and lists that read the same.\<close>

definition reads_same :: "backup_config \<Rightarrow> backup_config \<Rightarrow> bool" where
  "reads_same c d \<longleftrightarrow> bc_name d = bc_name c \<and> bc_type d = bc_type c \<and> bc_enabled d = bc_enabled c \<and>
     bc_storage d = bc_storage c \<and> bc_every d = bc_every c \<and> bc_volume d = bc_volume c \<and> bc_service d = bc_service c \<and>
     bc_path d = bc_path c \<and> List (bc_paths d) = List (bc_paths c) \<and> List (bc_exclude d) = List (bc_exclude c) \<and>
     keepEqual (bc_keep d) (bc_keep c)"

lemma valid_same:
  assumes "valid cf c" "reads_same c d" "if bc_type c = TypeCustom then bc_keep d = bc_keep c else validateKeep (bc_keep d) [] = None"
  shows "valid cf d"
proof -
  from assms(2) have p: "bc_name d = bc_name c" "bc_type d = bc_type c" "bc_enabled d = bc_enabled c" "bc_storage d = bc_storage c"
    "bc_every d = bc_every c" "bc_volume d = bc_volume c" "bc_service d = bc_service c" "bc_path d = bc_path c"
    "List (bc_paths d) = List (bc_paths c)" "List (bc_exclude d) = List (bc_exclude c)"
    by (simp_all add: reads_same_def)
  have c: "check_content d [] = check_content c []" unfolding check_content_def p ..
  have t: "check_target d cf [] = check_target c cf []" unfolding check_target_def p ..
  have u: "validateCustom d cf [] = validateCustom c cf []" if "bc_keep d = bc_keep c"
    unfolding validateCustom_def p that ..
  show ?thesis
  proof (cases "bc_type c = TypeCustom")
    case True
    with assms(1,3) u show ?thesis unfolding valid_def validate_def p by (auto split: if_splits)
  next
    case False
    with assms(1,3) show ?thesis unfolding valid_def validate_def p c t seq_None by (auto simp: seq_None split: if_splits)
  qed
qed

subsection \<open>The overrides by name\<close>

definition override_of :: "backup_config list \<Rightarrow> string \<Rightarrow> backup_config option" where
  "override_of ovs name = find (\<lambda>ov. bc_name ov = name) ovs"

lemma index_from_ok:
  "index_from j m ovs = Inr m' \<Longrightarrow>
    list_all (\<lambda>ov. ValidateName (bc_name ov) \<and> mget m (bc_name ov) = None) ovs \<and> distinct (map bc_name ovs) \<and>
    (\<forall>name. mget m' name = (if name \<in> set (map bc_name ovs)
       then Some (j + length (takeWhile (\<lambda>ov. bc_name ov \<noteq> name) ovs)) else mget m name))"
proof (induction ovs arbitrary: j m)
  case (Cons ov ovs)
  from Cons.prems have v: "ValidateName (bc_name ov)" "mget m (bc_name ov) = None"
    and r: "index_from (Suc j) (mput (bc_name ov) j m) ovs = Inr m'"
    by (auto split: if_splits)
  from Cons.IH [OF r] v show ?case by (auto simp: list_all_iff split: if_splits)
qed simp

lemma index_from_ex:
  assumes "list_all (\<lambda>ov. ValidateName (bc_name ov)) ovs" "distinct (map bc_name ovs)" "\<And>ov. ov \<in> set ovs \<Longrightarrow> mget m (bc_name ov) = None"
  shows "\<exists>m'. index_from j m ovs = Inr m'"
  using assms
proof (induction ovs arbitrary: j m)
  case (Cons ov ovs)
  have "\<exists>m'. index_from (Suc j) (mput (bc_name ov) j m) ovs = Inr m'"
    using Cons.prems by (intro Cons.IH) (auto simp: image_iff)
  then show ?case using Cons.prems by auto
qed simp

lemma nth_takeWhile_find:
  assumes "find P xs = Some x"
  shows "xs ! length (takeWhile (\<lambda>y. \<not> P y) xs) = x"
  using assms by (induction xs) (auto split: if_splits)

lemma indexOverrides_ok:
  assumes "indexOverrides ovs = Inr m"
  shows "list_all (\<lambda>ov. ValidateName (bc_name ov)) ovs" "distinct (map bc_name ovs)"
    "map_option ((!) ovs) (mget m name) = override_of ovs name"
proof -
  note * = index_from_ok [OF assms [unfolded indexOverrides_def]]
  from * show "list_all (\<lambda>ov. ValidateName (bc_name ov)) ovs" "distinct (map bc_name ovs)"
    by (auto simp: list_all_iff)
  show "map_option ((!) ovs) (mget m name) = override_of ovs name"
  proof (cases "override_of ovs name")
    case None
    then have "name \<notin> set (map bc_name ovs)" by (auto simp: override_of_def find_None_iff)
    then have "mget m name = None" using * by simp
    then show ?thesis using None by simp
  next
    case (Some ov)
    then have "name \<in> set (map bc_name ovs)" by (auto simp: override_of_def find_Some_iff)
    with * have "mget m name = Some (length (takeWhile (\<lambda>ov. bc_name ov \<noteq> name) ovs))" by simp
    then show ?thesis
      using nth_takeWhile_find [OF Some [unfolded override_of_def]] Some by simp
  qed
qed

subsection \<open>Cleaning the overrides\<close>

text \<open>What \<open>ParseCompose\<close> gives: names are used once, and a recipe never turns a backup on.\<close>

definition recipe_parsed :: "compose_files \<Rightarrow> bool" where
  "recipe_parsed cf \<longleftrightarrow> distinct (map bc_name (cf_recipe cf)) \<and>
     list_all (\<lambda>r. \<not> bc_enabled r \<and> bc_storage r = []) (cf_recipe cf)"

lemma minimize_name [simp]: "bc_name (minimize r ov) = bc_name ov" "bc_type (minimize r ov) = []"
  by (simp_all add: minimize_def Let_def)

lemma keepEqual_refl [simp]: "keepEqual k k"
  by (simp add: keepEqual_def)

lemma minimize_reads_same: "reads_same (merge r ov) (merge r (minimize r ov))"
  by (auto simp: reads_same_def merge_def minimize_def Let_def keepEqual_def)

lemma minimize_keep: "bc_keep (merge r (minimize r ov)) \<in> {bc_keep (merge r ov), bc_keep r}"
  by (simp add: merge_def minimize_def Let_def)

lemma merge_type [simp]: "bc_type (merge r ov) = bc_type r" "bc_name (merge r ov) = bc_name r"
  by (simp_all add: merge_def)

lemma valid_custom_keep: "valid cf c \<Longrightarrow> bc_type c = TypeCustom \<Longrightarrow> bc_keep c = None"
  by (auto simp: valid_def validate_def validateCustom_def split: if_splits)

lemma valid_keep: "valid cf c \<Longrightarrow> bc_type c \<noteq> TypeCustom \<Longrightarrow> validateKeep (bc_keep c) [] = None"
  by (auto simp: valid_def validate_def seq_None split: if_splits)

lemma minimize_valid:
  assumes "valid cf r" "valid cf (merge r ov)"
  shows "valid cf (merge r (minimize r ov))"
proof (rule valid_same [OF assms(2) minimize_reads_same])
  show "if bc_type (merge r ov) = TypeCustom then bc_keep (merge r (minimize r ov)) = bc_keep (merge r ov)
      else validateKeep (bc_keep (merge r (minimize r ov))) [] = None"
  proof (cases "bc_type r = TypeCustom")
    case True
    with assms valid_custom_keep [of cf r] valid_custom_keep [of cf "merge r ov"] minimize_keep [of r ov] show ?thesis by auto
  next
    case False
    with assms valid_keep [of cf r] valid_keep [of cf "merge r ov"] minimize_keep [of r ov] show ?thesis by auto
  qed
qed

lemma reads_same_finish:
  assumes "reads_same c d"
  shows "finish d b frm = finish c b frm" "fromRecipe r d = fromRecipe r c"
  using assms by (simp_all add: reads_same_def finish_def fromRecipe_def keepEqual_def Let_def)

lemma empty_merge:
  assumes "empty_config m" "\<not> bc_enabled r" "bc_storage r = []"
  shows "merge r m = r"
  using assms by (cases r) (simp add: empty_config_def merge_def)

text \<open>The entries, with their overrides by name.\<close>

definition layered :: "compose_files \<Rightarrow> backup_config \<Rightarrow> backup_config \<Rightarrow> effective_backup option" where
  "layered cf r c =
     (if valid cf c
      then let eb = finish c True (fromRecipe r c)
           in Some (if bc_type r \<noteq> TypeCustom then eb\<lparr>eb_template := Some (templateOf r)\<rparr> else eb)
      else None)"

definition entry_for :: "compose_files \<Rightarrow> backup_config list \<Rightarrow> backup_config \<Rightarrow> effective_backup option" where
  "entry_for cf ovs r =
     (case override_of ovs (bc_name r) of
        None \<Rightarrow> layered cf r r
      | Some ov \<Rightarrow> if bc_type ov \<noteq> [] \<and> bc_type ov \<noteq> bc_type r then None else layered cf r (merge r ov))"

lemma whole_entry_ok: "whole_entry cf r c f = Inr eb \<longleftrightarrow> layered cf r c = Some eb"
  using validate_valid [of c cf f] by (cases "validate c cf f") (auto simp: whole_entry_def layered_def Let_def)

lemma effective_entry_ok:
  assumes "indexOverrides ovs = Inr m"
  shows "effective_entry cf ovs m i r = Inr eb \<longleftrightarrow> entry_for cf ovs r = Some eb"
  using indexOverrides_ok(3) [OF assms, of "bc_name r"]
  by (auto simp: effective_entry_def entry_for_def Let_def whole_entry_ok split: option.splits)

lemma collect_Inr:
  "collect f i xs = Inr ys \<longleftrightarrow> length ys = length xs \<and> (\<forall>k < length xs. f (i + k) (xs ! k) = Inr (ys ! k))"
proof (induction xs arbitrary: i ys)
  case (Cons x xs)
  show ?case
  proof (cases ys)
    case (Cons y zs)
    have "(\<forall>k < length (x # xs). f (i + k) ((x # xs) ! k) = Inr ((y # zs) ! k)) \<longleftrightarrow>
        f i x = Inr y \<and> (\<forall>k < length xs. f (Suc i + k) (xs ! k) = Inr (zs ! k))"
      by (auto simp: nth_Cons less_Suc_eq_0_disj split: nat.split)
    then show ?thesis using Cons Cons.IH [of "Suc i" zs] by (auto split: sum.split)
  qed (auto split: sum.split)
qed auto

definition new_backup :: "compose_files \<Rightarrow> backup_config \<Rightarrow> bool" where
  "new_backup cf ov \<longleftrightarrow> bc_name ov \<notin> set (map bc_name (cf_recipe cf)) \<and> bc_type ov \<noteq> []"

lemma added_entry_ok: "added_entry cf j ov = Inr y \<longleftrightarrow> valid cf ov \<and> y = finish ov False []"
  using validate_valid [of ov cf "indexed ''backups'' j"] by (auto simp: added_entry_def split: option.split)

lemma collect_added_Inr:
  "collect_added cf j ovs = Inr ys \<longleftrightarrow>
    list_all (valid cf) (filter (new_backup cf) ovs) \<and> ys = map (\<lambda>ov. finish ov False []) (filter (new_backup cf) ovs)"
proof (induction ovs arbitrary: j ys)
  case (Cons ov ovs)
  show ?case
  proof (cases "new_backup cf ov")
    case True
    then have "\<not> (bc_name ov \<in> set (map bc_name (cf_recipe cf)) \<or> bc_type ov = [])" by (simp add: new_backup_def)
    then show ?thesis
      using True added_entry_ok [of cf j ov] Cons.IH [of "Suc j"] by (auto simp: result_Inr)
  next
    case False
    then have "bc_name ov \<in> set (map bc_name (cf_recipe cf)) \<or> bc_type ov = []" by (auto simp: new_backup_def)
    with False Cons show ?thesis by simp
  qed
qed auto

text \<open>An effective list, entry by entry.\<close>

lemma Effective_ok:
  assumes "indexOverrides ovs = Inr m"
  shows "Effective cf ovs = Inr ebs \<longleftrightarrow>
    list_all (valid cf) (cf_recipe cf) \<and>
    (\<exists>out. length out = length (cf_recipe cf) \<and>
      (\<forall>k < length (cf_recipe cf). entry_for cf ovs (cf_recipe cf ! k) = Some (out ! k)) \<and>
      list_all (valid cf) (filter (new_backup cf) ovs) \<and>
      ebs = out @ map (\<lambda>ov. finish ov False []) (filter (new_backup cf) ovs))"
proof -
  have v: "Validate cf = None \<longleftrightarrow> list_all (valid cf) (cf_recipe cf)"
    by (auto simp: Validate_def first_error_None validate_valid list_all_length)
  have c: "collect (effective_entry cf ovs m) 0 (cf_recipe cf) = Inr out \<longleftrightarrow>
      length out = length (cf_recipe cf) \<and> (\<forall>k < length (cf_recipe cf). entry_for cf ovs (cf_recipe cf ! k) = Some (out ! k))" for out
    using assms by (simp add: collect_Inr effective_entry_ok)
  show ?thesis
    unfolding Effective_def v [symmetric] error_Inr result_Inr assms sum.case c collect_added_Inr by auto
qed

text \<open>The cleaned list.\<close>

lemma clean_one_name: "fst (clean_one cf ov) = [] \<or> (\<exists>x. fst (clean_one cf ov) = [x] \<and> bc_name x = bc_name ov)"
  by (auto simp: clean_one_def Let_def split: option.split)

lemma clean_names: "\<exists>P. map bc_name (concat (map (fst \<circ> clean_one cf) ovs)) = map bc_name (filter P ovs)"
proof (intro exI)
  show "map bc_name (concat (map (fst \<circ> clean_one cf) ovs)) = map bc_name (filter (\<lambda>ov. fst (clean_one cf ov) \<noteq> []) ovs)"
  proof (induction ovs)
    case (Cons ov ovs)
    then show ?case using clean_one_name [of cf ov] by auto
  qed simp
qed

lemma clean_new: "filter (new_backup cf) (concat (map (fst \<circ> clean_one cf) ovs)) = filter (new_backup cf) ovs"
proof (induction ovs)
  case (Cons ov ovs)
  have "filter (new_backup cf) (fst (clean_one cf ov)) = (if new_backup cf ov then [ov] else [])"
    by (auto simp: clean_one_def recipe_of_def new_backup_def Let_def find_None_iff split: option.split
        dest!: find_SomeD intro: rev_image_eqI)
  then show ?case using Cons by simp
qed simp

lemma recipe_of_mem:
  assumes "distinct (map bc_name (cf_recipe cf))" "r \<in> set (cf_recipe cf)"
  shows "recipe_of cf (bc_name r) = Some r"
proof (cases "recipe_of cf (bc_name r)")
  case None
  with assms(2) show ?thesis by (auto simp: recipe_of_def find_None_iff)
next
  case (Some r')
  then have "r' \<in> set (cf_recipe cf)" "bc_name r' = bc_name r"
    by (auto simp: recipe_of_def dest!: find_SomeD)
  with assms Some show ?thesis by (auto dest: inj_onD simp: distinct_map)
qed

lemma clean_override:
  assumes "recipe_of cf name = Some r"
  shows "distinct (map bc_name ovs) \<Longrightarrow> override_of (concat (map (fst \<circ> clean_one cf) ovs)) name =
    (case override_of ovs name of None \<Rightarrow> None
     | Some ov \<Rightarrow> if empty_config (minimize r ov) then None else Some (minimize r ov))"
proof (induction ovs)
  case (Cons ov ovs)
  show ?case
  proof (cases "bc_name ov = name")
    case True
    with Cons.prems have "override_of ovs name = None" by (auto simp: override_of_def find_None_iff image_iff)
    with Cons True assms show ?thesis
      by (auto simp: override_of_def clean_one_def Let_def)
  next
    case False
    then have "find (\<lambda>ov. bc_name ov = name) (fst (clean_one cf ov)) = None"
      using clean_one_name [of cf ov] by auto
    then have "override_of (fst (clean_one cf ov) @ xs) name = override_of xs name" for xs
      by (simp add: override_of_def find_append)
    with False Cons show ?thesis by (simp add: override_of_def)
  qed
qed (simp add: override_of_def)

lemma effective_of_cleaned:
  assumes "recipe_parsed cf" "Effective cf ovs = Inr ebs"
  shows "Effective cf (fst (Clean cf ovs)) = Inr ebs"
proof (cases "cf_unparsed cf")
  case True
  then show ?thesis using assms(2) by (simp add: Clean_def)
next
  case False
  let ?new = "concat (map (fst \<circ> clean_one cf) ovs)"
  from assms(2) obtain m where m: "indexOverrides ovs = Inr m" by (auto simp: Effective_def error_Inr result_Inr)
  note names = indexOverrides_ok(1,2) [OF m]
  from assms(2) [unfolded Effective_ok [OF m]] obtain out where
    val: "list_all (valid cf) (cf_recipe cf)" and
    out: "length out = length (cf_recipe cf)" "\<forall>k < length (cf_recipe cf). entry_for cf ovs (cf_recipe cf ! k) = Some (out ! k)" and
    new: "list_all (valid cf) (filter (new_backup cf) ovs)" "ebs = out @ map (\<lambda>ov. finish ov False []) (filter (new_backup cf) ovs)"
    by blast
  obtain P where P: "map bc_name ?new = map bc_name (filter P ovs)" using clean_names by blast
  have "list_all ValidateName (map bc_name ?new)" "distinct (map bc_name ?new)"
    unfolding P using names by (auto simp: list_all_iff distinct_map_filter)
  then obtain m' where m': "indexOverrides ?new = Inr m'"
    using index_from_ex [of ?new "[]" 0] by (auto simp: indexOverrides_def list_all_iff)
  have "entry_for cf ?new r = Some eb" if r: "r \<in> set (cf_recipe cf)" and e: "entry_for cf ovs r = Some eb" for r eb
  proof (cases "override_of ovs (bc_name r)")
    case None
    then show ?thesis
      using e clean_override [OF recipe_of_mem names(2)] r assms(1) by (simp add: entry_for_def recipe_parsed_def)
  next
    case (Some ov)
    have rc: "override_of ?new (bc_name r) = (if empty_config (minimize r ov) then None else Some (minimize r ov))"
      using clean_override [OF recipe_of_mem names(2)] r assms(1) Some by (simp add: recipe_parsed_def)
    have off: "\<not> bc_enabled r" "bc_storage r = []" using assms(1) r by (auto simp: recipe_parsed_def list_all_iff)
    have vr: "valid cf r" using val r by (simp add: list_all_iff)
    from e Some have l: "layered cf r (merge r ov) = Some eb" by (auto simp: entry_for_def split: if_splits)
    then have "valid cf (merge r ov)" by (auto simp: layered_def split: if_splits)
    from minimize_valid [OF vr this] l have "layered cf r (merge r (minimize r ov)) = Some eb"
      using reads_same_finish [OF minimize_reads_same [of r ov]] by (auto simp: layered_def Let_def split: if_splits)
    then show ?thesis using rc empty_merge [OF _ off] by (auto simp: entry_for_def)
  qed
  with out have "\<forall>k < length (cf_recipe cf). entry_for cf ?new (cf_recipe cf ! k) = Some (out ! k)" by simp
  then have "Effective cf ?new = Inr ebs"
    unfolding Effective_ok [OF m'] clean_new using val out(1) new by blast
  then show ?thesis using False by (simp add: Clean_def)
qed

text \<open>Cleaning twice is cleaning once.\<close>

lemma minimize_idem: "minimize r (minimize r ov) = minimize r ov"
  by (simp add: minimize_def Let_def)

lemma clean_one_again: "x \<in> set (fst (clean_one cf ov)) \<Longrightarrow> clean_one cf x = ([x], [])"
  by (auto simp: clean_one_def Let_def minimize_idem split: option.splits if_splits)

lemma Clean_idem: "Clean cf (fst (Clean cf ovs)) = (fst (Clean cf ovs), [])"
proof (cases "cf_unparsed cf")
  case False
  have "concat (map (fst \<circ> clean_one cf) xs) = xs \<and> concat (map (snd \<circ> clean_one cf) xs) = []"
    if "\<And>x. x \<in> set xs \<Longrightarrow> clean_one cf x = ([x], [])" for xs
    using that by (induction xs) auto
  from this [of "concat (map (fst \<circ> clean_one cf) ovs)"] clean_one_again show ?thesis
    using False by (fastforce simp: Clean_def)
qed (simp add: Clean_def)

text \<open>C38. Storing the cleaned list of overrides changes nothing that runs: when an app's overrides make
  effective backups, the list \<open>Clean\<close> stores makes the same ones, and cleaning it again drops nothing.\<close>

theorem clean_keeps_effective:
  assumes "recipe_parsed cf" "Effective cf ovs = Inr ebs"
  shows "Effective cf (fst (Clean cf ovs)) = Inr ebs \<and> Clean cf (fst (Clean cf ovs)) = (fst (Clean cf ovs), [])"
  using effective_of_cleaned [OF assms] Clean_idem by blast

subsection \<open>Effective backups\<close>

lemma Effective_mem:
  assumes "Effective cf ovs = Inr ebs" "eb \<in> set ebs"
  shows "\<exists>c b frm tpl. valid cf c \<and> eb = (finish c b frm)\<lparr>eb_template := tpl\<rparr>"
proof -
  from assms(1) obtain m where m: "indexOverrides ovs = Inr m" by (auto simp: Effective_def error_Inr result_Inr)
  from assms(1) [unfolded Effective_ok [OF m]] obtain out where
    out: "length out = length (cf_recipe cf)" "\<forall>k < length (cf_recipe cf). entry_for cf ovs (cf_recipe cf ! k) = Some (out ! k)" and
    new: "list_all (valid cf) (filter (new_backup cf) ovs)" "ebs = out @ map (\<lambda>ov. finish ov False []) (filter (new_backup cf) ovs)"
    by blast
  have l: "\<exists>c b frm tpl. valid cf c \<and> e = (finish c b frm)\<lparr>eb_template := tpl\<rparr>" if "layered cf r c = Some e" for r c e
  proof -
    let ?e = "finish c True (fromRecipe r c)"
    from that have "valid cf c" "e = ?e \<or> e = ?e\<lparr>eb_template := Some (templateOf r)\<rparr>"
      by (auto simp: layered_def Let_def split: if_splits)
    moreover have "?e = ?e\<lparr>eb_template := None\<rparr>" by (simp add: finish_def Let_def)
    ultimately show ?thesis by blast
  qed
  show ?thesis
  proof (cases "eb \<in> set out")
    case True
    then obtain k where "k < length (cf_recipe cf)" "eb = out ! k" using out(1) by (metis in_set_conv_nth)
    with out(2) have "entry_for cf ovs (cf_recipe cf ! k) = Some eb" by simp
    then show ?thesis using l by (auto simp: entry_for_def split: option.splits if_splits)
  next
    case False
    then obtain c where "valid cf c" "eb = finish c False []" using assms(2) new by (auto simp: list_all_iff)
    moreover have "finish c False [] = (finish c False [])\<lparr>eb_template := None\<rparr>" by (simp add: finish_def Let_def)
    ultimately show ?thesis by blast
  qed
qed

lemma finish_simps [simp]:
  "eb_name (finish c b frm) = bc_name c" "eb_type (finish c b frm) = bc_type c"
  "eb_enabled (finish c b frm) = bc_enabled c" "eb_storage (finish c b frm) = bc_storage c"
  "eb_volume (finish c b frm) = bc_volume c" "eb_path (finish c b frm) = bc_path c"
  "eb_paths (finish c b frm) = List (bc_paths c)"
  "eb_every (finish c b frm) = (if bc_type c = TypeCustom then [] else if bc_every c = [] then DefaultEvery else bc_every c)"
  "eb_keep (finish c b frm) = (if bc_type c = TypeCustom then None else Some (keep_of (Retention (bc_keep c))))"
  by (simp_all add: finish_def Let_def)

lemma ParseDuration_bound: "ParseDuration s = Some d \<Longrightarrow> d \<le> max_duration"
proof -
  assume "ParseDuration s = Some d"
  then consider "d = 0" | n where "d = - int n" | n where "d = int n" "n \<le> 2 ^ 63 - 1"
    by (auto simp: ParseDuration_def Let_def split: if_splits option.splits list.splits)
  then show ?thesis by cases (auto simp: max_duration_def)
qed

lemma duration_string_nonempty: "duration_string d \<noteq> []"
  using show_nat_digits by (auto simp: duration_string_def Let_def split: prod.split)

lemma valid_retention:
  assumes "valid cf c" "bc_type c \<noteq> TypeCustom"
  shows "0 \<le> rt_recent (Retention (bc_keep c))" "rt_recent (Retention (bc_keep c)) \<le> max_duration"
  using valid_keep [OF assms]
  by (auto simp: Retention_def validateKeep_def DefaultRecent_def hour_def max_duration_def seq_None guard_None
      split: option.splits if_splits dest: ParseDuration_bound)

lemma retention_text:
  assumes "0 \<le> rt_recent r" "rt_recent r \<le> max_duration"
  shows "Retention (Some (keep_of r)) = r"
  using ParseDuration_string [OF assms] duration_string_nonempty by (simp add: Retention_def keep_of_def)

lemma valid_every:
  assumes "valid cf c" "bc_type c \<noteq> TypeCustom" "bc_every c \<noteq> []" "bc_every c \<noteq> Manual"
  shows "\<exists>d. ParseDuration (bc_every c) = Some d \<and> MinEvery \<le> d"
  using assms by (auto simp: valid_def validate_def validateEvery_def seq_None split: if_splits option.splits)

lemma default_every: "ParseDuration DefaultEvery = Some hour"
  using parse_small [OF no_fraction, of "''h''" 3600000000000 1] show_nat_1
  by (simp add: DefaultEvery_def hour_def unit_map_def)

lemma valid_tiers:
  assumes "valid cf c" "bc_type c \<noteq> TypeCustom"
  shows "0 \<le> rt_daily (Retention (bc_keep c))" "rt_daily (Retention (bc_keep c)) \<le> 3650"
    "0 \<le> rt_monthly (Retention (bc_keep c))" "rt_monthly (Retention (bc_keep c)) \<le> 3650"
  using valid_keep [OF assms]
  by (auto simp: Retention_def validateKeep_def bad_count_def maxTier_def DefaultDaily_def DefaultMonthly_def seq_None guard_None
      split: option.splits if_splits)

text \<open>A backup the agent can run as it stands: nothing of it has to be filled in by a default.\<close>

definition runnable :: "effective_backup \<Rightarrow> bool" where
  "runnable b \<longleftrightarrow> nameRE (eb_name b) \<and> (if eb_enabled b then nameRE (eb_storage b) else True) \<and>
     (if Builtin b
      then (eb_every b = ''manual'' \<and> Interval b = 0 \<or>
            (\<exists>d. ParseDuration (eb_every b) = Some d \<and> 5 * minute \<le> d \<and> Interval b = d)) \<and>
           (\<exists>k d n m. eb_keep b = Some k \<and> ParseDuration (kp_recent k) = Some d \<and> 0 \<le> d \<and>
              kp_daily k = Some n \<and> 0 \<le> n \<and> n \<le> 3650 \<and> kp_monthly k = Some m \<and> 0 \<le> m \<and> m \<le> 3650 \<and>
              Retention (eb_keep b) = \<lparr>rt_recent = d, rt_daily = n, rt_monthly = m\<rparr>)
      else eb_type b = TypeCustom \<and> eb_every b = [] \<and> Interval b = 0 \<and> eb_keep b = None)"

lemma valid_runnable:
  assumes "valid cf c"
  shows "runnable ((finish c b frm)\<lparr>eb_template := tpl\<rparr>)"
proof -
  let ?b = "(finish c b frm)\<lparr>eb_template := tpl\<rparr>"
  have names: "nameRE (bc_name c)" "bc_enabled c \<Longrightarrow> nameRE (bc_storage c)"
    using assms by (auto simp: valid_def validate_def ValidateName_def split: if_splits)
  show ?thesis
  proof (cases "bc_type c = TypeCustom")
    case True
    with names show ?thesis
      by (auto simp: runnable_def Builtin_def Interval_def TypeCustom_def TypeSQLite_def TypeFiles_def)
  next
    case False
    have t: "bc_type c = TypeSQLite \<or> bc_type c = TypeFiles"
      using assms False by (auto simp: valid_def validate_def split: if_splits)
    have every: "eb_every ?b = ''manual'' \<and> Interval ?b = 0 \<or>
        (\<exists>d. ParseDuration (eb_every ?b) = Some d \<and> 5 * minute \<le> d \<and> Interval ?b = d)"
    proof (cases "bc_every c = Manual")
      case True
      then show ?thesis using False by (simp add: Interval_def Manual_def)
    next
      case own: False
      have "\<exists>d. ParseDuration (eb_every ?b) = Some d \<and> MinEvery \<le> d" "eb_every ?b \<noteq> []" "eb_every ?b \<noteq> Manual"
        using valid_every [OF assms False _ own] default_every False own
        by (auto simp: MinEvery_def minute_def hour_def DefaultEvery_def Manual_def)
      then show ?thesis by (auto simp: Interval_def MinEvery_def)
    qed
    let ?r = "Retention (bc_keep c)"
    have keep: "eb_keep ?b = Some (keep_of ?r)" "Retention (eb_keep ?b) = ?r" "ParseDuration (kp_recent (keep_of ?r)) = Some (rt_recent ?r)"
      using False retention_text [OF valid_retention [OF assms False]] ParseDuration_string [OF valid_retention [OF assms False]]
      by (simp_all add: keep_of_def)
    have "Builtin ?b" using t by (auto simp: Builtin_def)
    moreover have "\<exists>k d n m. eb_keep ?b = Some k \<and> ParseDuration (kp_recent k) = Some d \<and> 0 \<le> d \<and>
              kp_daily k = Some n \<and> 0 \<le> n \<and> n \<le> 3650 \<and> kp_monthly k = Some m \<and> 0 \<le> m \<and> m \<le> 3650 \<and>
              Retention (eb_keep ?b) = \<lparr>rt_recent = d, rt_daily = n, rt_monthly = m\<rparr>"
      by (intro exI [of _ "keep_of ?r"] exI [of _ "rt_recent ?r"] exI [of _ "rt_daily ?r"] exI [of _ "rt_monthly ?r"])
        (use keep valid_tiers [OF assms False] valid_retention(1) [OF assms False] in \<open>simp add: keep_of_def\<close>)
    ultimately show ?thesis using names every unfolding runnable_def by simp
  qed
qed

text \<open>C39. Every effective backup can run as it is: its name is one and an enabled one has a storage. A
  built-in one is manual, with no interval, or its schedule reads as a duration of at least five minutes
  that is its interval; its retention is written out in full, each part reads back, none is negative and
  the counts are at most 3650. A custom one has no schedule and no retention.\<close>

theorem effective_runnable:
  assumes "Effective cf ovs = Inr ebs" "eb \<in> set ebs"
  shows "runnable eb"
  using Effective_mem [OF assms] valid_runnable by blast

subsection \<open>Paths\<close>

definition inside :: "bool \<Rightarrow> string list \<Rightarrow> string \<Rightarrow> bool" where
  "inside in_volume base p \<longleftrightarrow>
     (let q = (if in_volume then p else tl p) in
      (if in_volume then True else p = slash # q) \<and>
      foldl (clean_step True) base (split_on slash q) = base @ split_on slash q)"

lemma checkPath_inside: "checkPath v f p = None \<Longrightarrow> inside v base p"
proof (cases v)
  case True
  assume "checkPath v f p = None"
  with True have "list_all plain (split_on slash p)"
    by (intro clean_relative) (simp_all add: checkPath_def validateRelPath_def split: if_splits)
  with True resolve_plain show ?thesis by (simp add: inside_def)
next
  case False
  assume "checkPath v f p = None"
  with False have "p = slash # tl p \<and> list_all plain (split_on slash (tl p))"
    by (intro clean_absolute) (simp_all add: checkPath_def validateAbsPath_def split: if_splits)
  with False resolve_plain show ?thesis by (simp add: inside_def Let_def)
qed

lemma check_paths_ok:
  "check_paths v f i seen ps = None \<Longrightarrow>
    list_all (inside v base) ps \<and> distinct ps \<and> set ps \<inter> set seen = {}"
proof (induction ps arbitrary: i seen)
  case (Cons p ps)
  from Cons.prems have "checkPath v (indexed (f @ ''.paths'') i) p = None" "p \<notin> set seen"
    "check_paths v f (Suc i) (p # seen) ps = None"
    by (auto simp: Let_def split: option.splits if_splits)
  with Cons.IH [of "Suc i" "p # seen"] show ?case by (auto simp: checkPath_inside)
qed simp

text \<open>C40. What a built-in backup copies stays where it is meant to: each path of an effective backup, resolved
  from any directory, ends below that directory (below the volume when it names one, below the
  container's root otherwise), no path is listed twice and none lies inside another.\<close>

theorem effective_paths_inside:
  assumes "Effective cf ovs = Inr ebs" "eb \<in> set ebs" "Builtin eb"
  shows "list_all (inside (eb_volume eb \<noteq> []) base) (eb_paths eb) \<and>
    (eb_path eb = [] \<or> inside (eb_volume eb \<noteq> []) base (eb_path eb)) \<and> distinct (eb_paths eb) \<and>
    (\<forall>p \<in> set (eb_paths eb). \<forall>q \<in> set (eb_paths eb). \<not> has_prefix (q @ ''/'') p)"
proof -
  from Effective_mem [OF assms(1,2)] obtain c b frm tpl where
    c: "valid cf c" "eb = (finish c b frm)\<lparr>eb_template := tpl\<rparr>" by blast
  have "bc_type c \<noteq> TypeCustom"
    using assms(3) c(2) by (auto simp: Builtin_def TypeCustom_def TypeSQLite_def TypeFiles_def)
  with c(1) have k: "check_content c [] = None" by (auto simp: valid_def validate_def seq_None split: if_splits)
  show ?thesis
  proof (cases "bc_type c = TypeSQLite")
    case True
    with k c(2) show ?thesis by (auto simp: check_content_def Let_def checkPath_inside split: if_splits)
  next
    case False
    let ?ps = "List (bc_paths c)"
    from k False have ps: "bc_path c = []" "check_paths (bc_volume c \<noteq> []) [] 0 [] ?ps = None"
      "first_error (\<lambda>i p. map_option (\<lambda>q. Invalid (indexed ([] @ ''.paths'') i) (InsideListed p q)) (nested_path ?ps p)) 0 ?ps = None"
      by (auto simp: check_content_def Let_def seq_None split: if_splits)
    have "\<not> has_prefix (q @ ''/'') p" if "p \<in> set ?ps" "q \<in> set ?ps" for p q
    proof -
      from that(1) obtain k where "k < length ?ps" "p = ?ps ! k" by (metis in_set_conv_nth)
      with ps(3) have "nested_path ?ps p = None" by (auto simp: first_error_None)
      with that(2) have "p = q \<or> \<not> has_prefix (q @ ''/'') p" by (auto simp: nested_path_def find_None_iff)
      moreover have "\<not> has_prefix (p @ ''/'') p" by (simp add: has_prefix_def)
      ultimately show ?thesis by auto
    qed
    then show ?thesis using check_paths_ok [OF ps(2), of base] ps(1) c(2) by auto
  qed
qed

subsection \<open>An example\<close>

text \<open>A recipe and an override at which the properties above apply.\<close>

definition sample_backup :: backup_config where
  "sample_backup = \<lparr>bc_name = ''db'', bc_type = TypeSQLite, bc_enabled = False, bc_storage = [], bc_every = ''30m'',
     bc_keep = None, bc_volume = ''data'', bc_service = [], bc_path = ''app.db'', bc_paths = None, bc_exclude = None\<rparr>"

definition sample_recipe :: compose_files where
  "sample_recipe = \<lparr>cf_volumes = [(''data'', True)], cf_services = [], cf_recipe = [sample_backup], cf_unparsed = False\<rparr>"

definition sample_override :: backup_config where
  "sample_override = sample_backup\<lparr>bc_enabled := True, bc_storage := ''s3'', bc_every := ''1h''\<rparr>"

lemma sample_names: "nameRE ''db''" "nameRE ''s3''" by code_simp+

lemma sample_path: "validateRelPath f ''app.db'' = None"
proof -
  have "Clean_path ''app.db'' = ''app.db''" "\<not> hasControl ''app.db''" "\<not> has_prefix ''/'' ''app.db''"
    "\<not> has_prefix ''../'' ''app.db''" "\<not> maxPathLen < length ''app.db''" by code_simp+
  then show ?thesis by (simp add: validateRelPath_def)
qed

lemmas sample_defs = sample_recipe_def sample_override_def sample_backup_def

lemma sample_valid: "validate sample_backup sample_recipe f = None" 
   "validate (merge sample_backup sample_override) sample_recipe f = None"
  by (simp_all add: sample_defs merge_def validate_def sample_names ValidateName_def validateEvery_def duration_examples validateKeep_def
      check_target_def check_content_def checkPath_def List_def TypeCustom_def TypeSQLite_def TypeFiles_def sample_path
      MinEvery_def hour_def minute_def second_def)

lemma sample_effective: "Effective sample_recipe [sample_override] =
   Inr [(finish (merge sample_backup sample_override) True (fromRecipe sample_backup (merge sample_backup sample_override)))
     \<lparr>eb_template := Some (templateOf sample_backup)\<rparr>]"
proof -
  have t: "bc_type sample_backup \<noteq> TypeCustom" "bc_type sample_override = bc_type sample_backup" "bc_name sample_override = ''db''"
    "bc_name sample_backup = ''db''" "cf_recipe sample_recipe = [sample_backup]"
    by (simp_all add: sample_defs TypeCustom_def TypeSQLite_def)
  show ?thesis
    by (simp add: Effective_def Validate_def t sample_valid indexOverrides_def ValidateName_def sample_names effective_entry_def
        whole_entry_def Let_def)
qed

theorem clean_keeps_effective_witness:
  "fst (Clean sample_recipe [sample_override]) = [minimize sample_backup sample_override] \<and>
   Effective sample_recipe [minimize sample_backup sample_override] = Effective sample_recipe [sample_override] \<and>
   Clean sample_recipe [minimize sample_backup sample_override] = ([minimize sample_backup sample_override], [])"
proof -
  have c: "fst (Clean sample_recipe [sample_override]) = [minimize sample_backup sample_override]"
    by (simp add: Clean_def clean_one_def recipe_of_def sample_defs minimize_def empty_config_def)
  have "recipe_parsed sample_recipe" by (simp add: recipe_parsed_def sample_defs)
  from clean_keeps_effective [OF this sample_effective] show ?thesis unfolding c sample_effective by simp
qed

theorem effective_runnable_witness:
  "\<exists>eb. Effective sample_recipe [sample_override] = Inr [eb] \<and> eb_enabled eb \<and> runnable eb"
  using effective_runnable [OF sample_effective list.set_intros(1)] sample_effective
  by (simp add: finish_def Let_def merge_def sample_defs TypeCustom_def TypeSQLite_def)

theorem effective_paths_inside_witness:
  "\<exists>eb. Effective sample_recipe [sample_override] = Inr [eb] \<and> eb_path eb = ''app.db'' \<and> inside True [''v''] (eb_path eb)"
proof -
  let ?eb = "(finish (merge sample_backup sample_override) True (fromRecipe sample_backup (merge sample_backup sample_override)))
     \<lparr>eb_template := Some (templateOf sample_backup)\<rparr>"
  have p: "eb_path ?eb = ''app.db''" "eb_volume ?eb = ''data''" "Builtin ?eb"
    by (simp_all add: finish_def Let_def merge_def sample_defs TypeCustom_def TypeSQLite_def Builtin_def)
  have "inside True [''v''] (eb_path ?eb)"
    using effective_paths_inside [OF sample_effective list.set_intros(1) p(3), of "[''v'']"] p(1,2) by simp
  with sample_effective p(1) show ?thesis by blast
qed

end
