(* ===== verification/Scheduler.thy ===== *)
theory Scheduler
  imports Recipe Status_Cache "HOL-Library.Word"
begin

unbundle bit_operations_syntax

text \<open>
  The agent's backup scheduler, \<open>internal/app/agent/backup/scheduler.go\<close>: its state and every section
  that runs under its mutex, as a function from state to state. The goroutines that run these sections
  are in theory \<open>Scheduler_Run\<close>. A job is a record with a number of its own, which also names the channel
  its request reads; what is mutable about a job (its context, whether it was awaited or abandoned) is
  kept by that number. The engine, the clock and the disk are outside: their answers are arguments.
\<close>

subsection \<open>Limits\<close>

definition RestoreStopBudget :: duration where
  "RestoreStopBudget = 3 * (30 * second) + 10 * second + second + 30 * second + 30 * second + 2 * minute"

definition BackupRunWait :: duration where "BackupRunWait = 2 * hour"

definition RunTimeout :: duration where "RunTimeout = 30 * minute"
definition RestoreTimeout :: duration where "RestoreTimeout = hour"
definition restoreGrace :: duration where "restoreGrace = RestoreStopBudget"
definition sweepEvery :: duration where "sweepEvery = 24 * hour"
definition sweepTimeout :: duration where "sweepTimeout = 15 * minute"
definition abandonAfter :: duration where "abandonAfter = minute"
definition idleWait :: duration where "idleWait = 24 * hour"
definition tombstoneTTL :: duration where "tombstoneTTL = 10 * minute"

definition restoreQueueWait :: duration where
  "restoreQueueWait = BackupRunWait - RestoreTimeout - restoreGrace - abandonAfter - sweepTimeout - 5 * minute"

subsection \<open>Data\<close>

datatype point_kind = PointScheduled | PointManual | PointPreRestore

record restore_point =
  pt_id :: string
  pt_time :: int
  pt_kind :: point_kind
  pt_size :: int
  pt_expires :: int

record backup_result =
  br_unchanged :: bool
  br_point :: "restore_point option"
  br_fingerprint :: string
  br_size :: int
  br_warnings :: "string list"

record run_response =
  rr_app :: string
  rr_backup :: string
  rr_unchanged :: bool
  rr_point :: "restore_point option"
  rr_warnings :: "string list"

record restore_response =
  xr_app :: string
  xr_backup :: string
  xr_restored :: string
  xr_pre_restore :: string
  xr_warnings :: "string list"

definition no_result :: backup_result where
  "no_result = \<lparr>br_unchanged = False, br_point = None, br_fingerprint = [], br_size = 0, br_warnings = []\<rparr>"

definition no_run :: run_response where
  "no_run = \<lparr>rr_app = [], rr_backup = [], rr_unchanged = False, rr_point = None, rr_warnings = []\<rparr>"

definition no_restore :: restore_response where
  "no_restore = \<lparr>xr_app = [], xr_backup = [], xr_restored = [], xr_pre_restore = [], xr_warnings = []\<rparr>"

text \<open>The engine's errors are texts; whether one is \<open>ErrNotRunnable\<close> is a flag.\<close>

datatype ctx_end = Live | DeadlinePassed | AppDeletedCause | ParentStopped

datatype sched_error = AppWasDeleted | ErrStopped | ErrStillStopping | ErrDeleting | ErrQueueWait
  | AlreadyQueued string | RestoreQueued | DidNotStop string duration | RunStopped ctx_end
  | EngineError string bool | StoppedBy sched_error

fun ctx_text :: "ctx_end \<Rightarrow> string" where
  "ctx_text DeadlinePassed = ''context deadline exceeded''"
| "ctx_text _ = ''context canceled''"

fun error_text :: "sched_error \<Rightarrow> string" where
  "error_text AppWasDeleted = ''the app was deleted''"
| "error_text ErrStopped = ''the agent is stopping''"
| "error_text ErrStillStopping = ''a previous backup or restore of this app is still stopping (its storage or Docker is not answering)''"
| "error_text ErrDeleting = ''the app is being deleted''"
| "error_text ErrQueueWait = ''the restore waited too long behind other backups and was not started; try again''"
| "error_text (AlreadyQueued name) = ''a backup of '' @ name @ '' is already queued or running''"
| "error_text RestoreQueued = ''a restore of this app is already queued or running''"
| "error_text (DidNotStop noun limit) = ''the '' @ noun @ '' did not stop after its time limit of '' @ duration_string limit"
| "error_text (RunStopped c) = ''the run was stopped: '' @ ctx_text c"
| "error_text (EngineError t _) = t"
| "error_text (StoppedBy e) = ''the agent is stopping: '' @ error_text e"

fun not_runnable :: "sched_error \<Rightarrow> bool" where
  "not_runnable (EngineError _ b) = b"
| "not_runnable (StoppedBy e) = not_runnable e"
| "not_runnable _ = False"

text \<open>One backup's record in the state file, an app's backup as a key, and what a request learns.\<close>

record backup_state =
  bs_attempt :: time
  bs_success :: time
  bs_error :: string
  bs_size :: int
  bs_fingerprint :: string
  bs_enabled_at :: time

definition new_state :: backup_state where
  "new_state = \<lparr>bs_attempt = zero_time, bs_success = zero_time, bs_error = [], bs_size = 0, bs_fingerprint = [],
     bs_enabled_at = zero_time\<rparr>"

record outcome =
  oc_result :: run_response
  oc_restore :: restore_response
  oc_err :: "sched_error option"

definition failed :: "sched_error \<Rightarrow> outcome" where
  "failed e = \<lparr>oc_result = no_run, oc_restore = no_restore, oc_err = Some e\<rparr>"

type_synonym bkey = "string \<times> string"

definition key_string :: "bkey \<Rightarrow> string" where
  "key_string k = fst k @ ''/'' @ snd k"

record tomb =
  tb_gen :: nat
  tb_until :: time

record job =
  jb_id :: nat
  jb_key :: bkey
  jb_kind :: "point_kind option"
  jb_point :: string
  jb_queued :: time
  jb_limit :: duration

abbreviation jb_app :: "job \<Rightarrow> string" where "jb_app j \<equiv> fst (jb_key j)"

record planned =
  pl_app :: string
  pl_backup :: effective_backup

abbreviation pl_name :: "planned \<Rightarrow> string" where "pl_name p \<equiv> eb_name (pl_backup p)"

text \<open>The scheduler. \<open>sc_waiters\<close> are the jobs whose request has not been answered, \<open>sc_answers\<close> what was sent on
  the channels, in order; \<open>sc_jobs\<close> numbers jobs. \<open>sc_disk\<close> says which of the coming writes of the state
  file fail.\<close>

record sched =
  sc_run_timeout :: duration
  sc_restore_timeout :: duration
  sc_next_sweep :: time
  sc_plan :: "planned list"
  sc_state :: "(string, backup_state) gomap"
  sc_file :: "(string, backup_state) gomap"
  sc_disk :: "bool list"
  sc_dirty :: bool
  sc_queue :: "job list"
  sc_running :: "job option"
  sc_stuck :: "(string, nat) gomap"
  sc_gen :: nat
  sc_forgotten :: "(string, nat) gomap"
  sc_deleting :: "(string, tomb) gomap"
  sc_stopped :: bool
  sc_wake :: bool
  sc_changed :: bool
  sc_jobs :: nat
  sc_waiters :: "nat list"
  sc_answers :: "(nat \<times> outcome) list"
  sc_ctx :: "(nat, ctx_end) gomap"
  sc_awaited :: "nat list"
  sc_abandoned :: "nat list"

text \<open>\<open>load\<close>: a file that cannot be read is an empty state, a null entry is dropped.\<close>

definition load_state :: "(string \<times> backup_state option) list option \<Rightarrow> (string, backup_state) gomap" where
  "load_state f =
     (case f of None \<Rightarrow> []
      | Some st \<Rightarrow> fold (\<lambda>(k, v) m. case v of None \<Rightarrow> m | Some v \<Rightarrow> mput k v m) st [])"

definition NewScheduler :: "(string \<times> backup_state option) list option \<Rightarrow> bool list \<Rightarrow> sched" where
  "NewScheduler f disk =
     \<lparr>sc_run_timeout = RunTimeout, sc_restore_timeout = RestoreTimeout, sc_next_sweep = zero_time,
      sc_plan = [], sc_state = load_state f, sc_file = load_state f, sc_disk = disk, sc_dirty = True, sc_queue = [],
      sc_running = None, sc_stuck = [], sc_gen = 0, sc_forgotten = [], sc_deleting = [], sc_stopped = False,
      sc_wake = False, sc_changed = False, sc_jobs = 0, sc_waiters = [], sc_answers = [], sc_ctx = [],
      sc_awaited = [], sc_abandoned = []\<rparr>"

subsection \<open>Helpers under the lock\<close>

definition saveLocked :: "sched \<Rightarrow> sched" where
  "saveLocked s =
     (case sc_disk s of
        [] \<Rightarrow> s\<lparr>sc_file := sc_state s\<rparr>
      | ok # r \<Rightarrow> if ok then s\<lparr>sc_file := sc_state s, sc_disk := r\<rparr> else s\<lparr>sc_disk := r\<rparr>)"

definition stateLocked :: "string \<Rightarrow> sched \<Rightarrow> backup_state" where
  "stateLocked k s = (case mget (sc_state s) k of None \<Rightarrow> new_state | Some st \<Rightarrow> st)"

definition put_state :: "string \<Rightarrow> backup_state \<Rightarrow> sched \<Rightarrow> sched" where
  "put_state k st s = s\<lparr>sc_state := mput k st (sc_state s)\<rparr>"

definition nudge :: "sched \<Rightarrow> sched" where "nudge s = s\<lparr>sc_changed := True\<rparr>"
definition signal :: "sched \<Rightarrow> sched" where "signal s = s\<lparr>sc_wake := True\<rparr>"

text \<open>\<open>finish\<close>: the job's waiter, if it still has one, gets the outcome.\<close>

definition answer :: "nat \<Rightarrow> outcome \<Rightarrow> sched \<Rightarrow> sched" where
  "answer i oc s = s\<lparr>sc_answers := sc_answers s @ [(i, oc)]\<rparr>"

definition finish_job :: "job \<Rightarrow> outcome \<Rightarrow> sched \<Rightarrow> sched" where
  "finish_job j oc s =
     (if jb_id j \<in> set (sc_waiters s)
      then answer (jb_id j) oc (s\<lparr>sc_waiters := removeAll (jb_id j) (sc_waiters s)\<rparr>) else s)"

text \<open>The loop over the queue that answers and drops the jobs of a test.\<close>

definition refuse :: "(job \<Rightarrow> bool) \<Rightarrow> sched_error \<Rightarrow> sched \<Rightarrow> sched" where
  "refuse P e s =
     (let s1 = fold (\<lambda>j. finish_job j (failed e)) (filter P (sc_queue s)) s
      in s1\<lparr>sc_queue := filter (\<lambda>j. \<not> P j) (sc_queue s)\<rparr>)"

definition blockedLocked :: "string \<Rightarrow> time \<Rightarrow> sched \<Rightarrow> sched_error option" where
  "blockedLocked app now s =
     (if (case mget (sc_deleting s) app of None \<Rightarrow> False | Some t \<Rightarrow> now < tb_until t) then Some ErrDeleting
      else if mget (sc_stuck s) app \<noteq> None then Some ErrStillStopping
      else None)"

definition plannedLocked :: "bkey \<Rightarrow> sched \<Rightarrow> bool" where
  "plannedLocked k s \<longleftrightarrow> list_ex (\<lambda>p. pl_app p = fst k \<and> pl_name p = snd k) (sc_plan s)"

definition noteErrorLocked :: "bkey \<Rightarrow> string \<Rightarrow> sched \<Rightarrow> sched" where
  "noteErrorLocked k msg s =
     (if \<not> plannedLocked k s then s
      else saveLocked (put_state (key_string k) ((stateLocked (key_string k) s)\<lparr>bs_error := msg\<rparr>) s))"

definition clamp_time :: "time \<Rightarrow> time \<Rightarrow> time" where
  "clamp_time now t = (if now < t then now else t)"

definition clamp :: "time \<Rightarrow> backup_state \<Rightarrow> backup_state" where
  "clamp now st = st\<lparr>bs_attempt := clamp_time now (bs_attempt st), bs_success := clamp_time now (bs_success st),
     bs_enabled_at := clamp_time now (bs_enabled_at st)\<rparr>"

definition noun :: "job \<Rightarrow> string" where
  "noun j = (if jb_point j \<noteq> [] then ''restore'' else ''run'')"

definition stoppedRestorePrefix :: "string \<Rightarrow> string" where
  "stoppedRestorePrefix point = ''the restore of '' @ point @ '' was cut short by the agent stopping: ''"

text \<open>The FNV-1a hash of 64 bits.\<close>

definition fnv64a :: "string \<Rightarrow> 64 word" where
  "fnv64a s = foldl (\<lambda>h c. (h XOR word_of_nat (byte c)) * 1099511628211) 14695981039346656037 s"

definition Offset :: "string \<Rightarrow> string \<Rightarrow> duration \<Rightarrow> duration" where
  "Offset app name every = uint (fnv64a (app @ ''/'' @ name)) mod every"

subsection \<open>Requests\<close>

record restore_mark =
  rm_app :: string
  rm_backup :: string
  rm_point :: string
  rm_pre_restore :: string
  rm_was_running :: bool
  rm_phase :: string

definition restorePhaseHelper :: string where "restorePhaseHelper = ''restoring''"

definition Message :: "restore_mark \<Rightarrow> string" where
  "Message m =
     ''the agent stopped during a restore of '' @ rm_point m @ '' ('' @
     (if rm_pre_restore m \<noteq> [] then ''pre-restore copy '' @ rm_pre_restore m
      else ''no pre-restore copy had been saved yet'') @ ''); check the app'' @ [CHR 0x27] @ ''s data'' @
     (if rm_phase m = restorePhaseHelper then '': it may be partly replaced'' else []) @
     (if rm_was_running m then '', and the app may have been left stopped'' else [])"

definition note_mark :: "restore_mark \<Rightarrow> sched \<Rightarrow> sched" where
  "note_mark m s =
     (let k = key_string (rm_app m, rm_backup m); st = stateLocked k s
      in if has_prefix (stoppedRestorePrefix (rm_point m)) (bs_error st) then put_state k st s
         else put_state k (st\<lparr>bs_error := Message m\<rparr>) s)"

definition NoteInterrupted :: "restore_mark list \<Rightarrow> sched \<Rightarrow> sched" where
  "NoteInterrupted marks s = (if marks = [] then s else saveLocked (fold note_mark marks s))"

definition Reload :: "sched \<Rightarrow> sched" where
  "Reload s = signal (s\<lparr>sc_dirty := True\<rparr>)"

text \<open>The app of a state key is what stands before its first slash.\<close>

definition key_app :: "string \<Rightarrow> string" where
  "key_app k = takeWhile (\<lambda>c. c \<noteq> slash) k"

text \<open>\<open>Forget\<close> up to the wait, and the jobs it waits for. \<open>cancelCause\<close> ends a context once.\<close>

definition end_ctx :: "nat \<Rightarrow> ctx_end \<Rightarrow> sched \<Rightarrow> sched" where
  "end_ctx i c s = (if mget (sc_ctx s) i = Some Live then s\<lparr>sc_ctx := mput i c (sc_ctx s)\<rparr> else s)"

definition forget_wait :: "string \<Rightarrow> sched \<Rightarrow> nat list" where
  "forget_wait app s =
     (case sc_running s of None \<Rightarrow> []
      | Some r \<Rightarrow> if jb_app r = app \<and> jb_id r \<notin> set (sc_awaited s) then [jb_id r] else [])"

definition Forget :: "string \<Rightarrow> time \<Rightarrow> sched \<Rightarrow> nat list \<times> sched" where
  "Forget app now s =
     (let s1 = refuse (\<lambda>j. jb_app j = app) AppWasDeleted s;
          s2 = (case sc_running s1 of None \<Rightarrow> s1 | Some r \<Rightarrow> if jb_app r = app then end_ctx (jb_id r) AppDeletedCause s1 else s1);
          g = sc_gen s2 + 1;
          s3 = s2\<lparr>sc_plan := filter (\<lambda>p. pl_app p \<noteq> app) (sc_plan s2), sc_gen := g,
                  sc_forgotten := mput app g (sc_forgotten s2),
                  sc_deleting := mput app \<lparr>tb_gen = g, tb_until = now + tombstoneTTL\<rparr> (sc_deleting s2)\<rparr>;
          gone = (\<lambda>k. key_app k = app);
          s4 = s3\<lparr>sc_state := mkeep (\<lambda>k. \<not> gone k) (sc_state s3)\<rparr>;
          s5 = (if list_ex gone (keys (sc_state s3)) then saveLocked s4 else s4)
      in (forget_wait app s, signal (s5\<lparr>sc_dirty := True\<rparr>)))"

definition forget_timeout :: "nat list \<Rightarrow> sched \<Rightarrow> sched" where
  "forget_timeout ws s = s\<lparr>sc_awaited := ws @ sc_awaited s\<rparr>"

text \<open>A new request has the next number; it is answered at once or queued with its waiter.\<close>

definition ask :: "sched_error option \<Rightarrow> job \<Rightarrow> sched \<Rightarrow> nat \<times> sched" where
  "ask err j s =
     (let i = sc_jobs s; s1 = s\<lparr>sc_jobs := Suc i\<rparr>
      in case err of
           Some e \<Rightarrow> (i, answer i (failed e) s1)
         | None \<Rightarrow> (i, signal (s1\<lparr>sc_queue := sc_queue s1 @ [j\<lparr>jb_id := i\<rparr>], sc_waiters := sc_waiters s1 @ [i]\<rparr>)))"

definition run_dup :: "bkey \<Rightarrow> sched \<Rightarrow> bool" where
  "run_dup k s \<longleftrightarrow> (case sc_running s of None \<Rightarrow> False | Some r \<Rightarrow> jb_key r = k \<and> jb_point r = []) \<or>
     list_ex (\<lambda>j. jb_key j = k \<and> jb_point j = []) (sc_queue s)"

definition RunNow :: "string \<Rightarrow> string \<Rightarrow> time \<Rightarrow> sched \<Rightarrow> nat \<times> sched" where
  "RunNow app name now s =
     ask (if sc_stopped s then Some ErrStopped
          else case blockedLocked app now s of Some e \<Rightarrow> Some e
          | None \<Rightarrow> if run_dup (app, name) s then Some (AlreadyQueued name) else None)
       \<lparr>jb_id = 0, jb_key = (app, name), jb_kind = Some PointManual, jb_point = [], jb_queued = zero_time, jb_limit = 0\<rparr> s"

definition restore_dup :: "string \<Rightarrow> sched \<Rightarrow> bool" where
  "restore_dup app s \<longleftrightarrow> (case sc_running s of None \<Rightarrow> False | Some r \<Rightarrow> jb_app r = app \<and> jb_point r \<noteq> []) \<or>
     list_ex (\<lambda>j. jb_app j = app \<and> jb_point j \<noteq> []) (sc_queue s)"

definition Restore :: "string \<Rightarrow> string \<Rightarrow> string \<Rightarrow> time \<Rightarrow> sched \<Rightarrow> nat \<times> sched" where
  "Restore app name point now s =
     ask (if sc_stopped s then Some ErrStopped
          else case blockedLocked app now s of Some e \<Rightarrow> Some e
          | None \<Rightarrow> if restore_dup app s then Some RestoreQueued else None)
       \<lparr>jb_id = 0, jb_key = (app, name), jb_kind = None, jb_point = point, jb_queued = now, jb_limit = 0\<rparr> s"

subsection \<open>Rereading the plan\<close>

text \<open>\<open>refresh\<close> before the read, which answers the generation the read begins in, and after it.\<close>

definition refresh_begin :: "sched \<Rightarrow> nat option \<times> sched" where
  "refresh_begin s = ((if sc_dirty s then Some (sc_gen s) else None), s\<lparr>sc_dirty := False\<rparr>)"

definition enable_step :: "time \<Rightarrow> planned \<Rightarrow> bool \<times> sched \<Rightarrow> bool \<times> sched" where
  "enable_step now p cs =
     (let (ch, s) = cs; k = key_string (pl_app p, pl_name p); st = mget (sc_state s) k
      in if eb_enabled (pl_backup p) \<and> (case st of None \<Rightarrow> True | Some st \<Rightarrow> is_zero (bs_enabled_at st))
         then (True, put_state k ((stateLocked k s)\<lparr>bs_enabled_at := now\<rparr>) s)
         else if \<not> eb_enabled (pl_backup p) \<and> (case st of None \<Rightarrow> False | Some st \<Rightarrow> \<not> is_zero (bs_enabled_at st))
         then (True, put_state k ((stateLocked k s)\<lparr>bs_enabled_at := zero_time\<rparr>) s)
         else (ch, s))"

definition refresh_end :: "planned list \<Rightarrow> nat \<Rightarrow> time \<Rightarrow> sched \<Rightarrow> sched" where
  "refresh_end plan rg now s =
     (let listed = (\<lambda>app. list_ex (\<lambda>p. pl_app p = app) plan);
          keep_tomb = (\<lambda>(app, t). \<not> (tb_gen t \<le> rg \<and> \<not> listed app \<or> tb_until t \<le> now));
          fresh = (\<lambda>p. case mget (sc_forgotten s) (pl_app p) of None \<Rightarrow> True | Some g \<Rightarrow> g \<le> rg);
          s1 = nudge (s\<lparr>sc_deleting := filter keep_tomb (sc_deleting s),
                       sc_forgotten := filter (\<lambda>(app, g). \<not> g \<le> rg) (sc_forgotten s),
                       sc_plan := filter fresh plan\<rparr>);
          (ch, s2) = fold (enable_step now) (filter fresh plan) (False, s1)
      in if ch then saveLocked s2 else s2)"

subsection \<open>Choosing a job\<close>

text \<open>A due time is worked out on the clamped record, which stays clamped.\<close>

definition schedulable :: "planned \<Rightarrow> time \<Rightarrow> sched \<Rightarrow> bool" where
  "schedulable p now s \<longleftrightarrow> eb_enabled (pl_backup p) \<and> Builtin (pl_backup p) \<and> 0 < Interval (pl_backup p) \<and>
     blockedLocked (pl_app p) now s = None"

definition due_time :: "planned \<Rightarrow> backup_state \<Rightarrow> time" where
  "due_time p st =
     (let every = Interval (pl_backup p)
      in if \<not> is_zero (bs_attempt st) then bs_attempt st + every
         else bs_enabled_at st + Offset (pl_app p) (pl_name p) every)"

definition dueLocked :: "planned \<Rightarrow> time \<Rightarrow> sched \<Rightarrow> time option \<times> sched" where
  "dueLocked p now s =
     (let k = key_string (pl_app p, pl_name p)
      in if \<not> schedulable p now s then (None, s)
         else case mget (sc_state s) k of
           None \<Rightarrow> (None, s)
         | Some st \<Rightarrow> (Some (due_time p (clamp now st)), put_state k (clamp now st) s))"

definition startLocked :: "bool \<Rightarrow> job \<Rightarrow> sched \<Rightarrow> job \<times> sched" where
  "startLocked parent_done j s =
     (let j1 = j\<lparr>jb_limit := (if jb_point j \<noteq> [] then sc_restore_timeout s else sc_run_timeout s)\<rparr>
      in (j1, s\<lparr>sc_running := Some j1,
               sc_ctx := mput (jb_id j) (if parent_done then ParentStopped else Live) (sc_ctx s)\<rparr>))"

definition waited_too_long :: "time \<Rightarrow> job \<Rightarrow> bool" where
  "waited_too_long now j \<longleftrightarrow> \<not> (jb_point j = [] \<or> time_sub now (jb_queued j) \<le> restoreQueueWait)"

text \<open>The first request whose app is not blocked; those before it are answered.\<close>

fun take_request :: "time \<Rightarrow> job list \<Rightarrow> sched \<Rightarrow> job option \<times> sched" where
  "take_request now [] s = (None, s\<lparr>sc_queue := []\<rparr>)"
| "take_request now (j # q) s =
     (case blockedLocked (jb_app j) now s of
        Some e \<Rightarrow> take_request now q (finish_job j (failed e) s)
      | None \<Rightarrow> (Some j, s\<lparr>sc_queue := q\<rparr>))"

fun most_overdue :: "time \<Rightarrow> planned list \<Rightarrow> (planned \<times> time) option \<Rightarrow> sched \<Rightarrow> (planned \<times> time) option \<times> sched" where
  "most_overdue now [] best s = (best, s)"
| "most_overdue now (p # ps) best s =
     (case dueLocked p now s of
        (None, s1) \<Rightarrow> most_overdue now ps best s1
      | (Some due, s1) \<Rightarrow>
          most_overdue now ps
            (if due \<le> now \<and> (case best of None \<Rightarrow> True | Some (_, bd) \<Rightarrow> due < bd) then Some (p, due) else best) s1)"

definition next_job :: "bool \<Rightarrow> time \<Rightarrow> sched \<Rightarrow> job option \<times> sched" where
  "next_job parent_done now s =
     (let s1 = refuse (waited_too_long now) ErrQueueWait s
      in case take_request now (sc_queue s1) s1 of
           (Some j, s2) \<Rightarrow> (let (j1, s3) = startLocked parent_done j s2 in (Some j1, s3))
         | (None, s2) \<Rightarrow>
           (case most_overdue now (sc_plan s2) None s2 of
              (None, s3) \<Rightarrow> (None, s3)
            | (Some (p, _), s3) \<Rightarrow>
                (let (j1, s4) = startLocked parent_done
                       \<lparr>jb_id = sc_jobs s3, jb_key = (pl_app p, pl_name p), jb_kind = Some PointScheduled, jb_point = [],
                        jb_queued = zero_time, jb_limit = 0\<rparr> (s3\<lparr>sc_jobs := Suc (sc_jobs s3)\<rparr>)
                 in (Some j1, s4))))"

text \<open>How long to sleep; the blocks that have lapsed go.\<close>

fun until_plan :: "time \<Rightarrow> planned list \<Rightarrow> duration \<Rightarrow> sched \<Rightarrow> duration \<times> sched" where
  "until_plan now [] w s = (w, s)"
| "until_plan now (p # ps) w s =
     (case dueLocked p now s of
        (None, s1) \<Rightarrow> until_plan now ps w s1
      | (Some due, s1) \<Rightarrow> until_plan now ps (min w (max (time_sub due now) 0)) s1)"

definition untilDue :: "time \<Rightarrow> sched \<Rightarrow> duration \<times> sched" where
  "untilDue now s =
     (let live = filter (\<lambda>(app, t). now < tb_until t) (sc_deleting s);
          w0 = min idleWait (max (time_sub (sc_next_sweep s) now) 0);
          w1 = fold (\<lambda>(app, t) w. min w (time_sub (tb_until t) now)) live w0
      in until_plan now (sc_plan s) w1 (s\<lparr>sc_deleting := live\<rparr>))"

subsection \<open>A job's end\<close>

text \<open>What the engine returned for a job.\<close>

record engine_outcome =
  eo_res :: backup_result
  eo_restore :: restore_response
  eo_err :: "sched_error option"

text \<open>\<open>abandon\<close>: \<open>None\<close> in the channel makes the job stuck.\<close>

definition abandon :: "job \<Rightarrow> engine_outcome option \<Rightarrow> sched \<Rightarrow> engine_outcome \<times> sched" where
  "abandon j ch s =
     (case ch of Some d \<Rightarrow> (d, s)
      | None \<Rightarrow>
        (\<lparr>eo_res = no_result, eo_restore = no_restore, eo_err = Some (DidNotStop (noun j) (jb_limit j))\<rparr>,
         s\<lparr>sc_abandoned := jb_id j # sc_abandoned s, sc_stuck := mput (jb_app j) (jb_id j) (sc_stuck s)\<rparr>))"

definition lateLocked :: "job \<Rightarrow> engine_outcome \<Rightarrow> sched \<Rightarrow> sched" where
  "lateLocked j d s =
     (if jb_point j = [] then s
      else case eo_err d of None \<Rightarrow> s
      | Some e \<Rightarrow>
          nudge (noteErrorLocked (jb_key j)
            (''the restore of '' @ jb_point j @ '' did not stop in time and ended later: '' @ error_text e) s))"

text \<open>The engine's goroutine once its call has returned.\<close>

definition call_exit :: "job \<Rightarrow> engine_outcome \<Rightarrow> sched \<Rightarrow> sched" where
  "call_exit j d s =
     (let was_stuck = (mget (sc_stuck s) (jb_app j) = Some (jb_id j));
          s1 = (if was_stuck then s\<lparr>sc_stuck := mdel (jb_app j) (sc_stuck s)\<rparr> else s);
          s2 = (if jb_id j \<in> set (sc_abandoned s1) then lateLocked j d s1 else s1)
      in if was_stuck then signal s2 else s2)"

text \<open>\<open>execute\<close> after it has an outcome: the error that counts, and whether the agent is stopping.\<close>

definition conclude :: "bool \<Rightarrow> job \<Rightarrow> engine_outcome \<Rightarrow> sched \<Rightarrow> sched_error option \<times> bool" where
  "conclude parent_done j d s =
     (let c = (case mget (sc_ctx s) (jb_id j) of None \<Rightarrow> Live | Some c \<Rightarrow> c);
          err = (if eo_err d = None \<and> c \<noteq> Live \<and> jb_point j = [] then Some (RunStopped c) else eo_err d)
      in (err, err \<noteq> None \<and> parent_done))"

definition recordRestore :: "job \<Rightarrow> restore_response \<Rightarrow> sched_error option \<Rightarrow> bool \<Rightarrow> sched \<Rightarrow> sched" where
  "recordRestore j res err stopping s =
     (let s1 = nudge (s\<lparr>sc_running := None\<rparr>);
          (err1, s2) =
            (case err of
               Some e \<Rightarrow>
                 if stopping then
                   (Some (StoppedBy e),
                    if mget (sc_ctx s1) (jb_id j) \<noteq> Some AppDeletedCause
                    then nudge (noteErrorLocked (jb_key j) (stoppedRestorePrefix (jb_point j) @ error_text e) s1) else s1)
                 else (Some e, s1)
             | None \<Rightarrow> (None, s1));
          s3 = (if (case err1 of None \<Rightarrow> False | Some e \<Rightarrow> not_runnable e) then s2\<lparr>sc_dirty := True\<rparr> else s2)
      in finish_job j \<lparr>oc_result = no_run, oc_restore = res, oc_err = err1\<rparr> s3)"

definition succeeded :: "time \<Rightarrow> backup_result \<Rightarrow> backup_state \<Rightarrow> backup_state" where
  "succeeded start res st =
     (let st1 = st\<lparr>bs_error := [], bs_success := start, bs_fingerprint := br_fingerprint res\<rparr>
      in case br_point res of None \<Rightarrow> st1 | Some pt \<Rightarrow> st1\<lparr>bs_size := pt_size pt\<rparr>)"

definition record_run :: "job \<Rightarrow> time \<Rightarrow> backup_result \<Rightarrow> sched_error option \<Rightarrow> bool \<Rightarrow> sched \<Rightarrow> sched" where
  "record_run j start res err stopping s =
     (let k = key_string (jb_key j);
          resp = \<lparr>rr_app = jb_app j, rr_backup = snd (jb_key j), rr_unchanged = br_unchanged res, rr_point = br_point res,
                  rr_warnings = br_warnings res\<rparr>;
          s1 = nudge (s\<lparr>sc_running := None\<rparr>);
          reply = (\<lambda>e. finish_job j \<lparr>oc_result = resp, oc_restore = no_restore, oc_err = e\<rparr>)
      in if stopping then reply (Some ErrStopped) s1
         else if (case err of None \<Rightarrow> False | Some e \<Rightarrow> not_runnable e) then
           (let s2 = s1\<lparr>sc_dirty := True\<rparr>;
                s3 = (case mget (sc_state s2) k of
                        Some st \<Rightarrow> if jb_kind j = Some PointScheduled
                                   then saveLocked (put_state k (st\<lparr>bs_attempt := start\<rparr>) s2) else s2
                      | None \<Rightarrow> s2)
            in reply err s3)
         else
           (let s2 = (if plannedLocked (jb_key j) s1 then
                  (let st = (stateLocked k s1)\<lparr>bs_attempt := start\<rparr>
                   in saveLocked (put_state k (case err of Some e \<Rightarrow> st\<lparr>bs_error := error_text e\<rparr>
                                               | None \<Rightarrow> succeeded start res st) s1))
                else s1)
            in reply err s2))"

definition record_outcome :: "job \<Rightarrow> time \<Rightarrow> engine_outcome \<Rightarrow> sched_error option \<Rightarrow> bool \<Rightarrow> sched \<Rightarrow> sched" where
  "record_outcome j start d err stopping s =
     (if jb_point j \<noteq> [] then recordRestore j (eo_restore d) err stopping s
      else record_run j start (eo_res d) err stopping s)"

text \<open>What follows the loop of \<open>Run\<close>.\<close>

definition shut_down :: "sched \<Rightarrow> sched" where
  "shut_down s = refuse (\<lambda>_. True) ErrStopped (s\<lparr>sc_stopped := True\<rparr>)"

subsection \<open>Health\<close>

definition BackupOff :: string where "BackupOff = ''off''"
definition BackupRunning :: string where "BackupRunning = ''running''"
definition BackupNever :: string where "BackupNever = ''never''"
definition BackupOK :: string where "BackupOK = ''ok''"
definition BackupLate :: string where "BackupLate = ''late''"
definition BackupFailing :: string where "BackupFailing = ''failing''"

definition health_state :: "effective_backup \<Rightarrow> backup_state option \<Rightarrow> bool \<Rightarrow> time \<Rightarrow> (string \<Rightarrow> bool) option \<Rightarrow> string" where
  "health_state b st is_running now service_running =
     (if \<not> eb_enabled b then BackupOff
      else if eb_type b = TypeCustom then
        (if (case service_running of None \<Rightarrow> False | Some f \<Rightarrow> f (eb_service b)) then BackupOK else BackupOff)
      else if is_running then BackupRunning
      else if (case st of None \<Rightarrow> False | Some st \<Rightarrow> bs_error st \<noteq> []) then BackupFailing
      else
        (let every = Interval b in
         case st of
           None \<Rightarrow> BackupNever
         | Some st \<Rightarrow>
           if is_zero (bs_success st) then
             (if 0 < every \<and> \<not> is_zero (bs_enabled_at st) \<and> 2 * every < time_sub now (bs_enabled_at st)
              then BackupLate else BackupNever)
           else if 0 < every \<and> 2 * every < time_sub now (bs_success st) then BackupLate
           else BackupOK))"

definition health_step :: "string \<Rightarrow> time \<Rightarrow> (string \<Rightarrow> bool) option \<Rightarrow> planned
    \<Rightarrow> backup_health list \<times> sched \<Rightarrow> backup_health list \<times> sched" where
  "health_step app now running p hs =
     (let (out, s) = hs; k = key_string (pl_app p, pl_name p)
      in if pl_app p \<noteq> app then (out, s)
         else
           (let st = map_option (clamp now) (mget (sc_state s) k);
                s1 = (case st of None \<Rightarrow> s | Some st \<Rightarrow> put_state k st s);
                is_running = (case sc_running s1 of None \<Rightarrow> False
                  | Some r \<Rightarrow> jb_key r = (pl_app p, pl_name p) \<and> jb_point r = []);
                h = \<lparr>bh_name = pl_name p,
                     bh_state = health_state (pl_backup p) st is_running now running,
                     bh_success = (case st of None \<Rightarrow> 0 | Some st \<Rightarrow>
                       if is_zero (bs_success st) then 0 else time_unix (bs_success st)),
                     bh_error = (case st of None \<Rightarrow> [] | Some st \<Rightarrow> bs_error st)\<rparr>
            in (out @ [h], s1)))"

definition Health :: "string \<Rightarrow> time \<Rightarrow> (string \<Rightarrow> bool) option \<Rightarrow> sched \<Rightarrow> backup_health list \<times> sched" where
  "Health app now running s = fold (health_step app now running) (sc_plan s) ([], s)"

definition isReplicaOf :: "string \<Rightarrow> string \<Rightarrow> bool" where
  "isReplicaOf name prefix =
     (case cut_prefix prefix name of None \<Rightarrow> False | Some n \<Rightarrow> n \<noteq> [] \<and> list_all dec_digit n)"

text \<open>\<open>filepath.Base\<close> and the name of an app's Compose project.\<close>

definition path_base :: "string \<Rightarrow> string" where
  "path_base p =
     (if p = [] then ''.''
      else let t = rev (dropWhile (\<lambda>c. c = slash) (rev p))
           in if t = [] then ''/'' else rev (takeWhile (\<lambda>c. c \<noteq> slash) (rev t)))"

definition projectName :: "string \<Rightarrow> string" where
  "projectName app = ''wf-'' @ path_base app"

definition ServiceContainerPrefix :: "string \<Rightarrow> string \<Rightarrow> string" where
  "ServiceContainerPrefix app service = projectName app @ ''-'' @ service @ ''-''"

definition service_runs :: "app_status \<Rightarrow> string \<Rightarrow> bool" where
  "service_runs a service =
     list_ex (\<lambda>c. cs_code c = StatusActive \<and> isReplicaOf (cs_name c) (ServiceContainerPrefix (as_app a) service))
       (as_containers a)"

fun Decorate :: "app_status list \<Rightarrow> time \<Rightarrow> sched \<Rightarrow> app_status list \<times> sched" where
  "Decorate [] now s = ([], s)"
| "Decorate (a # xs) now s =
     (let (hs, s1) = Health (as_app a) now (Some (service_runs a)) s;
          (bs, s2) = Decorate xs now s1
      in (a\<lparr>as_backups := hs\<rparr> # bs, s2))"

end
