(* ===== verification/Scheduler_Run.thy ===== *)
theory Scheduler_Run
  imports Scheduler
begin

text \<open>
  The goroutines of the backup scheduler as one transition system: \<open>Run\<close>'s goroutine with a program
  counter between the sections it runs under the lock, one goroutine per engine call, and everybody who
  calls a method. An event is one section, or something that happens outside: the engine returns, a
  deadline passes, the agent is told to stop. An event that cannot happen where the system is changes
  nothing, so a property of every list of events is one of every interleaving.
\<close>

subsection \<open>The system\<close>

datatype run_pc = NotStarted | AtTop | Reading nat | Deciding | Idling time | Waiting duration | Picked job
  | Running job time | Got job time engine_outcome
  | Concluded job time engine_outcome "sched_error option" bool | Stopping | Ended

text \<open>\<open>sy_calls\<close> are the engine goroutines that have not left their last section, with what the call returned;
  \<open>sy_chan\<close> is what they sent; \<open>sy_asked\<close> the channels handed out.\<close>

record system =
  sy_sched :: sched
  sy_pc :: run_pc
  sy_parent :: bool
  sy_calls :: "(nat, job \<times> engine_outcome option) gomap"
  sy_chan :: "(nat, engine_outcome) gomap"
  sy_asked :: "nat list"

definition initial :: "(string \<times> backup_state option) list option \<Rightarrow> bool list \<Rightarrow> system" where
  "initial f disk = \<lparr>sy_sched = NewScheduler f disk, sy_pc = NotStarted, sy_parent = False, sy_calls = [], sy_chan = [],
     sy_asked = []\<rparr>"

datatype event = Start time | Top | Read "planned list" time | Decide time | Idle | Wake bool | Launch time
  | Receive | GiveUp | Conclude | RecordIt | StopNow
  | Return nat engine_outcome | Exit nat | Deadline nat | ParentDone
  | DoForget string time | ForgetTimeout "nat list" | DoRunNow string string time | DoRestore string string string time
  | DoReload | DoNote "restore_mark list" | DoHealth string time "(string \<Rightarrow> bool) option"

definition end_all_ctx :: "sched \<Rightarrow> sched" where
  "end_all_ctx s = s\<lparr>sc_ctx := map (\<lambda>(i, c). (i, if c = Live then ParentStopped else c)) (sc_ctx s)\<rparr>"

abbreviation goto :: "run_pc \<Rightarrow> sched \<Rightarrow> system \<Rightarrow> system" where
  "goto pc s y \<equiv> y\<lparr>sy_pc := pc, sy_sched := s\<rparr>"

definition run_top :: "system \<Rightarrow> system" where
  "run_top y =
     (if sy_parent y then y\<lparr>sy_pc := Stopping\<rparr>
      else case refresh_begin (sy_sched y) of
        (Some g, s) \<Rightarrow> goto (Reading g) s y | (None, s) \<Rightarrow> goto Deciding s y)"

definition run_decide :: "time \<Rightarrow> system \<Rightarrow> system" where
  "run_decide now y =
     (let s = sy_sched y
      in if sc_next_sweep s \<le> now then goto AtTop (s\<lparr>sc_next_sweep := now + sweepEvery\<rparr>) y
         else case next_job (sy_parent y) now s of
           (Some j, s1) \<Rightarrow> goto (Picked j) s1 y | (None, s1) \<Rightarrow> goto (Idling now) s1 y)"

definition launch :: "job \<Rightarrow> time \<Rightarrow> system \<Rightarrow> system" where
  "launch j now y = y\<lparr>sy_pc := Running j now, sy_calls := mput (jb_id j) (j, None) (sy_calls y)\<rparr>"

definition give_up :: "job \<Rightarrow> time \<Rightarrow> system \<Rightarrow> system" where
  "give_up j st y =
     (if mget (sc_ctx (sy_sched y)) (jb_id j) = Some Live then y
      else case abandon j (mget (sy_chan y) (jb_id j)) (sy_sched y) of (d, s1) \<Rightarrow> goto (Got j st d) s1 y)"

fun fire :: "event \<Rightarrow> system \<Rightarrow> system" where
  "fire (Start now) y =
     (case sy_pc y of NotStarted \<Rightarrow> goto AtTop ((sy_sched y)\<lparr>sc_next_sweep := now + sweepEvery\<rparr>) y | _ \<Rightarrow> y)"
| "fire Top y = (case sy_pc y of AtTop \<Rightarrow> run_top y | _ \<Rightarrow> y)"
| "fire (Read plan now) y =
     (case sy_pc y of Reading g \<Rightarrow> goto Deciding (refresh_end plan g now (sy_sched y)) y | _ \<Rightarrow> y)"
| "fire (Decide now) y = (case sy_pc y of Deciding \<Rightarrow> run_decide now y | _ \<Rightarrow> y)"
| "fire Idle y =
     (case sy_pc y of Idling now \<Rightarrow> (case untilDue now (sy_sched y) of (w, s) \<Rightarrow> goto (Waiting w) s y) | _ \<Rightarrow> y)"
| "fire (Wake b) y =
     (case sy_pc y of
        Waiting w \<Rightarrow> goto AtTop (if b then (sy_sched y)\<lparr>sc_wake := False\<rparr> else sy_sched y) y | _ \<Rightarrow> y)"
| "fire (Launch now) y = (case sy_pc y of Picked j \<Rightarrow> launch j now y | _ \<Rightarrow> y)"
| "fire Receive y =
     (case sy_pc y of
        Running j st \<Rightarrow> (case mget (sy_chan y) (jb_id j) of None \<Rightarrow> y | Some d \<Rightarrow> y\<lparr>sy_pc := Got j st d\<rparr>) | _ \<Rightarrow> y)"
| "fire GiveUp y = (case sy_pc y of Running j st \<Rightarrow> give_up j st y | _ \<Rightarrow> y)"
| "fire Conclude y =
     (case sy_pc y of
        Got j st d \<Rightarrow>
          (case conclude (sy_parent y) j d (sy_sched y) of (err, stopping) \<Rightarrow> y\<lparr>sy_pc := Concluded j st d err stopping\<rparr>)
      | _ \<Rightarrow> y)"
| "fire RecordIt y =
     (case sy_pc y of
        Concluded j st d err stopping \<Rightarrow> goto AtTop (record_outcome j st d err stopping (sy_sched y)) y | _ \<Rightarrow> y)"
| "fire StopNow y = (case sy_pc y of Stopping \<Rightarrow> goto Ended (shut_down (sy_sched y)) y | _ \<Rightarrow> y)"
| "fire (Return i d) y =
     (case mget (sy_calls y) i of
        Some (j, None) \<Rightarrow> y\<lparr>sy_calls := mput i (j, Some d) (sy_calls y), sy_chan := mput i d (sy_chan y)\<rparr>
      | _ \<Rightarrow> y)"
| "fire (Exit i) y =
     (case mget (sy_calls y) i of
        Some (j, Some d) \<Rightarrow> y\<lparr>sy_calls := mdel i (sy_calls y), sy_sched := call_exit j d (sy_sched y)\<rparr>
      | _ \<Rightarrow> y)"
| "fire (Deadline i) y = y\<lparr>sy_sched := end_ctx i DeadlinePassed (sy_sched y)\<rparr>"
| "fire ParentDone y = y\<lparr>sy_parent := True, sy_sched := end_all_ctx (sy_sched y)\<rparr>"
| "fire (DoForget app now) y = y\<lparr>sy_sched := snd (Forget app now (sy_sched y))\<rparr>"
| "fire (ForgetTimeout ws) y = y\<lparr>sy_sched := forget_timeout ws (sy_sched y)\<rparr>"
| "fire (DoRunNow app name now) y =
     (case RunNow app name now (sy_sched y) of (i, s) \<Rightarrow> y\<lparr>sy_sched := s, sy_asked := sy_asked y @ [i]\<rparr>)"
| "fire (DoRestore app name point now) y =
     (case Restore app name point now (sy_sched y) of (i, s) \<Rightarrow> y\<lparr>sy_sched := s, sy_asked := sy_asked y @ [i]\<rparr>)"
| "fire DoReload y = y\<lparr>sy_sched := Reload (sy_sched y)\<rparr>"
| "fire (DoNote marks) y = y\<lparr>sy_sched := NoteInterrupted marks (sy_sched y)\<rparr>"
| "fire (DoHealth app now f) y = y\<lparr>sy_sched := snd (Health app now f (sy_sched y))\<rparr>"

subsection \<open>What the sections leave alone\<close>

lemma fold_frame: "(\<And>x s. f (g x s) = f s) \<Longrightarrow> f (fold g xs s) = f s"
  by (induction xs arbitrary: s) auto

text \<open>A view of the scheduler that sees neither the backups' records, the file, nor the two signals is left
  alone by every section that only touches those.\<close>

locale blind =
  fixes view :: "sched \<Rightarrow> 'v"
  assumes put [simp]: "view (put_state k st s) = view s"
    and save [simp]: "view (saveLocked s) = view s"
    and nudged [simp]: "view (nudge s) = view s"
    and signalled [simp]: "view (signal s) = view s"
    and dirtied [simp]: "view (s\<lparr>sc_dirty := b\<rparr>) = view s"
begin

lemma noted [simp]: "view (noteErrorLocked k m s) = view s"
  by (simp add: noteErrorLocked_def)

lemma late [simp]: "view (lateLocked j d s) = view s"
  by (simp add: lateLocked_def split: option.split)

lemma marks [simp]: "view (NoteInterrupted marks s) = view s"
  by (simp add: NoteInterrupted_def fold_frame [of view] note_mark_def Let_def)

lemma reload [simp]: "view (Reload s) = view s"
  by (simp add: Reload_def)

lemma begins [simp]: "view (snd (refresh_begin s)) = view s"
  by (simp add: refresh_begin_def)

lemma due [simp]: "view (snd (dueLocked p now s)) = view s"
  by (simp add: dueLocked_def Let_def split: option.split)

lemma overdue [simp]: "view (snd (most_overdue now ps best s)) = view s"
proof (induction now ps best s rule: most_overdue.induct)
  case (2 now p ps best s)
  obtain dopt s1 where d: "dueLocked p now s = (dopt, s1)" by force
  have "view s1 = view s" using due [of p now s] d by simp
  with d 2 show ?case by (cases dopt) auto
qed simp

lemma until [simp]: "view (snd (until_plan now ps w s)) = view s"
proof (induction now ps w s rule: until_plan.induct)
  case (2 now p ps w s)
  obtain dopt s1 where d: "dueLocked p now s = (dopt, s1)" by force
  have "view s1 = view s" using due [of p now s] d by simp
  with d 2 show ?case by (cases dopt) auto
qed simp

lemma enables: "view (snd (fold (enable_step now) ps cs)) = view (snd cs)"
  by (rule fold_frame [of "\<lambda>cs. view (snd cs)"]) (simp add: enable_step_def Let_def split_beta)

lemma health [simp]: "view (snd (Health app now f s)) = view s"
  unfolding Health_def
  by (subst fold_frame [of "\<lambda>hs. view (snd hs)"]) (auto simp: health_step_def Let_def split_beta split: option.split)

end

text \<open>The fields that say who runs, waits and was answered.\<close>

definition jobs_of :: "sched \<Rightarrow> job list \<times> job option \<times> (string, nat) gomap \<times> nat \<times> nat list \<times> (nat \<times> outcome) list \<times> bool" where
  "jobs_of s = (sc_queue s, sc_running s, sc_stuck s, sc_jobs s, sc_waiters s, sc_answers s, sc_stopped s)"

interpretation jobs: blind jobs_of
  by unfold_locales (simp_all add: jobs_of_def saveLocked_def put_state_def nudge_def signal_def split: list.split)

interpretation ctxs: blind sc_ctx
  by unfold_locales (simp_all add: saveLocked_def put_state_def nudge_def signal_def split: list.split)

lemma jobs_of_simps [simp]:
  "jobs_of (end_ctx i c s) = jobs_of s" "jobs_of (forget_timeout ws s) = jobs_of s" "jobs_of (end_all_ctx s) = jobs_of s"
  "jobs_of (s\<lparr>sc_next_sweep := t\<rparr>) = jobs_of s" "jobs_of (s\<lparr>sc_wake := b\<rparr>) = jobs_of s" "jobs_of (s\<lparr>sc_state := m\<rparr>) = jobs_of s"
  "jobs_of (s\<lparr>sc_deleting := ts\<rparr>) = jobs_of s"
  "jobs_of (s\<lparr>sc_plan := ps\<rparr>) = jobs_of s" "jobs_of (s\<lparr>sc_gen := g\<rparr>) = jobs_of s"
  "jobs_of (s\<lparr>sc_forgotten := gs\<rparr>) = jobs_of s"
  by (simp_all add: jobs_of_def end_ctx_def forget_timeout_def end_all_ctx_def)

lemma jobs_of_untilDue [simp]: "jobs_of (snd (untilDue now s)) = jobs_of s"
  by (simp add: untilDue_def Let_def)

lemma jobs_of_refresh [simp]: "jobs_of (refresh_end plan g now s) = jobs_of s"
  by (simp add: refresh_end_def Let_def split_beta jobs.enables)

lemma jobs_of_eqD:
  assumes "jobs_of s = jobs_of t"
  shows "sc_queue s = sc_queue t" "sc_running s = sc_running t" "sc_stuck s = sc_stuck t" "sc_jobs s = sc_jobs t"
    "sc_waiters s = sc_waiters t" "sc_answers s = sc_answers t" "sc_stopped s = sc_stopped t"
  using assms by (simp_all add: jobs_of_def)

end
