(* ===== verification/Scheduler_Slots.thy ===== *)
theory Scheduler_Slots
  imports Scheduler_Run
begin

text \<open>
  One run at a time, stated as a refinement. The abstract machine has one slot for the engine call that is
  waited for, and per app at most one call that was given up on; a call begins only when the slot is free
  and its app has none hung. The scheduler's transition system simulates it, whatever interleaving; that
  two calls of one app never overlap is proved of the abstract machine.
\<close>

subsection \<open>The abstract machine\<close>

record slots =
  sl_busy :: "(nat \<times> string) option"
  sl_hung :: "string \<Rightarrow> nat option"
  sl_calls :: "nat \<Rightarrow> string option"

definition no_slots :: slots where
  "no_slots = \<lparr>sl_busy = None, sl_hung = (\<lambda>_. None), sl_calls = (\<lambda>_. None)\<rparr>"

inductive slot_step :: "slots \<Rightarrow> slots \<Rightarrow> bool" where
  stays: "slot_step q q"
| begins: "sl_busy q = None \<Longrightarrow> sl_hung q a = None \<Longrightarrow> sl_calls q i = None \<Longrightarrow>
    slot_step q (q\<lparr>sl_busy := Some (i, a), sl_calls := (sl_calls q)(i \<mapsto> a)\<rparr>)"
| returns: "slot_step q (q\<lparr>sl_calls := (sl_calls q)(i := None)\<rparr>)"
| receives: "sl_busy q = Some (i, a) \<Longrightarrow> sl_calls q i = None \<Longrightarrow> slot_step q (q\<lparr>sl_busy := None\<rparr>)"
| abandons: "sl_busy q = Some (i, a) \<Longrightarrow> slot_step q (q\<lparr>sl_busy := None, sl_hung := (sl_hung q)(a \<mapsto> i)\<rparr>)"
| clears: "sl_hung q a = Some i \<Longrightarrow> sl_calls q i = None \<Longrightarrow> slot_step q (q\<lparr>sl_hung := (sl_hung q)(a := None)\<rparr>)"

definition slots_fit :: "slots \<Rightarrow> bool" where
  "slots_fit q \<longleftrightarrow>
     (\<forall>i a. sl_calls q i = Some a \<longrightarrow> sl_busy q = Some (i, a) \<or> sl_hung q a = Some i) \<and>
     (\<forall>i a. sl_busy q = Some (i, a) \<longrightarrow> sl_hung q a = None)"

lemma slots_fitD:
  assumes "slots_fit q"
  shows "sl_calls q i = Some a \<Longrightarrow> sl_busy q = Some (i, a) \<or> sl_hung q a = Some i" "sl_busy q = Some (i, a) \<Longrightarrow> sl_hung q a = None"
  using assms by (auto simp: slots_fit_def)

lemma slots_fitI:
  assumes "\<And>i a. sl_calls q i = Some a \<Longrightarrow> sl_busy q = Some (i, a) \<or> sl_hung q a = Some i"
    "\<And>i a. sl_busy q = Some (i, a) \<Longrightarrow> sl_hung q a = None"
  shows "slots_fit q"
  using assms by (auto simp: slots_fit_def)

lemma slots_fit_step:
  assumes "slot_step q q'" "slots_fit q"
  shows "slots_fit q'"
  using assms(1)
proof cases
  case (abandons i a)
  have "k = i" if "sl_calls q k = Some a" for k
    using slots_fitD [OF assms(2), of k a] slots_fitD(2) [OF assms(2), of i a] abandons(2) that by auto
  then show ?thesis using abandons slots_fitD [OF assms(2)] by (intro slots_fitI) (auto split: if_splits)
next
  case (receives i a)
  have "sl_hung q b = Some k" if "sl_calls q k = Some b" for k b
    using slots_fitD(1) [OF assms(2) that] receives(2,3) that by auto
  then show ?thesis using receives by (intro slots_fitI) auto
next
  case (clears a i)
  have "sl_busy q = Some (k, a)" if "sl_calls q k = Some a" for k
    using slots_fitD(1) [OF assms(2) that] clears(2,3) that by auto
  then show ?thesis using clears slots_fitD [OF assms(2)] by (intro slots_fitI) (auto split: if_splits)
next
  case (begins a i)
  then show ?thesis using slots_fitD(1) [OF assms(2)] by (intro slots_fitI) (auto split: if_splits)
next
  case (returns i)
  then show ?thesis using slots_fitD [OF assms(2)] by (intro slots_fitI) (auto split: if_splits)
qed (use assms(2) in simp)

lemma slots_fit_one_call:
  "slots_fit q \<Longrightarrow> sl_calls q i = Some a \<Longrightarrow> sl_calls q k = Some a \<Longrightarrow> i = k"
  using slots_fitD [of q i a] slots_fitD [of q k a] by auto

text \<open>What a system must give to be seen as the abstract machine.\<close>

locale slot_server =
  fixes init :: "'c \<Rightarrow> bool" and step :: "'e \<Rightarrow> 'c \<Rightarrow> 'c" and ok :: "'c \<Rightarrow> bool" and abs :: "'c \<Rightarrow> slots"
  assumes init_ok: "init c \<Longrightarrow> ok c" and init_abs: "init c \<Longrightarrow> abs c = no_slots"
    and step_ok: "ok c \<Longrightarrow> ok (step e c)" and simulates: "ok c \<Longrightarrow> slot_step (abs c) (abs (step e c))"
begin

lemma run_ok: "init c \<Longrightarrow> ok (fold step es c)"
  by (rule fold_invariant) (auto intro: init_ok step_ok)

lemma run_fits:
  assumes "init c"
  shows "slots_fit (abs (fold step es c))"
proof (induction es rule: rev_induct)
  case Nil
  then show ?case by (simp add: init_abs [OF assms] slots_fit_def no_slots_def)
next
  case (snoc e es)
  have "slot_step (abs (fold step es c)) (abs (step e (fold step es c)))"
    by (rule simulates [OF run_ok [OF assms]])
  with snoc show ?case using slots_fit_step by simp
qed

lemma run_one_call:
  assumes "init c" "sl_calls (abs (fold step es c)) i = Some a" "sl_calls (abs (fold step es c)) k = Some a"
  shows "i = k"
  using slots_fit_one_call [OF run_fits [OF assms(1)] assms(2,3)] .

end

subsection \<open>The scheduler seen as the abstract machine\<close>

definition cur_job :: "run_pc \<Rightarrow> job option" where
  "cur_job pc = (case pc of Picked j \<Rightarrow> Some j | Running j _ \<Rightarrow> Some j | Got j _ _ \<Rightarrow> Some j
     | Concluded j _ _ _ _ \<Rightarrow> Some j | _ \<Rightarrow> None)"

definition abs_slots :: "system \<Rightarrow> slots" where
  "abs_slots y =
     \<lparr>sl_busy = (case sy_pc y of Running j _ \<Rightarrow> Some (jb_id j, jb_app j) | _ \<Rightarrow> None),
      sl_hung = (\<lambda>a. mget (sc_stuck (sy_sched y)) a),
      sl_calls = (\<lambda>i. case mget (sy_calls y) i of Some (j, None) \<Rightarrow> Some (jb_app j) | _ \<Rightarrow> None)\<rparr>"

text \<open>Numbers are not reused.\<close>

definition free_id :: "(nat, job \<times> engine_outcome option) gomap \<Rightarrow> (nat, engine_outcome) gomap \<Rightarrow> nat \<Rightarrow> bool" where
  "free_id calls chan i \<longleftrightarrow> mget calls i = None \<and> mget chan i = None"

definition ids_ok :: "job list \<Rightarrow> nat \<Rightarrow> run_pc \<Rightarrow> (nat, job \<times> engine_outcome option) gomap
    \<Rightarrow> (nat, engine_outcome) gomap \<Rightarrow> bool" where
  "ids_ok q n pc calls chan \<longleftrightarrow>
     distinct (map jb_id q) \<and>
     (\<forall>j \<in> set q. jb_id j < n \<and> free_id calls chan (jb_id j)) \<and>
     (\<forall>c. cur_job pc = Some c \<longrightarrow> jb_id c < n \<and> jb_id c \<notin> jb_id ` set q) \<and>
     (\<forall>j. pc = Picked j \<longrightarrow> free_id calls chan (jb_id j)) \<and>
     (\<forall>i \<ge> n. free_id calls chan i)"

definition calls_ok :: "(string, nat) gomap \<Rightarrow> run_pc \<Rightarrow> (nat, job \<times> engine_outcome option) gomap
    \<Rightarrow> (nat, engine_outcome) gomap \<Rightarrow> bool" where
  "calls_ok stuck pc calls chan \<longleftrightarrow>
     (\<forall>i j x. mget calls i = Some (j, x) \<longrightarrow> jb_id j = i \<and> mget chan i = x) \<and>
     (\<forall>a i. mget stuck a = Some i \<longrightarrow> (\<exists>j x. mget calls i = Some (j, x) \<and> jb_app j = a)) \<and>
     (\<forall>j. pc = Picked j \<longrightarrow> mget stuck (jb_app j) = None) \<and>
     (\<forall>j t. pc = Running j t \<longrightarrow> mget stuck (jb_app j) = None \<and>
       (mget chan (jb_id j) \<noteq> None \<or> mget calls (jb_id j) = Some (j, None)))"

definition sys_ok :: "system \<Rightarrow> bool" where
  "sys_ok y \<longleftrightarrow> ids_ok (sc_queue (sy_sched y)) (sc_jobs (sy_sched y)) (sy_pc y) (sy_calls y) (sy_chan y) \<and>
     calls_ok (sc_stuck (sy_sched y)) (sy_pc y) (sy_calls y) (sy_chan y) \<and>
     sc_running (sy_sched y) = cur_job (sy_pc y)"

text \<open>A section that leaves the jobs alone, or only shortens the queue, keeps all of it.\<close>

lemma ids_ok_shorter:
  "ids_ok q n pc calls chan \<Longrightarrow> set q' \<subseteq> set q \<Longrightarrow> distinct (map jb_id q') \<Longrightarrow> ids_ok q' n pc calls chan"
  unfolding ids_ok_def by blast

lemma sys_ok_shorter:
  assumes "sys_ok y" "set (sc_queue s) \<subseteq> set (sc_queue (sy_sched y))" "distinct (map jb_id (sc_queue s))"
    "sc_running s = sc_running (sy_sched y)" "sc_stuck s = sc_stuck (sy_sched y)" "sc_jobs s = sc_jobs (sy_sched y)"
  shows "sys_ok (y\<lparr>sy_sched := s\<rparr>) \<and> abs_slots (y\<lparr>sy_sched := s\<rparr>) = abs_slots y"
proof -
  have "ids_ok (sc_queue s) (sc_jobs (sy_sched y)) (sy_pc y) (sy_calls y) (sy_chan y)"
    using assms(1) ids_ok_shorter [OF _ assms(2,3)] by (simp add: sys_ok_def)
  then show ?thesis using assms(1,4-6) by (simp add: sys_ok_def abs_slots_def)
qed

lemma sys_ok_distinct: "sys_ok y \<Longrightarrow> distinct (map jb_id (sc_queue (sy_sched y)))"
  by (simp add: sys_ok_def ids_ok_def)

lemma sys_ok_same:
  assumes "sys_ok y" "jobs_of s = jobs_of (sy_sched y)"
  shows "sys_ok (y\<lparr>sy_sched := s\<rparr>) \<and> abs_slots (y\<lparr>sy_sched := s\<rparr>) = abs_slots y"
  using assms jobs_of_eqD [OF assms(2)] sys_ok_distinct by (intro sys_ok_shorter) auto

subsection \<open>What the other sections do to the jobs\<close>

lemma finish_job_frame [simp]:
  "sc_queue (finish_job j oc s) = sc_queue s" "sc_running (finish_job j oc s) = sc_running s"
  "sc_stuck (finish_job j oc s) = sc_stuck s" "sc_jobs (finish_job j oc s) = sc_jobs s"
  "sc_plan (finish_job j oc s) = sc_plan s" "sc_state (finish_job j oc s) = sc_state s"
  "sc_deleting (finish_job j oc s) = sc_deleting s" "sc_forgotten (finish_job j oc s) = sc_forgotten s"
  "sc_gen (finish_job j oc s) = sc_gen s" "sc_next_sweep (finish_job j oc s) = sc_next_sweep s"
  "sc_stopped (finish_job j oc s) = sc_stopped s" "sc_ctx (finish_job j oc s) = sc_ctx s"
  by (simp_all add: finish_job_def answer_def)

lemma fold_finish_frame [simp]:
  "sc_queue (fold (\<lambda>j. finish_job j oc) js s) = sc_queue s" "sc_running (fold (\<lambda>j. finish_job j oc) js s) = sc_running s"
  "sc_stuck (fold (\<lambda>j. finish_job j oc) js s) = sc_stuck s" "sc_jobs (fold (\<lambda>j. finish_job j oc) js s) = sc_jobs s"
  "sc_plan (fold (\<lambda>j. finish_job j oc) js s) = sc_plan s" "sc_state (fold (\<lambda>j. finish_job j oc) js s) = sc_state s"
  "sc_deleting (fold (\<lambda>j. finish_job j oc) js s) = sc_deleting s"
  "sc_forgotten (fold (\<lambda>j. finish_job j oc) js s) = sc_forgotten s"
  "sc_gen (fold (\<lambda>j. finish_job j oc) js s) = sc_gen s"
  "sc_next_sweep (fold (\<lambda>j. finish_job j oc) js s) = sc_next_sweep s"
  "sc_stopped (fold (\<lambda>j. finish_job j oc) js s) = sc_stopped s" "sc_ctx (fold (\<lambda>j. finish_job j oc) js s) = sc_ctx s"
  by (rule fold_frame; simp)+

lemma refuse_frame [simp]:
  "sc_queue (refuse P e s) = filter (\<lambda>j. \<not> P j) (sc_queue s)" "sc_running (refuse P e s) = sc_running s"
  "sc_stuck (refuse P e s) = sc_stuck s" "sc_jobs (refuse P e s) = sc_jobs s" "sc_plan (refuse P e s) = sc_plan s"
  "sc_state (refuse P e s) = sc_state s" "sc_deleting (refuse P e s) = sc_deleting s"
  "sc_forgotten (refuse P e s) = sc_forgotten s" "sc_gen (refuse P e s) = sc_gen s"
  "sc_next_sweep (refuse P e s) = sc_next_sweep s" "sc_stopped (refuse P e s) = sc_stopped s" "sc_ctx (refuse P e s) = sc_ctx s"
  by (simp_all add: refuse_def Let_def)

lemma blocked_finish [simp]: "blockedLocked a now (finish_job j oc s) = blockedLocked a now s"
  by (simp add: blockedLocked_def)

lemma take_request_frame:
  "take_request now q s = (jo, s') \<Longrightarrow> sc_running s' = sc_running s \<and> sc_stuck s' = sc_stuck s \<and> sc_jobs s' = sc_jobs s \<and>
    sc_plan s' = sc_plan s \<and> sc_state s' = sc_state s \<and> sc_deleting s' = sc_deleting s \<and> sc_forgotten s' = sc_forgotten s \<and>
    sc_gen s' = sc_gen s \<and> sc_next_sweep s' = sc_next_sweep s \<and> sc_stopped s' = sc_stopped s \<and> sc_ctx s' = sc_ctx s"
  by (induction now q s arbitrary: jo s' rule: take_request.induct) (auto split: option.splits)

text \<open>The queue is searched in order, and what precedes the job that is taken was blocked.\<close>

lemma take_request_queue:
  "take_request now q s = (jo, s') \<Longrightarrow>
    (case jo of None \<Rightarrow> sc_queue s' = [] \<and> list_all (\<lambda>j. blockedLocked (jb_app j) now s \<noteq> None) q
     | Some j \<Rightarrow> blockedLocked (jb_app j) now s = None \<and>
         (\<exists>pre. q = pre @ j # sc_queue s' \<and> list_all (\<lambda>j. blockedLocked (jb_app j) now s \<noteq> None) pre))"
proof (induction now q s arbitrary: jo s' rule: take_request.induct)
  case (2 now j q s)
  show ?case
  proof (cases "blockedLocked (jb_app j) now s")
    case None
    with 2(2) show ?thesis by auto
  next
    case (Some e)
    with 2 have "take_request now q (finish_job j (failed e) s) = (jo, s')" by simp
    from 2(1) [OF Some this] Some show ?thesis
      by (auto split: option.splits intro: exI [of _ "j # _"])
  qed
qed auto

subsection \<open>Due times\<close>

definition due :: "time \<Rightarrow> sched \<Rightarrow> planned \<Rightarrow> time option" where
  "due now s p = fst (dueLocked p now s)"

lemma clamp_idem [simp]: "clamp now (clamp now st) = clamp now st"
  by (cases st) (simp add: clamp_def clamp_time_def)

lemma blocked_due [simp]: "blockedLocked a now (snd (dueLocked p now s)) = blockedLocked a now s"
  by (auto simp: dueLocked_def Let_def blockedLocked_def put_state_def split: option.split)

lemma due_stable [simp]: "due now (snd (dueLocked p now s)) = due now s"
proof
  fix p'
  have "schedulable p' now (snd (dueLocked p now s)) = schedulable p' now s" by (simp add: schedulable_def)
  then show "due now (snd (dueLocked p now s)) p' = due now s p'"
    by (auto simp: due_def dueLocked_def Let_def put_state_def split: option.split)
qed

lemma due_blocked: "due now s p = Some d \<Longrightarrow> schedulable p now s"
  by (auto simp: due_def dueLocked_def Let_def split: if_splits)

lemma dueLocked_plan [simp]:
  "sc_plan (snd (dueLocked p now s)) = sc_plan s" "sc_next_sweep (snd (dueLocked p now s)) = sc_next_sweep s"
  "sc_deleting (snd (dueLocked p now s)) = sc_deleting s" "sc_forgotten (snd (dueLocked p now s)) = sc_forgotten s"
  by (auto simp: dueLocked_def Let_def put_state_def split: option.split)

text \<open>The search finds a due backup that is overdue the longest.\<close>

lemma most_overdue_spec:
  "most_overdue now ps best s = (r, s') \<Longrightarrow>
    (case r of
       None \<Rightarrow> best = None \<and> (\<forall>p \<in> set ps. \<forall>d. due now s p = Some d \<longrightarrow> now < d)
     | Some (p, d) \<Rightarrow> (best = Some (p, d) \<or> p \<in> set ps \<and> due now s p = Some d \<and> d \<le> now) \<and>
         (\<forall>p' \<in> set ps. \<forall>d'. due now s p' = Some d' \<longrightarrow> d' \<le> now \<longrightarrow> d \<le> d') \<and>
         (\<forall>pb db. best = Some (pb, db) \<longrightarrow> d \<le> db)) \<and>
    due now s' = due now s \<and> sc_plan s' = sc_plan s \<and> sc_next_sweep s' = sc_next_sweep s \<and>
    sc_deleting s' = sc_deleting s"
proof (induction now ps best s arbitrary: r s' rule: most_overdue.induct)
  case (1 now best s)
  then show ?case by (cases best) auto
next
  case (2 now p ps best s)
  obtain dopt s1 where d: "dueLocked p now s = (dopt, s1)" by force
  have s1: "due now s1 = due now s" "due now s p = dopt" "sc_plan s1 = sc_plan s"
    "sc_next_sweep s1 = sc_next_sweep s" "sc_deleting s1 = sc_deleting s"
    using due_stable [of now p s] dueLocked_plan [of p now s] d by (simp_all add: due_def)
  show ?case
  proof (cases dopt)
    case None
    with 2(3) d have "most_overdue now ps best s1 = (r, s')" by simp
    from 2(1) [OF d [symmetric] None this] s1 None show ?thesis by (auto split: option.splits)
  next
    case (Some dd)
    let ?b = "if dd \<le> now \<and> (case best of None \<Rightarrow> True | Some (_, bd) \<Rightarrow> dd < bd) then Some (p, dd) else best"
    from 2(3) d Some have "most_overdue now ps ?b s1 = (r, s')" by simp
    from 2(2) [OF d [symmetric] Some this] s1 Some show ?thesis
      by (cases best) (auto split: option.splits if_splits)
  qed
qed

lemma blocked_refuse [simp]: "blockedLocked a now (refuse P e s) = blockedLocked a now s"
  by (simp add: blockedLocked_def)

lemma blocked_stuck: "blockedLocked a now s = None \<Longrightarrow> mget (sc_stuck s) a = None"
  by (auto simp: blockedLocked_def split: if_splits)

lemma startLocked_frame [simp]:
  "sc_queue (snd (startLocked b j s)) = sc_queue s" "sc_stuck (snd (startLocked b j s)) = sc_stuck s"
  "sc_jobs (snd (startLocked b j s)) = sc_jobs s" "sc_running (snd (startLocked b j s)) = Some (fst (startLocked b j s))"
  "jb_id (fst (startLocked b j s)) = jb_id j" "jb_key (fst (startLocked b j s)) = jb_key j"
  "sc_waiters (snd (startLocked b j s)) = sc_waiters s" "sc_answers (snd (startLocked b j s)) = sc_answers s"
  "sc_plan (snd (startLocked b j s)) = sc_plan s" "sc_state (snd (startLocked b j s)) = sc_state s"
  "sc_forgotten (snd (startLocked b j s)) = sc_forgotten s"
  by (simp_all add: startLocked_def Let_def)

text \<open>What \<open>next_job\<close> finds: no job and an empty queue; a request; or a scheduled backup with a new number.\<close>

definition found_request :: "time \<Rightarrow> sched \<Rightarrow> job \<Rightarrow> sched \<Rightarrow> bool" where
  "found_request now s j s' \<longleftrightarrow> sc_jobs s' = sc_jobs s \<and>
     (\<exists>pre j0. filter (\<lambda>j. \<not> waited_too_long now j) (sc_queue s) = pre @ j0 # sc_queue s' \<and>
       jb_id j = jb_id j0 \<and> jb_key j = jb_key j0 \<and>
       list_all (\<lambda>j. blockedLocked (jb_app j) now s \<noteq> None) pre)"

definition found_scheduled :: "time \<Rightarrow> sched \<Rightarrow> job \<Rightarrow> sched \<Rightarrow> bool" where
  "found_scheduled now s j s' \<longleftrightarrow> sc_jobs s' = Suc (sc_jobs s) \<and> jb_id j = sc_jobs s \<and> sc_queue s' = [] \<and>
     list_all (\<lambda>j. waited_too_long now j \<or> blockedLocked (jb_app j) now s \<noteq> None) (sc_queue s) \<and>
     (\<exists>p \<in> set (sc_plan s). \<exists>d. due now s p = Some d \<and> d \<le> now \<and> jb_key j = (pl_app p, pl_name p) \<and>
       (\<forall>p' \<in> set (sc_plan s). \<forall>d'. due now s p' = Some d' \<longrightarrow> d \<le> d'))"

lemma due_frame:
  assumes "sc_state s = sc_state t" "sc_stuck s = sc_stuck t" "sc_deleting s = sc_deleting t"
  shows "due now s = due now t" "blockedLocked a now s = blockedLocked a now t"
proof -
  have b: "blockedLocked a now s = blockedLocked a now t" for a using assms by (simp add: blockedLocked_def)
  then show "blockedLocked a now s = blockedLocked a now t" .
  show "due now s = due now t"
    by (rule ext) (simp add: due_def dueLocked_def Let_def schedulable_def b assms(1) split: option.split)
qed

lemma next_job_spec:
  assumes "next_job b now s = (jo, s')"
  shows "sc_stuck s' = sc_stuck s" "sc_plan s' = sc_plan s"
    "case jo of
       None \<Rightarrow> sc_queue s' = [] \<and> sc_running s' = sc_running s \<and> sc_jobs s' = sc_jobs s \<and>
         due now s' = due now s \<and> sc_next_sweep s' = sc_next_sweep s \<and> sc_deleting s' = sc_deleting s \<and>
         (\<forall>p \<in> set (sc_plan s). \<forall>d. due now s p = Some d \<longrightarrow> now < d)
     | Some j \<Rightarrow> sc_running s' = Some j \<and> blockedLocked (jb_app j) now s = None \<and>
         (found_request now s j s' \<or> found_scheduled now s j s')"
proof -
  let ?s1 = "refuse (waited_too_long now) ErrQueueWait s"
  obtain jo2 s2 where t: "take_request now (sc_queue ?s1) ?s1 = (jo2, s2)" by force
  note q = take_request_queue [OF t] and f = take_request_frame [OF t]
  have eq: "due now s2 = due now s" "blockedLocked a now s2 = blockedLocked a now s" for a
    using f by (simp_all add: due_frame [of s2 s])
  have *: "sc_stuck s' = sc_stuck s \<and> sc_plan s' = sc_plan s \<and> (case jo of
       None \<Rightarrow> sc_queue s' = [] \<and> sc_running s' = sc_running s \<and> sc_jobs s' = sc_jobs s \<and>
         due now s' = due now s \<and> sc_next_sweep s' = sc_next_sweep s \<and> sc_deleting s' = sc_deleting s \<and>
         (\<forall>p \<in> set (sc_plan s). \<forall>d. due now s p = Some d \<longrightarrow> now < d)
     | Some j \<Rightarrow> sc_running s' = Some j \<and> blockedLocked (jb_app j) now s = None \<and>
         (found_request now s j s' \<or> found_scheduled now s j s'))"
  proof (cases jo2)
    case (Some j0)
    let ?st = "startLocked b j0 s2"
    have r: "jo = Some (fst ?st)" "s' = snd ?st"
      using assms t Some by (auto simp: next_job_def Let_def split_beta)
    from q Some obtain pre where pre: "filter (\<lambda>j. \<not> waited_too_long now j) (sc_queue s) = pre @ j0 # sc_queue s2"
      "list_all (\<lambda>j. blockedLocked (jb_app j) now s \<noteq> None) pre" "blockedLocked (jb_app j0) now s = None"
      by auto
    then have "found_request now s (fst ?st) s'"
      using f by (auto simp: found_request_def r(2))
    then show ?thesis using r f pre(3) by simp
  next
    case None
    with q have q2: "sc_queue s2 = []"
      "list_all (\<lambda>j. waited_too_long now j \<or> blockedLocked (jb_app j) now s \<noteq> None) (sc_queue s)"
      by (auto simp: list_all_iff)
    obtain best s3 where m: "most_overdue now (sc_plan s2) None s2 = (best, s3)" by force
    have j3: "sc_queue s3 = []" "sc_running s3 = sc_running s" "sc_stuck s3 = sc_stuck s" "sc_jobs s3 = sc_jobs s"
      using jobs_of_eqD [OF jobs.overdue [of now "sc_plan s2" None s2, unfolded m snd_conv]] q2(1) f by simp_all
    note sp = most_overdue_spec [OF m]
    show ?thesis
    proof (cases best)
      case b: None
      then have "jo = None" "s' = s3" using assms t None m by (auto simp: next_job_def Let_def)
      with sp b j3 f eq show ?thesis by simp
    next
      case b: (Some pd)
      obtain p d where pd: "pd = (p, d)" by force
      let ?j = "\<lparr>jb_id = sc_jobs s3, jb_key = (pl_app p, pl_name p), jb_kind = Some PointScheduled, jb_point = [],
                        jb_queued = zero_time, jb_limit = 0\<rparr>"
      let ?st = "startLocked b ?j (s3\<lparr>sc_jobs := Suc (sc_jobs s3)\<rparr>)"
      have r: "jo = Some (fst ?st)" "s' = snd ?st"
        using assms t None m b pd by (auto simp: next_job_def Let_def split_beta)
      from sp b pd f eq have best: "p \<in> set (sc_plan s)" "due now s p = Some d" "d \<le> now"
        "\<forall>p' \<in> set (sc_plan s). \<forall>d'. due now s p' = Some d' \<longrightarrow> d' \<le> now \<longrightarrow> d \<le> d'" "sc_plan s3 = sc_plan s"
        by auto
      then have "\<forall>p' \<in> set (sc_plan s). \<forall>d'. due now s p' = Some d' \<longrightarrow> d \<le> d'" by force
      with best j3 q2(2) have "found_scheduled now s (fst ?st) s'"
        unfolding found_scheduled_def r(2) by auto
      moreover have "blockedLocked (pl_app p) now s = None" using due_blocked [OF best(2)] by (simp add: schedulable_def)
      ultimately show ?thesis using r j3 best(5) by simp
    qed
  qed
  then show "sc_stuck s' = sc_stuck s" "sc_plan s' = sc_plan s"
    "case jo of
       None \<Rightarrow> sc_queue s' = [] \<and> sc_running s' = sc_running s \<and> sc_jobs s' = sc_jobs s \<and>
         due now s' = due now s \<and> sc_next_sweep s' = sc_next_sweep s \<and> sc_deleting s' = sc_deleting s \<and>
         (\<forall>p \<in> set (sc_plan s). \<forall>d. due now s p = Some d \<longrightarrow> now < d)
     | Some j \<Rightarrow> sc_running s' = Some j \<and> blockedLocked (jb_app j) now s = None \<and>
         (found_request now s j s' \<or> found_scheduled now s j s')"
    by blast+
qed

subsection \<open>The simulation\<close>

lemma Forget_jobs: "jobs_of (snd (Forget app now s)) = jobs_of (refuse (\<lambda>j. jb_app j = app) AppWasDeleted s)"
  by (simp add: Forget_def Let_def split: option.split)

lemmas Forget_frame = jobs_of_eqD [OF Forget_jobs, unfolded refuse_frame]

lemma call_exit_frame:
  "sc_queue (call_exit j d s) = sc_queue s" "sc_running (call_exit j d s) = sc_running s" "sc_jobs (call_exit j d s) = sc_jobs s"
  "sc_waiters (call_exit j d s) = sc_waiters s" "sc_answers (call_exit j d s) = sc_answers s" "sc_stopped (call_exit j d s) = sc_stopped s"
  "sc_stuck (call_exit j d s) = (if mget (sc_stuck s) (jb_app j) = Some (jb_id j) then mdel (jb_app j) (sc_stuck s) else sc_stuck s)"
proof -
  note l = jobs_of_eqD [OF jobs.late]
  show "sc_queue (call_exit j d s) = sc_queue s" "sc_running (call_exit j d s) = sc_running s" "sc_jobs (call_exit j d s) = sc_jobs s"
    "sc_waiters (call_exit j d s) = sc_waiters s" "sc_answers (call_exit j d s) = sc_answers s" "sc_stopped (call_exit j d s) = sc_stopped s"
    "sc_stuck (call_exit j d s) = (if mget (sc_stuck s) (jb_app j) = Some (jb_id j) then mdel (jb_app j) (sc_stuck s) else sc_stuck s)"
    by (simp_all add: call_exit_def Let_def signal_def l)
qed

lemma record_frame:
  "\<exists>oc t. record_outcome j st d err stopping s = finish_job j oc t \<and> jobs_of t = jobs_of (s\<lparr>sc_running := None\<rparr>)"
proof -
  have p: "jobs_of (s\<lparr>sc_dirty := b\<rparr>) = jobs_of s" for b s by (simp add: jobs_of_def)
  have r: "jobs_of (if b then s\<lparr>sc_dirty := True\<rparr> else s) = jobs_of s" for b s by (simp add: p)
  have n: "jobs_of (nudge s) = jobs_of s" for s by simp
  show ?thesis
  proof (cases "jb_point j = []")
    case True
    have "\<exists>oc t. record_run j st (eo_res d) err stopping s = finish_job j oc t \<and> jobs_of t = jobs_of (nudge (s\<lparr>sc_running := None\<rparr>))"
      unfolding record_run_def Let_def
      by (auto simp: p jobs.put split: option.split intro!: exI simp del: jobs.nudged)
    then show ?thesis using True by (simp add: record_outcome_def)
  next
    case False
    have "\<exists>oc t. recordRestore j (eo_restore d) err stopping s = finish_job j oc t \<and> jobs_of t = jobs_of (nudge (s\<lparr>sc_running := None\<rparr>))"
      unfolding recordRestore_def Let_def split_beta
      by (intro exI conjI, rule refl) (auto simp: r split: option.split)
    then show ?thesis using False by (simp add: record_outcome_def)
  qed
qed

lemma record_outcome_frame:
  "sc_queue (record_outcome j st d err stopping s) = sc_queue s" "sc_running (record_outcome j st d err stopping s) = None"
  "sc_stuck (record_outcome j st d err stopping s) = sc_stuck s" "sc_jobs (record_outcome j st d err stopping s) = sc_jobs s"
proof -
  obtain oc t where t: "record_outcome j st d err stopping s = finish_job j oc t" "jobs_of t = jobs_of (s\<lparr>sc_running := None\<rparr>)"
    using record_frame by blast
  from jobs_of_eqD [OF t(2)] t(1)
  show "sc_queue (record_outcome j st d err stopping s) = sc_queue s" "sc_running (record_outcome j st d err stopping s) = None"
    "sc_stuck (record_outcome j st d err stopping s) = sc_stuck s" "sc_jobs (record_outcome j st d err stopping s) = sc_jobs s"
    by simp_all
qed

text \<open>Requests: a new number at the end of the queue.\<close>

lemma ask_frame:
  "fst (ask err j s) = sc_jobs s" "sc_jobs (snd (ask err j s)) = Suc (sc_jobs s)"
  "sc_queue (snd (ask err j s)) = sc_queue s @ (if err = None then [j\<lparr>jb_id := sc_jobs s\<rparr>] else [])"
  "sc_running (snd (ask err j s)) = sc_running s" "sc_stuck (snd (ask err j s)) = sc_stuck s"
  "sc_waiters (snd (ask err j s)) = sc_waiters s @ (if err = None then [sc_jobs s] else [])"
  "sc_answers (snd (ask err j s)) = sc_answers s @ (case err of None \<Rightarrow> [] | Some e \<Rightarrow> [(sc_jobs s, failed e)])"
  "sc_stopped (snd (ask err j s)) = sc_stopped s"
  by (auto simp: ask_def Let_def signal_def answer_def split: option.split)

end
