(* ===== verification/Scheduler_Props.thy ===== *)
theory Scheduler_Props
  imports Scheduler_Slots
begin

text \<open>
  The properties of the backup scheduler: the simulation of the abstract machine step by step, requests
  answered exactly once, and what the choice of the next job and its wait promise.
\<close>

subsection \<open>The simulation, event by event\<close>

lemma calls_okD:
  assumes "calls_ok stuck pc calls chan"
  shows "mget calls i = Some (j, x) \<Longrightarrow> jb_id j = i \<and> mget chan i = x"
    "mget stuck a = Some i \<Longrightarrow> \<exists>j x. mget calls i = Some (j, x) \<and> jb_app j = a"
    "pc = Picked k \<Longrightarrow> mget stuck (jb_app k) = None" "pc = Running k t \<Longrightarrow> mget stuck (jb_app k) = None"
    "pc = Running k t \<Longrightarrow> mget chan (jb_id k) = None \<Longrightarrow> mget calls (jb_id k) = Some (k, None)"
  using assms unfolding calls_ok_def by blast+

lemma calls_okI:
  assumes "\<And>i j x. mget calls i = Some (j, x) \<Longrightarrow> jb_id j = i \<and> mget chan i = x"
    "\<And>a i. mget stuck a = Some i \<Longrightarrow> \<exists>j x. mget calls i = Some (j, x) \<and> jb_app j = a"
    "\<And>k. pc = Picked k \<Longrightarrow> mget stuck (jb_app k) = None" "\<And>k t. pc = Running k t \<Longrightarrow> mget stuck (jb_app k) = None"
    "\<And>k t. pc = Running k t \<Longrightarrow> mget chan (jb_id k) = None \<Longrightarrow> mget calls (jb_id k) = Some (k, None)"
  shows "calls_ok stuck pc calls chan"
  using assms unfolding calls_ok_def by blast


definition simulated :: "system \<Rightarrow> system \<Rightarrow> bool" where
  "simulated y y' \<longleftrightarrow> sys_ok y' \<and> slot_step (abs_slots y) (abs_slots y')"

lemma simulated_refl [simp, intro]: "sys_ok y \<Longrightarrow> simulated y y"
  by (simp add: simulated_def stays)

lemma simulated_eq: "sys_ok y' \<Longrightarrow> abs_slots y' = abs_slots y \<Longrightarrow> simulated y y'"
  by (simp add: simulated_def stays)

lemma simulated_sched:
  "sys_ok y \<Longrightarrow> jobs_of s = jobs_of (sy_sched y) \<Longrightarrow> simulated y (y\<lparr>sy_sched := s\<rparr>)"
  using sys_ok_same [of y s] by (simp add: simulated_eq)

text \<open>A change of the program counter between points where no job is held.\<close>

lemma simulated_goto:
  assumes "sys_ok y" "jobs_of s = jobs_of (sy_sched y)" "cur_job (sy_pc y) = None" "cur_job pc = None"
  shows "simulated y (goto pc s y)"
proof -
  have b: "(case p of Running j _ \<Rightarrow> Some (jb_id j, jb_app j) | _ \<Rightarrow> None) = None" if "cur_job p = None" for p
    using that by (auto simp: cur_job_def split: run_pc.splits)
  have n: "pc \<noteq> Picked j" "pc \<noteq> Running j t" for j t using assms(4) by (auto simp: cur_job_def)
  show ?thesis
    using assms jobs_of_eqD [OF assms(2)] n
    by (intro simulated_eq) (auto simp: sys_ok_def ids_ok_def calls_ok_def abs_slots_def b)
qed

lemma simulated_pc:
  "sys_ok y \<Longrightarrow> cur_job (sy_pc y) = None \<Longrightarrow> cur_job pc = None \<Longrightarrow> simulated y (y\<lparr>sy_pc := pc\<rparr>)"
  using simulated_goto [of y "sy_sched y" pc] by simp

lemma fire_start: "sys_ok y \<Longrightarrow> simulated y (fire (Start now) y)"
  by (cases "sy_pc y") (auto intro!: simulated_goto simp: cur_job_def)

lemma fire_top: "sys_ok y \<Longrightarrow> simulated y (fire Top y)"
proof (cases "sy_pc y = AtTop")
  case True
  assume ok: "sys_ok y"
  obtain r s where b: "refresh_begin (sy_sched y) = (r, s)" by force
  have j: "jobs_of s = jobs_of (sy_sched y)" using jobs.begins [of "sy_sched y"] b by simp
  show ?thesis
    using True b j ok by (auto simp: run_top_def cur_job_def split: option.split intro!: simulated_goto simulated_pc)
qed (auto split: run_pc.split)

lemma fire_read: "sys_ok y \<Longrightarrow> simulated y (fire (Read plan now) y)"
  by (cases "sy_pc y") (auto intro!: simulated_goto simp: cur_job_def)

lemma fire_idle: "sys_ok y \<Longrightarrow> simulated y (fire Idle y)"
proof (cases "sy_pc y")
  case (Idling now)
  assume ok: "sys_ok y"
  obtain w s where u: "untilDue now (sy_sched y) = (w, s)" by force
  have "jobs_of s = jobs_of (sy_sched y)" using jobs_of_untilDue [of now "sy_sched y"] u by simp
  then show ?thesis using Idling u ok by (auto intro!: simulated_goto simp: cur_job_def)
qed auto

lemma fire_wake: "sys_ok y \<Longrightarrow> simulated y (fire (Wake b) y)"
  by (cases "sy_pc y") (auto intro!: simulated_goto simulated_pc simp: cur_job_def)

lemma fire_stop: "sys_ok y \<Longrightarrow> simulated y (fire StopNow y)"
proof (cases "sy_pc y = Stopping")
  case True
  assume ok: "sys_ok y"
  let ?s = "shut_down (sy_sched y)"
  have "sc_queue ?s = []" "sc_running ?s = sc_running (sy_sched y)" "sc_stuck ?s = sc_stuck (sy_sched y)"
    "sc_jobs ?s = sc_jobs (sy_sched y)" by (simp_all add: shut_down_def)
  then show ?thesis
    using True ok by (auto intro!: simulated_eq simp: sys_ok_def ids_ok_def calls_ok_def abs_slots_def cur_job_def)
qed (auto split: run_pc.split)

lemma fire_decide: "sys_ok y \<Longrightarrow> simulated y (fire (Decide now) y)"
proof (cases "sy_pc y = Deciding")
  case True
  assume ok: "sys_ok y"
  obtain jo s where n: "next_job (sy_parent y) now (sy_sched y) = (jo, s)" by force
  note sp = next_job_spec [OF n]
  have "simulated y (goto (case jo of Some j \<Rightarrow> Picked j | None \<Rightarrow> Idling now) s y)"
  proof (cases jo)
    case None
    with sp True ok show ?thesis
      by (intro simulated_eq) (auto simp: sys_ok_def ids_ok_def calls_ok_def abs_slots_def cur_job_def)
  next
    case (Some j)
    have r: "sc_running s = Some j" and st: "mget (sc_stuck (sy_sched y)) (jb_app j) = None"
      and q: "found_request now (sy_sched y) j s \<or> found_scheduled now (sy_sched y) j s"
      using sp Some blocked_stuck by auto
    have ids: "ids_ok (sc_queue (sy_sched y)) (sc_jobs (sy_sched y)) Deciding (sy_calls y) (sy_chan y)"
      using ok True by (simp add: sys_ok_def)
    from q have "ids_ok (sc_queue s) (sc_jobs s) (Picked j) (sy_calls y) (sy_chan y)"
    proof
      assume "found_request now (sy_sched y) j s"
      then obtain pre j0 where p: "sc_jobs s = sc_jobs (sy_sched y)" "jb_id j = jb_id j0"
        "filter (\<lambda>j. \<not> waited_too_long now j) (sc_queue (sy_sched y)) = pre @ j0 # sc_queue s"
        by (auto simp: found_request_def)
      have sub: "set (pre @ j0 # sc_queue s) \<subseteq> set (sc_queue (sy_sched y))" unfolding p(3) [symmetric] by auto
      have "distinct (map jb_id (pre @ j0 # sc_queue s))"
        unfolding p(3) [symmetric] using ids by (simp add: ids_ok_def distinct_map_filter)
      with sub ids p(1,2) show ?thesis by (auto simp: ids_ok_def cur_job_def image_iff)
    next
      assume "found_scheduled now (sy_sched y) j s"
      with ids show ?thesis by (auto simp: ids_ok_def cur_job_def found_scheduled_def)
    qed
    with r st Some sp True ok show ?thesis
      by (intro simulated_eq) (auto simp: sys_ok_def calls_ok_def abs_slots_def cur_job_def)
  qed
  then show ?thesis
    using True ok n simulated_goto [of y "(sy_sched y)\<lparr>sc_next_sweep := now + sweepEvery\<rparr>" AtTop]
    by (cases jo) (auto simp: run_decide_def Let_def cur_job_def)
qed (auto split: run_pc.split)

lemma stuck_more:
  assumes "calls_ok stuck (Got j st d) calls chan" "mget calls (jb_id j) = Some (j, x)"
  shows "calls_ok (mput (jb_app j) (jb_id j) stuck) (Got j st d) calls chan"
proof (rule calls_okI)
  fix a i
  assume "mget (mput (jb_app j) (jb_id j) stuck) a = Some i"
  then show "\<exists>k x. mget calls i = Some (k, x) \<and> jb_app k = a"
    using calls_okD(2) [OF assms(1), of a i] assms(2) by (simp split: if_splits)
qed (use calls_okD(1) [OF assms(1)] in simp_all)

text \<open>After the call the job is held without a claim on the engine.\<close>

lemma held_job:
  assumes "ids_ok q n pc calls chan" "calls_ok stuck pc calls chan" "cur_job pc' = cur_job pc \<or> cur_job pc' = None"
    "\<And>j. pc' \<noteq> Picked j" "\<And>j t. pc' \<noteq> Running j t"
  shows "ids_ok q n pc' calls chan \<and> calls_ok stuck pc' calls chan"
  using assms by (elim disjE) (simp_all add: ids_ok_def calls_ok_def)

lemma simulated_held:
  assumes "sys_ok y" "cur_job pc = cur_job (sy_pc y) \<or> cur_job pc = None" "\<And>j. pc \<noteq> Picked j" "\<And>j t. pc \<noteq> Running j t"
    "\<And>j t. sy_pc y \<noteq> Running j t" "sc_running s = cur_job pc" "sc_queue s = sc_queue (sy_sched y)"
    "sc_stuck s = sc_stuck (sy_sched y)" "sc_jobs s = sc_jobs (sy_sched y)"
  shows "simulated y (goto pc s y)"
proof (rule simulated_eq)
  show "sys_ok (goto pc s y)"
    using assms(1,6-9) held_job [of "sc_queue (sy_sched y)" "sc_jobs (sy_sched y)" "sy_pc y" "sy_calls y" "sy_chan y"
      "sc_stuck (sy_sched y)" pc, OF _ _ assms(2-4)] by (simp add: sys_ok_def)
  show "abs_slots (goto pc s y) = abs_slots y"
    using assms(4,5,8) by (simp add: abs_slots_def split: run_pc.split)
qed

lemma fire_launch: "sys_ok y \<Longrightarrow> simulated y (fire (Launch now) y)"
proof (cases "sy_pc y")
  case (Picked j)
  assume ok: "sys_ok y"
  have c: "ids_ok (sc_queue (sy_sched y)) (sc_jobs (sy_sched y)) (Picked j) (sy_calls y) (sy_chan y)"
    "calls_ok (sc_stuck (sy_sched y)) (Picked j) (sy_calls y) (sy_chan y)" "sc_running (sy_sched y) = Some j"
    using ok Picked by (simp_all add: sys_ok_def cur_job_def)
  then have fr: "mget (sy_calls y) (jb_id j) = None" "mget (sy_chan y) (jb_id j) = None" "mget (sc_stuck (sy_sched y)) (jb_app j) = None"
    by (auto simp: ids_ok_def calls_ok_def free_id_def)
  let ?y = "launch j now y"
  have "ids_ok (sc_queue (sy_sched y)) (sc_jobs (sy_sched y)) (Running j now) (sy_calls ?y) (sy_chan y)"
    using c(1) by (auto simp: ids_ok_def cur_job_def free_id_def launch_def image_iff)
  moreover have "calls_ok (sc_stuck (sy_sched y)) (Running j now) (sy_calls ?y) (sy_chan y)"
    unfolding calls_ok_def
  proof (intro conjI allI impI)
    fix a i
    assume "mget (sc_stuck (sy_sched y)) a = Some i"
    then obtain k x where k: "mget (sy_calls y) i = Some (k, x)" "jb_app k = a" using calls_okD(2) [OF c(2)] by blast
    then have "i \<noteq> jb_id j" using fr by auto
    with k show "\<exists>k x. mget (sy_calls ?y) i = Some (k, x) \<and> jb_app k = a" by (auto simp: launch_def)
  qed (use c(2) fr in \<open>auto simp: calls_ok_def launch_def split: if_splits\<close>)
  ultimately have "sys_ok ?y" using c(3) by (simp add: sys_ok_def cur_job_def launch_def)
  moreover have "abs_slots ?y = (abs_slots y)\<lparr>sl_busy := Some (jb_id j, jb_app j),
    sl_calls := (sl_calls (abs_slots y))(jb_id j \<mapsto> jb_app j)\<rparr>"
    by (auto simp: abs_slots_def launch_def fun_eq_iff)
  moreover have "slot_step (abs_slots y) ((abs_slots y)\<lparr>sl_busy := Some (jb_id j, jb_app j),
    sl_calls := (sl_calls (abs_slots y))(jb_id j \<mapsto> jb_app j)\<rparr>)"
    by (rule begins) (simp_all add: abs_slots_def Picked fr)
  ultimately show ?thesis using Picked by (simp add: simulated_def)
qed auto

lemma running_parts:
  assumes "sys_ok y" "sy_pc y = Running j st"
  shows "ids_ok (sc_queue (sy_sched y)) (sc_jobs (sy_sched y)) (Got j st d) (sy_calls y) (sy_chan y)"
    "calls_ok (sc_stuck (sy_sched y)) (Got j st d) (sy_calls y) (sy_chan y)" "sc_running (sy_sched y) = Some j"
    "sl_busy (abs_slots y) = Some (jb_id j, jb_app j)"
  using assms by (auto simp: sys_ok_def ids_ok_def calls_ok_def cur_job_def abs_slots_def)

lemma fire_receive: "sys_ok y \<Longrightarrow> simulated y (fire Receive y)"
proof (cases "sy_pc y")
  case (Running j st)
  assume ok: "sys_ok y"
  show ?thesis
  proof (cases "mget (sy_chan y) (jb_id j)")
    case None
    then show ?thesis using Running ok by simp
  next
    case (Some d)
    note r = running_parts [OF ok Running]
    let ?y = "y\<lparr>sy_pc := Got j st d\<rparr>"
    have "sys_ok ?y" using r by (simp add: sys_ok_def cur_job_def)
    moreover have "abs_slots ?y = (abs_slots y)\<lparr>sl_busy := None\<rparr>" by (simp add: abs_slots_def)
    moreover have "sl_calls (abs_slots y) (jb_id j) = None"
      using ok Some by (auto simp: abs_slots_def sys_ok_def calls_ok_def split: option.split)
    then have "slot_step (abs_slots y) ((abs_slots y)\<lparr>sl_busy := None\<rparr>)" using receives [OF r(4)] by blast
    ultimately show ?thesis using Running Some by (simp add: simulated_def)
  qed
qed auto

lemma fire_give_up: "sys_ok y \<Longrightarrow> simulated y (fire GiveUp y)"
proof (cases "sy_pc y")
  case (Running j st)
  assume ok: "sys_ok y"
  note r = running_parts [OF ok Running]
  show ?thesis
  proof (cases "mget (sc_ctx (sy_sched y)) (jb_id j) = Some Live")
    case True
    then show ?thesis using Running ok by (simp add: give_up_def)
  next
    case dead: False
    show ?thesis
    proof (cases "mget (sy_chan y) (jb_id j)")
      case (Some d)
      have "fire GiveUp y = fire Receive y" using Running dead Some by (simp add: give_up_def abandon_def)
      then show ?thesis using fire_receive [OF ok] by simp
    next
      case None
      let ?s = "(sy_sched y)\<lparr>sc_abandoned := jb_id j # sc_abandoned (sy_sched y),
                   sc_stuck := mput (jb_app j) (jb_id j) (sc_stuck (sy_sched y))\<rparr>"
      obtain d where y': "fire GiveUp y = goto (Got j st d) ?s y" using Running dead None by (simp add: give_up_def abandon_def)
      have "mget (sy_calls y) (jb_id j) = Some (j, None)"
        using ok Running None by (simp add: sys_ok_def calls_ok_def)
      then have "calls_ok (sc_stuck ?s) (Got j st d) (sy_calls y) (sy_chan y)"
        using stuck_more [OF r(2)] by simp
      then have "sys_ok (fire GiveUp y)" unfolding y' using r(1,3) by (simp add: sys_ok_def cur_job_def)
      moreover have "abs_slots (fire GiveUp y) = (abs_slots y)\<lparr>sl_busy := None, sl_hung := (sl_hung (abs_slots y))(jb_app j \<mapsto> jb_id j)\<rparr>"
        unfolding y' by (auto simp: abs_slots_def fun_eq_iff)
      ultimately show ?thesis using abandons [OF r(4)] by (simp add: simulated_def)
    qed
  qed
qed auto

lemma fire_conclude: "sys_ok y \<Longrightarrow> simulated y (fire Conclude y)"
proof (cases "sy_pc y")
  case (Got j st d)
  assume ok: "sys_ok y"
  obtain err stopping where c: "conclude (sy_parent y) j d (sy_sched y) = (err, stopping)" by force
  have "simulated y (goto (Concluded j st d err stopping) (sy_sched y) y)"
    using ok Got by (intro simulated_held) (auto simp: cur_job_def sys_ok_def)
  then show ?thesis using Got c by simp
qed auto

lemma fire_record: "sys_ok y \<Longrightarrow> simulated y (fire RecordIt y)"
proof (cases "sy_pc y")
  case (Concluded j st d err stopping)
  assume "sys_ok y"
  then have "simulated y (goto AtTop (record_outcome j st d err stopping (sy_sched y)) y)"
    using Concluded by (intro simulated_held) (simp_all add: cur_job_def record_outcome_frame)
  then show ?thesis using Concluded by simp
qed auto

lemma calls_of_ids:
  assumes "ids_ok q n pc calls chan" "mget calls i \<noteq> None"
  shows "ids_ok q n pc (mput i x calls) (mput i d chan)" "ids_ok q n pc (mdel i calls) chan"
proof -
  have "jb_id j \<noteq> i" if "j \<in> set q" for j using assms that by (auto simp: ids_ok_def free_id_def)
  moreover have "i < n" using assms by (force simp: ids_ok_def free_id_def not_less [symmetric])
  moreover have "pc = Picked j \<Longrightarrow> jb_id j \<noteq> i" for j using assms by (auto simp: ids_ok_def free_id_def)
  ultimately show "ids_ok q n pc (mput i x calls) (mput i d chan)" "ids_ok q n pc (mdel i calls) chan"
    using assms by (auto simp: ids_ok_def free_id_def)
qed

lemma fire_return: "sys_ok y \<Longrightarrow> simulated y (fire (Return i d) y)"
proof (cases "\<exists>j. mget (sy_calls y) i = Some (j, None)")
  case True
  assume ok: "sys_ok y"
  from True obtain j where j: "mget (sy_calls y) i = Some (j, None)" by blast
  let ?y = "y\<lparr>sy_calls := mput i (j, Some d) (sy_calls y), sy_chan := mput i d (sy_chan y)\<rparr>"
  let ?p = "sy_pc y" and ?st = "sc_stuck (sy_sched y)"
  have id: "jb_id j = i" using ok j calls_okD(1) by (simp add: sys_ok_def) blast
  have "ids_ok (sc_queue (sy_sched y)) (sc_jobs (sy_sched y)) ?p (sy_calls ?y) (sy_chan ?y)"
    using ok j by (simp add: sys_ok_def calls_of_ids(1))
  moreover have "calls_ok ?st ?p (sy_calls ?y) (sy_chan ?y)"
  proof -
    have c: "calls_ok ?st ?p (sy_calls y) (sy_chan y)" using ok by (simp add: sys_ok_def)
    have "\<exists>k x. mget (sy_calls ?y) m = Some (k, x) \<and> jb_app k = a" if "mget ?st a = Some m" for a m
      using calls_okD(2) [OF c that] j by (cases "m = i") auto
    moreover have "jb_id k = m \<and> mget (sy_chan ?y) m = x" if "mget (sy_calls ?y) m = Some (k, x)" for m k x
      using calls_okD(1) [OF c, of m k x] that id by (simp split: if_splits)
    moreover have "mget (sy_calls ?y) (jb_id k) = Some (k, None)" if "?p = Running k t" "mget (sy_chan ?y) (jb_id k) = None" for k t
      using calls_okD(5) [OF c that(1)] that(2) by (simp split: if_splits)
    ultimately show ?thesis using calls_okD(3,4) [OF c] by (intro calls_okI)
  qed
  ultimately have "sys_ok ?y" using ok by (simp add: sys_ok_def)
  moreover have "abs_slots ?y = (abs_slots y)\<lparr>sl_calls := (sl_calls (abs_slots y))(i := None)\<rparr>"
    by (auto simp: abs_slots_def fun_eq_iff)
  ultimately show ?thesis using j returns [of "abs_slots y" i] by (simp add: simulated_def)
qed (auto split: option.split prod.split)

lemma fire_exit: "sys_ok y \<Longrightarrow> simulated y (fire (Exit i) y)"
proof (cases "\<exists>j d. mget (sy_calls y) i = Some (j, Some d)")
  case True
  assume ok: "sys_ok y"
  from True obtain j d where j: "mget (sy_calls y) i = Some (j, Some d)" by blast
  let ?s = "call_exit j d (sy_sched y)" and ?p = "sy_pc y" and ?st = "sc_stuck (sy_sched y)"
  let ?y = "y\<lparr>sy_calls := mdel i (sy_calls y), sy_sched := ?s\<rparr>"
  have c: "calls_ok ?st ?p (sy_calls y) (sy_chan y)" using ok by (simp add: sys_ok_def)
  have id: "jb_id j = i" using calls_okD(1) [OF c j] by simp
  have own: "a = jb_app j" if "mget ?st a = Some i" for a using calls_okD(2) [OF c that] j by auto
  have st: "mget (sc_stuck ?s) a = Some m \<longleftrightarrow> mget ?st a = Some m \<and> m \<noteq> i" for a m
  proof (cases "mget ?st (jb_app j) = Some i")
    case True
    then have e: "sc_stuck ?s = mdel (jb_app j) ?st" by (simp add: call_exit_frame id)
    have "mget ?st a \<noteq> Some i" if "a \<noteq> jb_app j" using own [of a] that by blast
    then show ?thesis unfolding e using True by (cases "m = i") auto
  next
    case False
    then have e: "sc_stuck ?s = ?st" by (simp add: call_exit_frame id)
    have "mget ?st a \<noteq> Some i" using own [of a] False by blast
    then show ?thesis unfolding e by blast
  qed
  have none: "mget ?st a = None \<Longrightarrow> mget (sc_stuck ?s) a = None" for a by (simp add: call_exit_frame)
  have "ids_ok (sc_queue ?s) (sc_jobs ?s) ?p (sy_calls ?y) (sy_chan ?y)"
    using ok j by (simp add: sys_ok_def calls_of_ids(2) call_exit_frame)
  moreover have "calls_ok (sc_stuck ?s) ?p (mdel i (sy_calls y)) (sy_chan y)"
  proof (rule calls_okI)
    fix k t
    assume r: "?p = Running k t" "mget (sy_chan y) (jb_id k) = None"
    show "mget (mdel i (sy_calls y)) (jb_id k) = Some (k, None)" using calls_okD(5) [OF c r] j by auto
  next
    fix a m
    assume "mget (sc_stuck ?s) a = Some m"
    then show "\<exists>k x. mget (mdel i (sy_calls y)) m = Some (k, x) \<and> jb_app k = a"
      using calls_okD(2) [OF c, of a m] st [of a m] by auto
  next
    fix m k x
    assume "mget (mdel i (sy_calls y)) m = Some (k, x)"
    then show "jb_id k = m \<and> mget (sy_chan y) m = x" using calls_okD(1) [OF c, of m k x] by (simp split: if_splits)
  qed (use calls_okD(3,4) [OF c] none in blast)+
  ultimately have "sys_ok ?y" using ok by (simp add: sys_ok_def call_exit_frame)
  moreover have "slot_step (abs_slots y) (abs_slots ?y)"
  proof (cases "mget ?st (jb_app j) = Some i")
    case True
    have "abs_slots ?y = (abs_slots y)\<lparr>sl_hung := (sl_hung (abs_slots y))(jb_app j := None)\<rparr>"
      using True j id by (auto simp: abs_slots_def fun_eq_iff call_exit_frame)
    moreover have "sl_hung (abs_slots y) (jb_app j) = Some i" "sl_calls (abs_slots y) i = None"
      using True j by (simp_all add: abs_slots_def)
    ultimately show ?thesis using clears by simp
  next
    case False
    have "abs_slots ?y = abs_slots y" using False j id by (auto simp: abs_slots_def fun_eq_iff call_exit_frame)
    then show ?thesis by (simp add: stays)
  qed
  ultimately show ?thesis using j by (simp add: simulated_def)
qed (auto split: option.split prod.split)

lemma simulated_ask:
  assumes ok: "sys_ok y" and a: "ask err j (sy_sched y) = (i, s)"
  shows "simulated y (y\<lparr>sy_sched := s, sy_asked := x\<rparr>)"
proof (rule simulated_eq)
  note f = ask_frame [of err j "sy_sched y", unfolded a fst_conv snd_conv]
  show "sys_ok (y\<lparr>sy_sched := s, sy_asked := x\<rparr>)"
    using ok by (auto simp: sys_ok_def f ids_ok_def less_Suc_eq image_iff)
  show "abs_slots (y\<lparr>sy_sched := s, sy_asked := x\<rparr>) = abs_slots y" by (simp add: abs_slots_def f)
qed

lemma fire_forget: "sys_ok y \<Longrightarrow> simulated y (fire (DoForget app now) y)"
  using sys_ok_shorter [of y "snd (Forget app now (sy_sched y))"] sys_ok_distinct [of y]
  by (auto intro!: simulated_eq simp: Forget_frame distinct_map_filter)

theorem fire_simulated: "sys_ok y \<Longrightarrow> simulated y (fire e y)"
proof (cases e)
  case (DoRunNow app name now)
  assume "sys_ok y"
  then show ?thesis using DoRunNow
    by (cases "RunNow app name now (sy_sched y)") (auto simp: RunNow_def intro: simulated_ask)
next
  case (DoRestore app name point now)
  assume "sys_ok y"
  then show ?thesis using DoRestore
    by (cases "Restore app name point now (sy_sched y)") (auto simp: Restore_def intro: simulated_ask)
next
  case (Deadline i)
  then show "sys_ok y \<Longrightarrow> simulated y (fire e y)" by (simp add: simulated_sched)
next
  case ParentDone
  have "simulated y (y\<lparr>sy_parent := True, sy_sched := s\<rparr>)" if "simulated y (y\<lparr>sy_sched := s\<rparr>)" for s
    using that by (simp add: simulated_def sys_ok_def abs_slots_def)
  then show "sys_ok y \<Longrightarrow> simulated y (fire e y)" using ParentDone by (simp add: simulated_sched)
next
  case (ForgetTimeout ws)
  then show "sys_ok y \<Longrightarrow> simulated y (fire e y)" by (simp add: simulated_sched)
next
  case DoReload
  then show "sys_ok y \<Longrightarrow> simulated y (fire e y)" by (simp add: simulated_sched)
next
  case (DoNote marks)
  then show "sys_ok y \<Longrightarrow> simulated y (fire e y)" by (simp add: simulated_sched)
next
  case (DoHealth app now f)
  then show "sys_ok y \<Longrightarrow> simulated y (fire e y)" by (simp add: simulated_sched)
qed (simp_all only: fire_start fire_top fire_read fire_decide fire_idle fire_wake fire_launch fire_receive fire_give_up
      fire_conclude fire_record fire_stop fire_return fire_exit fire_forget)

subsection \<open>One run at a time\<close>

lemma initial_ok: "sys_ok (initial f disk)"
  by (simp add: sys_ok_def initial_def NewScheduler_def ids_ok_def calls_ok_def cur_job_def free_id_def)

lemma initial_abs: "abs_slots (initial f disk) = no_slots"
  by (simp add: abs_slots_def initial_def NewScheduler_def no_slots_def)

definition starting :: "system \<Rightarrow> bool" where
  "starting y \<longleftrightarrow> (\<exists>f disk. y = initial f disk)"

interpretation slot: slot_server starting fire sys_ok abs_slots
  by unfold_locales
    (auto simp: starting_def initial_ok initial_abs fire_simulated [unfolded simulated_def] simp del: fire.simps)

lemma starting_initial [simp]: "starting (initial f disk)"
  by (auto simp: starting_def)

text \<open>C32. Every interleaving of the scheduler's sections, its callers, the engine's returns, deadlines and
  the stop is a run of the abstract machine with one slot for the call that is waited for and at most one
  hung call per app: whatever happened before, the next event is a step of that machine (a call begins only
  in the free slot and for an app with none hung; it is given up on only into its app's hung slot, which is
  cleared only when it has returned), and the states correspond.\<close>

theorem scheduler_refines_slots:
  "abs_slots (initial f disk) = no_slots \<and>
   slot_step (abs_slots (fold fire es (initial f disk))) (abs_slots (fire e (fold fire es (initial f disk)))) \<and>
   slots_fit (abs_slots (fold fire es (initial f disk)))"
  using initial_abs slot.simulates [OF slot.run_ok [OF starting_initial]] slot.run_fits [OF starting_initial]
  by blast

definition in_progress :: "system \<Rightarrow> string \<Rightarrow> nat \<Rightarrow> bool" where
  "in_progress y a i \<longleftrightarrow> (\<exists>j. mget (sy_calls y) i = Some (j, None) \<and> jb_app j = a)"

lemma in_progress_slot: "in_progress y a i \<longleftrightarrow> sl_calls (abs_slots y) i = Some a"
  by (auto simp: in_progress_def abs_slots_def split: option.splits)

text \<open>C33. Two engine calls for one app are never in progress at a time, whatever was requested, deleted,
  abandoned or stopped: a second backup or restore of the app cannot touch its volumes while the first has
  not returned.\<close>

theorem calls_of_an_app_do_not_overlap:
  assumes "in_progress (fold fire es (initial f disk)) a i" "in_progress (fold fire es (initial f disk)) a k"
  shows "i = k"
  using slot.run_one_call [OF starting_initial] assms unfolding in_progress_slot by blast

theorem calls_of_an_app_do_not_overlap_witness:
  "in_progress (fold fire [DoRunNow ''a'' ''db'' 0, Start 0, Top, Read [] 1, Decide 2, Launch 3] (initial None [])) ''a'' 0 \<and>
   \<not> in_progress (fold fire [DoRunNow ''a'' ''db'' 0, Start 0, Top, Read [] 1, Decide 2, Launch 3] (initial None [])) ''a'' 1"
proof -
  let ?es = "[DoRunNow ''a'' ''db'' 0, Start 0, Top, Read [] 1, Decide 2, Launch 3]"
  have "map_option (\<lambda>(j, x). (jb_app j, Option.is_none x)) (mget (sy_calls (fold fire ?es (initial None []))) 0) = Some (''a'', True)"
    by code_simp
  then have "in_progress (fold fire ?es (initial None [])) ''a'' 0"
    unfolding in_progress_def by (auto simp: Option.is_none_def simp del: fire.simps fold_simps)
  moreover from calls_of_an_app_do_not_overlap [OF this, of 1]
  have "\<not> in_progress (fold fire ?es (initial None [])) ''a'' 1" by (metis zero_neq_one)
  ultimately show ?thesis ..
qed

end
