(* ===== verification/Scheduler_Answers.thy ===== *)
theory Scheduler_Answers
  imports Scheduler_Slots
begin

text \<open>
  Requests of the backup scheduler are answered exactly once. A request's channel has room for one value:
  a second answer would block the scheduler, a missing one its caller.
\<close>

subsection \<open>What has been asked, answered and is still held\<close>

definition answers_ok :: "nat list \<Rightarrow> nat list \<Rightarrow> nat list \<Rightarrow> nat set \<Rightarrow> nat \<Rightarrow> bool" where
  "answers_ok asked answered waiters held n \<longleftrightarrow>
     distinct (answered @ waiters) \<and> distinct asked \<and> set asked = set answered \<union> set waiters \<and>
     set waiters \<subseteq> held \<and> (\<forall>i \<in> set asked. i < n)"

lemma answers_ok_mono: "answers_ok a b w held n \<Longrightarrow> held \<subseteq> held' \<Longrightarrow> answers_ok a b w held' n"
  by (auto simp: answers_ok_def)

lemma answers_ok_finish:
  "answers_ok a b w held n \<Longrightarrow> held - {i} \<subseteq> held' \<Longrightarrow>
    answers_ok a (b @ (if i \<in> set w then [i] else [])) (removeAll i w) held' n"
  by (auto simp: answers_ok_def distinct_removeAll)

definition ans_ok :: "nat list \<Rightarrow> nat set \<Rightarrow> sched \<Rightarrow> bool" where
  "ans_ok asked held s \<longleftrightarrow> answers_ok asked (map fst (sc_answers s)) (sc_waiters s) held (sc_jobs s)"

lemma ans_ok_mono: "ans_ok a held s \<Longrightarrow> held \<subseteq> held' \<Longrightarrow> ans_ok a held' s"
  using answers_ok_mono by (auto simp: ans_ok_def)

lemma ans_ok_same: "jobs_of s = jobs_of t \<Longrightarrow> ans_ok a held s = ans_ok a held t"
  by (simp add: ans_ok_def jobs_of_def)

lemma ans_ok_upd [simp]:
  "ans_ok a held (s\<lparr>sc_queue := q\<rparr>) = ans_ok a held s" "ans_ok a held (s\<lparr>sc_running := r\<rparr>) = ans_ok a held s"
  "ans_ok a held (s\<lparr>sc_stopped := b\<rparr>) = ans_ok a held s"
  by (simp_all add: ans_ok_def)

lemma finish_job_answers:
  "map fst (sc_answers (finish_job j oc s)) = map fst (sc_answers s) @ (if jb_id j \<in> set (sc_waiters s) then [jb_id j] else [])"
  "sc_waiters (finish_job j oc s) = removeAll (jb_id j) (sc_waiters s)"
  by (auto simp: finish_job_def answer_def)

lemma ans_ok_finish:
  "ans_ok a held s \<Longrightarrow> held - {jb_id j} \<subseteq> held' \<Longrightarrow> ans_ok a held' (finish_job j oc s)"
  by (simp add: ans_ok_def finish_job_answers answers_ok_finish)

lemma ans_ok_finish_all:
  "ans_ok a held s \<Longrightarrow> held - jb_id ` set js \<subseteq> held' \<Longrightarrow> ans_ok a held' (fold (\<lambda>j. finish_job j oc) js s)"
proof (induction js arbitrary: s held)
  case (Cons j js)
  have a: "ans_ok a (held - {jb_id j}) (finish_job j oc s)" using Cons(2) by (rule ans_ok_finish) simp
  have "held - {jb_id j} - jb_id ` set js \<subseteq> held'" using Cons(3) by auto
  from Cons(1) [OF a this] show ?case by simp
qed (simp add: ans_ok_mono)

lemma ans_ok_refuse:
  assumes "ans_ok a held s" "held \<subseteq> jb_id ` set (sc_queue s) \<union> H"
  shows "ans_ok a (jb_id ` set (filter (\<lambda>j. \<not> P j) (sc_queue s)) \<union> H) (refuse P e s)"
  unfolding refuse_def Let_def ans_ok_upd by (rule ans_ok_finish_all [OF assms(1)]) (use assms(2) in auto)

lemma ans_ok_take:
  "take_request now q s = (jo, s') \<Longrightarrow> ans_ok a (jb_id ` set q \<union> H) s \<Longrightarrow>
    ans_ok a (jb_id ` set (sc_queue s') \<union> jb_id ` set_option jo \<union> H) s'"
proof (induction now q s arbitrary: jo s' rule: take_request.induct)
  case (2 now j q s)
  show ?case
  proof (cases "blockedLocked (jb_app j) now s")
    case None
    with 2 show ?thesis by (auto elim!: ans_ok_mono)
  next
    case (Some e)
    have "ans_ok a (jb_id ` set q \<union> H) (finish_job j (failed e) s)"
      using 2(3) by (rule ans_ok_finish) auto
    with 2(1) [OF Some] 2(2) Some show ?thesis by simp
  qed
qed auto

lemma startLocked_stopped: "sc_stopped (snd (startLocked b j s)) = sc_stopped s"
  by (simp add: startLocked_def Let_def)

lemma ans_ok_next:
  assumes "next_job b now s = (jo, s')" "ans_ok a (jb_id ` set (sc_queue s)) s"
  shows "ans_ok a (jb_id ` set (sc_queue s') \<union> jb_id ` set_option jo) s' \<and> sc_stopped s' = sc_stopped s"
proof -
  let ?s1 = "refuse (waited_too_long now) ErrQueueWait s"
  obtain jo2 s2 where t: "take_request now (sc_queue ?s1) ?s1 = (jo2, s2)" by force
  have a1: "ans_ok a (jb_id ` set (sc_queue ?s1) \<union> {}) ?s1"
    using ans_ok_refuse [OF assms(2), of "{}"] by simp
  have a2: "ans_ok a (jb_id ` set (sc_queue s2) \<union> jb_id ` set_option jo2) s2" using ans_ok_take [OF t a1] by simp
  have st: "sc_stopped s2 = sc_stopped s" using take_request_frame [OF t] by simp
  show ?thesis
  proof (cases jo2)
    case (Some j0)
    let ?st = "startLocked b j0 s2"
    have r: "jo = Some (fst ?st)" "s' = snd ?st"
      using assms(1) t Some by (auto simp: next_job_def Let_def split_beta)
    show ?thesis using a2 st Some by (simp add: r ans_ok_def startLocked_stopped)
  next
    case None
    have q2: "sc_queue s2 = []" using take_request_queue [OF t] None by simp
    obtain best s3 where m: "most_overdue now (sc_plan s2) None s2 = (best, s3)" by force
    have j3: "jobs_of s3 = jobs_of s2" using jobs.overdue [of now "sc_plan s2" None s2] m by simp
    have a3: "ans_ok a {} s3" using a2 q2 None ans_ok_same [OF j3] by simp
    have q3: "sc_queue s3 = []" "sc_stopped s3 = sc_stopped s" using jobs_of_eqD [OF j3] q2 st by simp_all
    show ?thesis
    proof (cases best)
      case b: None
      then have "jo = None" "s' = s3" using assms(1) t None m by (auto simp: next_job_def Let_def)
      with a3 q3 show ?thesis by simp
    next
      case b: (Some pd)
      obtain p d where pd: "pd = (p, d)" by force
      let ?j = "\<lparr>jb_id = sc_jobs s3, jb_key = (pl_app p, pl_name p), jb_kind = Some PointScheduled, jb_point = [],
                        jb_queued = zero_time, jb_limit = 0\<rparr>"
      let ?st = "startLocked b ?j (s3\<lparr>sc_jobs := Suc (sc_jobs s3)\<rparr>)"
      have r: "jo = Some (fst ?st)" "s' = snd ?st"
        using assms(1) t None m b pd by (auto simp: next_job_def Let_def split_beta)
      show ?thesis using a3 q3 by (auto simp: r ans_ok_def answers_ok_def startLocked_stopped less_Suc_eq)
    qed
  qed
qed

subsection \<open>The invariant\<close>

definition asked_ok :: "system \<Rightarrow> bool" where
  "asked_ok y \<longleftrightarrow>
     ans_ok (sy_asked y) (jb_id ` set (sc_queue (sy_sched y)) \<union> jb_id ` set_option (cur_job (sy_pc y))) (sy_sched y) \<and>
     (sc_stopped (sy_sched y) \<longleftrightarrow> sy_pc y = Ended) \<and> (sy_pc y = Ended \<longrightarrow> sc_queue (sy_sched y) = [])"

lemma asked_same:
  assumes "asked_ok y" "jobs_of s = jobs_of (sy_sched y)" "pc = sy_pc y \<or> sy_pc y \<noteq> Ended \<and> pc \<noteq> Ended \<and> cur_job pc = cur_job (sy_pc y)"
  shows "asked_ok (y\<lparr>sy_pc := pc, sy_sched := s\<rparr>)"
  using assms jobs_of_eqD [OF assms(2)] ans_ok_same [OF assms(2)] by (auto simp: asked_ok_def)

lemma asked_goto:
  assumes "asked_ok y" "jobs_of s = jobs_of (sy_sched y)" "sy_pc y \<noteq> Ended" "pc \<noteq> Ended" "cur_job pc = cur_job (sy_pc y)"
  shows "asked_ok (goto pc s y)"
  using asked_same [OF assms(1,2), of pc] assms(3-5) by simp

lemma asked_pc:
  "asked_ok y \<Longrightarrow> sy_pc y \<noteq> Ended \<Longrightarrow> pc \<noteq> Ended \<Longrightarrow> cur_job pc = cur_job (sy_pc y) \<Longrightarrow> asked_ok (y\<lparr>sy_pc := pc\<rparr>)"
  by (simp add: asked_ok_def)

lemma asked_sched:
  "asked_ok y \<Longrightarrow> jobs_of s = jobs_of (sy_sched y) \<Longrightarrow> asked_ok (y\<lparr>sy_sched := s\<rparr>)"
  using asked_same [of y s "sy_pc y"] by simp

lemma asked_decide:
  assumes "asked_ok y" "sy_pc y = Deciding"
  shows "asked_ok (run_decide now y)"
proof -
  obtain jo s where n: "next_job (sy_parent y) now (sy_sched y) = (jo, s)" by force
  have "ans_ok (sy_asked y) (jb_id ` set (sc_queue (sy_sched y))) (sy_sched y)" "\<not> sc_stopped (sy_sched y)"
    using assms by (simp_all add: asked_ok_def cur_job_def)
  with ans_ok_next [OF n this(1)] assms show ?thesis
    using asked_goto [of y "(sy_sched y)\<lparr>sc_next_sweep := now + sweepEvery\<rparr>" AtTop]
    by (cases jo) (auto simp: run_decide_def Let_def n asked_ok_def cur_job_def jobs_of_def)
qed

lemma asked_record:
  assumes "asked_ok y" "sy_pc y = Concluded j st d err stopping"
  shows "asked_ok (goto AtTop (record_outcome j st d err stopping (sy_sched y)) y)"
proof -
  let ?s = "sy_sched y" and ?q = "sc_queue (sy_sched y)"
  obtain oc t where t: "record_outcome j st d err stopping ?s = finish_job j oc t" "jobs_of t = jobs_of (?s\<lparr>sc_running := None\<rparr>)"
    using record_frame by blast
  note f = jobs_of_eqD [OF t(2)]
  have a: "ans_ok (sy_asked y) (jb_id ` set ?q \<union> {jb_id j}) t" "\<not> sc_stopped ?s"
    using assms ans_ok_same [OF t(2)] by (simp_all add: asked_ok_def cur_job_def)
  have "ans_ok (sy_asked y) (jb_id ` set ?q) (finish_job j oc t)" by (rule ans_ok_finish [OF a(1)]) auto
  with a(2) f show ?thesis by (simp add: asked_ok_def cur_job_def t(1))
qed

lemma asked_stop:
  assumes "asked_ok y" "sy_pc y = Stopping"
  shows "asked_ok (goto Ended (shut_down (sy_sched y)) y)"
proof -
  let ?s = "(sy_sched y)\<lparr>sc_stopped := True\<rparr>"
  have "ans_ok (sy_asked y) (jb_id ` set (sc_queue ?s)) ?s" using assms by (simp add: asked_ok_def cur_job_def)
  from ans_ok_refuse [OF this, of "{}" "\<lambda>_. True" ErrStopped]
  show ?thesis by (simp add: asked_ok_def shut_down_def cur_job_def)
qed

lemma ans_ok_ask:
  assumes "ans_ok asked held s" "ask err j s = (i, s')"
  shows "ans_ok (asked @ [i]) (held \<union> (if err = None then {i} else {})) s'"
  using assms ask_frame [of err j s]
  by (cases err) (auto simp: ans_ok_def answers_ok_def less_Suc_eq)

lemma asked_ask:
  assumes "asked_ok y" "ask err j (sy_sched y) = (i, s)" "sc_stopped (sy_sched y) \<Longrightarrow> err \<noteq> None"
  shows "asked_ok (y\<lparr>sy_sched := s, sy_asked := sy_asked y @ [i]\<rparr>)"
proof -
  note f = ask_frame [of err j "sy_sched y", unfolded assms(2) fst_conv snd_conv]
  from assms(1) have "ans_ok (sy_asked y) (jb_id ` set (sc_queue (sy_sched y)) \<union> jb_id ` set_option (cur_job (sy_pc y))) (sy_sched y)"
    by (simp add: asked_ok_def)
  from ans_ok_ask [OF this assms(2)] have
    "ans_ok (sy_asked y @ [i]) (jb_id ` set (sc_queue s) \<union> jb_id ` set_option (cur_job (sy_pc y))) s"
    by (rule ans_ok_mono) (auto simp: f)
  with assms(1,3) f show ?thesis by (auto simp: asked_ok_def)
qed

lemma asked_forget:
  assumes "asked_ok y"
  shows "asked_ok (y\<lparr>sy_sched := snd (Forget app now (sy_sched y))\<rparr>)"
proof -
  have "ans_ok (sy_asked y) (jb_id ` set (sc_queue (sy_sched y)) \<union> jb_id ` set_option (cur_job (sy_pc y))) (sy_sched y)"
    using assms by (simp add: asked_ok_def)
  from ans_ok_refuse [OF this subset_refl, of "\<lambda>j. jb_app j = app" AppWasDeleted]
  show ?thesis using assms by (simp add: asked_ok_def Forget_frame ans_ok_same [OF Forget_jobs])
qed

lemma asked_calls: "asked_ok (y\<lparr>sy_calls := c, sy_chan := d\<rparr>) = asked_ok y" "asked_ok (y\<lparr>sy_calls := c\<rparr>) = asked_ok y"
  "asked_ok (y\<lparr>sy_parent := b\<rparr>) = asked_ok y"
  by (simp_all add: asked_ok_def)

lemma asked_exit: "asked_ok y \<Longrightarrow> asked_ok (y\<lparr>sy_calls := c, sy_sched := call_exit j d (sy_sched y)\<rparr>)"
  by (simp add: asked_ok_def ans_ok_def call_exit_frame)

lemma fire_asked_loop:
  assumes "asked_ok y"
  shows "asked_ok (fire (Start now) y)" "asked_ok (fire Top y)" "asked_ok (fire (Read plan now) y)" "asked_ok (fire (Wake b) y)"
    "asked_ok (fire (Decide now) y)" "asked_ok (fire Idle y)" "asked_ok (fire StopNow y)"
proof -
  show "asked_ok (fire (Start now) y)"
    using assms by (cases "sy_pc y") (auto intro!: asked_goto simp: cur_job_def jobs_of_def)
  show "asked_ok (fire (Read plan now) y)"
    using assms by (cases "sy_pc y") (auto intro!: asked_goto simp: cur_job_def)
  show "asked_ok (fire (Wake b) y)"
    using assms by (cases "sy_pc y") (auto intro!: asked_goto asked_pc simp: cur_job_def jobs_of_def)
  show "asked_ok (fire (Decide now) y)"
    using assms by (cases "sy_pc y") (simp_all add: asked_decide)
  show "asked_ok (fire StopNow y)"
    using assms by (cases "sy_pc y") (simp_all add: asked_stop)
  obtain r s where b: "refresh_begin (sy_sched y) = (r, s)" by force
  have "jobs_of s = jobs_of (sy_sched y)" using jobs.begins [of "sy_sched y"] b by simp
  then show "asked_ok (fire Top y)" using assms b
    by (cases "sy_pc y") (auto simp: run_top_def cur_job_def split: option.split intro!: asked_goto asked_pc)
  show "asked_ok (fire Idle y)"
  proof (cases "sy_pc y")
    case (Idling now)
    obtain w s where u: "untilDue now (sy_sched y) = (w, s)" by force
    have "jobs_of s = jobs_of (sy_sched y)" using jobs_of_untilDue [of now "sy_sched y"] u by simp
    then show ?thesis using Idling u assms by (auto intro!: asked_goto simp: cur_job_def)
  qed (use assms in auto)
qed

lemma fire_asked_job:
  assumes "asked_ok y"
  shows "asked_ok (fire (Launch now) y)" "asked_ok (fire Receive y)" "asked_ok (fire Conclude y)" "asked_ok (fire RecordIt y)"
    "asked_ok (fire GiveUp y)"
proof -
  show "asked_ok (fire (Launch now) y)"
    using assms by (cases "sy_pc y") (auto simp: launch_def asked_ok_def cur_job_def)
  show "asked_ok (fire Receive y)"
    using assms by (cases "sy_pc y") (auto split: option.split intro!: asked_pc simp: cur_job_def)
  show "asked_ok (fire RecordIt y)" using assms by (cases "sy_pc y") (simp_all add: asked_record)
  show "asked_ok (fire Conclude y)"
  proof (cases "sy_pc y")
    case (Got j st d)
    then show ?thesis using assms
      by (cases "conclude (sy_parent y) j d (sy_sched y)") (auto intro!: asked_pc simp: cur_job_def)
  qed (use assms in auto)
  show "asked_ok (fire GiveUp y)"
  proof (cases "sy_pc y")
    case (Running j st)
    then show ?thesis using assms
      by (auto simp: give_up_def abandon_def asked_ok_def cur_job_def ans_ok_def split: option.split)
  qed (use assms in auto)
qed

lemma fire_asked: "asked_ok y \<Longrightarrow> asked_ok (fire e y)"
proof (cases e)
  case (DoRunNow app name now)
  assume "asked_ok y"
  then show ?thesis using DoRunNow
    by (cases "RunNow app name now (sy_sched y)") (auto simp: RunNow_def intro: asked_ask)
next
  case (DoRestore app name point now)
  assume "asked_ok y"
  then show ?thesis using DoRestore
    by (cases "Restore app name point now (sy_sched y)") (auto simp: Restore_def intro: asked_ask)
next
  case (Return i d)
  assume "asked_ok y"
  then show ?thesis using Return by (auto simp: asked_calls split: option.split)
next
  case (Exit i)
  assume "asked_ok y"
  then show ?thesis using Exit by (auto simp: asked_exit split: option.split)
next
  case (DoForget app now)
  then show "asked_ok y \<Longrightarrow> asked_ok (fire e y)" by (simp add: asked_forget)
next
  case ParentDone
  assume "asked_ok y"
  then have "asked_ok (y\<lparr>sy_sched := end_all_ctx (sy_sched y)\<rparr>)" by (simp add: asked_sched)
  then show ?thesis using ParentDone by (simp add: asked_ok_def)
next
  case (Deadline i)
  then show "asked_ok y \<Longrightarrow> asked_ok (fire e y)" by (simp add: asked_sched)
next
  case (ForgetTimeout ws)
  then show "asked_ok y \<Longrightarrow> asked_ok (fire e y)" by (simp add: asked_sched)
next
  case DoReload
  then show "asked_ok y \<Longrightarrow> asked_ok (fire e y)" by (simp add: asked_sched)
next
  case (DoNote marks)
  then show "asked_ok y \<Longrightarrow> asked_ok (fire e y)" by (simp add: asked_sched)
next
  case (DoHealth app now f)
  then show "asked_ok y \<Longrightarrow> asked_ok (fire e y)" by (simp add: asked_sched)
qed (simp_all only: fire_asked_loop fire_asked_job)

lemma initial_asked: "asked_ok (initial f disk)"
  by (simp add: asked_ok_def initial_def NewScheduler_def ans_ok_def answers_ok_def cur_job_def)

lemma run_asked: "asked_ok (fold fire es (initial f disk))"
  by (rule fold_invariant) (auto simp: initial_asked fire_asked simp del: fire.simps)

text \<open>C34. No channel that \<open>RunNow\<close> or \<open>Restore\<close> handed out is ever sent two values, and each of them has its
  answer or belongs to a job that is still queued or the one being run: no request is lost. Once \<open>Run\<close> has
  returned, exactly the channels handed out, those asked for afterwards included, have been answered.\<close>

theorem requests_answered_once:
  "distinct (map fst (sc_answers (sy_sched (fold fire es (initial f disk))))) \<and>
   set (sy_asked (fold fire es (initial f disk))) \<subseteq>
     fst ` set (sc_answers (sy_sched (fold fire es (initial f disk)))) \<union>
     jb_id ` set (sc_queue (sy_sched (fold fire es (initial f disk)))) \<union>
     jb_id ` set_option (cur_job (sy_pc (fold fire es (initial f disk)))) \<and>
   (sy_pc (fold fire es (initial f disk)) = Ended \<longrightarrow>
     fst ` set (sc_answers (sy_sched (fold fire es (initial f disk)))) = set (sy_asked (fold fire es (initial f disk))))"
  using run_asked [of es f disk] by (auto simp: asked_ok_def ans_ok_def answers_ok_def cur_job_def)

theorem requests_answered_once_witness:
  "sy_asked (fold fire [DoRunNow ''a'' ''db'' 0, Start 0, ParentDone, Top, StopNow, DoRunNow ''a'' ''db'' 1] (initial None [])) = [0, 1] \<and>
   fst ` set (sc_answers (sy_sched (fold fire [DoRunNow ''a'' ''db'' 0, Start 0, ParentDone, Top, StopNow, DoRunNow ''a'' ''db'' 1]
     (initial None [])))) = {0, 1}"
proof -
  let ?es = "[DoRunNow ''a'' ''db'' 0, Start 0, ParentDone, Top, StopNow, DoRunNow ''a'' ''db'' 1]"
  have e: "sy_pc (fold fire ?es (initial None [])) = Ended" "sy_asked (fold fire ?es (initial None [])) = [0, 1]" by code_simp+
  have "fst ` set (sc_answers (sy_sched (fold fire ?es (initial None [])))) = set (sy_asked (fold fire ?es (initial None [])))"
    using requests_answered_once [of ?es None "[]"] e(1) by blast
  then show ?thesis unfolding e(2) by (simp only: list.set simp_thms)
qed

end
