(* ===== verification/Scheduler_Ends.thy ===== *)
theory Scheduler_Ends
  imports Scheduler_Slots
begin

text \<open>
  \<open>Run\<close> returns: once the agent is told to stop, no context is live any more, and each turn of \<open>Run\<close>'s
  goroutine brings it nearer its end, whatever the engine and the callers do.
\<close>

subsection \<open>Contexts\<close>

definition dead :: "sched \<Rightarrow> bool" where
  "dead s \<longleftrightarrow> (\<forall>i. mget (sc_ctx s) i \<noteq> Some Live)"

lemma dead_same: "dead s \<Longrightarrow> sc_ctx t = sc_ctx s \<Longrightarrow> dead t"
  by (simp add: dead_def)

lemma dead_end_ctx: "dead s \<Longrightarrow> dead (end_ctx i c s)"
  by (simp add: dead_def end_ctx_def)

lemma mget_map_vals: "mget (map (\<lambda>(i, c). (i, f c)) m) k = map_option f (mget m k)"
  by (induction m) auto

lemma dead_end_all: "dead (end_all_ctx s)"
  by (auto simp: dead_def end_all_ctx_def mget_map_vals split: if_splits)

lemma ctx_untilDue: "sc_ctx (snd (untilDue now s)) = sc_ctx s"
  by (simp add: untilDue_def Let_def)

lemma ctx_refresh: "sc_ctx (refresh_end plan g now s) = sc_ctx s"
  by (simp add: refresh_end_def Let_def split_beta ctxs.enables)

lemma ctx_forget_timeout: "sc_ctx (forget_timeout ws s) = sc_ctx s"
  by (simp add: forget_timeout_def)

lemma ctx_exit: "sc_ctx (call_exit j d s) = sc_ctx s"
  by (simp add: call_exit_def Let_def)

lemma ctx_ask: "sc_ctx (snd (ask err j s)) = sc_ctx s"
  by (simp add: ask_def Let_def answer_def split: option.split)

lemma ctx_record: "sc_ctx (record_outcome j st d err stopping s) = sc_ctx s"
proof -
  have r: "sc_ctx (recordRestore j (eo_restore d) err stopping s) = sc_ctx s"
    by (simp add: recordRestore_def Let_def split_beta split: option.split)
  have "sc_ctx (record_run j st (eo_res d) err stopping s) = sc_ctx s"
    by (simp add: record_run_def Let_def split: option.split)
  with r show ?thesis by (simp add: record_outcome_def)
qed

lemma dead_forget: "dead s \<Longrightarrow> dead (snd (Forget app now s))"
  using dead_end_ctx [of "refuse (\<lambda>j. jb_app j = app) AppWasDeleted s"]
  by (simp add: Forget_def Let_def dead_same dead_def split: option.split)

lemma dead_next:
  assumes "next_job True now s = (jo, s')" "dead s"
  shows "dead s'"
proof -
  let ?s1 = "refuse (waited_too_long now) ErrQueueWait s"
  obtain jo2 s2 where t: "take_request now (sc_queue ?s1) ?s1 = (jo2, s2)" by force
  have c2: "sc_ctx s2 = sc_ctx s" using take_request_frame [OF t] by simp
  have st: "dead (snd (startLocked True j u))" if "sc_ctx u = sc_ctx s" for j u
    using assms(2) that by (simp add: startLocked_def Let_def dead_def)
  show ?thesis
  proof (cases jo2)
    case (Some j0)
    then have "s' = snd (startLocked True j0 s2)" using assms(1) t by (auto simp: next_job_def Let_def split_beta)
    then show ?thesis using st [OF c2] by simp
  next
    case None
    obtain best s3 where m: "most_overdue now (sc_plan s2) None s2 = (best, s3)" by force
    have c3: "sc_ctx s3 = sc_ctx s" using ctxs.overdue [of now "sc_plan s2" None s2] m c2 by simp
    show ?thesis
    proof (cases best)
      case b: None
      then have "s' = s3" using assms(1) t None m by (auto simp: next_job_def Let_def)
      then show ?thesis using assms(2) c3 by (simp add: dead_same)
    next
      case b: (Some pd)
      then obtain j u where "s' = snd (startLocked True j u)" "sc_ctx u = sc_ctx s3"
        using assms(1) t None m by (cases pd) (auto simp: next_job_def Let_def split_beta)
      then show ?thesis using st c3 by simp
    qed
  qed
qed

definition told_to_stop :: "system \<Rightarrow> bool" where
  "told_to_stop y \<longleftrightarrow> sy_parent y \<and> dead (sy_sched y)"

text \<open>How far the program counter is from the end, at most.\<close>

fun rank :: "run_pc \<Rightarrow> nat" where
  "rank Ended = 0"
| "rank Stopping = 1"
| "rank AtTop = 2"
| "rank NotStarted = 3"
| "rank (Concluded _ _ _ _ _) = 3"
| "rank (Waiting _) = 3"
| "rank (Got _ _ _) = 4"
| "rank (Idling _) = 4"
| "rank (Running _ _) = 5"
| "rank (Picked _) = 6"
| "rank Deciding = 7"
| "rank (Reading _) = 8"

text \<open>What \<open>Run\<close>'s goroutine does at its next turn, whatever it reads and whenever that is.\<close>

definition own_event :: "planned list \<Rightarrow> time \<Rightarrow> system \<Rightarrow> event" where
  "own_event plan now y =
     (case sy_pc y of NotStarted \<Rightarrow> Start now | AtTop \<Rightarrow> Top | Reading _ \<Rightarrow> Read plan now | Deciding \<Rightarrow> Decide now
      | Idling _ \<Rightarrow> Idle | Waiting _ \<Rightarrow> Wake False | Picked _ \<Rightarrow> Launch now | Running _ _ \<Rightarrow> GiveUp | Got _ _ _ \<Rightarrow> Conclude
      | Concluded _ _ _ _ _ \<Rightarrow> RecordIt | Stopping \<Rightarrow> StopNow | Ended \<Rightarrow> Top)"

lemma fire_stopping_own:
  assumes "told_to_stop y"
  shows "told_to_stop (fire (own_event plan now y) y) \<and>
    (sy_pc y \<noteq> Ended \<longrightarrow> rank (sy_pc (fire (own_event plan now y) y)) < rank (sy_pc y))"
proof (cases "sy_pc y")
  case (Running j st)
  then have "mget (sc_ctx (sy_sched y)) (jb_id j) \<noteq> Some Live" using assms by (simp add: told_to_stop_def dead_def)
  then show ?thesis using Running assms
    by (auto simp: own_event_def give_up_def abandon_def told_to_stop_def dead_def split: option.split)
next
  case Deciding
  obtain jo s where n: "next_job True now (sy_sched y) = (jo, s)" by force
  have "dead s" using dead_next [OF n] assms by (simp add: told_to_stop_def)
  moreover have "sy_parent y" using assms by (simp add: told_to_stop_def)
  ultimately show ?thesis using n Deciding assms
    by (cases jo) (auto simp: own_event_def run_decide_def Let_def told_to_stop_def dead_def)
next
  case (Idling now)
  then show ?thesis using assms ctx_untilDue [of now "sy_sched y"]
    by (cases "untilDue now (sy_sched y)") (auto simp: own_event_def told_to_stop_def dead_def)
next
  case (Got j st d)
  then show ?thesis using assms
    by (cases "conclude (sy_parent y) j d (sy_sched y)") (auto simp: own_event_def told_to_stop_def)
qed (use assms in \<open>auto simp: own_event_def run_top_def launch_def told_to_stop_def dead_def ctx_refresh ctx_record shut_down_def\<close>)

lemma fire_stopping_any:
  assumes "told_to_stop y"
  shows "told_to_stop (fire e y) \<and> rank (sy_pc (fire e y)) \<le> rank (sy_pc y)"
proof -
  have own: ?thesis if "e = own_event plan now y" for plan now
    using fire_stopping_own [OF assms, of plan now] that less_imp_le by (cases "sy_pc y = Ended") (auto simp: own_event_def)
  note d = assms [unfolded told_to_stop_def]
  show ?thesis
  proof (cases e)
    case (Start now)
    then show ?thesis using own [of "[]" now] assms by (cases "sy_pc y") (auto simp: own_event_def)
  next
    case Top
    then show ?thesis using own [of "[]" 0] assms by (cases "sy_pc y") (auto simp: own_event_def)
  next
    case (Read plan now)
    then show ?thesis using own [of plan now] assms by (cases "sy_pc y") (auto simp: own_event_def)
  next
    case (Decide now)
    then show ?thesis using own [of "[]" now] assms by (cases "sy_pc y") (auto simp: own_event_def)
  next
    case Idle
    then show ?thesis using own [of "[]" 0] assms by (cases "sy_pc y") (auto simp: own_event_def)
  next
    case (Wake b)
    then show ?thesis using assms by (cases "sy_pc y") (auto simp: told_to_stop_def dead_def)
  next
    case (Launch now)
    then show ?thesis using own [of "[]" now] assms by (cases "sy_pc y") (auto simp: own_event_def)
  next
    case Receive
    then show ?thesis using assms by (cases "sy_pc y") (auto simp: told_to_stop_def split: option.split)
  next
    case GiveUp
    then show ?thesis using own [of "[]" 0] assms by (cases "sy_pc y") (auto simp: own_event_def)
  next
    case Conclude
    then show ?thesis using own [of "[]" 0] assms by (cases "sy_pc y") (auto simp: own_event_def)
  next
    case RecordIt
    then show ?thesis using own [of "[]" 0] assms by (cases "sy_pc y") (auto simp: own_event_def)
  next
    case StopNow
    then show ?thesis using own [of "[]" 0] assms by (cases "sy_pc y") (auto simp: own_event_def)
  next
    case (DoRunNow app name now)
    then show ?thesis using assms
      by (cases "RunNow app name now (sy_sched y)") (auto simp: RunNow_def told_to_stop_def dead_def ctx_ask dest!: arg_cong [where f = "sc_ctx \<circ> snd"])
  next
    case (DoRestore app name point now)
    then show ?thesis using assms
      by (cases "Restore app name point now (sy_sched y)") (auto simp: Restore_def told_to_stop_def dead_def ctx_ask dest!: arg_cong [where f = "sc_ctx \<circ> snd"])
  qed (use d in \<open>auto simp: told_to_stop_def dead_end_ctx dead_end_all dead_forget
        intro: dead_same [OF _ ctx_exit] dead_same [OF _ ctxs.reload] dead_same [OF _ ctxs.marks] dead_same [OF _ ctxs.health]
          dead_same [OF _ ctx_forget_timeout] split: option.split\<close>)
qed

subsection \<open>Run returns\<close>

text \<open>A history in turns of \<open>Run\<close>'s goroutine: what others do before the turn, and what the turn reads.\<close>

fun turns :: "(event list \<times> planned list \<times> time) list \<Rightarrow> system \<Rightarrow> system" where
  "turns [] y = y"
| "turns ((es, plan, now) # ts) y = turns ts (fire (own_event plan now (fold fire es y)) (fold fire es y))"

lemma fold_stopping:
  "told_to_stop y \<Longrightarrow> told_to_stop (fold fire es y) \<and> rank (sy_pc (fold fire es y)) \<le> rank (sy_pc y)"
proof (induction es arbitrary: y)
  case (Cons e es)
  from fire_stopping_any [OF Cons(2), of e] Cons(1) [of "fire e y"] show ?case by (simp del: fire.simps)
qed simp

lemma rank_0: "rank pc = 0 \<longleftrightarrow> pc = Ended"
  by (cases pc) simp_all

lemma turns_end: "told_to_stop y \<Longrightarrow> rank (sy_pc y) \<le> length ts \<Longrightarrow> sy_pc (turns ts y) = Ended"
proof (induction ts arbitrary: y)
  case (Cons t ts)
  obtain es plan now where t: "t = (es, plan, now)" by (cases t) auto
  let ?y = "fold fire es y"
  have f: "told_to_stop ?y" "rank (sy_pc ?y) \<le> rank (sy_pc y)" using fold_stopping [OF Cons(2)] by blast+
  note o = fire_stopping_own [OF f(1), of plan now]
  have "rank (sy_pc (fire (own_event plan now ?y) ?y)) \<le> length ts"
  proof (cases "sy_pc ?y = Ended")
    case True
    then show ?thesis by (simp add: own_event_def)
  next
    case False
    then show ?thesis using o f(2) Cons(3) by simp
  qed
  then show ?case using Cons(1) o by (simp add: t del: fire.simps)
qed (simp add: rank_0)

lemma rank_bound: "rank pc \<le> 8"
  by (cases pc) simp_all

lemma parent_done_stops: "told_to_stop (fire ParentDone y)"
  by (simp add: told_to_stop_def dead_end_all)

text \<open>C36. Once the agent has been told to stop, \<open>Run\<close> returns: wherever it was, its own next eight turns end
  it, whatever was read, and whatever callers, engine calls, deadlines and deletions do in between. A run
  in progress is stopped or given up on, and nothing new keeps the loop going.\<close>

theorem run_returns:
  assumes "8 \<le> length ts"
  shows "sy_pc (turns ts (fire ParentDone (fold fire es (initial f disk)))) = Ended"
  using turns_end [OF parent_done_stops] rank_bound [of "sy_pc (fire ParentDone (fold fire es (initial f disk)))"] assms
  by (meson le_trans)

theorem run_returns_witness:
  "8 \<le> length (replicate 8 ([DoRunNow ''a'' ''db'' 0], [], 5)) \<and>
   sy_pc (turns (replicate 8 ([DoRunNow ''a'' ''db'' 0], [], 5))
     (fire ParentDone (fold fire [DoRunNow ''a'' ''db'' 0, Start 0, Top, Read [] 1, Decide 2] (initial None [])))) = Ended"
  by (intro conjI run_returns) simp_all

end
