(* ===== verification/Scheduler_Choice.thy ===== *)
theory Scheduler_Choice
  imports Scheduler_Slots
begin

text \<open>
  What \<open>Run\<close> decides: which job runs next, and how long it may sleep without missing one; and what
  \<open>Health\<close> reports of a backup.
\<close>

subsection \<open>Due times and the passage of time\<close>

lemma clamp_time_min: "clamp_time now x = min now x"
  by (simp add: clamp_time_def min_def)

lemma due_SomeD:
  assumes "due now s p = Some d"
  obtains st where "schedulable p now s" "mget (sc_state s) (key_string (pl_app p, pl_name p)) = Some st"
    "d = due_time p (clamp now st)"
  using assms by (auto simp: due_def dueLocked_def Let_def split: if_splits option.splits)

lemma due_SomeI:
  "schedulable p now s \<Longrightarrow> mget (sc_state s) (key_string (pl_app p, pl_name p)) = Some st \<Longrightarrow>
    due now s p = Some (due_time p (clamp now st))"
  by (simp add: due_def dueLocked_def Let_def)

lemma due_time_later: "0 < now \<Longrightarrow> now \<le> t \<Longrightarrow> due_time p (clamp now st) \<le> due_time p (clamp t st)"
  by (auto simp: due_time_def clamp_def clamp_time_min zero_time_def Let_def min_def)

text \<open>A backup due at a later time was due no later before, unless its app was blocked.\<close>

lemma due_later:
  assumes "0 < now" "now \<le> t" "due t s p = Some d" "blockedLocked (pl_app p) now s = None"
  shows "\<exists>d0 \<le> d. due now s p = Some d0"
proof -
  obtain st where st: "schedulable p t s" "mget (sc_state s) (key_string (pl_app p, pl_name p)) = Some st"
    "d = due_time p (clamp t st)"
    using assms(3) by (rule due_SomeD)
  have "schedulable p now s" using st(1) assms(4) by (simp add: schedulable_def)
  from due_SomeI [OF this st(2)] due_time_later [OF assms(1,2)] st(3) show ?thesis by blast
qed

text \<open>What the loop over the plan makes of the wait.\<close>

lemma until_plan_spec:
  "until_plan now ps w s = (w', s') \<Longrightarrow>
    w' \<le> w \<and> (\<forall>p \<in> set ps. \<forall>d. due now s p = Some d \<longrightarrow> w' \<le> max (time_sub d now) 0) \<and>
    (0 < w \<longrightarrow> (\<forall>p \<in> set ps. \<forall>d. due now s p = Some d \<longrightarrow> now < d) \<longrightarrow> 0 < w') \<and>
    due now s' = due now s \<and> sc_plan s' = sc_plan s \<and> sc_next_sweep s' = sc_next_sweep s \<and> sc_deleting s' = sc_deleting s"
proof (induction now ps w s arbitrary: w' s' rule: until_plan.induct)
  case (2 now p ps w s)
  obtain dopt s1 where d: "dueLocked p now s = (dopt, s1)" by force
  have s1: "due now s1 = due now s" "due now s p = dopt" "sc_plan s1 = sc_plan s"
    "sc_next_sweep s1 = sc_next_sweep s" "sc_deleting s1 = sc_deleting s"
    using due_stable [of now p s] dueLocked_plan [of p now s] d by (simp_all add: due_def)
  show ?case
  proof (cases dopt)
    case None
    with 2(3) d have "until_plan now ps w s1 = (w', s')" by simp
    from 2(1) [OF d [symmetric] None this] s1 None show ?thesis by auto
  next
    case (Some dd)
    let ?w = "min w (max (time_sub dd now) 0)"
    from 2(3) d Some have "until_plan now ps ?w s1 = (w', s')" by simp
    note ih = 2(2) [OF d [symmetric] Some this, unfolded s1]
    have pos: "0 < time_sub dd now \<longleftrightarrow> now < dd" by (simp add: time_sub_def max_duration_def min_duration_def less_max_iff_disj)
    show ?thesis
    proof (intro conjI ballI allI impI)
      show "w' \<le> w" using ih by simp
    next
      fix q e
      assume "q \<in> set (p # ps)" "due now s q = Some e"
      then show "w' \<le> max (time_sub e now) 0" using ih s1(2) Some by auto
    next
      assume "0 < w" and n: "\<forall>q \<in> set (p # ps). \<forall>e. due now s q = Some e \<longrightarrow> now < e"
      then have "0 < w" "0 < time_sub dd now" using pos s1(2) Some by auto
      with ih n show "0 < w'" by (simp add: less_max_iff_disj)
    qed (use ih in simp_all)
  qed
qed auto

lemma min_fold_le: "fold (\<lambda>x w. min w (g x)) xs (w :: int) \<le> w \<and> (\<forall>x \<in> set xs. fold (\<lambda>x w. min w (g x)) xs w \<le> g x)"
proof (induction xs arbitrary: w)
  case (Cons x xs)
  from Cons [of "min w (g x)"] show ?case by auto
qed simp

lemma min_fold_pos: "0 < w \<Longrightarrow> \<forall>x \<in> set xs. 0 < g x \<Longrightarrow> 0 < fold (\<lambda>x w. min w (g x)) xs (w :: int)"
  by (induction xs arbitrary: w) auto

lemma time_sub_le_diff: "0 \<le> t - u \<Longrightarrow> time_sub t u \<le> t - u"
  by (simp add: time_sub_def min_duration_def)

lemma time_sub_pos: "0 < time_sub t u \<longleftrightarrow> u < t"
  by (simp add: time_sub_def max_duration_def min_duration_def less_max_iff_disj)

subsection \<open>Sleeping\<close>

lemma untilDue_spec:
  assumes "untilDue now s = (w, s')"
  shows "w \<le> idleWait \<and> w \<le> max (time_sub (sc_next_sweep s) now) 0 \<and>
    (\<forall>(app, t) \<in> set (sc_deleting s'). now < tb_until t \<and> w \<le> time_sub (tb_until t) now) \<and>
    (\<forall>p \<in> set (sc_plan s). \<forall>d. due now s' p = Some d \<longrightarrow> w \<le> max (time_sub d now) 0) \<and>
    sc_plan s' = sc_plan s \<and> sc_next_sweep s' = sc_next_sweep s"
    "now < sc_next_sweep s \<Longrightarrow> (\<And>p d. p \<in> set (sc_plan s) \<Longrightarrow> due now s p = Some d \<Longrightarrow> now < d) \<Longrightarrow> 0 < w"
proof -
  let ?live = "filter (\<lambda>(app, t). now < tb_until t) (sc_deleting s)"
  let ?g = "\<lambda>(app :: string, t :: tomb). time_sub (tb_until t) now"
  let ?w0 = "min idleWait (max (time_sub (sc_next_sweep s) now) 0)"
  let ?w1 = "fold (\<lambda>x w. min w (?g x)) ?live ?w0"
  let ?s = "s\<lparr>sc_deleting := ?live\<rparr>"
  have "(\<lambda>(app :: string, t :: tomb) w. min w (time_sub (tb_until t) now)) = (\<lambda>x w. min w (?g x))" by (auto simp: fun_eq_iff)
  then have u: "until_plan now (sc_plan s) ?w1 ?s = (w, s')" using assms by (simp add: untilDue_def Let_def)
  note sp = until_plan_spec [OF u] and le = min_fold_le [of ?g ?live ?w0]
  show "w \<le> idleWait \<and> w \<le> max (time_sub (sc_next_sweep s) now) 0 \<and>
    (\<forall>(app, t) \<in> set (sc_deleting s'). now < tb_until t \<and> w \<le> time_sub (tb_until t) now) \<and>
    (\<forall>p \<in> set (sc_plan s). \<forall>d. due now s' p = Some d \<longrightarrow> w \<le> max (time_sub d now) 0) \<and>
    sc_plan s' = sc_plan s \<and> sc_next_sweep s' = sc_next_sweep s"
  proof (intro conjI)
    have "w \<le> ?w1" "?w1 \<le> ?w0" using sp le by blast+
    then show "w \<le> idleWait" "w \<le> max (time_sub (sc_next_sweep s) now) 0" by linarith+
    have "sc_deleting s' = ?live" using sp by simp
    moreover have "w \<le> ?g x" if "x \<in> set ?live" for x using le that \<open>w \<le> ?w1\<close> by (meson order_trans)
    ultimately show "\<forall>(app, t) \<in> set (sc_deleting s'). now < tb_until t \<and> w \<le> time_sub (tb_until t) now" by auto
    show "\<forall>p \<in> set (sc_plan s). \<forall>d. due now s' p = Some d \<longrightarrow> w \<le> max (time_sub d now) 0" using sp by simp
  qed (use sp in simp_all)
  assume n: "now < sc_next_sweep s" "\<And>p d. p \<in> set (sc_plan s) \<Longrightarrow> due now s p = Some d \<Longrightarrow> now < d"
  have "now < d" if p: "p \<in> set (sc_plan s)" "due now ?s p = Some d" for p d
  proof -
    obtain st where st: "schedulable p now ?s" "mget (sc_state s) (key_string (pl_app p, pl_name p)) = Some st"
      "d = due_time p (clamp now st)" using due_SomeD [OF p(2)] by auto
    have "blockedLocked (pl_app p) now s = None"
      using st(1) mget_filter_keep [of "sc_deleting s" "pl_app p" _ "\<lambda>(app, t). now < tb_until t"]
      by (auto simp: schedulable_def blockedLocked_def split: if_splits option.splits)
    then have "schedulable p now s" using st(1) by (simp add: schedulable_def)
    from due_SomeI [OF this st(2)] st(3) n(2) p(1) show ?thesis by simp
  qed
  moreover have "0 < ?w0" using n(1) by (simp add: idleWait_def hour_def minute_def second_def time_sub_pos less_max_iff_disj)
  then have w1: "0 < ?w1" by (rule min_fold_pos) (auto simp: time_sub_pos)
  ultimately have "\<forall>p \<in> set (sc_plan s). \<forall>d. due now ?s p = Some d \<longrightarrow> now < d" by blast
  with w1 sp show "0 < w" by blast
qed

text \<open>C37. When there is nothing to run, \<open>Run\<close> sleeps for a positive time and until no later than the next
  sweep, and at any moment before it wakes the decision would have been the same: no backup becomes due,
  no app's deletion block lapses and no sweep is due while it sleeps. (Requests, rereads and ended calls
  wake it.)\<close>

theorem sleep_misses_nothing:
  assumes "next_job b now s = (None, s1)" "untilDue now s1 = (w, s2)" "now < sc_next_sweep s" "0 < now"
  shows "0 < w \<and> w \<le> idleWait \<and>
    (\<forall>t. now \<le> t \<longrightarrow> t < now + w \<longrightarrow> t < sc_next_sweep s2 \<and> fst (next_job b t s2) = None)"
proof -
  note n = next_job_spec [OF assms(1), simplified] and u = untilDue_spec [OF assms(2)]
  have f: "sc_queue s1 = []" "sc_plan s2 = sc_plan s" "sc_next_sweep s2 = sc_next_sweep s" "sc_plan s1 = sc_plan s"
    "sc_next_sweep s1 = sc_next_sweep s" "due now s1 = due now s" using n u(1) by simp_all
  have "now < d" if "p \<in> set (sc_plan s)" "due now s p = Some d" for p d using n(3) that by blast
  then have pos: "0 < w" using u(2) assms(3) f by simp
  have m0: "w \<le> x" if "w \<le> max x 0" for x using pos that by linarith
  have le: "w \<le> time_sub (sc_next_sweep s) now" by (rule m0) (use u(1) f(5) in simp)
  have tombs: "w \<le> time_sub (tb_until tb) now" if "(a, tb) \<in> set (sc_deleting s2)" for a tb using u(1) that by blast
  have dues: "w \<le> time_sub d now" if "p \<in> set (sc_plan s2)" "due now s2 p = Some d" for p d
    by (rule m0) (use u(1) that f in simp)
  have "t < sc_next_sweep s2 \<and> fst (next_job b t s2) = None" if t: "now \<le> t" "t < now + w" for t
  proof
    have "now + w \<le> sc_next_sweep s2"
      using le assms(3) f(3) time_sub_le_diff [of "sc_next_sweep s" now] by simp
    then show "t < sc_next_sweep s2" using t(2) by simp
    have later: "t < d" if p: "p \<in> set (sc_plan s2)" "due t s2 p = Some d" for p d
    proof -
      have bt: "blockedLocked (pl_app p) t s2 = None" using p(2) by (elim due_SomeD) (simp add: schedulable_def)
      have "\<not> now < tb_until tb" if "mget (sc_deleting s2) (pl_app p) = Some tb" for tb
      proof
        assume "now < tb_until tb"
        then have "t < tb_until tb"
          using tombs [OF map_of_SomeD [OF that]] t(2) time_sub_le_diff [of "tb_until tb" now] by simp
        with bt that show False by (simp add: blockedLocked_def)
      qed
      with bt have "blockedLocked (pl_app p) now s2 = None"
        by (auto simp: blockedLocked_def split: if_splits option.splits)
      from due_later [OF assms(4) t(1) p(2) this] obtain d0 where d0: "d0 \<le> d" "due now s2 p = Some d0" by blast
      have "w \<le> time_sub d0 now" by (rule dues [OF p(1) d0(2)])
      then have "now + w \<le> d0" using pos time_sub_le_diff [of d0 now] time_sub_pos [of d0 now] by auto
      with d0(1) t(2) show ?thesis by simp
    qed
    have q: "sc_queue s2 = []"
      using f(1) jobs_of_eqD(1) [OF jobs_of_untilDue [of now s1]] assms(2) by simp
    obtain jo s3 where m: "next_job b t s2 = (jo, s3)" by force
    have "jo \<noteq> Some j" for j
    proof
      assume "jo = Some j"
      then have "found_request t s2 j s3 \<or> found_scheduled t s2 j s3" using next_job_spec(3) [OF m] by simp
      then obtain p d where "p \<in> set (sc_plan s2)" "due t s2 p = Some d" "d \<le> t"
        unfolding found_request_def found_scheduled_def using q by auto
      with later show False by fastforce
    qed
    then show "fst (next_job b t s2) = None" using m by (cases jo) auto
  qed
  with pos u(1) show ?thesis by blast
qed

text \<open>A plan of one hourly backup, last tried at 100.\<close>

definition sample_plan :: "planned list" where
  "sample_plan = [\<lparr>pl_app = ''a'', pl_backup = \<lparr>eb_name = ''db'', eb_type = TypeSQLite, eb_enabled = True, eb_storage = ''s3'',
     eb_every = ''1h'', eb_keep = None, eb_volume = ''data'', eb_service = [], eb_path = ''app.db'', eb_paths = [], eb_exclude = [],
     eb_in_recipe = True, eb_from = [], eb_template = None\<rparr>\<rparr>]"

definition sample_sched :: sched where
  "sample_sched = (NewScheduler None [])\<lparr>sc_plan := sample_plan, sc_state := [(''a/db'', new_state\<lparr>bs_attempt := 100\<rparr>)],
     sc_next_sweep := 10 * hour\<rparr>"

lemma sample_due: "due_time (hd sample_plan) (clamp 200 (new_state\<lparr>bs_attempt := 100\<rparr>)) = 100 + hour" "schedulable (hd sample_plan) 200 sample_sched"
  by (simp_all add: due_time_def clamp_def clamp_time_def new_state_def Interval_def sample_plan_def Manual_def duration_examples
      zero_time_def Let_def schedulable_def Builtin_def TypeSQLite_def blockedLocked_def sample_sched_def NewScheduler_def
      hour_def minute_def second_def)

lemma sample_sched_state: "mget (sc_state sample_sched) (key_string (''a'', ''db'')) = Some (new_state\<lparr>bs_attempt := 100\<rparr>)"
    "put_state (key_string (''a'', ''db'')) (clamp 200 (new_state\<lparr>bs_attempt := 100\<rparr>)) sample_sched = sample_sched"
    "sc_plan sample_sched = sample_plan" "sc_queue sample_sched = []" "sc_deleting sample_sched = []"
    "sc_next_sweep sample_sched = 10 * hour"
  by (simp_all add: sample_sched_def key_string_def put_state_def clamp_def clamp_time_def new_state_def NewScheduler_def zero_time_def)

lemma sample_dueLocked: "dueLocked (hd sample_plan) 200 sample_sched = (Some (100 + hour), sample_sched)"
  using sample_due sample_sched_state(1,2) by (simp add: dueLocked_def Let_def sample_plan_def)

lemma sample_plan_cons: "sample_plan = [hd sample_plan]"
  by (simp add: sample_plan_def)

lemma sample_next: "next_job False 200 sample_sched = (None, sample_sched)"
proof -
  have q: "sample_sched\<lparr>sc_queue := []\<rparr> = sample_sched" using sample_sched_state(4) by simp
  have r: "refuse P e sample_sched = sample_sched" for P e by (simp add: refuse_def Let_def sample_sched_state q)
  have "most_overdue 200 [hd sample_plan] None sample_sched = (None, sample_sched)"
    by (simp add: sample_dueLocked hour_def minute_def second_def)
  then show ?thesis by (simp add: next_job_def r sample_sched_state q flip: sample_plan_cons)
qed

lemma sample_until: "untilDue 200 sample_sched = (hour - 100, sample_sched)"
proof -
  have d: "sample_sched\<lparr>sc_deleting := []\<rparr> = sample_sched" using sample_sched_state(5) by simp
  have "until_plan 200 [hd sample_plan] (10 * hour - 200) sample_sched = (hour - 100, sample_sched)"
    by (simp add: sample_dueLocked hour_def minute_def second_def time_sub_def max_duration_def min_duration_def)
  then show ?thesis
    by (simp add: untilDue_def Let_def sample_sched_state d idleWait_def hour_def minute_def second_def time_sub_def
        max_duration_def min_duration_def flip: sample_plan_cons)
qed

theorem sleep_misses_nothing_witness:
  "untilDue 200 sample_sched = (hour - 100, sample_sched) \<and> 0 < hour - 100 \<and> fst (next_job False (50 + hour) sample_sched) = None"
proof -
  have "200 < sc_next_sweep sample_sched" by (simp add: sample_sched_state hour_def minute_def second_def)
  then show ?thesis
    using sleep_misses_nothing [OF sample_next sample_until] sample_until by (simp add: hour_def minute_def second_def)
qed

end
