(* ===== verification/Scheduler_Forget.thy ===== *)
theory Scheduler_Forget
  imports Scheduler_Slots
begin

text \<open>
  A deleted app stays gone: no run that was under way, no answer that comes late and no reading of the plan
  that began before the deletion brings its plan entries or its records back.
\<close>

subsection \<open>An app with no entry and no record\<close>

lemma key_app_key: "slash \<notin> set (fst k) \<Longrightarrow> key_app (key_string k) = fst k"
proof -
  assume "slash \<notin> set (fst k)"
  then have "takeWhile (\<lambda>c. c \<noteq> slash) (fst k @ slash # snd k) = fst k"
    by (subst takeWhile_append2) auto
  then show ?thesis by (simp add: key_app_def key_string_def)
qed

definition without :: "string \<Rightarrow> planned list \<Rightarrow> (string, backup_state) gomap \<Rightarrow> bool" where
  "without a ps st \<longleftrightarrow> (\<forall>p \<in> set ps. pl_app p \<noteq> a \<and> slash \<notin> set (pl_app p)) \<and> (\<forall>k v. mget st k = Some v \<longrightarrow> key_app k \<noteq> a)"

lemma without_put:
  assumes "without a ps st" "mget st k \<noteq> None \<or> (\<exists>p \<in> set ps. k = key_string (pl_app p, pl_name p))"
  shows "without a ps (mput k v st)"
proof -
  have "key_app k \<noteq> a" using assms key_app_key by (fastforce simp: without_def)
  then show ?thesis using assms(1) by (auto simp: without_def)
qed

definition gone :: "string \<Rightarrow> sched \<Rightarrow> bool" where
  "gone a s \<longleftrightarrow> without a (sc_plan s) (sc_state s)"

text \<open>What a section must leave alone of the rest.\<close>

definition gens :: "sched \<Rightarrow> planned list \<times> nat \<times> (string, nat) gomap" where
  "gens s = (sc_plan s, sc_gen s, sc_forgotten s)"

interpretation gen: blind gens
  by unfold_locales (simp_all add: gens_def saveLocked_def put_state_def nudge_def signal_def split: list.split)

lemma gens_simps [simp]:
  "gens (end_ctx i c s) = gens s" "gens (forget_timeout ws s) = gens s" "gens (end_all_ctx s) = gens s"
  "gens (s\<lparr>sc_next_sweep := t\<rparr>) = gens s" "gens (s\<lparr>sc_wake := b\<rparr>) = gens s" "gens (s\<lparr>sc_deleting := ts\<rparr>) = gens s"
  "gens (s\<lparr>sc_running := r\<rparr>) = gens s" "gens (s\<lparr>sc_stuck := st\<rparr>) = gens s" "gens (finish_job j oc s) = gens s"
  "gens (refuse P e s) = gens s" "gens (s\<lparr>sc_stopped := b\<rparr>) = gens s"
  by (simp_all add: gens_def end_ctx_def forget_timeout_def end_all_ctx_def)

text \<open>A section that keeps the plan, writes only records of the plan or records that exist.\<close>

definition tame :: "sched \<Rightarrow> sched \<Rightarrow> bool" where
  "tame s s' \<longleftrightarrow> gens s' = gens s \<and> (\<forall>a. gone a s \<longrightarrow> gone a s')"

lemma tame_refl [simp, intro]: "tame s s"
  by (simp add: tame_def)

lemma tame_trans: "tame s s' \<Longrightarrow> tame s' s'' \<Longrightarrow> tame s s''"
  by (simp add: tame_def)

lemma tame_state: "gens s' = gens s \<Longrightarrow> sc_state s' = sc_state s \<Longrightarrow> tame s s'"
  by (simp add: tame_def gone_def gens_def)

lemma tame_put:
  assumes "mget (sc_state s) k \<noteq> None \<or> (\<exists>p \<in> set (sc_plan s). k = key_string (pl_app p, pl_name p))"
  shows "tame s (put_state k st s)"
  using without_put [OF _ assms] by (simp add: tame_def gone_def put_state_def gens_def)

lemma state_simps [simp]:
  "sc_state (saveLocked s) = sc_state s" "sc_state (nudge s) = sc_state s" "sc_state (signal s) = sc_state s"
  "sc_state (end_ctx i c s) = sc_state s" "sc_state (forget_timeout ws s) = sc_state s" "sc_state (end_all_ctx s) = sc_state s"
  by (simp_all add: saveLocked_def nudge_def signal_def end_ctx_def forget_timeout_def end_all_ctx_def split: list.split)

lemma planned_key: "plannedLocked k s \<Longrightarrow> \<exists>p \<in> set (sc_plan s). key_string k = key_string (pl_app p, pl_name p)"
  by (cases k) (auto simp: plannedLocked_def list_ex_iff)

lemma tame_save: "tame s t \<Longrightarrow> tame s (saveLocked t)"
  by (erule tame_trans) (simp add: tame_state)

lemma tame_note: "tame s (noteErrorLocked k m s)"
  using tame_put [OF disjI2 [OF planned_key]] by (simp add: noteErrorLocked_def tame_save)

lemma tame_nudge: "tame s t \<Longrightarrow> tame s (nudge t)"
  by (erule tame_trans) (simp add: tame_state)

lemma tame_late: "tame s (lateLocked j d s)"
  by (simp add: lateLocked_def tame_note tame_nudge split: option.split)

lemma tame_due: "tame s (snd (dueLocked p now s))"
  by (auto simp: dueLocked_def Let_def intro: tame_put split: option.split)

lemma tame_overdue: "tame s (snd (most_overdue now ps best s))"
proof (induction now ps best s rule: most_overdue.induct)
  case (2 now p ps best s)
  obtain dopt s1 where d: "dueLocked p now s = (dopt, s1)" by force
  have "tame s s1" using tame_due [of s p now] d by simp
  with d 2 show ?case by (cases dopt) (auto intro: tame_trans)
qed simp

lemma tame_until: "tame s (snd (until_plan now ps w s))"
proof (induction now ps w s rule: until_plan.induct)
  case (2 now p ps w s)
  obtain dopt s1 where d: "dueLocked p now s = (dopt, s1)" by force
  have "tame s s1" using tame_due [of s p now] d by simp
  with d 2 show ?case by (cases dopt) (auto intro: tame_trans)
qed simp

lemma tame_untilDue: "tame s (snd (untilDue now s))"
  unfolding untilDue_def Let_def by (rule tame_trans [OF _ tame_until]) (simp add: tame_state)

lemma tame_next: "tame s (snd (next_job b now s))"
proof -
  let ?s1 = "refuse (waited_too_long now) ErrQueueWait s"
  obtain jo2 s2 where t: "take_request now (sc_queue ?s1) ?s1 = (jo2, s2)" by force
  have 2: "tame s s2" using take_request_frame [OF t] by (simp add: tame_state gens_def)
  have st: "tame u (snd (startLocked b j u))" for j u by (simp add: tame_state gens_def startLocked_def Let_def)
  have n: "tame u (u\<lparr>sc_jobs := k\<rparr>)" for u k by (simp add: tame_state gens_def)
  obtain best s3 where m: "most_overdue now (sc_plan s2) None s2 = (best, s3)" by force
  have 3: "tame s s3" using tame_trans [OF 2 tame_overdue [of s2 now "sc_plan s2" None]] m by simp
  show ?thesis
  proof (cases jo2)
    case (Some j0)
    then have "snd (next_job b now s) = snd (startLocked b j0 s2)" using t by (auto simp: next_job_def Let_def split_beta)
    then show ?thesis using tame_trans [OF 2 st] by simp
  next
    case None
    show ?thesis
    proof (cases best)
      case b: None
      then have "snd (next_job b now s) = s3" using t None m by (auto simp: next_job_def Let_def)
      then show ?thesis using 3 by simp
    next
      case b: (Some pd)
      then obtain j where "snd (next_job b now s) = snd (startLocked b j (s3\<lparr>sc_jobs := Suc (sc_jobs s3)\<rparr>))"
        using t None m by (cases pd) (auto simp: next_job_def Let_def split_beta)
      then show ?thesis using tame_trans [OF 3 tame_trans [OF n st]] by simp
    qed
  qed
qed

lemma tame_health: "tame s (snd (Health app now f s))"
proof -
  have "tame s (snd (fold (health_step app now f) ps (hs, t)))" if "set ps \<subseteq> set (sc_plan s)" "tame s t" for ps hs t
    using that
  proof (induction ps arbitrary: hs t)
    case (Cons p ps)
    have "\<exists>hs' t'. health_step app now f p (hs, t) = (hs', t') \<and> tame t t'"
      by (auto simp: health_step_def Let_def split: option.split intro: tame_put)
    then obtain hs' t' where h: "health_step app now f p (hs, t) = (hs', t')" "tame t t'" by blast
    with Cons show ?case using tame_trans [OF Cons(3) h(2)] by simp
  qed simp
  then show ?thesis by (simp add: Health_def)
qed

lemma gens_plan: "gens s = gens t \<Longrightarrow> plannedLocked k s = plannedLocked k t"
  by (simp add: gens_def plannedLocked_def)

lemma tame_finish: "tame s t \<Longrightarrow> tame s (finish_job j oc t)"
  by (erule tame_trans) (simp add: tame_state)

lemma tame_record: "tame s (record_outcome j st d err stopping s)"
proof -
  have r: "tame s (s\<lparr>sc_running := None\<rparr>)" "tame t (t\<lparr>sc_dirty := True\<rparr>)" for t by (simp_all add: tame_state)
  have d: "tame s t \<Longrightarrow> tame s (t\<lparr>sc_dirty := True\<rparr>)" and n: "tame s t \<Longrightarrow> tame s (noteErrorLocked k m t)" for t k m
    using r(2) tame_note tame_trans by blast+
  have "tame s (recordRestore j (eo_restore d) err stopping s)"
    unfolding recordRestore_def Let_def split_beta
    by (intro tame_finish) (auto intro!: r(1) tame_nudge n d split: option.split)
  moreover have "tame s (record_run j st (eo_res d) err stopping s)"
  proof -
    let ?s1 = "nudge (s\<lparr>sc_running := None\<rparr>)"
    have s1: "tame s ?s1" "tame s (?s1\<lparr>sc_dirty := True\<rparr>)" using r tame_nudge tame_trans by blast+
    have p: "tame s (put_state (key_string (jb_key j)) v t)"
      if "tame s t" "mget (sc_state t) (key_string (jb_key j)) \<noteq> None \<or> plannedLocked (jb_key j) t" for v t
      using that tame_trans [OF that(1) tame_put] planned_key by blast
    show ?thesis
      unfolding record_run_def Let_def
      by (auto intro!: tame_finish tame_save s1 p split: option.split)
  qed
  ultimately show ?thesis by (simp add: record_outcome_def)
qed

lemma tame_exit: "tame s (call_exit j d s)"
proof -
  have s: "tame s t \<Longrightarrow> tame s (signal t)" for t by (erule tame_trans) (simp add: tame_state)
  have "tame s (s\<lparr>sc_stuck := m\<rparr>)" for m by (simp add: tame_state)
  then show ?thesis
    by (auto simp: call_exit_def Let_def intro!: s intro: tame_trans [OF _ tame_late] tame_late)
qed

lemma tame_ask: "tame s (snd (ask err j s))"
  by (auto simp: ask_def Let_def signal_def answer_def tame_state gens_def split: option.split)

subsection \<open>Every event\<close>

lemma fire_tame:
  assumes "\<And>plan now. e \<noteq> Read plan now" "\<And>b now. e \<noteq> DoForget b now" "\<And>m. e \<noteq> DoNote m"
  shows "tame (sy_sched y) (sy_sched (fire e y))"
proof -
  let ?s = "sy_sched y"
  have u: "tame ?s (?s\<lparr>sc_next_sweep := t\<rparr>)" "tame ?s (?s\<lparr>sc_wake := b\<rparr>)" for t b by (simp_all add: tame_state)
  show ?thesis
  proof (cases e)
    case (Start now)
    then show ?thesis using u by (cases "sy_pc y") auto
  next
    case Top
    have "tame ?s (snd (refresh_begin ?s))" by (simp add: refresh_begin_def tame_state)
    then show ?thesis using Top by (cases "sy_pc y") (auto simp: run_top_def split: prod.split option.split)
  next
    case (Decide now)
    then show ?thesis using u tame_next [of ?s "sy_parent y" now]
      by (cases "sy_pc y") (auto simp: run_decide_def Let_def split: prod.split option.split)
  next
    case Idle
    then show ?thesis using tame_untilDue [of ?s] by (cases "sy_pc y") (auto split: prod.split, metis snd_conv)
  next
    case (Wake b)
    then show ?thesis using u by (cases "sy_pc y") auto
  next
    case (Launch now)
    then show ?thesis by (cases "sy_pc y") (auto simp: launch_def)
  next
    case Receive
    then show ?thesis by (cases "sy_pc y") (auto split: option.split)
  next
    case GiveUp
    then show ?thesis by (cases "sy_pc y") (auto simp: give_up_def abandon_def tame_state gens_def split: option.split)
  next
    case Conclude
    then show ?thesis by (cases "sy_pc y") (auto split: prod.split)
  next
    case RecordIt
    then show ?thesis using tame_record by (cases "sy_pc y") auto
  next
    case StopNow
    have "tame ?s (shut_down ?s)" by (simp add: shut_down_def tame_state)
    then show ?thesis using StopNow by (cases "sy_pc y") auto
  next
    case (Return i d)
    then show ?thesis by (auto split: option.split)
  next
    case (Exit i)
    then show ?thesis using tame_exit by (auto split: option.split)
  next
    case (DoRunNow app name now)
    obtain i t where r: "RunNow app name now ?s = (i, t)" by force
    have "tame ?s (snd (RunNow app name now ?s))" unfolding RunNow_def by (rule tame_ask)
    then show ?thesis using r DoRunNow by simp
  next
    case (DoRestore app name point now)
    obtain i t where r: "Restore app name point now ?s = (i, t)" by force
    have "tame ?s (snd (Restore app name point now ?s))" unfolding Restore_def by (rule tame_ask)
    then show ?thesis using r DoRestore by simp
  next
    case DoReload
    then show ?thesis by (simp add: Reload_def tame_state signal_def gens_def)
  qed (use assms tame_health in \<open>auto simp: tame_state\<close>)
qed

lemma fire_reading: "sy_pc (fire e y) = Reading r \<Longrightarrow> sy_pc y = Reading r \<or> e = Top \<and> r = sc_gen (sy_sched y)"
  by (cases e; cases "sy_pc y")
    (auto simp: run_top_def run_decide_def launch_def give_up_def refresh_begin_def Let_def
      split: if_splits option.splits prod.splits)

lemma tame_enables:
  "\<forall>p \<in> set ps. p \<in> set (sc_plan s) \<Longrightarrow> tame s (snd cs) \<Longrightarrow> tame s (snd (fold (enable_step now) ps cs))"
proof (induction ps arbitrary: cs)
  case (Cons p ps)
  obtain ch t where cs: "cs = (ch, t)" by force
  have "p \<in> set (sc_plan t)" using Cons(2,3) by (simp add: cs tame_def gens_def)
  then have "tame t (snd (enable_step now p cs))"
    by (simp add: enable_step_def Let_def cs tame_put bexI)
  then have "tame s (snd (enable_step now p cs))" using Cons(3) tame_trans by (simp add: cs)
  then show ?case using Cons(1) [of "enable_step now p cs"] Cons(2) by simp
qed simp

text \<open>The deletion block and the generations keep every reading that began before out.\<close>

definition apart :: "string \<Rightarrow> nat \<Rightarrow> system \<Rightarrow> bool" where
  "apart a g y \<longleftrightarrow> (\<exists>g' \<ge> g. mget (sc_forgotten (sy_sched y)) a = Some g') \<and> g \<le> sc_gen (sy_sched y) \<and>
     (\<forall>r. sy_pc y = Reading r \<longrightarrow> r < g) \<and> gone a (sy_sched y)"

fun plain_read :: "event \<Rightarrow> bool" where
  "plain_read (Read plan now) \<longleftrightarrow> list_all (\<lambda>p. slash \<notin> set (pl_app p)) plan"
| "plain_read _ \<longleftrightarrow> True"

fun new_read :: "event \<Rightarrow> bool" where
  "new_read Top \<longleftrightarrow> True"
| "new_read (DoNote _) \<longleftrightarrow> True"
| "new_read _ \<longleftrightarrow> False"

lemma refresh_gone:
  assumes "mget (sc_forgotten s) a = Some g" "rg < g" "gone a s" "list_all (\<lambda>p. slash \<notin> set (pl_app p)) plan"
  shows "gone a (refresh_end plan rg now s)" "mget (sc_forgotten (refresh_end plan rg now s)) a = Some g"
    "sc_gen (refresh_end plan rg now s) = sc_gen s"
proof -
  let ?listed = "\<lambda>app. list_ex (\<lambda>p. pl_app p = app) plan"
  let ?fresh = "\<lambda>p. case mget (sc_forgotten s) (pl_app p) of None \<Rightarrow> True | Some g \<Rightarrow> g \<le> rg"
  let ?s1 = "nudge (s\<lparr>sc_deleting := filter (\<lambda>(app, t). \<not> (tb_gen t \<le> rg \<and> \<not> ?listed app \<or> tb_until t \<le> now)) (sc_deleting s),
                       sc_forgotten := filter (\<lambda>(app, g). \<not> g \<le> rg) (sc_forgotten s), sc_plan := filter ?fresh plan\<rparr>)"
  have e: "gens ?s1 = (filter ?fresh plan, sc_gen s, filter (\<lambda>(app, g). \<not> g \<le> rg) (sc_forgotten s))"
    by (simp add: gens_def nudge_def)
  have "pl_app p \<noteq> a" if "?fresh p" for p using that assms(1,2) by auto
  then have "gone a ?s1" using assms(3,4) by (auto simp: gone_def without_def nudge_def list_all_iff)
  moreover have t: "tame ?s1 (refresh_end plan rg now s)"
    using tame_enables [of "filter ?fresh plan" ?s1 "(False, ?s1)" now]
    by (auto simp: refresh_end_def Let_def split_beta nudge_def intro: tame_save)
  ultimately show "gone a (refresh_end plan rg now s)" by (simp add: tame_def)
  from t e show "mget (sc_forgotten (refresh_end plan rg now s)) a = Some g" "sc_gen (refresh_end plan rg now s) = sc_gen s"
    using mget_filter_keep [of "sc_forgotten s" a g "\<lambda>(app, g). \<not> g \<le> rg"] assms(1,2) by (simp_all add: tame_def gens_def)
qed

lemma Forget_gens:
  "gens (snd (Forget b now s)) = (filter (\<lambda>p. pl_app p \<noteq> b) (sc_plan s), sc_gen s + 1, mput b (sc_gen s + 1) (sc_forgotten s))"
  "sc_state (snd (Forget b now s)) = mkeep (\<lambda>k. key_app k \<noteq> b) (sc_state s)"
proof -
  have v: "sc_state (signal t) = sc_state t" "sc_state (t\<lparr>sc_dirty := c\<rparr>) = sc_state t" for t c by (simp_all add: signal_def)
  have e: "sc_plan (end_ctx i c t) = sc_plan t" "sc_gen (end_ctx i c t) = sc_gen t" "sc_forgotten (end_ctx i c t) = sc_forgotten t"
    "sc_state (end_ctx i c t) = sc_state t" for i c t by (simp_all add: end_ctx_def)
  show "gens (snd (Forget b now s)) = (filter (\<lambda>p. pl_app p \<noteq> b) (sc_plan s), sc_gen s + 1, mput b (sc_gen s + 1) (sc_forgotten s))"
    by (auto simp: Forget_def Let_def e split: option.split) (simp_all add: gens_def e)
  show "sc_state (snd (Forget b now s)) = mkeep (\<lambda>k. key_app k \<noteq> b) (sc_state s)"
    by (auto simp: Forget_def Let_def e v split: option.split)
qed

lemma fire_apart:
  assumes "apart a g y" "\<not> new_read e" "plain_read e"
  shows "apart a g (fire e y)"
proof -
  let ?s = "sy_sched y"
  obtain g' where g': "g \<le> g'" "mget (sc_forgotten ?s) a = Some g'" and ge: "g \<le> sc_gen ?s" and go: "gone a ?s"
    and rd: "\<And>r. sy_pc y = Reading r \<Longrightarrow> r < g"
    using assms(1) by (auto simp: apart_def)
  have pc: "r < g" if "sy_pc (fire e y) = Reading r" for r
    using fire_reading [OF that] rd assms(2) by auto
  show ?thesis
  proof (cases e)
    case (Read plan now)
    show ?thesis
    proof (cases "sy_pc y")
      case (Reading rg)
      have "rg < g'" using rd [OF Reading] g'(1) by simp
      from refresh_gone [OF g'(2) this go] assms(3) Read Reading g' ge pc show ?thesis by (auto simp: apart_def)
    qed (use assms(1) Read in auto)
  next
    case (DoForget b now)
    note f = Forget_gens [of b now ?s]
    have "sc_plan (snd (Forget b now ?s)) = filter (\<lambda>p. pl_app p \<noteq> b) (sc_plan ?s)"
      "sc_gen (snd (Forget b now ?s)) = sc_gen ?s + 1" "sc_forgotten (snd (Forget b now ?s)) = mput b (sc_gen ?s + 1) (sc_forgotten ?s)"
      using f(1) by (simp_all add: gens_def)
    with f(2) g' ge go pc DoForget show ?thesis
      by (auto simp: apart_def gone_def without_def)
  next
    case (DoNote m)
    with assms(2) show ?thesis by simp
  qed (use fire_tame [of e y] g' ge go pc in \<open>auto simp: apart_def tame_def gens_def simp del: fire.simps\<close>)
qed

text \<open>Before the deletion only the plain plan and the order of the generations count.\<close>

definition orderly :: "system \<Rightarrow> bool" where
  "orderly y \<longleftrightarrow> (\<forall>p \<in> set (sc_plan (sy_sched y)). slash \<notin> set (pl_app p)) \<and>
     (\<forall>r. sy_pc y = Reading r \<longrightarrow> r \<le> sc_gen (sy_sched y))"

lemma refresh_plan: "set (sc_plan (refresh_end plan rg now s)) \<subseteq> set plan" "sc_gen (refresh_end plan rg now s) = sc_gen s"
proof -
  have "gens (refresh_end plan rg now s) = (filter (\<lambda>p. case mget (sc_forgotten s) (pl_app p) of None \<Rightarrow> True | Some g \<Rightarrow> g \<le> rg) plan,
    sc_gen s, filter (\<lambda>(app, g). \<not> g \<le> rg) (sc_forgotten s))"
    by (simp add: refresh_end_def Let_def split_beta gen.enables) (simp add: gens_def)
  then show "set (sc_plan (refresh_end plan rg now s)) \<subseteq> set plan" "sc_gen (refresh_end plan rg now s) = sc_gen s"
    by (auto simp: gens_def)
qed

lemma fire_orderly:
  assumes "orderly y" "plain_read e"
  shows "orderly (fire e y)"
proof -
  let ?s = "sy_sched y"
  have pc: "r \<le> sc_gen ?s" if "sy_pc (fire e y) = Reading r" for r
    using fire_reading [OF that] assms(1) by (auto simp: orderly_def)
  show ?thesis
  proof (cases e)
    case (Read plan now)
    then show ?thesis using assms pc refresh_plan [of plan _ now ?s]
      by (cases "sy_pc y") (auto simp: orderly_def list_all_iff)
  next
    case (DoForget b now)
    have "sc_plan (snd (Forget b now ?s)) = filter (\<lambda>p. pl_app p \<noteq> b) (sc_plan ?s)" "sc_gen (snd (Forget b now ?s)) = sc_gen ?s + 1"
      using Forget_gens(1) [of b now ?s] by (simp_all add: gens_def)
    with assms(1) pc DoForget show ?thesis by (auto simp: orderly_def le_SucI)
  next
    case (DoNote m)
    have "gens (NoteInterrupted m ?s) = gens ?s" by simp
    then show ?thesis using assms(1) pc DoNote by (auto simp: orderly_def gens_def)
  qed (use fire_tame [of e y] assms(1) pc in \<open>auto simp: orderly_def tame_def gens_def simp del: fire.simps\<close>)
qed

lemma forget_apart:
  assumes "orderly y"
  shows "\<exists>g. apart a g (fire (DoForget a now) y)"
proof -
  let ?s = "sy_sched y" and ?t = "snd (Forget a now (sy_sched y))"
  have "sc_plan ?t = filter (\<lambda>p. pl_app p \<noteq> a) (sc_plan ?s)" "sc_gen ?t = sc_gen ?s + 1"
    "sc_forgotten ?t = mput a (sc_gen ?s + 1) (sc_forgotten ?s)" "sc_state ?t = mkeep (\<lambda>k. key_app k \<noteq> a) (sc_state ?s)"
    using Forget_gens [of a now ?s] by (simp_all add: gens_def)
  then have "apart a (sc_gen ?s + 1) (fire (DoForget a now) y)"
    using assms by (auto simp: apart_def orderly_def gone_def without_def less_Suc_eq_le split: if_splits)
  then show ?thesis ..
qed

text \<open>C35. A deleted app stays gone. After \<open>Forget\<close>, whatever was under way (a run that fails or ends late, a
  reading of the plan that began before and still lists the app, other deletions, requests) leaves the
  scheduler without a plan entry and without a record of the app, until \<open>Run\<close> begins another reading of
  the plan. App ids have no slash.\<close>

theorem forgotten_stays_gone:
  assumes "list_all plain_read (es1 @ es2)" "\<not> list_ex new_read es2"
    "y = fold fire es2 (fire (DoForget a now) (fold fire es1 (initial f disk)))"
  shows "a \<notin> pl_app ` set (sc_plan (sy_sched y)) \<and> a \<notin> key_app ` set (keys (sc_state (sy_sched y)))"
proof -
  have "orderly (fold fire es (initial f disk))" if "list_all plain_read es" for es
    using that
  proof (induction es rule: rev_induct)
    case Nil
    then show ?case by (simp add: orderly_def initial_def NewScheduler_def)
  next
    case (snoc e es)
    then show ?case using fire_orderly [of "fold fire es (initial f disk)" e] by (simp del: fire.simps)
  qed
  then obtain g where g: "apart a g (fire (DoForget a now) (fold fire es1 (initial f disk)))"
    using forget_apart assms(1) by fastforce
  have "apart a g (fold fire es z)" if "apart a g z" "list_all plain_read es" "\<not> list_ex new_read es" for es z
    using that
  proof (induction es arbitrary: z)
    case (Cons e es)
    then show ?case using fire_apart [of a g z e] by (simp del: fire.simps)
  qed simp
  from this [OF g] assms have "gone a (sy_sched y)" by (simp add: apart_def del: fire.simps)
  then have "pl_app p \<noteq> a" if "p \<in> set (sc_plan (sy_sched y))" for p using that by (simp add: gone_def without_def)
  moreover have "key_app k \<noteq> a" if "k \<in> set (keys (sc_state (sy_sched y)))" for k
    using \<open>gone a (sy_sched y)\<close> that unfolding gone_def without_def keys_mget by blast
  ultimately show ?thesis unfolding image_iff by blast
qed

definition late_plan :: "planned list" where
  "late_plan = [\<lparr>pl_app = ''a'', pl_backup = \<lparr>eb_name = ''db'', eb_type = TypeSQLite, eb_enabled = True, eb_storage = ''s3'',
     eb_every = ''1h'', eb_keep = None, eb_volume = ''data'', eb_service = [], eb_path = ''app.db'', eb_paths = [], eb_exclude = [],
     eb_in_recipe = True, eb_from = [], eb_template = None\<rparr>\<rparr>]"

theorem forgotten_stays_gone_witness:
  "sy_pc (fold fire [Start 0, Top] (initial None [])) = Reading 0 \<and> ''a'' \<in> pl_app ` set late_plan \<and>
   ''a'' \<notin> pl_app ` set (sc_plan (sy_sched (fold fire [Read late_plan 5] (fire (DoForget ''a'' 1) (fold fire [Start 0, Top] (initial None []))))))"
proof -
  have "list_all plain_read ([Start 0, Top] @ [Read late_plan 5])" "\<not> list_ex new_read [Read late_plan 5]"
    by (simp_all add: late_plan_def)
  from forgotten_stays_gone [OF this refl]
  have "''a'' \<notin> pl_app ` set (sc_plan (sy_sched (fold fire [Read late_plan 5] (fire (DoForget ''a'' 1) (fold fire [Start 0, Top] (initial None []))))))"
    by blast
  moreover have "sy_pc (fold fire [Start 0, Top] (initial None [])) = Reading 0"
    by (simp add: run_top_def refresh_begin_def initial_def NewScheduler_def)
  moreover have "''a'' \<in> pl_app ` set late_plan" by (simp add: late_plan_def)
  ultimately show ?thesis by blast
qed

end
