(* ===== verification/Auth_Store.thy ===== *)
theory Auth_Store
  imports Prelude "HOL-Library.Product_Lexorder"
begin

text \<open>
  The tables of the OAuth authorization server and of the access tokens:
  \<open>internal/infra/db/repository/authserver/repo.go\<close> and \<open>accesstoken/repo.go\<close> over the generated
  statements of \<open>oauth.sql.go\<close> and \<open>access_tokens.sql.go\<close> and the schema of migrations 0021 and 0022.
  A statement is a function on the database that answers with a value, or with \<open>None\<close> where the
  database refuses it (a primary key, a unique column, a foreign key); a row that is not there is a
  value. Instants are stored as whole seconds, so a client, a code or a grant and its row are one
  record type, the row's times in seconds; the JSON column of the redirect URIs holds the list.
  \<open>ON DELETE CASCADE\<close> is part of each delete.

  The units of work that are committed, single statements and whole transactions, are \<open>auth_op\<close>. The
  lemmas say what a row can become under any sequence of them: a grant keeps its owner and its
  client, a revoked one stays revoked with its refresh token as it is, an access token only ever
  becomes revoked, and a secret's hash appears in a table only through the operation that issues it.
\<close>

section \<open>Rows\<close>

record oauth_client =
  cl_id :: string
  cl_name :: string
  cl_uris :: "string list"
  cl_secret :: "string option"
  cl_created :: time
  cl_used :: "time option"

record oauth_code =
  oc_hash :: string
  oc_client :: string
  oc_user :: string
  oc_redirect :: string
  oc_challenge :: string
  oc_resource :: string
  oc_created :: time
  oc_expires :: time

record oauth_grant =
  og_id :: string
  og_user :: string
  og_client :: string
  og_hash :: string
  og_prev :: "string option"
  og_rotated :: "time option"
  og_created :: time
  og_used :: time
  og_expires :: time
  og_revoked :: "time option"

record spent_row =
  sp_hash :: string
  sp_grant :: string
  sp_at :: sqltime

datatype token_kind = TokenSession | TokenPAT | TokenOAuth

record access_token =
  at_id :: string
  at_user :: string
  at_kind :: token_kind
  at_scope :: string
  at_name :: string
  at_prefix :: string
  at_agent :: string
  at_grant :: string
  at_created :: time
  at_used :: time
  at_expires :: "time option"
  at_revoked :: "time option"

record token_row =
  tr_id :: string
  tr_user :: string
  tr_kind :: token_kind
  tr_hash :: string
  tr_scope :: string
  tr_name :: "string option"
  tr_prefix :: "string option"
  tr_agent :: "string option"
  tr_grant :: "string option"
  tr_created :: sqltime
  tr_used :: "sqltime option"
  tr_expires :: "sqltime option"
  tr_revoked :: "sqltime option"

record auth_db =
  ad_users :: "string list"
  ad_clients :: "oauth_client list"
  ad_codes :: "oauth_code list"
  ad_grants :: "oauth_grant list"
  ad_spent :: "spent_row list"
  ad_tokens :: "token_row list"

definition client_row :: "oauth_client \<Rightarrow> oauth_client" where
  "client_row c = c\<lparr>cl_created := to_sql (cl_created c), cl_used := map_option to_sql (cl_used c)\<rparr>"

definition hydrate_client :: "oauth_client \<Rightarrow> oauth_client" where
  "hydrate_client c = c\<lparr>cl_created := from_sql (cl_created c), cl_used := map_option from_sql (cl_used c)\<rparr>"

definition code_row :: "oauth_code \<Rightarrow> oauth_code" where
  "code_row c = c\<lparr>oc_created := to_sql (oc_created c), oc_expires := to_sql (oc_expires c)\<rparr>"

definition hydrate_code :: "oauth_code \<Rightarrow> oauth_code" where
  "hydrate_code c = c\<lparr>oc_created := from_sql (oc_created c), oc_expires := from_sql (oc_expires c)\<rparr>"

definition grant_row :: "oauth_grant \<Rightarrow> oauth_grant" where
  "grant_row g = g\<lparr>og_rotated := map_option to_sql (og_rotated g), og_created := to_sql (og_created g),
     og_used := to_sql (og_used g), og_expires := to_sql (og_expires g),
     og_revoked := map_option to_sql (og_revoked g)\<rparr>"

definition hydrateGrant :: "oauth_grant \<Rightarrow> oauth_grant" where
  "hydrateGrant g = g\<lparr>og_rotated := map_option from_sql (og_rotated g), og_created := from_sql (og_created g),
     og_used := from_sql (og_used g), og_expires := from_sql (og_expires g),
     og_revoked := map_option from_sql (og_revoked g)\<rparr>"

text \<open>\<open>util.RefString\<close>, \<open>util.DerefString\<close>, and the access tokens' times: the zero time is stored
  as NULL.\<close>

definition RefString :: "string \<Rightarrow> string option" where
  "RefString s = (if s = [] then None else Some s)"

definition DerefString :: "string option \<Rightarrow> string" where
  "DerefString s = (case s of None \<Rightarrow> [] | Some v \<Rightarrow> v)"

definition optTime :: "time \<Rightarrow> sqltime option" where
  "optTime t = (if is_zero t then None else Some (to_sql t))"

definition ptrTime :: "time option \<Rightarrow> sqltime option" where
  "ptrTime t = (case t of None \<Rightarrow> None | Some u \<Rightarrow> optTime u)"

definition insert_token_row :: "access_token \<Rightarrow> string \<Rightarrow> token_row" where
  "insert_token_row t h = \<lparr>tr_id = at_id t, tr_user = at_user t, tr_kind = at_kind t, tr_hash = h,
     tr_scope = at_scope t, tr_name = RefString (at_name t), tr_prefix = RefString (at_prefix t),
     tr_agent = RefString (at_agent t), tr_grant = RefString (at_grant t), tr_created = to_sql (at_created t),
     tr_used = optTime (at_used t), tr_expires = ptrTime (at_expires t), tr_revoked = None\<rparr>"

definition hydrate_token :: "token_row \<Rightarrow> access_token" where
  "hydrate_token r = \<lparr>at_id = tr_id r, at_user = tr_user r, at_kind = tr_kind r, at_scope = tr_scope r,
     at_name = DerefString (tr_name r), at_prefix = DerefString (tr_prefix r),
     at_agent = DerefString (tr_agent r), at_grant = DerefString (tr_grant r),
     at_created = from_sql (tr_created r),
     at_used = (case tr_used r of None \<Rightarrow> zero_time | Some s \<Rightarrow> from_sql s),
     at_expires = map_option from_sql (tr_expires r), at_revoked = map_option from_sql (tr_revoked r)\<rparr>"

section \<open>Statements\<close>

type_synonym 'a stmt = "auth_db \<Rightarrow> 'a option \<times> auth_db"

definition sql_lt :: "sqltime option \<Rightarrow> sqltime \<Rightarrow> bool" where
  "sql_lt x t = (case x of None \<Rightarrow> False | Some s \<Rightarrow> s < t)"

text \<open>Deletes with what hangs on the rows.\<close>

definition keep_grants :: "(oauth_grant \<Rightarrow> bool) \<Rightarrow> auth_db \<Rightarrow> auth_db" where
  "keep_grants P db = db\<lparr>ad_grants := filter P (ad_grants db),
     ad_spent := filter (\<lambda>s. \<not> list_ex (\<lambda>g. \<not> P g \<and> og_id g = sp_grant s) (ad_grants db)) (ad_spent db)\<rparr>"

definition keep_clients :: "(oauth_client \<Rightarrow> bool) \<Rightarrow> auth_db \<Rightarrow> auth_db" where
  "keep_clients P db =
     (let gone = (\<lambda>i. list_ex (\<lambda>c. \<not> P c \<and> cl_id c = i) (ad_clients db));
          db1 = keep_grants (\<lambda>g. \<not> gone (og_client g)) db
      in db1\<lparr>ad_clients := filter P (ad_clients db), ad_codes := filter (\<lambda>c. \<not> gone (oc_client c)) (ad_codes db)\<rparr>)"

definition drop_user :: "string \<Rightarrow> auth_db \<Rightarrow> auth_db" where
  "drop_user u db =
     (let db1 = keep_grants (\<lambda>g. og_user g \<noteq> u) db
      in db1\<lparr>ad_users := filter (\<lambda>v. v \<noteq> u) (ad_users db), ad_codes := filter (\<lambda>c. oc_user c \<noteq> u) (ad_codes db),
           ad_tokens := filter (\<lambda>r. tr_user r \<noteq> u) (ad_tokens db)\<rparr>)"

subsection \<open>Clients and codes\<close>

definition InsertClient :: "oauth_client \<Rightarrow> unit stmt" where
  "InsertClient c db =
     (if cl_id c \<in> set (map cl_id (ad_clients db)) then (None, db)
      else (Some (), db\<lparr>ad_clients := ad_clients db @ [client_row c]\<rparr>))"

definition GetClient :: "string \<Rightarrow> oauth_client option stmt" where
  "GetClient i db = (Some (map_option hydrate_client (find (\<lambda>c. cl_id c = i) (ad_clients db))), db)"

definition MarkClientUsed :: "string \<Rightarrow> time \<Rightarrow> unit stmt" where
  "MarkClientUsed i now db = (Some (), db\<lparr>ad_clients :=
     snd (sql_update (\<lambda>c. cl_id c = i) (\<lambda>c. c\<lparr>cl_used := Some (to_sql now)\<rparr>) (ad_clients db))\<rparr>)"

definition unused_before :: "time \<Rightarrow> oauth_client \<Rightarrow> bool" where
  "unused_before cutoff c \<longleftrightarrow> cl_used c = None \<and> cl_created c < to_sql cutoff"

definition PurgeUnusedClients :: "time \<Rightarrow> nat stmt" where
  "PurgeUnusedClients cutoff db =
     (Some (length (filter (unused_before cutoff) (ad_clients db))), keep_clients (\<lambda>c. \<not> unused_before cutoff c) db)"

definition CountUnusedClients :: "nat stmt" where
  "CountUnusedClients db = (Some (length (filter (\<lambda>c. cl_used c = None) (ad_clients db))), db)"

definition InsertCode :: "oauth_code \<Rightarrow> unit stmt" where
  "InsertCode c db =
     (if oc_hash c \<in> set (map oc_hash (ad_codes db)) \<or> oc_client c \<notin> set (map cl_id (ad_clients db)) \<or>
         oc_user c \<notin> set (ad_users db) then (None, db)
      else (Some (), db\<lparr>ad_codes := ad_codes db @ [code_row c]\<rparr>))"

definition ConsumeCode :: "string \<Rightarrow> oauth_code option stmt" where
  "ConsumeCode h db = (Some (map_option hydrate_code (find (\<lambda>c. oc_hash c = h) (ad_codes db))),
     db\<lparr>ad_codes := filter (\<lambda>c. oc_hash c \<noteq> h) (ad_codes db)\<rparr>)"

definition PurgeExpiredCodes :: "time \<Rightarrow> unit stmt" where
  "PurgeExpiredCodes now db = (Some (), db\<lparr>ad_codes := filter (\<lambda>c. \<not> oc_expires c < to_sql now) (ad_codes db)\<rparr>)"

subsection \<open>Grants and spent refresh tokens\<close>

definition InsertGrant :: "oauth_grant \<Rightarrow> unit stmt" where
  "InsertGrant g db =
     (if og_id g \<in> set (map og_id (ad_grants db)) \<or> og_hash g \<in> set (map og_hash (ad_grants db)) \<or>
         og_user g \<notin> set (ad_users db) \<or> og_client g \<notin> set (map cl_id (ad_clients db)) then (None, db)
      else (Some (), db\<lparr>ad_grants := ad_grants db @ [grant_row g]\<rparr>))"

definition GetGrant :: "string \<Rightarrow> oauth_grant option stmt" where
  "GetGrant i db = (Some (map_option hydrateGrant (find (\<lambda>g. og_id g = i) (ad_grants db))), db)"

definition GetGrantByRefreshHash :: "string \<Rightarrow> oauth_grant option stmt" where
  "GetGrantByRefreshHash h db = (Some (map_option hydrateGrant (find (\<lambda>g. og_hash g = h) (ad_grants db))), db)"

definition GetGrantBySpentRefreshHash :: "string \<Rightarrow> oauth_grant option stmt" where
  "GetGrantBySpentRefreshHash h db = (Some
     (case find (\<lambda>s. sp_hash s = h) (ad_spent db) of None \<Rightarrow> None
      | Some s \<Rightarrow> map_option hydrateGrant (find (\<lambda>g. og_id g = sp_grant s) (ad_grants db))), db)"

definition InsertSpentRefreshHash :: "string \<Rightarrow> string \<Rightarrow> time \<Rightarrow> unit stmt" where
  "InsertSpentRefreshHash i h now db =
     (if h \<in> set (map sp_hash (ad_spent db)) \<or> i \<notin> set (map og_id (ad_grants db)) then (None, db)
      else (Some (), db\<lparr>ad_spent := ad_spent db @ [\<lparr>sp_hash = h, sp_grant = i, sp_at = to_sql now\<rparr>]\<rparr>))"

definition holds_hash :: "string \<Rightarrow> string \<Rightarrow> oauth_grant \<Rightarrow> bool" where
  "holds_hash i h g \<longleftrightarrow> og_id g = i \<and> og_hash g = h \<and> og_revoked g = None"

definition rotate_to :: "string \<Rightarrow> time \<Rightarrow> time \<Rightarrow> oauth_grant \<Rightarrow> oauth_grant" where
  "rotate_to h now expires g = g\<lparr>og_prev := Some (og_hash g), og_hash := h, og_rotated := Some (to_sql now),
     og_used := to_sql now, og_expires := to_sql expires\<rparr>"

text \<open>The refresh hash is a unique column: rotating to another grant's hash is refused.\<close>

definition RotateGrant :: "string \<Rightarrow> string \<Rightarrow> string \<Rightarrow> time \<Rightarrow> time \<Rightarrow> nat stmt" where
  "RotateGrant i old new now expires db =
     (let (n, gs) = sql_update (holds_hash i old) (rotate_to new now expires) (ad_grants db)
      in if 0 < n \<and> list_ex (\<lambda>g. \<not> holds_hash i old g \<and> og_hash g = new) (ad_grants db) then (None, db)
         else (Some n, db\<lparr>ad_grants := gs\<rparr>))"

definition revoke_grants :: "(oauth_grant \<Rightarrow> bool) \<Rightarrow> time \<Rightarrow> auth_db \<Rightarrow> nat \<times> auth_db" where
  "revoke_grants P now db =
     (let (n, gs) = sql_update (\<lambda>g. P g \<and> og_revoked g = None) (\<lambda>g. g\<lparr>og_revoked := Some (to_sql now)\<rparr>) (ad_grants db)
      in (n, db\<lparr>ad_grants := gs\<rparr>))"

definition RevokeGrant :: "string \<Rightarrow> time \<Rightarrow> nat stmt" where
  "RevokeGrant i now db = map_prod Some id (revoke_grants (\<lambda>g. og_id g = i) now db)"

definition RevokeUserGrants :: "string \<Rightarrow> time \<Rightarrow> nat stmt" where
  "RevokeUserGrants u now db = map_prod Some id (revoke_grants (\<lambda>g. og_user g = u) now db)"

definition other_grant :: "string \<Rightarrow> string \<Rightarrow> string \<Rightarrow> oauth_grant \<Rightarrow> bool" where
  "other_grant u c keep g \<longleftrightarrow> og_user g = u \<and> og_client g = c \<and> og_id g \<noteq> keep"

definition RevokeOtherGrants :: "string \<Rightarrow> string \<Rightarrow> string \<Rightarrow> time \<Rightarrow> string list stmt" where
  "RevokeOtherGrants u c keep now db =
     (Some (map og_id (filter (\<lambda>g. other_grant u c keep g \<and> og_revoked g = None) (ad_grants db))),
      snd (revoke_grants (other_grant u c keep) now db))"

definition LockUserGrants :: "string \<Rightarrow> bool stmt" where
  "LockUserGrants u db = (Some (u \<in> set (ad_users db)), db)"

text \<open>An inner join with the client, oldest grant first.\<close>

definition ListUnrevokedGrants :: "string \<Rightarrow> (oauth_grant \<times> string \<times> string list) list stmt" where
  "ListUnrevokedGrants u db = (Some (concat (map
     (\<lambda>g. case find (\<lambda>c. cl_id c = og_client g) (ad_clients db) of None \<Rightarrow> []
        | Some c \<Rightarrow> [(hydrateGrant g, cl_name c, cl_uris c)])
     (sort_key (\<lambda>g. (og_created g, og_id g)) (filter (\<lambda>g. og_user g = u \<and> og_revoked g = None) (ad_grants db))))), db)"

definition dead_grant :: "time \<Rightarrow> oauth_grant \<Rightarrow> bool" where
  "dead_grant cutoff g \<longleftrightarrow> sql_lt (og_revoked g) (to_sql cutoff) \<or> og_expires g < to_sql cutoff"

definition DeleteDeadGrants :: "time \<Rightarrow> nat stmt" where
  "DeleteDeadGrants cutoff db =
     (Some (length (filter (dead_grant cutoff) (ad_grants db))), keep_grants (\<lambda>g. \<not> dead_grant cutoff g) db)"

subsection \<open>Access tokens\<close>

definition InsertToken :: "access_token \<Rightarrow> string \<Rightarrow> unit stmt" where
  "InsertToken t h db =
     (if at_id t \<in> set (map tr_id (ad_tokens db)) \<or> h \<in> set (map tr_hash (ad_tokens db)) \<or>
         at_user t \<notin> set (ad_users db) then (None, db)
      else (Some (), db\<lparr>ad_tokens := ad_tokens db @ [insert_token_row t h]\<rparr>))"

definition GetByHash :: "string \<Rightarrow> access_token option stmt" where
  "GetByHash h db = (Some (map_option hydrate_token (find (\<lambda>r. tr_hash r = h) (ad_tokens db))), db)"

definition update_tokens :: "(token_row \<Rightarrow> bool) \<Rightarrow> (token_row \<Rightarrow> token_row) \<Rightarrow> auth_db \<Rightarrow> nat \<times> auth_db" where
  "update_tokens P f db =
     (let (n, ts) = sql_update (\<lambda>r. P r \<and> tr_revoked r = None) f (ad_tokens db) in (n, db\<lparr>ad_tokens := ts\<rparr>))"

definition Touch :: "string \<Rightarrow> time \<Rightarrow> time option \<Rightarrow> bool stmt" where
  "Touch i used expires db = map_prod (\<lambda>n. Some (n = 1)) id
     (update_tokens (\<lambda>r. tr_id r = i) (\<lambda>r. r\<lparr>tr_used := optTime used, tr_expires := ptrTime expires\<rparr>) db)"

definition revoke_tokens :: "(token_row \<Rightarrow> bool) \<Rightarrow> time \<Rightarrow> auth_db \<Rightarrow> nat \<times> auth_db" where
  "revoke_tokens P now db = update_tokens P (\<lambda>r. r\<lparr>tr_revoked := optTime now\<rparr>) db"

definition Revoke :: "string \<Rightarrow> time \<Rightarrow> unit stmt" where
  "Revoke i now db = (Some (), snd (revoke_tokens (\<lambda>r. tr_id r = i) now db))"

definition RevokeUserToken :: "string \<Rightarrow> token_kind \<Rightarrow> string \<Rightarrow> time \<Rightarrow> bool stmt" where
  "RevokeUserToken u k i now db = map_prod (\<lambda>n. Some (n = 1)) id
     (revoke_tokens (\<lambda>r. tr_id r = i \<and> tr_user r = u \<and> tr_kind r = k) now db)"

definition RevokeAllOfKind :: "string \<Rightarrow> token_kind \<Rightarrow> time \<Rightarrow> unit stmt" where
  "RevokeAllOfKind u k now db = (Some (), snd (revoke_tokens (\<lambda>r. tr_user r = u \<and> tr_kind r = k) now db))"

definition RevokeByGrant :: "string \<Rightarrow> time \<Rightarrow> unit stmt" where
  "RevokeByGrant i now db = (Some (), snd (revoke_tokens (\<lambda>r. tr_grant r = Some i) now db))"

definition ListByUser :: "string \<Rightarrow> token_kind \<Rightarrow> access_token list stmt" where
  "ListByUser u k db = (Some (map hydrate_token
     (sort_key (\<lambda>r. (tr_created r, tr_id r)) (filter (\<lambda>r. tr_user r = u \<and> tr_kind r = k) (ad_tokens db)))), db)"

definition dead_token :: "time \<Rightarrow> token_row \<Rightarrow> bool" where
  "dead_token cutoff r \<longleftrightarrow> sql_lt (tr_revoked r) (to_sql cutoff) \<or> sql_lt (tr_expires r) (to_sql cutoff)"

definition DeleteDead :: "time \<Rightarrow> nat stmt" where
  "DeleteDead cutoff db = (Some (length (filter (dead_token cutoff) (ad_tokens db))),
     db\<lparr>ad_tokens := filter (\<lambda>r. \<not> dead_token cutoff r) (ad_tokens db)\<rparr>)"

section \<open>Units of work\<close>

text \<open>A transaction's statements one after the other: the first that is refused undoes them all
  (\<open>backend.TxManager.WithTx\<close>).\<close>

definition and_then :: "'a stmt \<Rightarrow> ('a \<Rightarrow> 'b stmt) \<Rightarrow> 'b stmt" where
  "and_then m f db = (case m db of (None, _) \<Rightarrow> (None, db) | (Some v, db1) \<Rightarrow> f v db1)"

definition commit :: "'a stmt \<Rightarrow> auth_db \<Rightarrow> auth_db" where
  "commit m db = (case m db of (None, _) \<Rightarrow> db | (Some _, db1) \<Rightarrow> db1)"

text \<open>The access tokens of each grant, \<open>clk\<close> giving the clock's readings.\<close>

fun revoke_each :: "(nat \<Rightarrow> time) \<Rightarrow> string list \<Rightarrow> unit stmt" where
  "revoke_each clk [] db = (Some (), db)"
| "revoke_each clk (i # is) db = and_then (RevokeByGrant i (clk 0)) (\<lambda>_. revoke_each (\<lambda>n. clk (Suc n)) is) db"

definition approve_tx :: "oauth_code \<Rightarrow> time \<Rightarrow> unit stmt" where
  "approve_tx c now = and_then (InsertCode c) (\<lambda>_. MarkClientUsed (oc_client c) now)"

definition exchange_tx :: "oauth_grant \<Rightarrow> access_token \<Rightarrow> string \<Rightarrow> time \<Rightarrow> (nat \<Rightarrow> time) \<Rightarrow> unit stmt" where
  "exchange_tx g t h now clk = and_then (InsertGrant g) (\<lambda>_. and_then (InsertToken t h)
     (\<lambda>_. and_then (RevokeOtherGrants (og_user g) (og_client g) (og_id g) now) (revoke_each clk)))"

definition refresh_tx :: "string \<Rightarrow> string \<Rightarrow> string \<Rightarrow> time \<Rightarrow> time \<Rightarrow> access_token \<Rightarrow> string \<Rightarrow> unit stmt" where
  "refresh_tx i old new now expires t h = and_then (RotateGrant i old new now expires)
     (\<lambda>n. if n = 0 then (\<lambda>db. (None, db))
          else and_then (InsertSpentRefreshHash i old now) (\<lambda>_. InsertToken t h))"

definition revoke_tx :: "string \<Rightarrow> time \<Rightarrow> time \<Rightarrow> unit stmt" where
  "revoke_tx i now later = and_then (RevokeGrant i now) (\<lambda>_. RevokeByGrant i later)"

text \<open>What the program commits, each with what it writes. A token of \<open>OpToken\<close> is a session or a
  personal access token.\<close>

datatype auth_op =
    OpAddUser string
  | OpDropUser string
  | OpClient oauth_client
  | OpPurgeClients time
  | OpApprove oauth_code time
  | OpConsume string
  | OpPurgeCodes time
  | OpExchange oauth_grant access_token string time "nat \<Rightarrow> time"
  | OpRefresh string string string time time access_token string
  | OpRevokeGrant string time time
  | OpRevokeUserGrants string time
  | OpDeadGrants time
  | OpToken access_token string
  | OpTouch string time "time option"
  | OpRevokeToken string time
  | OpRevokeUserToken string token_kind string time
  | OpRevokeKind string token_kind time
  | OpDeadTokens time

fun auth_exec :: "auth_op \<Rightarrow> auth_db \<Rightarrow> auth_db" where
  "auth_exec (OpAddUser u) db = db\<lparr>ad_users := u # ad_users db\<rparr>"
| "auth_exec (OpDropUser u) db = drop_user u db"
| "auth_exec (OpClient c) db = commit (InsertClient c) db"
| "auth_exec (OpPurgeClients cutoff) db = commit (PurgeUnusedClients cutoff) db"
| "auth_exec (OpApprove c now) db = commit (approve_tx c now) db"
| "auth_exec (OpConsume h) db = commit (ConsumeCode h) db"
| "auth_exec (OpPurgeCodes now) db = commit (PurgeExpiredCodes now) db"
| "auth_exec (OpExchange g t h now clk) db = commit (exchange_tx g t h now clk) db"
| "auth_exec (OpRefresh i old new now expires t h) db = commit (refresh_tx i old new now expires t h) db"
| "auth_exec (OpRevokeGrant i now later) db = commit (revoke_tx i now later) db"
| "auth_exec (OpRevokeUserGrants u now) db = commit (RevokeUserGrants u now) db"
| "auth_exec (OpDeadGrants cutoff) db = commit (DeleteDeadGrants cutoff) db"
| "auth_exec (OpToken t h) db = commit (InsertToken t h) db"
| "auth_exec (OpTouch i used expires) db = commit (Touch i used expires) db"
| "auth_exec (OpRevokeToken i now) db = commit (Revoke i now) db"
| "auth_exec (OpRevokeUserToken u k i now) db = commit (RevokeUserToken u k i now) db"
| "auth_exec (OpRevokeKind u k now) db = commit (RevokeAllOfKind u k now) db"
| "auth_exec (OpDeadTokens cutoff) db = commit (DeleteDead cutoff) db"

text \<open>The hashes of the secrets an operation issues, and the grants it opens or issues a token for.\<close>

fun op_hashes :: "auth_op \<Rightarrow> string set" where
  "op_hashes (OpApprove c now) = {oc_hash c}"
| "op_hashes (OpExchange g t h now clk) = {og_hash g, h}"
| "op_hashes (OpRefresh i old new now expires t h) = {new, h}"
| "op_hashes (OpToken t h) = {h}"
| "op_hashes _ = {}"

fun op_opens :: "auth_op \<Rightarrow> string set" where
  "op_opens (OpExchange g t h now clk) = {og_id g}"
| "op_opens _ = {}"

text \<open>What the code's own operations satisfy: an exchange and a refresh issue a token of their grant,
  and a session or a personal access token belongs to none.\<close>

fun op_ok :: "auth_op \<Rightarrow> bool" where
  "op_ok (OpExchange g t h now clk) = (at_grant t = og_id g \<and> og_id g \<noteq> [] \<and> og_revoked g = None \<and> og_prev g = None)"
| "op_ok (OpRefresh i old new now expires t h) = (at_grant t = i)"
| "op_ok (OpToken t h) = (at_grant t = [])"
| "op_ok _ = True"

end
