(* ===== verification/Auth_History.thy ===== *)
theory Auth_History
  imports Auth_Store
begin

text \<open>
  What the rows of the authorization server can become. \<open>evolves H N G\<close> relates two databases when the
  later one's rows come from the earlier one's or carry a hash of \<open>H\<close> (and, for a grant, an id of
  \<open>N\<close>, for an access token a grant of \<open>G\<close>): every statement is such a step, steps compose, and so does any sequence of operations. The
  rest are facts that no later operation can undo: a hash that nobody holds, a grant that is closed.
\<close>

definition grant_succ :: "string set \<Rightarrow> oauth_grant \<Rightarrow> oauth_grant \<Rightarrow> bool" where
  "grant_succ H g g' \<longleftrightarrow> og_id g' = og_id g \<and> og_user g' = og_user g \<and> og_client g' = og_client g \<and>
     (og_revoked g \<noteq> None \<longrightarrow> og_revoked g' = og_revoked g \<and> og_hash g' = og_hash g) \<and>
     (og_hash g' = og_hash g \<or> og_hash g' \<in> H)"

definition token_succ :: "token_row \<Rightarrow> token_row \<Rightarrow> bool" where
  "token_succ r r' \<longleftrightarrow> tr_id r' = tr_id r \<and> tr_user r' = tr_user r \<and> tr_kind r' = tr_kind r \<and>
     tr_hash r' = tr_hash r \<and> tr_scope r' = tr_scope r \<and> tr_grant r' = tr_grant r \<and>
     tr_created r' = tr_created r \<and> (tr_revoked r \<noteq> None \<longrightarrow> tr_revoked r' = tr_revoked r)"

definition evolves :: "string set \<Rightarrow> string set \<Rightarrow> string option set \<Rightarrow> auth_db \<Rightarrow> auth_db \<Rightarrow> bool" where
  "evolves H N G db db' \<longleftrightarrow>
     (\<forall>g' \<in> set (ad_grants db'). (\<exists>g \<in> set (ad_grants db). grant_succ H g g') \<or> og_id g' \<in> N \<and> og_hash g' \<in> H) \<and>
     (\<forall>r' \<in> set (ad_tokens db'). (\<exists>r \<in> set (ad_tokens db). token_succ r r') \<or> tr_hash r' \<in> H \<and> tr_grant r' \<in> G) \<and>
     (\<forall>c' \<in> set (ad_codes db'). c' \<in> set (ad_codes db) \<or> oc_hash c' \<in> H)"

lemma grant_succ_refl [simp]: "grant_succ H g g"
  by (simp add: grant_succ_def)

lemma grant_succ_trans: "grant_succ H a b \<Longrightarrow> grant_succ K b c \<Longrightarrow> grant_succ (H \<union> K) a c"
  by (auto simp: grant_succ_def)

lemma token_succ_refl [simp]: "token_succ r r"
  by (simp add: token_succ_def)

lemma token_succ_trans: "token_succ a b \<Longrightarrow> token_succ b c \<Longrightarrow> token_succ a c"
  by (auto simp: token_succ_def)

lemma evolves_grantD:
  "evolves H N G db db' \<Longrightarrow> g' \<in> set (ad_grants db') \<Longrightarrow>
   (\<exists>g \<in> set (ad_grants db). grant_succ H g g') \<or> og_id g' \<in> N \<and> og_hash g' \<in> H"
  by (simp add: evolves_def)

lemma evolves_tokenD:
  "evolves H N G db db' \<Longrightarrow> r' \<in> set (ad_tokens db') \<Longrightarrow> (\<exists>r \<in> set (ad_tokens db). token_succ r r') \<or> tr_hash r' \<in> H \<and> tr_grant r' \<in> G"
  by (simp add: evolves_def)

lemma evolves_codeD:
  "evolves H N G db db' \<Longrightarrow> c' \<in> set (ad_codes db') \<Longrightarrow> c' \<in> set (ad_codes db) \<or> oc_hash c' \<in> H"
  by (simp add: evolves_def)

lemma evolves_then:
  assumes "evolves H N G a b" "evolves K M F b c"
  shows "evolves (H \<union> K) (N \<union> M) (G \<union> F) a c"
proof -
  have "(\<exists>g \<in> set (ad_grants a). grant_succ (H \<union> K) g g') \<or> og_id g' \<in> N \<union> M \<and> og_hash g' \<in> H \<union> K"
    if g': "g' \<in> set (ad_grants c)" for g'
  proof -
    consider g1 where "g1 \<in> set (ad_grants b)" "grant_succ K g1 g'" | "og_id g' \<in> M" "og_hash g' \<in> K"
      using evolves_grantD [OF assms(2) g'] by blast
    then show ?thesis
    proof cases
      case 1
      then show ?thesis using evolves_grantD [OF assms(1) 1(1)] grant_succ_trans [OF _ 1(2)]
        by (auto simp: grant_succ_def)
    qed blast
  qed
  moreover have "(\<exists>r \<in> set (ad_tokens a). token_succ r r') \<or> tr_hash r' \<in> H \<union> K \<and> tr_grant r' \<in> G \<union> F"
    if r': "r' \<in> set (ad_tokens c)" for r'
  proof -
    consider r1 where "r1 \<in> set (ad_tokens b)" "token_succ r1 r'" | "tr_hash r' \<in> K" "tr_grant r' \<in> F"
      using evolves_tokenD [OF assms(2) r'] by blast
    then show ?thesis
    proof cases
      case 1
      have same: "tr_hash r' = tr_hash r1" "tr_grant r' = tr_grant r1" using 1(2) by (auto simp: token_succ_def)
      show ?thesis using evolves_tokenD [OF assms(1) 1(1)] token_succ_trans [OF _ 1(2)] same by auto
    qed blast
  qed
  moreover have "c' \<in> set (ad_codes a) \<or> oc_hash c' \<in> H \<union> K" if "c' \<in> set (ad_codes c)" for c'
    using evolves_codeD [OF assms(2) that] evolves_codeD [OF assms(1)] by blast
  ultimately show ?thesis unfolding evolves_def by blast
qed

lemma evolves_mono: "evolves H N G a b \<Longrightarrow> H \<subseteq> K \<Longrightarrow> N \<subseteq> M \<Longrightarrow> G \<subseteq> F \<Longrightarrow> evolves K M F a b"
  unfolding evolves_def grant_succ_def by blast

lemma evolves_same [simp]: "evolves H N G db db"
  unfolding evolves_def using grant_succ_refl token_succ_refl by blast

text \<open>A step that only filters or extends what \<open>evolves\<close> looks at.\<close>

lemma evolves_filter:
  assumes "set (ad_grants db') \<subseteq> set (ad_grants db)" "set (ad_tokens db') \<subseteq> set (ad_tokens db)"
    "set (ad_codes db') \<subseteq> set (ad_codes db)"
  shows "evolves H N G db db'"
proof -
  have "evolves H N G db db" by simp
  then show ?thesis using assms unfolding evolves_def by blast
qed

lemma evolves_grants:
  assumes "\<And>g. g \<in> set (ad_grants db) \<Longrightarrow> P g \<Longrightarrow> grant_succ H g (f g)"
  shows "evolves H N G db (db\<lparr>ad_grants := snd (sql_update P f (ad_grants db))\<rparr>)"
proof -
  have "\<exists>g \<in> set (ad_grants db). grant_succ H g g'" if "g' \<in> set (snd (sql_update P f (ad_grants db)))" for g'
    using that assms unfolding sql_update_mem by (metis grant_succ_refl)
  then show ?thesis unfolding evolves_def using token_succ_refl by fastforce
qed

lemma evolves_tokens:
  assumes "\<And>r. r \<in> set (ad_tokens db) \<Longrightarrow> P r \<Longrightarrow> token_succ r (f r)"
  shows "evolves H N G db (db\<lparr>ad_tokens := snd (sql_update P f (ad_tokens db))\<rparr>)"
proof -
  have "\<exists>r \<in> set (ad_tokens db). token_succ r r'" if "r' \<in> set (snd (sql_update P f (ad_tokens db)))" for r'
    using that assms unfolding sql_update_mem by (metis token_succ_refl)
  then show ?thesis unfolding evolves_def using grant_succ_refl by fastforce
qed

subsection \<open>Statements\<close>

named_theorems auth_steps \<open>statements as steps\<close>

lemma evolves_keep_grants [auth_steps]: "evolves H N G db (keep_grants P db)"
  by (rule evolves_filter) (auto simp: keep_grants_def)

lemma evolves_drop_user [auth_steps]: "evolves H N G db (drop_user u db)"
  by (rule evolves_filter) (auto simp: drop_user_def keep_grants_def Let_def)

lemma evolves_PurgeClients [auth_steps]: "evolves H N G db (snd (PurgeUnusedClients t db))"
  by (rule evolves_filter) (auto simp: PurgeUnusedClients_def keep_clients_def keep_grants_def Let_def)

lemma evolves_InsertClient [auth_steps]: "evolves H N G db (snd (InsertClient c db))"
  by (rule evolves_filter) (auto simp: InsertClient_def)

lemma evolves_MarkClientUsed [auth_steps]: "evolves H N G db (snd (MarkClientUsed i t db))"
  by (rule evolves_filter) (auto simp: MarkClientUsed_def)

lemma evolves_InsertCode [auth_steps]: "evolves {oc_hash c} N G db (snd (InsertCode c db))"
  by (auto simp: InsertCode_def evolves_def code_row_def intro: grant_succ_refl token_succ_refl)

lemma evolves_ConsumeCode [auth_steps]: "evolves H N G db (snd (ConsumeCode h db))"
  by (rule evolves_filter) (auto simp: ConsumeCode_def)

lemma evolves_PurgeCodes [auth_steps]: "evolves H N G db (snd (PurgeExpiredCodes t db))"
  by (rule evolves_filter) (auto simp: PurgeExpiredCodes_def)

lemma evolves_InsertGrant [auth_steps]: "evolves {og_hash g} {og_id g} G db (snd (InsertGrant g db))"
  by (auto simp: InsertGrant_def evolves_def grant_row_def intro: grant_succ_refl token_succ_refl)

lemma evolves_InsertSpent [auth_steps]: "evolves H N G db (snd (InsertSpentRefreshHash i h t db))"
  by (rule evolves_filter) (auto simp: InsertSpentRefreshHash_def)

lemma evolves_RotateGrant [auth_steps]: "evolves {new} N G db (snd (RotateGrant i old new now ex db))"
proof -
  have "evolves {new} N G db (db\<lparr>ad_grants := snd (sql_update (holds_hash i old) (rotate_to new now ex) (ad_grants db))\<rparr>)"
    by (rule evolves_grants) (simp add: holds_hash_def grant_succ_def rotate_to_def)
  then show ?thesis by (simp add: RotateGrant_def split_beta)
qed

lemma evolves_revoke_grants [auth_steps]: "evolves H N G db (snd (revoke_grants P t db))"
proof -
  have "evolves H N G db (db\<lparr>ad_grants := snd (sql_update (\<lambda>g. P g \<and> og_revoked g = None)
      (\<lambda>g. g\<lparr>og_revoked := Some (to_sql t)\<rparr>) (ad_grants db))\<rparr>)"
    by (rule evolves_grants) (simp add: grant_succ_def)
  then show ?thesis by (simp add: revoke_grants_def split_beta)
qed

lemma evolves_update_tokens:
  assumes "\<And>r. tr_revoked r = None \<Longrightarrow> token_succ r (f r)"
  shows "evolves H N G db (snd (update_tokens P f db))"
  using evolves_tokens [of db "\<lambda>r. P r \<and> tr_revoked r = None" f H N] assms
  by (simp add: update_tokens_def split_beta)

lemma evolves_revoke_tokens [auth_steps]: "evolves H N G db (snd (revoke_tokens P t db))"
  unfolding revoke_tokens_def by (rule evolves_update_tokens) (simp add: token_succ_def)

lemma evolves_Touch [auth_steps]: "evolves H N G db (snd (Touch i t ex db))"
  unfolding Touch_def snd_map_prod id_apply by (rule evolves_update_tokens) (simp add: token_succ_def)

lemma evolves_InsertToken [auth_steps]: "evolves {h} N {RefString (at_grant t)} db (snd (InsertToken t h db))"
  by (auto simp: InsertToken_def evolves_def insert_token_row_def intro: grant_succ_refl token_succ_refl)

lemma evolves_DeleteDead [auth_steps]: "evolves H N G db (snd (DeleteDead t db))"
  by (rule evolves_filter) (auto simp: DeleteDead_def)

subsection \<open>Transactions and operations\<close>

lemma evolves_and_then:
  assumes "evolves H N G db (snd (m db))" "\<And>v db1. m db = (Some v, db1) \<Longrightarrow> evolves K M F db1 (snd (f v db1))"
  shows "evolves (H \<union> K) (N \<union> M) (G \<union> F) db (snd (and_then m f db))"
proof (cases "m db")
  case (Pair o1 db1)
  show ?thesis
  proof (cases o1)
    case (Some v)
    then have "evolves H N G db db1" "evolves K M F db1 (snd (f v db1))" using assms Pair by auto
    then show ?thesis using Pair Some by (auto simp: and_then_def intro: evolves_then)
  qed (simp add: and_then_def Pair)
qed

lemma evolves_commit: "evolves H N G db (snd (m db)) \<Longrightarrow> evolves H N G db (commit m db)"
  by (auto simp: commit_def split: prod.splits option.splits)

lemma evolves_revoke_each: "evolves H N G db (snd (revoke_each clk is db))"
proof (induction "is" arbitrary: db clk)
  case (Cons i "is")
  have "evolves H N G db (snd (RevokeByGrant i (clk 0) db))" by (simp add: RevokeByGrant_def auth_steps)
  then have "evolves (H \<union> H) (N \<union> N) (G \<union> G) db (snd (and_then (RevokeByGrant i (clk 0)) (\<lambda>_. revoke_each (\<lambda>n. clk (Suc n)) is) db))"
    by (rule evolves_and_then) (rule Cons)
  then show ?case by simp
qed simp

lemma evolves_exchange: "evolves {og_hash g, h} {og_id g} {RefString (at_grant t)} db (snd (exchange_tx g t h now clk db))"
proof -
  have "evolves ({og_hash g} \<union> ({h} \<union> ({h} \<union> {h}))) ({og_id g} \<union> ({og_id g} \<union> ({og_id g} \<union> {og_id g})))
      ({} \<union> ({RefString (at_grant t)} \<union> ({} \<union> {}))) db
      (snd (exchange_tx g t h now clk db))"
    unfolding exchange_tx_def
    by (intro evolves_and_then auth_steps)
      (simp_all add: RevokeOtherGrants_def auth_steps evolves_revoke_each)
  then show ?thesis by (rule evolves_mono) auto
qed

lemma evolves_refresh: "evolves {new, h} N {RefString (at_grant t)} db (snd (refresh_tx i old new now ex t h db))"
proof -
  have rest: "evolves ({h} \<union> {h}) (N \<union> N) ({} \<union> {RefString (at_grant t)}) d (snd (and_then (InsertSpentRefreshHash i old now) (\<lambda>_. InsertToken t h) d))" for d
    by (intro evolves_and_then auth_steps)
  have "evolves ({new} \<union> ({h} \<union> {h})) (N \<union> (N \<union> N)) ({} \<union> ({} \<union> {RefString (at_grant t)})) db (snd (refresh_tx i old new now ex t h db))"
    unfolding refresh_tx_def by (rule evolves_and_then) (use rest in \<open>auto simp: auth_steps\<close>)
  then show ?thesis by (rule evolves_mono) auto
qed

text \<open>The grant of the token an operation issues.\<close>

fun op_tokens :: "auth_op \<Rightarrow> string option set" where
  "op_tokens (OpExchange g t h now clk) = {RefString (at_grant t)}"
| "op_tokens (OpRefresh i old new now expires t h) = {RefString (at_grant t)}"
| "op_tokens (OpToken t h) = {RefString (at_grant t)}"
| "op_tokens _ = {}"

lemma exec_evolves: "evolves (op_hashes op) (op_opens op) (op_tokens op) db (auth_exec op db)"
proof (cases op)
  case (OpApprove c now)
  have "evolves ({oc_hash c} \<union> {}) ({} \<union> {}) ({} \<union> {}) db (snd (approve_tx c now db))"
    unfolding approve_tx_def by (intro evolves_and_then auth_steps)
  then show ?thesis using OpApprove by (simp add: evolves_commit)
next
  case (OpRevokeGrant i now later)
  have "evolves ({} \<union> {}) ({} \<union> {}) ({} \<union> {}) db (snd (revoke_tx i now later db))"
    unfolding revoke_tx_def by (rule evolves_and_then) (simp_all add: RevokeGrant_def RevokeByGrant_def auth_steps)
  then show ?thesis using OpRevokeGrant by (simp add: evolves_commit)
next
  case (OpExchange g t h now clk)
  then show ?thesis by (simp add: evolves_commit evolves_exchange)
next
  case (OpRefresh i old new now ex t h)
  then show ?thesis by (simp add: evolves_commit evolves_refresh)
qed (simp_all add: evolves_commit auth_steps RevokeUserGrants_def Revoke_def RevokeUserToken_def
    RevokeAllOfKind_def DeleteDeadGrants_def, simp_all add: evolves_filter)

definition ops_hashes :: "auth_op list \<Rightarrow> string set" where
  "ops_hashes ops = (\<Union>op \<in> set ops. op_hashes op)"

definition ops_opens :: "auth_op list \<Rightarrow> string set" where
  "ops_opens ops = (\<Union>op \<in> set ops. op_opens op)"

lemma execs_evolve: "evolves (ops_hashes ops) (ops_opens ops) (\<Union>op \<in> set ops. op_tokens op) db (fold auth_exec ops db)"
proof (induction ops arbitrary: db)
  case (Cons op ops)
  show ?case using evolves_then [OF exec_evolves Cons] by (simp add: ops_hashes_def ops_opens_def)
qed simp


subsection \<open>Facts no later operation undoes\<close>

definition unheld :: "string \<Rightarrow> auth_db \<Rightarrow> bool" where
  "unheld h db \<longleftrightarrow> h \<notin> og_hash ` set (ad_grants db)"

definition no_code :: "string \<Rightarrow> auth_db \<Rightarrow> bool" where
  "no_code h db \<longleftrightarrow> h \<notin> oc_hash ` set (ad_codes db)"

definition dead_hash :: "string \<Rightarrow> auth_db \<Rightarrow> bool" where
  "dead_hash h db \<longleftrightarrow> (\<forall>r \<in> set (ad_tokens db). tr_hash r = h \<longrightarrow> tr_revoked r \<noteq> None)"

text \<open>A grant that is closed: it is revoked or gone, and so is every access token issued under it.\<close>

definition closed :: "string \<Rightarrow> auth_db \<Rightarrow> bool" where
  "closed i db \<longleftrightarrow> (\<forall>g \<in> set (ad_grants db). og_id g = i \<longrightarrow> og_revoked g \<noteq> None) \<and>
     (\<forall>r \<in> set (ad_tokens db). tr_grant r = Some i \<longrightarrow> tr_revoked r \<noteq> None)"

lemma unheld_step: "unheld h db \<Longrightarrow> evolves H N G db db' \<Longrightarrow> h \<notin> H \<Longrightarrow> unheld h db'"
  unfolding unheld_def evolves_def grant_succ_def by fastforce

lemma no_code_step: "no_code h db \<Longrightarrow> evolves H N G db db' \<Longrightarrow> h \<notin> H \<Longrightarrow> no_code h db'"
  unfolding no_code_def evolves_def by blast

lemma dead_hash_step: "dead_hash h db \<Longrightarrow> evolves H N G db db' \<Longrightarrow> h \<notin> H \<Longrightarrow> dead_hash h db'"
  unfolding dead_hash_def evolves_def token_succ_def by metis

lemma closed_step:
  "closed i db \<Longrightarrow> evolves H N G db db' \<Longrightarrow> i \<notin> N \<Longrightarrow> Some i \<notin> G \<Longrightarrow> closed i db'"
  unfolding closed_def evolves_def grant_succ_def token_succ_def by metis

lemma RefString_Some [simp]: "RefString s = Some i \<longleftrightarrow> s = i \<and> i \<noteq> []"
  by (auto simp: RefString_def)

lemma and_then_None: "fst (m db) = None \<Longrightarrow> commit (and_then m f) db = db"
  by (cases "m db") (simp add: and_then_def commit_def)

lemma rotate_none: "\<not> list_ex (holds_hash i old) (ad_grants db) \<Longrightarrow> RotateGrant i old new now ex db = (Some 0, db)"
proof -
  assume none: "\<not> list_ex (holds_hash i old) (ad_grants db)"
  then have "map (\<lambda>r. if holds_hash i old r then rotate_to new now ex r else r) (ad_grants db) = ad_grants db"
    by (auto simp: list_ex_iff intro!: map_idI)
  with none show ?thesis by (auto simp: RotateGrant_def sql_update_def list_ex_iff filter_empty_conv)
qed

lemma refresh_closed:
  assumes "closed i db"
  shows "commit (refresh_tx i old new now ex t h) db = db"
proof -
  have "\<not> list_ex (holds_hash i old) (ad_grants db)"
    using assms by (auto simp: closed_def holds_hash_def list_ex_iff)
  then show ?thesis by (simp add: refresh_tx_def and_then_def rotate_none commit_def)
qed

lemma exec_closed:
  assumes "closed i db" "op_ok op" "i \<notin> op_opens op"
  shows "closed i (auth_exec op db)"
proof (cases "Some i \<in> op_tokens op")
  case True
  then obtain old new now ex t h where "op = OpRefresh i old new now ex t h"
    using assms(2,3) by (cases op) (auto simp: eq_commute [of "Some i"])
  then show ?thesis using assms(1) True assms(2) by (auto simp: refresh_closed eq_commute [of "Some i"])
qed (use closed_step [OF assms(1) exec_evolves] assms(3) in blast)

lemma execs_closed:
  assumes "closed i db" "\<forall>op \<in> set ops. op_ok op \<and> i \<notin> op_opens op"
  shows "closed i (fold auth_exec ops db)"
  by (rule fold_invariant) (use assms exec_closed in auto)

lemmas execs_unheld = unheld_step [OF _ execs_evolve]
  and execs_no_code = no_code_step [OF _ execs_evolve]
  and execs_dead_hash = dead_hash_step [OF _ execs_evolve]

end
