(* ===== verification/Auth_Tables.thy ===== *)
theory Auth_Tables
  imports Auth_History
begin

text \<open>
  What the authorization server's tables always are: keys and hashes are unique, every reference names
  a row, a pending code's client has been approved (so the purge of unapproved clients never takes it),
  the hash a grant last rotated away is among its spent ones, and a user has at most one unrevoked
  grant per client. Every operation keeps this, whatever its arguments. Then what the transactions of
  an exchange, a refresh and a revocation leave behind.
\<close>

definition single_grants :: "auth_db \<Rightarrow> bool" where
  "single_grants db \<longleftrightarrow> (\<forall>g \<in> set (ad_grants db). \<forall>g' \<in> set (ad_grants db).
     og_revoked g = None \<longrightarrow> og_revoked g' = None \<longrightarrow> og_user g = og_user g' \<longrightarrow> og_client g = og_client g' \<longrightarrow>
     og_id g = og_id g')"

definition prev_spent :: "auth_db \<Rightarrow> bool" where
  "prev_spent db \<longleftrightarrow> (\<forall>g \<in> set (ad_grants db). \<forall>p. og_prev g = Some p \<longrightarrow>
     (p, og_id g) \<in> (\<lambda>s. (sp_hash s, sp_grant s)) ` set (ad_spent db))"

definition keys_unique :: "auth_db \<Rightarrow> bool" where
  "keys_unique db \<longleftrightarrow> distinct (map cl_id (ad_clients db)) \<and> distinct (map oc_hash (ad_codes db)) \<and>
     distinct (map og_id (ad_grants db)) \<and> distinct (map og_hash (ad_grants db)) \<and>
     distinct (map sp_hash (ad_spent db)) \<and> distinct (map tr_id (ad_tokens db)) \<and> distinct (map tr_hash (ad_tokens db))"

definition code_ref :: "string list \<Rightarrow> oauth_client list \<Rightarrow> oauth_code \<Rightarrow> bool" where
  "code_ref us ks c \<longleftrightarrow> oc_user c \<in> set us \<and> oc_client c \<in> cl_id ` set ks \<and>
     (\<forall>k \<in> set ks. cl_id k = oc_client c \<longrightarrow> cl_used k \<noteq> None)"

definition grant_ref :: "string list \<Rightarrow> oauth_client list \<Rightarrow> oauth_grant \<Rightarrow> bool" where
  "grant_ref us ks g \<longleftrightarrow> og_user g \<in> set us \<and> og_client g \<in> cl_id ` set ks"

definition refs_ok :: "auth_db \<Rightarrow> bool" where
  "refs_ok db \<longleftrightarrow> (\<forall>c \<in> set (ad_codes db). code_ref (ad_users db) (ad_clients db) c) \<and>
     (\<forall>g \<in> set (ad_grants db). grant_ref (ad_users db) (ad_clients db) g) \<and>
     (\<forall>s \<in> set (ad_spent db). sp_grant s \<in> og_id ` set (ad_grants db)) \<and>
     (\<forall>r \<in> set (ad_tokens db). tr_user r \<in> set (ad_users db))"

definition auth_ok :: "auth_db \<Rightarrow> bool" where
  "auth_ok db \<longleftrightarrow> keys_unique db \<and> refs_ok db \<and> single_grants db \<and> prev_spent db"

lemma single_grantsD:
  assumes "single_grants db" "g \<in> set (ad_grants db)" "g' \<in> set (ad_grants db)" "og_revoked g = None" "og_revoked g' = None"
    "og_user g = og_user g'" "og_client g = og_client g'"
  shows "og_id g = og_id g'"
  using assms unfolding single_grants_def by blast

lemma single_grantsI:
  assumes "ad_grants db = gs" "\<And>a b. a \<in> set gs \<Longrightarrow> b \<in> set gs \<Longrightarrow> og_revoked a = None \<Longrightarrow> og_revoked b = None \<Longrightarrow>
    og_user a = og_user b \<Longrightarrow> og_client a = og_client b \<Longrightarrow> og_id a = og_id b"
  shows "single_grants db"
  using assms unfolding single_grants_def by blast

lemma prev_spentI:
  assumes "ad_grants db = gs" "\<And>g p. g \<in> set gs \<Longrightarrow> og_prev g = Some p \<Longrightarrow>
    (p, og_id g) \<in> (\<lambda>s. (sp_hash s, sp_grant s)) ` set (ad_spent db)"
  shows "prev_spent db"
  using assms unfolding prev_spent_def by blast

lemma prev_spentD:
  assumes "prev_spent db" "g \<in> set (ad_grants db)" "og_prev g = Some p"
  shows "(p, og_id g) \<in> (\<lambda>s. (sp_hash s, sp_grant s)) ` set (ad_spent db)"
  using assms unfolding prev_spent_def by blast

lemma auth_okD:
  assumes "auth_ok db"
  shows "keys_unique db" "refs_ok db" "single_grants db" "prev_spent db"
  using assms by (simp_all add: auth_ok_def)

lemma auth_okI: "keys_unique db \<Longrightarrow> refs_ok db \<Longrightarrow> single_grants db \<Longrightarrow> prev_spent db \<Longrightarrow> auth_ok db"
  by (simp add: auth_ok_def)

text \<open>The grants' part of the invariant looks at the grants and the spent hashes only.\<close>

lemma grants_frame [simp]:
  "single_grants (db\<lparr>ad_users := us\<rparr>) = single_grants db" "prev_spent (db\<lparr>ad_users := us\<rparr>) = prev_spent db"
  "single_grants (db\<lparr>ad_clients := ks\<rparr>) = single_grants db" "prev_spent (db\<lparr>ad_clients := ks\<rparr>) = prev_spent db"
  "single_grants (db\<lparr>ad_codes := cs\<rparr>) = single_grants db" "prev_spent (db\<lparr>ad_codes := cs\<rparr>) = prev_spent db"
  "single_grants (db\<lparr>ad_tokens := ts\<rparr>) = single_grants db" "prev_spent (db\<lparr>ad_tokens := ts\<rparr>) = prev_spent db"
  "single_grants (db\<lparr>ad_spent := sp\<rparr>) = single_grants db"
  by (simp_all add: single_grants_def prev_spent_def)

text \<open>A row list of which only some columns change.\<close>

lemma map_update: "(\<And>r. f (g r) = f r) \<Longrightarrow> map f (snd (sql_update P g t)) = map f t"
  by (simp add: sql_update_def)

lemma image_update: "(\<And>r. f (g r) = f r) \<Longrightarrow> f ` set (snd (sql_update P g t)) = f ` set t"
  by (metis list.set_map map_update)

lemma updatedE:
  assumes "q' \<in> set (snd (sql_update P f t))"
  obtains q where "q \<in> set t" "P q" "q' = f q" | "q' \<in> set t" "\<not> P q'"
  using assms unfolding sql_update_mem by metis

subsection \<open>Deletes\<close>

lemma keep_grants_fields [simp]:
  "ad_users (keep_grants P db) = ad_users db" "ad_clients (keep_grants P db) = ad_clients db"
  "ad_codes (keep_grants P db) = ad_codes db" "ad_tokens (keep_grants P db) = ad_tokens db"
  "ad_grants (keep_grants P db) = filter P (ad_grants db)"
  by (simp_all add: keep_grants_def)

lemma keep_grants_spent:
  "keys_unique db \<Longrightarrow> s \<in> set (ad_spent (keep_grants P db)) \<Longrightarrow> s \<in> set (ad_spent db) \<and>
   (\<forall>g \<in> set (ad_grants db). og_id g = sp_grant s \<longrightarrow> P g)"
  by (auto simp: keep_grants_def list_ex_iff)

lemma same_id:
  "keys_unique db \<Longrightarrow> g \<in> set (ad_grants db) \<Longrightarrow> g' \<in> set (ad_grants db) \<Longrightarrow> og_id g = og_id g' \<Longrightarrow> g = g'"
  by (metis keys_unique_def distinct_map inj_onD)

lemma same_hash:
  "keys_unique db \<Longrightarrow> g \<in> set (ad_grants db) \<Longrightarrow> g' \<in> set (ad_grants db) \<Longrightarrow> og_hash g = og_hash g' \<Longrightarrow> g = g'"
  by (metis keys_unique_def distinct_map inj_onD)

lemma ok_keep_grants:
  assumes "auth_ok db"
  shows "auth_ok (keep_grants P db)"
proof -
  have u: "keys_unique db" and r: "refs_ok db" and s: "single_grants db" and v: "prev_spent db"
    using assms by (auto simp: auth_ok_def)
  have "keys_unique (keep_grants P db)"
    using u by (simp add: keys_unique_def distinct_map_filter keep_grants_def)
  moreover have "sp_grant x \<in> og_id ` set (filter P (ad_grants db))" if "x \<in> set (ad_spent (keep_grants P db))" for x
    using r keep_grants_spent [OF u that] by (fastforce simp: refs_ok_def)
  then have "refs_ok (keep_grants P db)" using r by (simp add: refs_ok_def)
  moreover have "single_grants (keep_grants P db)" using s by (auto simp: single_grants_def)
  moreover have "(p, og_id g) \<in> (\<lambda>s. (sp_hash s, sp_grant s)) ` set (ad_spent (keep_grants P db))"
    if g: "g \<in> set (ad_grants db)" "P g" "og_prev g = Some p" for g p
  proof -
    obtain x where x: "x \<in> set (ad_spent db)" "sp_hash x = p" "sp_grant x = og_id g"
      using v g(1,3) by (fastforce simp: prev_spent_def)
    have "\<not> list_ex (\<lambda>h. \<not> P h \<and> og_id h = sp_grant x) (ad_grants db)"
      using same_id [OF u _ g(1)] g(2) x(3) by (auto simp: list_ex_iff)
    then have "x \<in> set (ad_spent (keep_grants P db))" using x(1) by (simp add: keep_grants_def)
    then show ?thesis using x by force
  qed
  then have "prev_spent (keep_grants P db)" by (simp add: prev_spent_def)
  ultimately show ?thesis by (simp add: auth_ok_def)
qed


lemma ok_fewer:
  assumes ok: "auth_ok db" and cs: "set cs \<subseteq> set (ad_codes db)" "distinct (map oc_hash cs)"
  shows "auth_ok (db\<lparr>ad_codes := cs\<rparr>)"
proof (rule auth_okI)
  show "keys_unique (db\<lparr>ad_codes := cs\<rparr>)" using auth_okD(1) [OF ok] cs(2) by (simp add: keys_unique_def)
  show "refs_ok (db\<lparr>ad_codes := cs\<rparr>)" using auth_okD(2) [OF ok] cs(1) by (simp add: refs_ok_def subset_iff)
qed (use auth_okD(3,4) [OF ok] in simp_all)

lemma ok_filter_codes: "auth_ok db \<Longrightarrow> auth_ok (db\<lparr>ad_codes := filter P (ad_codes db)\<rparr>)"
  by (rule ok_fewer) (auto simp: auth_ok_def keys_unique_def distinct_map_filter)

lemma ok_tokens:
  assumes ok: "auth_ok db" and ts: "\<forall>r \<in> set ts. tr_user r \<in> set (ad_users db)" "distinct (map tr_id ts)" "distinct (map tr_hash ts)"
  shows "auth_ok (db\<lparr>ad_tokens := ts\<rparr>)"
proof (rule auth_okI)
  show "keys_unique (db\<lparr>ad_tokens := ts\<rparr>)" using auth_okD(1) [OF ok] ts by (simp add: keys_unique_def)
  show "refs_ok (db\<lparr>ad_tokens := ts\<rparr>)" using auth_okD(2) [OF ok] ts(1) by (simp add: refs_ok_def)
qed (use auth_okD(3,4) [OF ok] in simp_all)

lemma ok_update_tokens:
  assumes "auth_ok db" "\<And>r. tr_id (f r) = tr_id r" "\<And>r. tr_hash (f r) = tr_hash r" "\<And>r. tr_user (f r) = tr_user r"
  shows "auth_ok (snd (update_tokens P f db))"
proof -
  let ?ts = "snd (sql_update (\<lambda>r. P r \<and> tr_revoked r = None) f (ad_tokens db))"
  have users: "tr_user ` set ?ts = tr_user ` set (ad_tokens db)" using assms(4) by (rule image_update)
  have "tr_user ` set (ad_tokens db) \<subseteq> set (ad_users db)" using auth_okD(2) [OF assms(1)] by (auto simp: refs_ok_def)
  then have "\<forall>r \<in> set ?ts. tr_user r \<in> set (ad_users db)" using users by blast
  then have "auth_ok (db\<lparr>ad_tokens := ?ts\<rparr>)"
    using auth_okD(1) [OF assms(1)] by (intro ok_tokens [OF assms(1)])
      (simp_all only: keys_unique_def map_update [of tr_id f, OF assms(2)] map_update [of tr_hash f, OF assms(3)])
  then show ?thesis by (simp add: update_tokens_def split_beta)
qed

lemma ok_revoke_tokens: "auth_ok db \<Longrightarrow> auth_ok (snd (revoke_tokens P t db))"
  unfolding revoke_tokens_def by (rule ok_update_tokens) simp_all

lemma ok_insert_token:
  assumes "auth_ok db"
  shows "auth_ok (snd (InsertToken t h db))"
proof (cases "at_id t \<in> tr_id ` set (ad_tokens db) \<or> h \<in> tr_hash ` set (ad_tokens db) \<or> at_user t \<notin> set (ad_users db)")
  case False
  then have "auth_ok (db\<lparr>ad_tokens := ad_tokens db @ [insert_token_row t h]\<rparr>)"
    using auth_okD(1,2) [OF assms] by (intro ok_tokens [OF assms]) (simp_all add: keys_unique_def refs_ok_def insert_token_row_def)
  then show ?thesis using False by (auto simp: InsertToken_def)
qed (use assms in \<open>auto simp: InsertToken_def\<close>)

lemma refs_more_clients:
  assumes "refs_ok db" "cl_id ` set (ad_clients db) \<subseteq> cl_id ` set ks"
    "\<And>c k. c \<in> set (ad_codes db) \<Longrightarrow> k \<in> set ks \<Longrightarrow> cl_id k = oc_client c \<Longrightarrow> cl_used k \<noteq> None"
  shows "refs_ok (db\<lparr>ad_clients := ks\<rparr>)"
proof -
  have "code_ref (ad_users db) ks c" if c: "c \<in> set (ad_codes db)" for c
  proof -
    have old: "code_ref (ad_users db) (ad_clients db) c" using assms(1) c by (simp add: refs_ok_def)
    then have "oc_client c \<in> cl_id ` set ks" using assms(2) by (auto simp: code_ref_def)
    then show ?thesis using old assms(3) [OF c] by (simp add: code_ref_def)
  qed
  moreover have "grant_ref (ad_users db) ks g" if "g \<in> set (ad_grants db)" for g
    using assms(1,2) that by (auto simp: refs_ok_def grant_ref_def)
  ultimately show ?thesis using assms(1) by (simp add: refs_ok_def)
qed

lemma ok_insert_client:
  assumes ok: "auth_ok db"
  shows "auth_ok (snd (InsertClient c db))"
proof (cases "cl_id c \<in> cl_id ` set (ad_clients db)")
  case False
  let ?db = "db\<lparr>ad_clients := ad_clients db @ [client_row c]\<rparr>"
  have "auth_ok ?db"
  proof (rule auth_okI)
    show "keys_unique ?db" using auth_okD(1) [OF ok] False by (simp add: keys_unique_def client_row_def)
    show "refs_ok ?db"
    proof (rule refs_more_clients [OF auth_okD(2) [OF ok]])
      fix d k assume d: "d \<in> set (ad_codes db)" "k \<in> set (ad_clients db @ [client_row c])" "cl_id k = oc_client d"
      have "code_ref (ad_users db) (ad_clients db) d" using auth_okD(2) [OF ok] d(1) by (simp add: refs_ok_def)
      moreover have "k \<in> set (ad_clients db)"
        using d(2,3) False calculation by (auto simp: code_ref_def client_row_def)
      ultimately show "cl_used k \<noteq> None" using d(3) by (simp add: code_ref_def)
    qed auto
  qed (use auth_okD(3,4) [OF ok] in simp_all)
  then show ?thesis using False by (simp add: InsertClient_def)
qed (use ok in \<open>simp add: InsertClient_def\<close>)

subsection \<open>Grants\<close>

text \<open>An update of grants that keeps who they belong to, revives none, and remembers what it rotates
  away.\<close>

lemma ok_grants:
  assumes "auth_ok db"
    "map og_id gs = map og_id (ad_grants db)" "distinct (map og_hash gs)"
    "\<And>g'. g' \<in> set gs \<Longrightarrow> \<exists>g \<in> set (ad_grants db). og_id g' = og_id g \<and> og_user g' = og_user g \<and> og_client g' = og_client g \<and>
       (og_revoked g' = None \<longrightarrow> og_revoked g = None)"
    "prev_spent (db\<lparr>ad_grants := gs\<rparr>)"
  shows "auth_ok (db\<lparr>ad_grants := gs\<rparr>)"
proof -
  have ids: "og_id ` set gs = og_id ` set (ad_grants db)" using assms(2) by (metis list.set_map)
  have r: "refs_ok db" using assms(1) by (simp add: auth_ok_def)
  have "grant_ref (ad_users db) (ad_clients db) g'" if g': "g' \<in> set gs" for g'
  proof -
    obtain g where "g \<in> set (ad_grants db)" "og_user g' = og_user g" "og_client g' = og_client g"
      using assms(4) [OF g'] by blast
    then show ?thesis using r by (simp add: refs_ok_def grant_ref_def)
  qed
  then have "refs_ok (db\<lparr>ad_grants := gs\<rparr>)" using r ids by (simp add: refs_ok_def)
  moreover have "single_grants (db\<lparr>ad_grants := gs\<rparr>)"
  proof (rule single_grantsI [of _ gs])
    fix a b assume ab: "a \<in> set gs" "b \<in> set gs" "og_revoked a = None" "og_revoked b = None"
      "og_user a = og_user b" "og_client a = og_client b"
    obtain a' where a': "a' \<in> set (ad_grants db)" "og_id a = og_id a'" "og_user a = og_user a'" "og_client a = og_client a'"
      "og_revoked a' = None" using assms(4) [OF ab(1)] ab(3) by blast
    obtain b' where b': "b' \<in> set (ad_grants db)" "og_id b = og_id b'" "og_user b = og_user b'" "og_client b = og_client b'"
      "og_revoked b' = None" using assms(4) [OF ab(2)] ab(4) by blast
    have "og_id a' = og_id b'"
      using a' b' ab(5,6) by (intro single_grantsD [OF auth_okD(3) [OF assms(1)]]) auto
    then show "og_id a = og_id b" using a'(2) b'(2) by simp
  qed simp
  moreover have "keys_unique (db\<lparr>ad_grants := gs\<rparr>)" using auth_okD(1) [OF assms(1)] assms(2,3) by (simp add: keys_unique_def)
  ultimately show ?thesis using assms(5) by (simp add: auth_ok_def)
qed

lemma og_revoked_frame [simp]:
  "og_prev (if b then g\<lparr>og_revoked := x\<rparr> else g) = og_prev g" "og_id (if b then g\<lparr>og_revoked := x\<rparr> else g) = og_id g"
  "og_hash (if b then g\<lparr>og_revoked := x\<rparr> else g) = og_hash g" "og_user (if b then g\<lparr>og_revoked := x\<rparr> else g) = og_user g"
  "og_client (if b then g\<lparr>og_revoked := x\<rparr> else g) = og_client g"
  by simp_all

lemma ok_revoke_grants:
  assumes "auth_ok db"
  shows "auth_ok (snd (revoke_grants P t db))"
proof -
  let ?f = "\<lambda>g. g\<lparr>og_revoked := Some (to_sql t)\<rparr>"
  let ?gs = "snd (sql_update (\<lambda>g. P g \<and> og_revoked g = None) ?f (ad_grants db))"
  have "auth_ok (db\<lparr>ad_grants := ?gs\<rparr>)"
  proof (rule ok_grants [OF assms])
    show "map og_id ?gs = map og_id (ad_grants db)" by (rule map_update) simp
    show "distinct (map og_hash ?gs)"
      using assms by (subst map_update) (simp_all add: auth_ok_def keys_unique_def)
    show "prev_spent (db\<lparr>ad_grants := ?gs\<rparr>)"
    proof (rule prev_spentI [of _ ?gs])
      fix g' p assume g': "g' \<in> set ?gs" "og_prev g' = Some p"
      then obtain g where g: "g \<in> set (ad_grants db)" "g' = (if P g \<and> og_revoked g = None then ?f g else g)"
        unfolding sql_update_mem by blast
      then have "og_prev g = Some p" "og_id g' = og_id g" using g'(2) by (simp_all split: if_splits)
      then show "(p, og_id g') \<in> (\<lambda>s. (sp_hash s, sp_grant s)) ` set (ad_spent (db\<lparr>ad_grants := ?gs\<rparr>))"
        using prev_spentD [OF auth_okD(4) [OF assms] g(1)] by simp
    qed simp
  qed (force simp: sql_update_mem split: if_splits)
  then show ?thesis by (simp add: revoke_grants_def split_beta)
qed

subsection \<open>Deleting clients and users\<close>

lemma keep_clients_alt:
  "keep_clients P db = (keep_grants (\<lambda>g. \<not> list_ex (\<lambda>c. \<not> P c \<and> cl_id c = og_client g) (ad_clients db)) db)
     \<lparr>ad_clients := filter P (ad_clients db),
      ad_codes := filter (\<lambda>c. \<not> list_ex (\<lambda>k. \<not> P k \<and> cl_id k = oc_client c) (ad_clients db)) (ad_codes db)\<rparr>"
  by (simp add: keep_clients_def Let_def)

lemma ok_keep_clients:
  assumes ok: "auth_ok db"
  shows "auth_ok (keep_clients P db)"
proof -
  let ?d = "keep_grants (\<lambda>g. \<not> list_ex (\<lambda>c. \<not> P c \<and> cl_id c = og_client g) (ad_clients db)) db"
  have d: "auth_ok ?d" using ok by (rule ok_keep_grants)
  show ?thesis unfolding keep_clients_alt
  proof (rule auth_okI)
    show "keys_unique (?d\<lparr>ad_clients := filter P (ad_clients db),
        ad_codes := filter (\<lambda>c. \<not> list_ex (\<lambda>k. \<not> P k \<and> cl_id k = oc_client c) (ad_clients db)) (ad_codes db)\<rparr>)"
      using auth_okD(1) [OF d] by (simp add: keys_unique_def distinct_map_filter)
    have code: "code_ref (ad_users db) (filter P (ad_clients db)) c"
      if c: "code_ref (ad_users db) (ad_clients db) c" "\<not> list_ex (\<lambda>k. \<not> P k \<and> cl_id k = oc_client c) (ad_clients db)" for c
    proof -
      obtain k where "k \<in> set (ad_clients db)" "cl_id k = oc_client c" using c(1) by (auto simp: code_ref_def)
      then have "k \<in> set (filter P (ad_clients db))" using c(2) by (auto simp: list_ex_iff)
      with \<open>cl_id k = oc_client c\<close> have "oc_client c \<in> cl_id ` set (filter P (ad_clients db))" by (metis imageI)
      then show ?thesis using c(1) by (simp add: code_ref_def)
    qed
    have grant: "grant_ref (ad_users db) (filter P (ad_clients db)) g"
      if g: "grant_ref (ad_users db) (ad_clients db) g" "\<not> list_ex (\<lambda>k. \<not> P k \<and> cl_id k = og_client g) (ad_clients db)" for g
    proof -
      obtain k where "k \<in> set (ad_clients db)" "cl_id k = og_client g" using g(1) by (auto simp: grant_ref_def)
      then have "k \<in> set (filter P (ad_clients db))" using g(2) by (auto simp: list_ex_iff)
      with \<open>cl_id k = og_client g\<close> have "og_client g \<in> cl_id ` set (filter P (ad_clients db))" by (metis imageI)
      then show ?thesis using g(1) by (simp add: grant_ref_def)
    qed
    show "refs_ok (?d\<lparr>ad_clients := filter P (ad_clients db),
        ad_codes := filter (\<lambda>c. \<not> list_ex (\<lambda>k. \<not> P k \<and> cl_id k = oc_client c) (ad_clients db)) (ad_codes db)\<rparr>)"
      using auth_okD(2) [OF d] auth_okD(2) [OF ok] code grant by (simp add: refs_ok_def)
  qed (use auth_okD(3,4) [OF d] in simp_all)
qed

lemma ok_drop_user:
  assumes ok: "auth_ok db"
  shows "auth_ok (drop_user u db)"
proof -
  let ?d = "keep_grants (\<lambda>g. og_user g \<noteq> u) db"
  have d: "auth_ok ?d" using ok by (rule ok_keep_grants)
  have "auth_ok (?d\<lparr>ad_users := filter (\<lambda>v. v \<noteq> u) (ad_users db), ad_codes := filter (\<lambda>c. oc_user c \<noteq> u) (ad_codes db),
      ad_tokens := filter (\<lambda>r. tr_user r \<noteq> u) (ad_tokens db)\<rparr>)" (is "auth_ok ?e")
  proof (rule auth_okI)
    show "keys_unique ?e" using auth_okD(1) [OF d] by (simp add: keys_unique_def distinct_map_filter)
    have "code_ref (filter (\<lambda>v. v \<noteq> u) (ad_users db)) (ad_clients db) c"
      if "code_ref (ad_users db) (ad_clients db) c" "oc_user c \<noteq> u" for c
      using that by (simp add: code_ref_def)
    moreover have "grant_ref (filter (\<lambda>v. v \<noteq> u) (ad_users db)) (ad_clients db) g"
      if "grant_ref (ad_users db) (ad_clients db) g" "og_user g \<noteq> u" for g
      using that by (simp add: grant_ref_def)
    ultimately show "refs_ok ?e" using auth_okD(2) [OF d] auth_okD(2) [OF ok] by (simp add: refs_ok_def)
  qed (use auth_okD(3,4) [OF d] in simp_all)
  then show ?thesis by (simp add: drop_user_def Let_def)
qed

subsection \<open>Transactions\<close>

lemma and_then_Some:
  "and_then m f db = (Some v, d2) \<longleftrightarrow> (\<exists>u d1. m db = (Some u, d1) \<and> f u d1 = (Some v, d2))"
  by (auto simp: and_then_def split: prod.splits option.splits)

lemma commit_cases: "commit m db = db \<or> (\<exists>v. m db = (Some v, commit m db))"
  by (auto simp: commit_def split: prod.splits option.splits)

lemma InsertGrant_Some: "InsertGrant g db = (Some u, d) \<longleftrightarrow>
    og_id g \<notin> og_id ` set (ad_grants db) \<and> og_hash g \<notin> og_hash ` set (ad_grants db) \<and> og_user g \<in> set (ad_users db) \<and>
    og_client g \<in> cl_id ` set (ad_clients db) \<and> d = db\<lparr>ad_grants := ad_grants db @ [grant_row g]\<rparr>"
  by (auto simp: InsertGrant_def)

lemma InsertToken_Some: "InsertToken t h db = (Some u, d) \<longleftrightarrow>
    at_id t \<notin> tr_id ` set (ad_tokens db) \<and> h \<notin> tr_hash ` set (ad_tokens db) \<and> at_user t \<in> set (ad_users db) \<and>
    d = db\<lparr>ad_tokens := ad_tokens db @ [insert_token_row t h]\<rparr>"
  by (auto simp: InsertToken_def)

lemma InsertSpent_Some: "InsertSpentRefreshHash i h now db = (Some u, d) \<longleftrightarrow>
    h \<notin> sp_hash ` set (ad_spent db) \<and> i \<in> og_id ` set (ad_grants db) \<and>
    d = db\<lparr>ad_spent := ad_spent db @ [\<lparr>sp_hash = h, sp_grant = i, sp_at = to_sql now\<rparr>]\<rparr>"
  by (auto simp: InsertSpentRefreshHash_def)

lemma InsertCode_Some: "InsertCode c db = (Some u, d) \<longleftrightarrow>
    oc_hash c \<notin> oc_hash ` set (ad_codes db) \<and> oc_client c \<in> cl_id ` set (ad_clients db) \<and> oc_user c \<in> set (ad_users db) \<and>
    d = db\<lparr>ad_codes := ad_codes db @ [code_row c]\<rparr>"
  by (auto simp: InsertCode_def)

lemma ok_approve:
  assumes ok: "auth_ok db"
  shows "auth_ok (commit (approve_tx c now) db)"
proof (cases "commit (approve_tx c now) db = db")
  case False
  then obtain v where "approve_tx c now db = (Some v, commit (approve_tx c now) db)" using commit_cases by metis
  then obtain u d1 where "InsertCode c db = (Some u, d1)"
      "MarkClientUsed (oc_client c) now d1 = (Some v, commit (approve_tx c now) db)"
    unfolding approve_tx_def and_then_Some by blast
  moreover define ks where "ks = snd (sql_update (\<lambda>k. cl_id k = oc_client c) (\<lambda>k. k\<lparr>cl_used := Some (to_sql now)\<rparr>) (ad_clients db))"
  ultimately have fits: "oc_hash c \<notin> oc_hash ` set (ad_codes db)" "oc_client c \<in> cl_id ` set (ad_clients db)" "oc_user c \<in> set (ad_users db)"
    and e: "commit (approve_tx c now) db = db\<lparr>ad_codes := ad_codes db @ [code_row c], ad_clients := ks\<rparr>"
    by (auto simp: InsertCode_Some MarkClientUsed_def)
  have ids: "cl_id ` set ks = cl_id ` set (ad_clients db)" unfolding ks_def by (rule image_update) simp
  have used: "cl_used k \<noteq> None" if k: "k \<in> set ks" "cl_id k = oc_client d"
      "\<And>j. j \<in> set (ad_clients db) \<Longrightarrow> cl_id j = oc_client d \<Longrightarrow> cl_used j \<noteq> None" for k d
    using k unfolding ks_def sql_update_mem by (auto split: if_splits)
  have new: "cl_used k \<noteq> None" if "k \<in> set ks" "cl_id k = oc_client c" for k
  proof -
    from that(1) show ?thesis unfolding ks_def by (rule updatedE) (use that(2) in auto)
  qed
  have db1: "auth_ok (db\<lparr>ad_clients := ks\<rparr>)"
  proof (rule auth_okI)
    have "distinct (map cl_id ks)" unfolding ks_def
      using auth_okD(1) [OF ok] by (subst map_update) (simp_all add: keys_unique_def)
    then show "keys_unique (db\<lparr>ad_clients := ks\<rparr>)" using auth_okD(1) [OF ok] by (simp add: keys_unique_def)
    show "refs_ok (db\<lparr>ad_clients := ks\<rparr>)"
    proof (rule refs_more_clients [OF auth_okD(2) [OF ok]])
      fix d k assume d: "d \<in> set (ad_codes db)" "k \<in> set ks" "cl_id k = oc_client d"
      have "code_ref (ad_users db) (ad_clients db) d" using auth_okD(2) [OF ok] d(1) by (simp add: refs_ok_def)
      then show "cl_used k \<noteq> None" using used [OF d(2,3)] by (simp add: code_ref_def)
    qed (simp add: ids)
  qed (use auth_okD(3,4) [OF ok] in simp_all)
  have "code_ref (ad_users db) ks (code_row c)" using fits ids new by (auto simp: code_ref_def code_row_def)
  then have "auth_ok (db\<lparr>ad_codes := ad_codes db @ [code_row c], ad_clients := ks\<rparr>)"
    using db1 fits(1) by (simp add: auth_ok_def keys_unique_def refs_ok_def code_row_def)
  then show ?thesis using e by simp
qed (use ok in simp)


text \<open>The state a finished exchange leaves: the grants with the new one and the replaced ones revoked,
  and the tokens with the new one and those of the replaced grants revoked.\<close>

definition replace_grants :: "oauth_grant \<Rightarrow> time \<Rightarrow> oauth_grant list \<Rightarrow> oauth_grant list" where
  "replace_grants g now gs = snd (sql_update
     (\<lambda>x. other_grant (og_user g) (og_client g) (og_id g) x \<and> og_revoked x = None)
     (\<lambda>x. x\<lparr>og_revoked := Some (to_sql now)\<rparr>) (gs @ [grant_row g]))"

definition replaced_ids :: "oauth_grant \<Rightarrow> oauth_grant list \<Rightarrow> string list" where
  "replaced_ids g gs = map og_id (filter (\<lambda>x. other_grant (og_user g) (og_client g) (og_id g) x \<and> og_revoked x = None)
     (gs @ [grant_row g]))"

lemma revoke_each_Some: "\<exists>ts. revoke_each clk is db = (Some (), db\<lparr>ad_tokens := ts\<rparr>)"
proof (induction "is" arbitrary: db clk)
  case Nil
  have "revoke_each clk [] db = (Some (), db\<lparr>ad_tokens := ad_tokens db\<rparr>)" by simp
  then show ?case by blast
next
  case (Cons i "is")
  obtain ts where ts: "RevokeByGrant i (clk 0) db = (Some (), db\<lparr>ad_tokens := ts\<rparr>)"
    by (simp add: RevokeByGrant_def revoke_tokens_def update_tokens_def split_beta)
  obtain us where "revoke_each (\<lambda>n. clk (Suc n)) is (db\<lparr>ad_tokens := ts\<rparr>) = (Some (), db\<lparr>ad_tokens := ts, ad_tokens := us\<rparr>)"
    using Cons by blast
  then have "revoke_each clk (i # is) db = (Some (), db\<lparr>ad_tokens := us\<rparr>)" using ts by (simp add: and_then_def)
  then show ?case by blast
qed

lemma revoke_each_ok: "auth_ok db \<Longrightarrow> auth_ok (snd (revoke_each clk is db))"
proof (induction "is" arbitrary: db clk)
  case (Cons i "is")
  show ?case using Cons.IH [OF ok_revoke_tokens [OF Cons.prems]]
    by (simp add: and_then_def RevokeByGrant_def)
qed simp

lemma exchange_Some:
  assumes "exchange_tx g t h now clk db = (Some v, d)"
  shows "og_id g \<notin> og_id ` set (ad_grants db)" "og_hash g \<notin> og_hash ` set (ad_grants db)"
    "og_user g \<in> set (ad_users db)" "og_client g \<in> cl_id ` set (ad_clients db)"
    "\<exists>e. InsertToken t h (db\<lparr>ad_grants := replace_grants g now (ad_grants db)\<rparr>) = (Some (), e) \<and>
       revoke_each clk (replaced_ids g (ad_grants db)) e = (Some (), d)"
proof -
  obtain d1 u1 d2 u2 d3 ids where s1: "InsertGrant g db = (Some u1, d1)" and s2: "InsertToken t h d1 = (Some u2, d2)"
    and s3: "RevokeOtherGrants (og_user g) (og_client g) (og_id g) now d2 = (Some ids, d3)"
    and s4: "revoke_each clk ids d3 = (Some v, d)"
    using assms unfolding exchange_tx_def and_then_Some by blast
  show "og_id g \<notin> og_id ` set (ad_grants db)" "og_hash g \<notin> og_hash ` set (ad_grants db)"
    "og_user g \<in> set (ad_users db)" "og_client g \<in> cl_id ` set (ad_clients db)"
    using s1 by (auto simp: InsertGrant_Some)
  have d1: "d1 = db\<lparr>ad_grants := ad_grants db @ [grant_row g]\<rparr>" using s1 by (simp add: InsertGrant_Some)
  have tok: "at_id t \<notin> tr_id ` set (ad_tokens db)" "h \<notin> tr_hash ` set (ad_tokens db)" "at_user t \<in> set (ad_users db)"
    and d2: "d2 = d1\<lparr>ad_tokens := ad_tokens db @ [insert_token_row t h]\<rparr>"
    using s2 by (simp_all add: InsertToken_Some d1)
  have ids: "ids = replaced_ids g (ad_grants db)"
    using s3 by (simp add: RevokeOtherGrants_def replaced_ids_def d2 d1)
  have "d3 = d2\<lparr>ad_grants := replace_grants g now (ad_grants db)\<rparr>"
    using s3 by (simp add: RevokeOtherGrants_def revoke_grants_def split_beta replace_grants_def d2 d1)
  then have d3: "d3 = db\<lparr>ad_grants := replace_grants g now (ad_grants db), ad_tokens := ad_tokens db @ [insert_token_row t h]\<rparr>"
    by (simp add: d2 d1)
  have "InsertToken t h (db\<lparr>ad_grants := replace_grants g now (ad_grants db)\<rparr>) = (Some (), d3)"
    using tok d3 by (simp add: InsertToken_Some)
  then show "\<exists>e. InsertToken t h (db\<lparr>ad_grants := replace_grants g now (ad_grants db)\<rparr>) = (Some (), e) \<and>
      revoke_each clk (replaced_ids g (ad_grants db)) e = (Some (), d)"
    using s4 ids by (metis old.unit.exhaust)
qed

lemma replace_mem:
  assumes "x \<in> set (replace_grants g now gs)" "og_revoked x = None"
  shows "(x \<in> set gs \<or> x = grant_row g) \<and> \<not> other_grant (og_user g) (og_client g) (og_id g) x"
  using assms(1) unfolding replace_grants_def by (rule updatedE) (use assms(2) in auto)

lemma replace_ids:
  "map og_id (replace_grants g now gs) = map og_id gs @ [og_id g]"
  "map og_hash (replace_grants g now gs) = map og_hash gs @ [og_hash g]"
  unfolding replace_grants_def by (simp_all add: map_update grant_row_def)

lemma replace_from:
  assumes "x \<in> set (replace_grants g now gs)"
  obtains y where "y \<in> set gs \<or> y = grant_row g" "og_id x = og_id y" "og_user x = og_user y" "og_client x = og_client y"
    "og_prev x = og_prev y" "og_hash x = og_hash y"
  using assms unfolding replace_grants_def by (rule updatedE) (auto intro: that)

lemma ok_replace:
  assumes ok: "auth_ok db" and g: "og_id g \<notin> og_id ` set (ad_grants db)" "og_hash g \<notin> og_hash ` set (ad_grants db)"
    "og_user g \<in> set (ad_users db)" "og_client g \<in> cl_id ` set (ad_clients db)" "og_prev g = None"
  shows "auth_ok (db\<lparr>ad_grants := replace_grants g now (ad_grants db)\<rparr>)"
proof (rule auth_okI)
  let ?gs = "replace_grants g now (ad_grants db)"
  have row: "og_id (grant_row g) = og_id g" "og_user (grant_row g) = og_user g" "og_client (grant_row g) = og_client g"
    "og_prev (grant_row g) = og_prev g" by (simp_all add: grant_row_def)
  show "keys_unique (db\<lparr>ad_grants := ?gs\<rparr>)"
    using auth_okD(1) [OF ok] g(1,2) by (simp add: keys_unique_def replace_ids)
  have ids: "og_id ` set ?gs = insert (og_id g) (og_id ` set (ad_grants db))"
    using replace_ids(1) [of g now "ad_grants db"] by (metis Un_insert_right list.set_map set_append list.set(1,2) sup_bot_right)
  have "grant_ref (ad_users db) (ad_clients db) x" if "x \<in> set ?gs" for x
    using that
  proof (rule replace_from)
    fix y assume y: "y \<in> set (ad_grants db) \<or> y = grant_row g" "og_user x = og_user y" "og_client x = og_client y"
    then show ?thesis using auth_okD(2) [OF ok] g(3,4) row by (auto simp: refs_ok_def grant_ref_def)
  qed
  then show "refs_ok (db\<lparr>ad_grants := ?gs\<rparr>)" using auth_okD(2) [OF ok] ids by (simp add: refs_ok_def)
  show "single_grants (db\<lparr>ad_grants := ?gs\<rparr>)"
  proof (rule single_grantsI [of _ ?gs])
    fix a b assume ab: "a \<in> set ?gs" "b \<in> set ?gs" "og_revoked a = None" "og_revoked b = None"
      "og_user a = og_user b" "og_client a = og_client b"
    note a = replace_mem [OF ab(1,3)] and b = replace_mem [OF ab(2,4)]
    show "og_id a = og_id b"
    proof (cases "a \<in> set (ad_grants db) \<and> b \<in> set (ad_grants db)")
      case True
      then show ?thesis using single_grantsD [OF auth_okD(3) [OF ok]] ab(3-6) by blast
    next
      case False
      then show ?thesis using a b ab(5,6) row by (auto simp: other_grant_def)
    qed
  qed simp
  show "prev_spent (db\<lparr>ad_grants := ?gs\<rparr>)"
  proof (rule prev_spentI [of _ ?gs])
    fix x p assume x: "x \<in> set ?gs" "og_prev x = Some p"
    from x(1) show "(p, og_id x) \<in> (\<lambda>s. (sp_hash s, sp_grant s)) ` set (ad_spent (db\<lparr>ad_grants := ?gs\<rparr>))"
    proof (rule replace_from)
      fix y assume y: "y \<in> set (ad_grants db) \<or> y = grant_row g" "og_id x = og_id y" "og_prev x = og_prev y"
      then have "y \<in> set (ad_grants db)" using x(2) g(5) row by auto
      then show ?thesis using prev_spentD [OF auth_okD(4) [OF ok]] x(2) y(2,3) by simp
    qed
  qed simp
qed

lemma ok_exchange:
  assumes ok: "auth_ok db" and g: "og_prev g = None"
  shows "auth_ok (commit (exchange_tx g t h now clk) db)"
proof (cases "commit (exchange_tx g t h now clk) db = db")
  case False
  then obtain v where x: "exchange_tx g t h now clk db = (Some v, commit (exchange_tx g t h now clk) db)"
    using commit_cases by metis
  obtain e where e: "InsertToken t h (db\<lparr>ad_grants := replace_grants g now (ad_grants db)\<rparr>) = (Some (), e)"
    "revoke_each clk (replaced_ids g (ad_grants db)) e = (Some (), commit (exchange_tx g t h now clk) db)"
    using exchange_Some(5) [OF x] by blast
  have "auth_ok e"
    using ok_insert_token [OF ok_replace [OF ok exchange_Some(1-4) [OF x] g, of now], of t h] e(1) by simp
  then show ?thesis using revoke_each_ok e(2) by (metis snd_conv)
qed (use ok in simp)


text \<open>A refresh: the rotated grant and the spent hash.\<close>

lemma refresh_Some:
  assumes "refresh_tx i old new now ex t h db = (Some v, d)"
  shows "list_ex (holds_hash i old) (ad_grants db)"
    "\<not> list_ex (\<lambda>g. \<not> holds_hash i old g \<and> og_hash g = new) (ad_grants db)"
    "old \<notin> sp_hash ` set (ad_spent db)"
    "InsertToken t h (db\<lparr>ad_spent := ad_spent db @ [\<lparr>sp_hash = old, sp_grant = i, sp_at = to_sql now\<rparr>],
       ad_grants := snd (sql_update (holds_hash i old) (rotate_to new now ex) (ad_grants db))\<rparr>) = (Some v, d)"
proof -
  obtain n d1 where rot: "RotateGrant i old new now ex db = (Some n, d1)"
      and rest: "(if n = 0 then (\<lambda>db. (None, db)) else and_then (InsertSpentRefreshHash i old now) (\<lambda>_. InsertToken t h)) d1 = (Some v, d)"
    using assms unfolding refresh_tx_def and_then_Some by blast
  then have n: "n \<noteq> 0" by (auto split: if_splits)
  let ?gs = "snd (sql_update (holds_hash i old) (rotate_to new now ex) (ad_grants db))"
  have r: "n = length (filter (holds_hash i old) (ad_grants db))" "d1 = db\<lparr>ad_grants := ?gs\<rparr>"
    "\<not> (0 < n \<and> list_ex (\<lambda>g. \<not> holds_hash i old g \<and> og_hash g = new) (ad_grants db))"
    using rot by (auto simp: RotateGrant_def split_beta sql_update_def split: if_splits)
  then show "list_ex (holds_hash i old) (ad_grants db)" using n by (auto simp: list_ex_iff filter_empty_conv)
  show "\<not> list_ex (\<lambda>g. \<not> holds_hash i old g \<and> og_hash g = new) (ad_grants db)" using r(3) n by simp
  obtain u d2 where sp: "InsertSpentRefreshHash i old now d1 = (Some u, d2)" and tok: "InsertToken t h d2 = (Some v, d)"
    using rest n by (auto simp: and_then_Some)
  show "old \<notin> sp_hash ` set (ad_spent db)" using sp by (simp add: InsertSpent_Some r(2))
  have "d2 = d1\<lparr>ad_spent := ad_spent db @ [\<lparr>sp_hash = old, sp_grant = i, sp_at = to_sql now\<rparr>]\<rparr>"
    using sp by (simp add: InsertSpent_Some r(2))
  then have "d2 = db\<lparr>ad_spent := ad_spent db @ [\<lparr>sp_hash = old, sp_grant = i, sp_at = to_sql now\<rparr>], ad_grants := ?gs\<rparr>"
    by (simp add: r(2))
  then show "InsertToken t h (db\<lparr>ad_spent := ad_spent db @ [\<lparr>sp_hash = old, sp_grant = i, sp_at = to_sql now\<rparr>],
      ad_grants := ?gs\<rparr>) = (Some v, d)" using tok by simp
qed

lemma distinct_rotated:
  assumes "distinct (map og_id gs)" "distinct (map og_hash gs)"
    "\<not> list_ex (\<lambda>g. \<not> holds_hash i old g \<and> og_hash g = new) gs"
  shows "distinct (map og_hash (snd (sql_update (holds_hash i old) (rotate_to new now ex) gs)))"
proof -
  let ?f = "\<lambda>g. if holds_hash i old g then new else og_hash g"
  have "map og_hash (snd (sql_update (holds_hash i old) (rotate_to new now ex) gs)) = map ?f gs"
    by (simp add: sql_update_def rotate_to_def)
  moreover have "inj_on ?f (set gs)"
  proof (rule inj_onI)
    fix a b assume ab: "a \<in> set gs" "b \<in> set gs" "?f a = ?f b"
    have other: "og_hash x \<noteq> new" if "x \<in> set gs" "\<not> holds_hash i old x" for x
      using assms(3) that by (auto simp: list_ex_iff)
    have "og_hash a = og_hash b"
      using ab(3) other [OF ab(1)] other [OF ab(2)]
      by (cases "holds_hash i old a"; cases "holds_hash i old b") (simp_all, simp add: holds_hash_def)
    then show "a = b" using assms(2) ab(1,2) by (metis distinct_map inj_onD)
  qed
  moreover have "distinct gs" using assms(1) by (simp add: distinct_map)
  ultimately show ?thesis by (simp add: distinct_map)
qed

lemma ok_refresh:
  assumes ok: "auth_ok db"
  shows "auth_ok (commit (refresh_tx i old new now ex t h) db)"
proof (cases "commit (refresh_tx i old new now ex t h) db = db")
  case False
  then obtain v where x: "refresh_tx i old new now ex t h db = (Some v, commit (refresh_tx i old new now ex t h) db)"
    using commit_cases by metis
  let ?sp = "ad_spent db @ [\<lparr>sp_hash = old, sp_grant = i, sp_at = to_sql now\<rparr>]"
  let ?gs = "snd (sql_update (holds_hash i old) (rotate_to new now ex) (ad_grants db))"
  obtain g0 where g0: "g0 \<in> set (ad_grants db)" "og_id g0 = i"
    using refresh_Some(1) [OF x] by (auto simp: list_ex_iff holds_hash_def)
  have d1: "auth_ok (db\<lparr>ad_spent := ?sp\<rparr>)"
  proof (rule auth_okI)
    show "keys_unique (db\<lparr>ad_spent := ?sp\<rparr>)" using auth_okD(1) [OF ok] refresh_Some(3) [OF x] by (simp add: keys_unique_def)
    show "refs_ok (db\<lparr>ad_spent := ?sp\<rparr>)" using auth_okD(2) [OF ok] g0 by (force simp: refs_ok_def)
    show "prev_spent (db\<lparr>ad_spent := ?sp\<rparr>)"
    proof (rule prev_spentI [of _ "ad_grants db"])
      fix g p assume "g \<in> set (ad_grants db)" "og_prev g = Some p"
      then show "(p, og_id g) \<in> (\<lambda>s. (sp_hash s, sp_grant s)) ` set (ad_spent (db\<lparr>ad_spent := ?sp\<rparr>))"
        using prev_spentD [OF auth_okD(4) [OF ok]] by auto
    qed simp
  qed (use auth_okD(3) [OF ok] in simp)
  have "auth_ok (db\<lparr>ad_spent := ?sp, ad_grants := ?gs\<rparr>)"
  proof (rule ok_grants [OF d1])
    show "map og_id ?gs = map og_id (ad_grants (db\<lparr>ad_spent := ?sp\<rparr>))" by (simp add: map_update rotate_to_def)
    show "distinct (map og_hash ?gs)"
      using auth_okD(1) [OF ok] refresh_Some(2) [OF x] by (intro distinct_rotated) (simp_all add: keys_unique_def)
    show "prev_spent (db\<lparr>ad_spent := ?sp, ad_grants := ?gs\<rparr>)"
    proof (rule prev_spentI [of _ ?gs])
      fix g p assume g: "g \<in> set ?gs" "og_prev g = Some p"
      from g(1) show "(p, og_id g) \<in> (\<lambda>s. (sp_hash s, sp_grant s)) ` set (ad_spent (db\<lparr>ad_spent := ?sp, ad_grants := ?gs\<rparr>))"
      proof (rule updatedE)
        fix q assume "holds_hash i old q" "g = rotate_to new now ex q"
        then have "p = old" "og_id g = i" using g(2) by (auto simp: rotate_to_def holds_hash_def)
        then show ?thesis by simp
      next
        assume "g \<in> set (ad_grants db)"
        then show ?thesis using prev_spentD [OF auth_okD(4) [OF ok] _ g(2)] by auto
      qed
    qed simp
    fix g' assume "g' \<in> set ?gs"
    then show "\<exists>g \<in> set (ad_grants (db\<lparr>ad_spent := ?sp\<rparr>)). og_id g' = og_id g \<and> og_user g' = og_user g \<and>
        og_client g' = og_client g \<and> (og_revoked g' = None \<longrightarrow> og_revoked g = None)"
    proof (rule updatedE)
      fix q assume "q \<in> set (ad_grants db)" "g' = rotate_to new now ex q"
      then show ?thesis by (intro bexI [of _ q]) (simp_all add: rotate_to_def)
    qed auto
  qed
  then show ?thesis using ok_insert_token [of _ t h] refresh_Some(4) [OF x] by (metis snd_conv)
qed (use ok in simp)

subsection \<open>The invariant\<close>

lemma auth_exec_ok:
  assumes "auth_ok db" "\<forall>op \<in> set ops. op_ok op"
  shows "auth_ok (fold auth_exec ops db)"
proof (rule fold_invariant [where I = auth_ok])
  show "auth_ok db" by (rule assms(1))
  fix op db assume op: "op \<in> set ops" and ok: "auth_ok db"
  have "refs_ok (db\<lparr>ad_users := u # ad_users db\<rparr>)" for u
    using auth_okD(2) [OF ok] by (simp add: refs_ok_def code_ref_def grant_ref_def)
  then have user: "auth_ok (db\<lparr>ad_users := u # ad_users db\<rparr>)" for u
    using auth_okD [OF ok] by (simp add: auth_ok_def keys_unique_def)
  have cm: "auth_ok (commit m db)" if "auth_ok (snd (m db))" for m :: "'a stmt"
    using that ok by (auto simp: commit_def split: prod.splits option.splits)
  have touch: "auth_ok (snd (update_tokens P (\<lambda>r. r\<lparr>tr_used := a, tr_expires := b\<rparr>) db))" for P a b
    by (rule ok_update_tokens [OF ok]) simp_all
  have dead: "auth_ok (db\<lparr>ad_tokens := filter P (ad_tokens db)\<rparr>)" for P
    using auth_okD(1,2) [OF ok] by (intro ok_tokens [OF ok]) (simp_all add: keys_unique_def refs_ok_def distinct_map_filter)
  have rev: "auth_ok (commit (revoke_tx i now later) db)" for i now later
  proof (rule cm)
    show "auth_ok (snd (revoke_tx i now later db))"
      using ok_revoke_tokens [OF ok_revoke_grants [OF ok]]
      by (simp add: revoke_tx_def and_then_def RevokeGrant_def RevokeByGrant_def split_beta)
  qed
  show "auth_ok (auth_exec op db)"
  proof (cases op)
    case (OpExchange g t h now clk)
    then show ?thesis using ok_exchange [OF ok] op assms(2) by auto
  next
    case (OpPurgeClients cutoff)
    then show ?thesis by (simp add: commit_def PurgeUnusedClients_def ok_keep_clients [OF ok])
  next
    case (OpConsume h)
    then show ?thesis by (simp add: commit_def ConsumeCode_def ok_filter_codes [OF ok])
  next
    case (OpPurgeCodes t)
    then show ?thesis by (simp add: commit_def PurgeExpiredCodes_def ok_filter_codes [OF ok])
  next
    case (OpDeadGrants t)
    then show ?thesis by (simp add: commit_def DeleteDeadGrants_def ok_keep_grants [OF ok])
  next
    case (OpDeadTokens t)
    then show ?thesis by (simp add: commit_def DeleteDead_def dead)
  next
    case (OpRevokeUserGrants u t)
    then show ?thesis by (simp add: commit_def RevokeUserGrants_def ok_revoke_grants [OF ok] split_beta)
  next
    case (OpTouch i used ex)
    then show ?thesis using touch by (simp add: commit_def Touch_def split_beta)
  next
    case (OpRevokeUserToken u k i t)
    then show ?thesis by (simp add: commit_def RevokeUserToken_def ok_revoke_tokens [OF ok] split_beta)
  qed (use ok user in \<open>simp_all add: ok_drop_user ok_insert_client cm ok_approve ok_refresh rev ok_insert_token
      Revoke_def RevokeAllOfKind_def commit_def [of "Revoke _ _"] commit_def [of "RevokeAllOfKind _ _ _"] ok_revoke_tokens\<close>)
qed

text \<open>C9. Every operation keeps the authorization server's tables as they must be: keys, code,
  refresh and access token hashes are unique, no reference dangles, the clients of pending codes have
  been approved, the hash a grant rotated away last is among its spent ones, and a user has at most
  one unrevoked grant per client.\<close>

theorem auth_tables_ok:
  assumes "auth_ok db" "\<forall>op \<in> set ops. op_ok op"
  shows "auth_ok (fold auth_exec ops db)"
  using assms by (rule auth_exec_ok)

definition demo_history :: "auth_op list" where
  "demo_history = [OpAddUser ''u'',
     OpClient \<lparr>cl_id = ''c'', cl_name = ''app'', cl_uris = [''r''], cl_secret = None, cl_created = 0, cl_used = None\<rparr>,
     OpApprove \<lparr>oc_hash = ''h'', oc_client = ''c'', oc_user = ''u'', oc_redirect = ''r'', oc_challenge = ''v'', oc_resource = ''s'',
       oc_created = 0, oc_expires = second\<rparr> 0,
     OpPurgeClients (hour), OpConsume ''h'', OpRevokeUserGrants ''u'' hour]"

lemma auth_tables_ok_witness:
  "auth_ok (fold auth_exec demo_history
     \<lparr>ad_users = [], ad_clients = [], ad_codes = [], ad_grants = [], ad_spent = [], ad_tokens = []\<rparr>)"
  by (rule auth_tables_ok)
    (simp_all add: demo_history_def auth_ok_def keys_unique_def refs_ok_def single_grants_def prev_spent_def)

end
