(* ===== verification/Access_Tokens.thy ===== *)
theory Access_Tokens
  imports Auth_Tables Utf8
begin

text \<open>
  The surroundings of the authorization server and the access tokens (\<open>internal/domain/usecase/authn\<close>):
  use cases are actions on one instance's world: the database, the clock's readings, the random secrets and the ids still to be drawn. An action answers with a value or
  an error. Each call of the store outside a transaction is a turn in which other requests' operations
  may come first and which may fail before or after it took effect (\<open>acall\<close>); a transaction sees nobody
  else's work, and undoes its own when its body fails (\<open>backend.TxManager.WithTx\<close> on the one SQLite
  connection).

  Parameters (\<open>acfg\<close>): the digests (\<open>sha256\<close> in hex, and unpadded base64url), the parsing of a URL
  and its rendering with new query parameters, the canonical form of a UUID, and the removal of
  invisible runes from a client's name.
\<close>

section \<open>Surroundings\<close>

datatype auth_err =
    AuthStore | RandFails | Panics | Unauthorized | ErrAuthServerDisabled | ErrOAuthClientUnknown | ErrOAuthRedirect
  | ErrGrantNotFound | ErrTokenNotFound | OAuthError nat string string

record url =
  ur_scheme :: string
  ur_host :: string
  ur_path :: string
  ur_query :: string
  ur_fragment :: string
  ur_user :: bool
  ur_values :: "(string, string list) gomap"

record acfg =
  ac_issuer :: string
  ac_hash :: "string \<Rightarrow> string"
  ac_challenge :: "string \<Rightarrow> string"
  ac_parse :: "string \<Rightarrow> url option"
  ac_render :: "url \<Rightarrow> (string, string list) gomap \<Rightarrow> string"
  ac_uuid :: "string \<Rightarrow> bool"
  ac_visible :: "string \<Rightarrow> string"
  ac_grants :: bool

record auth_turn =
  tn_ops :: "auth_op list"
  tn_fault :: fault

record ax =
  ax_db :: auth_db
  ax_env :: "auth_turn list"
  ax_now :: time
  ax_clock :: "time list"
  ax_rand :: "string option list"
  ax_ids :: "string list"
  ax_tx :: bool
  ax_hk :: time

type_synonym 'a act = "ax \<Rightarrow> (auth_err + 'a) \<times> ax"

definition give :: "'a \<Rightarrow> 'a act" where
  "give v x = (Inr v, x)"

definition refuse :: "auth_err \<Rightarrow> 'a act" where
  "refuse e x = (Inl e, x)"

text \<open>Go's \<open>if err != nil { return err }\<close>, and a call whose error is only logged.\<close>

definition chain :: "'a act \<Rightarrow> ('a \<Rightarrow> 'b act) \<Rightarrow> 'b act" where
  "chain m f x = (case m x of (Inl e, x1) \<Rightarrow> (Inl e, x1) | (Inr v, x1) \<Rightarrow> f v x1)"

definition ignoring :: "'a act \<Rightarrow> unit act" where
  "ignoring m x = (Inr (), snd (m x))"

definition read_clock :: "time act" where
  "read_clock x = (case ax_clock x of [] \<Rightarrow> (Inr (ax_now x), x) | t # r \<Rightarrow> (Inr t, x\<lparr>ax_now := t, ax_clock := r\<rparr>))"

text \<open>The base64url text of 32 bytes of \<open>crypto/rand\<close>; \<open>util.GenerateID\<close>.\<close>

definition random_text :: "string act" where
  "random_text x = (case ax_rand x of [] \<Rightarrow> (Inl RandFails, x)
     | r # rs \<Rightarrow> ((case r of None \<Rightarrow> Inl RandFails | Some s \<Rightarrow> Inr s), x\<lparr>ax_rand := rs\<rparr>))"

definition GenerateID :: "string act" where
  "GenerateID x = (case ax_ids x of [] \<Rightarrow> (Inl Panics, x) | i # r \<Rightarrow> (Inr i, x\<lparr>ax_ids := r\<rparr>))"

definition quiet_turn :: auth_turn where
  "quiet_turn = \<lparr>tn_ops = [], tn_fault = NoFault\<rparr>"

definition next_turn :: "ax \<Rightarrow> auth_turn" where
  "next_turn x = (case ax_env x of [] \<Rightarrow> quiet_turn | t # _ \<Rightarrow> t)"

definition seen :: "ax \<Rightarrow> auth_db" where
  "seen x = (if ax_tx x then ax_db x else fold auth_exec (tn_ops (next_turn x)) (ax_db x))"

definition acall :: "'a stmt \<Rightarrow> 'a act" where
  "acall m x =
     (let (res, db) = attempt (tn_fault (next_turn x)) m (seen x)
      in (case res of Some (Some v) \<Rightarrow> Inr v | _ \<Rightarrow> Inl AuthStore, x\<lparr>ax_db := db, ax_env := tl (ax_env x)\<rparr>))"

definition WithTx :: "'a act \<Rightarrow> 'a act" where
  "WithTx body x =
     (let db = seen x; x0 = x\<lparr>ax_db := db, ax_env := tl (ax_env x)\<rparr>
      in if tn_fault (next_turn x) \<noteq> NoFault then (Inl AuthStore, x0)
         else (case body (x0\<lparr>ax_tx := True\<rparr>) of
             (Inl e, x1) \<Rightarrow> (Inl e, x1\<lparr>ax_db := db, ax_tx := False\<rparr>)
           | (Inr v, x1) \<Rightarrow>
               (let x2 = x1\<lparr>ax_env := tl (ax_env x1), ax_tx := False\<rparr>
                in case tn_fault (next_turn x1) of NoFault \<Rightarrow> (Inr v, x2)
                   | FailBefore \<Rightarrow> (Inl AuthStore, x2\<lparr>ax_db := db\<rparr>)
                   | FailAfter \<Rightarrow> (Inl AuthStore, x2))))"

section \<open>Access tokens (authn)\<close>

definition touchInterval :: duration where "touchInterval = minute"
definition deadRetention :: duration where "deadRetention = 30 * 24 * hour"
definition SessionTTL :: duration where "SessionTTL = 30 * 24 * hour"
definition SessionMaxAge :: duration where "SessionMaxAge = 90 * 24 * hour"
definition sessionSlideStep :: duration where "sessionSlideStep = 24 * hour"

definition ScopeFull :: string where "ScopeFull = ''full''"
definition ScopeMCP :: string where "ScopeMCP = ''mcp''"
definition PrefixLen :: nat where "PrefixLen = 12"

fun prefixes :: "token_kind \<Rightarrow> string" where
  "prefixes TokenSession = ''wfs_''"
| "prefixes TokenPAT = ''wfp_''"
| "prefixes TokenOAuth = ''wfo_''"

record principal =
  pr_user :: string
  pr_token :: string
  pr_kind :: token_kind
  pr_scope :: string

definition token_live :: "access_token \<Rightarrow> time \<Rightarrow> bool" where
  "token_live t now \<longleftrightarrow> at_revoked t = None \<and> (case at_expires t of None \<Rightarrow> True | Some e \<Rightarrow> now < e)"

definition issue :: "acfg \<Rightarrow> access_token \<Rightarrow> (access_token \<times> string) act" where
  "issue cf t = chain random_text (\<lambda>b. chain GenerateID (\<lambda>i.
     let raw = prefixes (at_kind t) @ b;
         t' = t\<lparr>at_id := i, at_prefix := (if at_kind t = TokenPAT then take PrefixLen raw else at_prefix t)\<rparr>
     in chain (acall (InsertToken t' (ac_hash cf raw))) (\<lambda>_. give (t', raw))))"

definition slideSession :: "access_token \<Rightarrow> time \<Rightarrow> time option \<times> bool" where
  "slideSession t now =
     (let limit = at_created t + SessionMaxAge;
          e = (if limit < now + SessionTTL then limit else now + SessionTTL)
      in case at_expires t of
           Some old \<Rightarrow> if time_sub e old \<le> sessionSlideStep then (Some old, False) else (Some e, True)
         | None \<Rightarrow> (Some e, True))"

definition principal_of :: "access_token \<Rightarrow> principal" where
  "principal_of t = \<lparr>pr_user = at_user t, pr_token = at_id t, pr_kind = at_kind t, pr_scope = at_scope t\<rparr>"

definition touch_plan :: "access_token \<Rightarrow> time \<Rightarrow> time option \<times> bool" where
  "touch_plan t now = (if at_kind t = TokenSession then slideSession t now else (at_expires t, False))"

definition use_token :: "access_token option \<Rightarrow> principal act" where
  "use_token found =
     (case found of None \<Rightarrow> refuse Unauthorized
      | Some t \<Rightarrow> chain read_clock (\<lambda>now.
          if \<not> token_live t now then refuse Unauthorized
          else (let (expires, slid) = touch_plan t now
                in if slid \<or> touchInterval \<le> time_sub now (at_used t)
                   then chain (acall (Touch (at_id t) now expires))
                     (\<lambda>ok. if ok then give (principal_of t) else refuse Unauthorized)
                   else give (principal_of t))))"

definition Authenticate :: "acfg \<Rightarrow> string \<Rightarrow> principal act" where
  "Authenticate cf raw =
     (if raw = [] then refuse Unauthorized else chain (acall (GetByHash (ac_hash cf raw))) use_token)"

definition new_token :: access_token where
  "new_token = \<lparr>at_id = [], at_user = [], at_kind = TokenSession, at_scope = [], at_name = [], at_prefix = [],
     at_agent = [], at_grant = [], at_created = zero_time, at_used = zero_time, at_expires = None, at_revoked = None\<rparr>"

definition session_token :: "string \<Rightarrow> string \<Rightarrow> time \<Rightarrow> access_token" where
  "session_token u agent now = new_token\<lparr>at_user := u, at_kind := TokenSession, at_scope := ScopeFull, at_agent := agent,
     at_created := now, at_used := now, at_expires := Some (now + SessionTTL)\<rparr>"

definition oauth_token :: "string \<Rightarrow> string \<Rightarrow> duration \<Rightarrow> time \<Rightarrow> access_token" where
  "oauth_token u g ttl now = new_token\<lparr>at_user := u, at_kind := TokenOAuth, at_scope := ScopeMCP, at_grant := g,
     at_created := now, at_used := now, at_expires := Some (now + ttl)\<rparr>"

definition pat_token :: "string \<Rightarrow> string \<Rightarrow> time option \<Rightarrow> time \<Rightarrow> access_token" where
  "pat_token u name expires now = new_token\<lparr>at_user := u, at_kind := TokenPAT, at_scope := ScopeFull, at_name := name,
     at_created := now, at_expires := expires\<rparr>"

definition IssueSession :: "acfg \<Rightarrow> string \<Rightarrow> string \<Rightarrow> string act" where
  "IssueSession cf u agent = chain read_clock (\<lambda>now. chain (issue cf (session_token u agent now)) (\<lambda>r. give (snd r)))"

definition IssueOAuthAccess :: "acfg \<Rightarrow> string \<Rightarrow> string \<Rightarrow> duration \<Rightarrow> string act" where
  "IssueOAuthAccess cf u g ttl = chain read_clock (\<lambda>now. chain (issue cf (oauth_token u g ttl now)) (\<lambda>r. give (snd r)))"

definition CreatePAT :: "acfg \<Rightarrow> string \<Rightarrow> string \<Rightarrow> time option \<Rightarrow> (access_token \<times> string) act" where
  "CreatePAT cf u name expires = chain read_clock (\<lambda>now. issue cf (pat_token u name expires now))"

definition RevokeToken :: "string \<Rightarrow> unit act" where
  "RevokeToken i = chain read_clock (\<lambda>now. acall (Revoke i now))"

definition RevokeSessions :: "string \<Rightarrow> unit act" where
  "RevokeSessions u = chain read_clock (\<lambda>now. acall (RevokeAllOfKind u TokenSession now))"

definition RevokeGrantTokens :: "string \<Rightarrow> unit act" where
  "RevokeGrantTokens g = chain read_clock (\<lambda>now. acall (RevokeByGrant g now))"

definition ListPATs :: "string \<Rightarrow> access_token list act" where
  "ListPATs u = chain (acall (ListByUser u TokenPAT)) (\<lambda>rows. give (rev (filter (\<lambda>t. at_revoked t = None) rows)))"

definition DeletePAT :: "acfg \<Rightarrow> string \<Rightarrow> string \<Rightarrow> unit act" where
  "DeletePAT cf u i =
     (if \<not> ac_uuid cf i then refuse ErrTokenNotFound
      else chain read_clock (\<lambda>now. chain (acall (RevokeUserToken u TokenPAT i now))
        (\<lambda>ok. if ok then give () else refuse ErrTokenNotFound)))"

definition Prune :: "unit act" where
  "Prune = chain read_clock (\<lambda>now. chain (acall (DeleteDead (now - deadRetention))) (\<lambda>_. give ()))"

text \<open>\<open>authserver.UseCase.RevokeUserGrants\<close>, wired as the grant revoker.\<close>

definition RevokeAllGrants :: "string \<Rightarrow> unit act" where
  "RevokeAllGrants u = chain read_clock (\<lambda>now. chain (acall (RevokeUserGrants u now)) (\<lambda>_. give ()))"

definition RevokeAllForUser :: "acfg \<Rightarrow> string \<Rightarrow> unit act" where
  "RevokeAllForUser cf u = chain read_clock (\<lambda>now.
     chain (acall (RevokeAllOfKind u TokenSession now)) (\<lambda>_.
     chain (acall (RevokeAllOfKind u TokenPAT now)) (\<lambda>_.
     chain (acall (RevokeAllOfKind u TokenOAuth now)) (\<lambda>_.
     if ac_grants cf then RevokeAllGrants u else give ()))))"

definition RemoveMember :: "acfg \<Rightarrow> (string \<Rightarrow> string \<Rightarrow> string \<Rightarrow> unit act) \<Rightarrow> string \<Rightarrow> string \<Rightarrow> string \<Rightarrow> unit act" where
  "RemoveMember cf users org caller u = chain (users org caller u) (\<lambda>_. RevokeAllForUser cf u)"

end
