(* ===== verification/Auth_Server.thy ===== *)
theory Auth_Server
  imports Access_Tokens
begin

text \<open>
  The OAuth authorization server (\<open>internal/domain/usecase/authserver\<close>): client registration, the
  consent page's requests, the token endpoint with its authorization codes and rotating refresh
  tokens, housekeeping, and the connected apps. Every error text is the code's.
\<close>

definition CodeTTL :: duration where "CodeTTL = 2 * minute"
definition AccessTokenTTL :: duration where "AccessTokenTTL = hour"
definition GrantIdleTTL :: duration where "GrantIdleTTL = 90 * 24 * hour"
definition RefreshGrace :: duration where "RefreshGrace = 60 * second"
definition UnusedClientTTL :: duration where "UnusedClientTTL = 24 * hour"
definition MaxUnusedClients :: nat where "MaxUnusedClients = 1000"
definition DeadRetention :: duration where "DeadRetention = 30 * 24 * hour"
definition HousekeepingInterval :: duration where "HousekeepingInterval = 10 * minute"

definition maxState :: nat where "maxState = 1024"
definition maxClientName :: nat where "maxClientName = 100"
definition maxRedirectURIs :: nat where "maxRedirectURIs = 10"
definition maxRedirectURILen :: nat where "maxRedirectURILen = 2048"
definition maxRedirectURIBytes :: nat where "maxRedirectURIBytes = 4096"
definition refreshPrefix :: string where "refreshPrefix = ''wfr_''"

definition Enabled :: "acfg \<Rightarrow> bool" where "Enabled cf \<longleftrightarrow> ac_issuer cf \<noteq> []"
definition ResourceURL :: "acfg \<Rightarrow> string" where "ResourceURL cf = ac_issuer cf @ ''/mcp''"

definition ResourceMetadataURL :: "acfg \<Rightarrow> string" where
  "ResourceMetadataURL cf = (if Enabled cf then ac_issuer cf @ ''/.well-known/oauth-protected-resource/mcp'' else [])"

definition Challenge :: "acfg \<Rightarrow> string" where
  "Challenge cf = (if Enabled cf
     then ''Bearer resource_metadata='' @ [CHR 0x22] @ ResourceMetadataURL cf @ [CHR 0x22] @ '', scope='' @
       [CHR 0x22] @ ScopeMCP @ [CHR 0x22]
     else [])"

subsection \<open>Errors (errors.go, token.go, register.go)\<close>

definition errDisabled :: auth_err where "errDisabled = OAuthError 404 ''invalid_request'' ''not available''"
definition errInvalidGrant :: auth_err where
  "errInvalidGrant = OAuthError 400 ''invalid_grant'' ''the grant is invalid, expired or revoked''"
definition errBadClient :: auth_err where
  "errBadClient = OAuthError 401 ''invalid_client'' ''client authentication failed''"
definition errBadTarget :: auth_err where "errBadTarget = OAuthError 400 ''invalid_target'' ''unknown resource''"
definition missingParam :: "string \<Rightarrow> auth_err" where
  "missingParam name = OAuthError 400 ''invalid_request'' (name @ '' is required'')"
definition errTooManyClients :: auth_err where
  "errTooManyClients = OAuthError 503 ''temporarily_unavailable'' ''too many pending client registrations, try again later''"
definition invalidMetadata :: "string \<Rightarrow> auth_err" where
  "invalidMetadata desc = OAuthError 400 ''invalid_client_metadata'' desc"
definition invalidRedirect :: "string \<Rightarrow> auth_err" where
  "invalidRedirect desc = OAuthError 400 ''invalid_redirect_uri'' desc"

subsection \<open>Redirect URIs (redirect.go)\<close>

definition isLoopbackHost :: "string \<Rightarrow> bool" where
  "isLoopbackHost h \<longleftrightarrow> h = ''127.0.0.1'' \<or> h = ''::1'' \<or> h = ''localhost''"

text \<open>The text of the refusal, \<open>None\<close> where there is none.\<close>

definition ValidateRedirectURI :: "acfg \<Rightarrow> string \<Rightarrow> string option" where
  "ValidateRedirectURI cf raw =
     (case ac_parse cf raw of
        None \<Rightarrow> Some ''redirect URI must be absolute, without fragment or userinfo''
      | Some u \<Rightarrow>
          if ur_scheme u = [] \<or> ur_host u = [] \<or> ur_fragment u \<noteq> [] \<or> ur_user u
          then Some ''redirect URI must be absolute, without fragment or userinfo''
          else if list_ex (\<lambda>c. 0x80 \<le> byte c) (ur_host u) then Some ''redirect URI host must be ASCII''
          else if ur_scheme u = ''https'' \<or> ur_scheme u = ''http'' \<and> isLoopbackHost (ur_host u) then None
          else Some ''redirect URI must be https, or http on a loopback host'')"

definition redirect_matches :: "acfg \<Rightarrow> string \<Rightarrow> url \<Rightarrow> string \<Rightarrow> bool" where
  "redirect_matches cf presented p r \<longleftrightarrow> r = presented \<or>
     (case ac_parse cf r of None \<Rightarrow> False
      | Some u \<Rightarrow> ur_scheme u = ''http'' \<and> isLoopbackHost (ur_host u) \<and> ur_scheme p = ''http'' \<and>
          ur_host p = ur_host u \<and> ur_path p = ur_path u \<and> ur_query p = ur_query u)"

definition MatchRedirectURI :: "acfg \<Rightarrow> string list \<Rightarrow> string \<Rightarrow> bool" where
  "MatchRedirectURI cf registered presented =
     (case ac_parse cf presented of None \<Rightarrow> False
      | Some p \<Rightarrow> ValidateRedirectURI cf presented = None \<and> list_ex (redirect_matches cf presented p) registered)"

definition RedirectHost :: "acfg \<Rightarrow> string \<Rightarrow> string \<times> bool" where
  "RedirectHost cf uri =
     (case ac_parse cf uri of None \<Rightarrow> ([], False)
      | Some u \<Rightarrow> (ur_host u, ur_scheme u = ''http'' \<and> isLoopbackHost (ur_host u)))"

subsection \<open>Registration (register.go)\<close>

record client_registration =
  rg_name :: string
  rg_uris :: "string list"
  rg_grants :: "string list"
  rg_responses :: "string list"
  rg_method :: string

record registered_client =
  rc_id :: string
  rc_issued :: int
  rc_name :: string
  rc_uris :: "string list"
  rc_grants :: "string list"
  rc_responses :: "string list"
  rc_method :: string
  rc_secret :: string
  rc_expires :: "int option"

text \<open>\<open>utf8.RuneCountInString\<close>: a byte that starts no valid rune counts as one.\<close>

function rune_count :: "string \<Rightarrow> nat" where
  "rune_count s = (if s = [] then 0 else Suc (rune_count (drop (max 1 (rune_len s)) s)))"
  by pat_completeness auto
termination by (relation "measure length") auto

declare rune_count.simps [simp del]

fun check_uris :: "acfg \<Rightarrow> nat \<Rightarrow> string list \<Rightarrow> auth_err option" where
  "check_uris cf used [] = None"
| "check_uris cf used (uri # uris) =
     (let used' = used + length uri
      in if maxRedirectURIBytes < used' then Some (invalidRedirect ''redirect URIs are too long together'')
         else if maxRedirectURILen < length uri then Some (invalidRedirect ''redirect URI is too long'')
         else case ValidateRedirectURI cf uri of
             Some desc \<Rightarrow> Some (invalidRedirect desc)
           | None \<Rightarrow> check_uris cf used' uris)"

definition client_name :: "acfg \<Rightarrow> string \<Rightarrow> string" where
  "client_name cf name = (let n = trim_space (ac_visible cf name) in if n = [] then ''MCP client'' else n)"

definition given_or :: "'a list \<Rightarrow> 'a list \<Rightarrow> 'a list" where
  "given_or xs d = (if xs = [] then d else xs)"

definition check_registration :: "acfg \<Rightarrow> client_registration \<Rightarrow> auth_err option" where
  "check_registration cf req =
     (if maxClientName < rune_count (client_name cf (rg_name req)) then Some (invalidMetadata ''client_name is too long'')
      else if rg_uris req = [] \<or> maxRedirectURIs < length (rg_uris req)
      then Some (invalidRedirect ''between 1 and 10 redirect_uris are required'')
      else case check_uris cf 0 (rg_uris req) of
          Some e \<Rightarrow> Some e
        | None \<Rightarrow>
            if \<not> list_all (\<lambda>g. g = ''authorization_code'' \<or> g = ''refresh_token'')
                 (given_or (rg_grants req) [''authorization_code'', ''refresh_token''])
            then Some (invalidMetadata ''unsupported grant_types'')
            else if \<not> list_all (\<lambda>r. r = ''code'') (given_or (rg_responses req) [''code''])
            then Some (invalidMetadata ''unsupported response_types'')
            else if given_or (rg_method req) ''none'' \<notin> {''none'', ''client_secret_post'', ''client_secret_basic''}
            then Some (invalidMetadata ''unsupported token_endpoint_auth_method'')
            else None)"

definition newSecret :: "acfg \<Rightarrow> string \<Rightarrow> (string \<times> string) act" where
  "newSecret cf prefix = chain random_text (\<lambda>b. give (prefix @ b, ac_hash cf (prefix @ b)))"

definition Register :: "acfg \<Rightarrow> client_registration \<Rightarrow> registered_client act" where
  "Register cf req =
     (if \<not> Enabled cf then refuse errDisabled
      else case check_registration cf req of
          Some e \<Rightarrow> refuse e
        | None \<Rightarrow> chain read_clock (\<lambda>now.
            chain (ignoring (acall (PurgeUnusedClients (now - UnusedClientTTL)))) (\<lambda>_.
            chain (acall CountUnusedClients) (\<lambda>unused.
            if MaxUnusedClients \<le> unused then refuse errTooManyClients
            else chain GenerateID (\<lambda>i.
              let method = given_or (rg_method req) ''none'';
                  c = \<lparr>cl_id = i, cl_name = client_name cf (rg_name req), cl_uris = rg_uris req, cl_secret = None,
                       cl_created = now, cl_used = None\<rparr>;
                  res = \<lparr>rc_id = i, rc_issued = time_unix now, rc_name = client_name cf (rg_name req),
                       rc_uris = rg_uris req,
                       rc_grants = given_or (rg_grants req) [''authorization_code'', ''refresh_token''],
                       rc_responses = given_or (rg_responses req) [''code''], rc_method = method,
                       rc_secret = [], rc_expires = None\<rparr>
              in chain (if method = ''none'' then give (c, res)
                        else chain (newSecret cf []) (\<lambda>(raw, hash).
                          give (c\<lparr>cl_secret := Some hash\<rparr>, res\<lparr>rc_secret := raw, rc_expires := Some 0\<rparr>)))
                   (\<lambda>(c', res'). chain (acall (InsertClient c')) (\<lambda>_. give res')))))))"

subsection \<open>The consent page (authorize.go)\<close>

record authorization_request =
  rq_client :: string
  rq_redirect :: string
  rq_type :: string
  rq_challenge :: string
  rq_method :: string
  rq_resource :: string
  rq_scope :: string
  rq_state :: string

record redirect_err =
  re_code :: string
  re_desc :: string
  re_drop :: bool

record authorization_description =
  de_client :: string
  de_host :: string
  de_loopback :: bool
  de_error :: string

definition validChallenge :: "string \<Rightarrow> bool" where
  "validChallenge c \<longleftrightarrow> length c = 43 \<and>
     list_all (\<lambda>b. between 65 90 b \<or> between 97 122 b \<or> between 48 57 b \<or> b = CHR ''-'' \<or> b = CHR ''_'') c"

definition trim_slashes :: "string \<Rightarrow> string" where
  "trim_slashes s = rev (dropWhile (\<lambda>c. c = CHR ''/'') (rev s))"

definition resourceOK :: "acfg \<Rightarrow> string \<Rightarrow> bool" where
  "resourceOK cf r \<longleftrightarrow> r = [] \<or> trim_slashes r = ResourceURL cf"

definition bad_parameter :: "acfg \<Rightarrow> authorization_request \<Rightarrow> redirect_err option" where
  "bad_parameter cf req =
     (if rq_type req \<noteq> ''code''
      then Some \<lparr>re_code = ''unsupported_response_type'', re_desc = ''response_type must be code'', re_drop = False\<rparr>
      else if rq_method req \<noteq> ''S256'' \<or> \<not> validChallenge (rq_challenge req)
      then Some \<lparr>re_code = ''invalid_request'', re_desc = ''PKCE with S256 is required'', re_drop = False\<rparr>
      else if maxState < length (rq_state req)
      then Some \<lparr>re_code = ''invalid_request'', re_desc = ''state is too long'', re_drop = True\<rparr>
      else if \<not> resourceOK cf (rq_resource req)
      then Some \<lparr>re_code = ''invalid_target'', re_desc = ''unknown resource'', re_drop = False\<rparr>
      else None)"

definition validate_request :: "acfg \<Rightarrow> authorization_request \<Rightarrow> (oauth_client \<times> redirect_err option) act" where
  "validate_request cf req =
     (if \<not> Enabled cf then refuse ErrAuthServerDisabled
      else if \<not> ac_uuid cf (rq_client req) then refuse ErrOAuthClientUnknown
      else chain (acall (GetClient (rq_client req))) (\<lambda>found.
        case found of None \<Rightarrow> refuse ErrOAuthClientUnknown
        | Some c \<Rightarrow>
            if \<not> MatchRedirectURI cf (cl_uris c) (rq_redirect req) then refuse ErrOAuthRedirect
            else give (c, bad_parameter cf req)))"

definition redirectWith :: "acfg \<Rightarrow> string \<Rightarrow> (string, string list) gomap \<Rightarrow> string" where
  "redirectWith cf base params =
     (case ac_parse cf base of None \<Rightarrow> base
      | Some u \<Rightarrow> ac_render cf u (mput ''iss'' [ac_issuer cf] (fold (\<lambda>(k, v) q. mput k v q) params (ur_values u))))"

definition errorRedirect :: "acfg \<Rightarrow> authorization_request \<Rightarrow> redirect_err \<Rightarrow> string" where
  "errorRedirect cf req re = redirectWith cf (rq_redirect req)
     ([(''error'', [re_code re])] @
      (if re_desc re = [] then [] else [(''error_description'', [re_desc re])]) @
      (if rq_state req = [] \<or> re_drop re then [] else [(''state'', [rq_state req])]))"

definition DescribeAuthorization :: "acfg \<Rightarrow> authorization_request \<Rightarrow> authorization_description act" where
  "DescribeAuthorization cf req = chain (validate_request cf req) (\<lambda>(c, re).
     let (host, loopback) = RedirectHost cf (rq_redirect req)
     in give \<lparr>de_client = cl_name c, de_host = host, de_loopback = loopback,
          de_error = (case re of None \<Rightarrow> [] | Some e \<Rightarrow> errorRedirect cf req e)\<rparr>)"

definition approved_code :: "acfg \<Rightarrow> string \<Rightarrow> oauth_client \<Rightarrow> string \<Rightarrow> authorization_request \<Rightarrow> time \<Rightarrow> oauth_code" where
  "approved_code cf u c hash req now = \<lparr>oc_hash = hash, oc_client = cl_id c, oc_user = u, oc_redirect = rq_redirect req,
     oc_challenge = rq_challenge req, oc_resource = ResourceURL cf, oc_created = now, oc_expires = now + CodeTTL\<rparr>"

definition code_redirect :: "acfg \<Rightarrow> authorization_request \<Rightarrow> string \<Rightarrow> string" where
  "code_redirect cf req raw = redirectWith cf (rq_redirect req)
     ([(''code'', [raw])] @ (if rq_state req = [] then [] else [(''state'', [rq_state req])]))"

definition ApproveAuthorization :: "acfg \<Rightarrow> string \<Rightarrow> authorization_request \<Rightarrow> string act" where
  "ApproveAuthorization cf u req = chain (validate_request cf req) (\<lambda>(c, re).
     case re of Some e \<Rightarrow> give (errorRedirect cf req e)
     | None \<Rightarrow> chain (newSecret cf []) (\<lambda>(raw, hash). chain read_clock (\<lambda>now.
         chain (WithTx (chain (acall (InsertCode (approved_code cf u c hash req now)))
             (\<lambda>_. acall (MarkClientUsed (cl_id c) now))))
           (\<lambda>_. give (code_redirect cf req raw)))))"

definition DeclineAuthorization :: "acfg \<Rightarrow> authorization_request \<Rightarrow> string act" where
  "DeclineAuthorization cf req = chain (validate_request cf req) (\<lambda>(c, re).
     case re of Some e \<Rightarrow> give (errorRedirect cf req e)
     | None \<Rightarrow> give (errorRedirect cf req \<lparr>re_code = ''access_denied'', re_desc = [], re_drop = False\<rparr>))"


subsection \<open>PKCE (pkce.go)\<close>

definition VerifyPKCE :: "acfg \<Rightarrow> string \<Rightarrow> string \<Rightarrow> bool" where
  "VerifyPKCE cf verifier challenge \<longleftrightarrow>
     \<not> (length verifier < 43 \<or> 128 < length verifier \<or> challenge = []) \<and> ac_challenge cf verifier = challenge"

subsection \<open>The token endpoint (token.go)\<close>

record token_request =
  tq_type :: string
  tq_code :: string
  tq_redirect :: string
  tq_verifier :: string
  tq_refresh :: string
  tq_resource :: string
  tq_scope :: string
  tq_client :: string
  tq_secret :: string

record token_response =
  ts_access :: string
  ts_type :: string
  ts_expires :: int
  ts_refresh :: string
  ts_scope :: string

definition tokenResponse :: "string \<Rightarrow> string \<Rightarrow> token_response" where
  "tokenResponse access refresh = \<lparr>ts_access = access, ts_type = ''Bearer'', ts_expires = quot AccessTokenTTL second,
     ts_refresh = refresh, ts_scope = ScopeMCP\<rparr>"

definition grant_live :: "oauth_grant \<Rightarrow> time \<Rightarrow> bool" where
  "grant_live g now \<longleftrightarrow> og_revoked g = None \<and> now < og_expires g"

definition authenticateClient :: "acfg \<Rightarrow> string \<Rightarrow> string \<Rightarrow> oauth_client act" where
  "authenticateClient cf i secret =
     (if \<not> ac_uuid cf i then refuse errBadClient
      else chain (acall (GetClient i)) (\<lambda>found.
        case found of None \<Rightarrow> refuse errBadClient
        | Some c \<Rightarrow>
            (case cl_secret c of Some h \<Rightarrow> if ac_hash cf secret \<noteq> h then refuse errBadClient else give c
             | None \<Rightarrow> give c)))"

definition housekeepingDue :: "time \<Rightarrow> bool act" where
  "housekeepingDue now x =
     (if \<not> is_zero (ax_hk x) \<and> \<not> now < ax_hk x \<and> time_sub now (ax_hk x) < HousekeepingInterval
      then (Inr False, x) else (Inr True, x\<lparr>ax_hk := now\<rparr>))"

definition housekeeping :: "time \<Rightarrow> unit act" where
  "housekeeping now = chain (housekeepingDue now) (\<lambda>due.
     if \<not> due then give ()
     else chain (ignoring (acall (PurgeExpiredCodes now)))
       (\<lambda>_. ignoring (acall (DeleteDeadGrants (now - DeadRetention)))))"

definition fresh_grant :: "string \<Rightarrow> string \<Rightarrow> string \<Rightarrow> string \<Rightarrow> time \<Rightarrow> oauth_grant" where
  "fresh_grant i u c hash now = \<lparr>og_id = i, og_user = u, og_client = c, og_hash = hash, og_prev = None, og_rotated = None,
     og_created = now, og_used = now, og_expires = now + GrantIdleTTL, og_revoked = None\<rparr>"

fun revoke_replaced :: "string list \<Rightarrow> unit act" where
  "revoke_replaced [] = give ()"
| "revoke_replaced (i # is) = chain (RevokeGrantTokens i) (\<lambda>_. revoke_replaced is)"

definition exchange_body :: "acfg \<Rightarrow> oauth_code \<Rightarrow> oauth_client \<Rightarrow> time \<Rightarrow> token_response act" where
  "exchange_body cf code c now =
     chain (newSecret cf refreshPrefix) (\<lambda>(raw, hash).
     chain (acall (LockUserGrants (oc_user code))) (\<lambda>found.
     if \<not> found then refuse errInvalidGrant
     else chain GenerateID (\<lambda>i.
       chain (acall (InsertGrant (fresh_grant i (oc_user code) (cl_id c) hash now))) (\<lambda>_.
       chain (IssueOAuthAccess cf (oc_user code) i AccessTokenTTL) (\<lambda>access.
       chain (acall (RevokeOtherGrants (oc_user code) (cl_id c) i now)) (\<lambda>replaced.
       chain (revoke_replaced replaced) (\<lambda>_. give (tokenResponse access raw))))))))"

definition code_fits :: "acfg \<Rightarrow> token_request \<Rightarrow> oauth_client \<Rightarrow> oauth_code \<Rightarrow> time \<Rightarrow> bool" where
  "code_fits cf req c code now \<longleftrightarrow> now < oc_expires code \<and> oc_client code = cl_id c \<and>
     oc_redirect code = tq_redirect req \<and> VerifyPKCE cf (tq_verifier req) (oc_challenge code)"

definition exchange :: "acfg \<Rightarrow> token_request \<Rightarrow> token_response act" where
  "exchange cf req =
     (if tq_client req = [] then refuse errBadClient
      else if tq_code req = [] then refuse (missingParam ''code'')
      else if tq_redirect req = [] then refuse (missingParam ''redirect_uri'')
      else if tq_verifier req = [] then refuse (missingParam ''code_verifier'')
      else chain (authenticateClient cf (tq_client req) (tq_secret req)) (\<lambda>c.
        chain read_clock (\<lambda>now.
        chain (acall (ConsumeCode (ac_hash cf (tq_code req)))) (\<lambda>found.
        case found of None \<Rightarrow> refuse errInvalidGrant
        | Some code \<Rightarrow>
            if \<not> code_fits cf req c code now then refuse errInvalidGrant
            else if \<not> resourceOK cf (tq_resource req) then refuse errBadTarget
            else chain (WithTx (exchange_body cf code c now)) (\<lambda>resp.
              chain (housekeeping now) (\<lambda>_. give resp))))))"

text \<open>revokeGrant of grants.go.\<close>

definition revokeGrant :: "string \<Rightarrow> time \<Rightarrow> unit act" where
  "revokeGrant i now = WithTx (chain (acall (RevokeGrant i now)) (\<lambda>_. RevokeGrantTokens i))"

text \<open>The token rotated away last, presented again within the grace window. The distance of the instants
  is a \<open>time.Duration\<close>: the least one is its own negation.\<close>

definition elapsed :: "time \<Rightarrow> time \<Rightarrow> duration" where
  "elapsed now t = (let d = time_sub now t in if d < 0 \<and> d \<noteq> min_duration then - d else d)"

definition in_grace :: "oauth_grant \<Rightarrow> string \<Rightarrow> time \<Rightarrow> bool" where
  "in_grace g hash now \<longleftrightarrow> og_prev g = Some hash \<and>
     (case og_rotated g of None \<Rightarrow> False | Some t \<Rightarrow> elapsed now t \<le> RefreshGrace)"

definition handleRotatedRefresh :: "string \<Rightarrow> string \<Rightarrow> time \<Rightarrow> 'a act" where
  "handleRotatedRefresh hash clientID now =
     chain (acall (GetGrantBySpentRefreshHash hash)) (\<lambda>found.
       case found of None \<Rightarrow> refuse errInvalidGrant
       | Some g \<Rightarrow>
           if og_client g \<noteq> clientID \<or> og_revoked g \<noteq> None then refuse errInvalidGrant
           else if in_grace g hash now then refuse errInvalidGrant
           else chain (revokeGrant (og_id g) now) (\<lambda>_. refuse errInvalidGrant))"

definition refresh_body :: "acfg \<Rightarrow> oauth_grant \<Rightarrow> string \<Rightarrow> time \<Rightarrow> token_response act" where
  "refresh_body cf g hash now =
     chain (newSecret cf refreshPrefix) (\<lambda>(raw, newHash).
     chain (acall (RotateGrant (og_id g) hash newHash now (now + GrantIdleTTL))) (\<lambda>n.
     if n = 0 then refuse errInvalidGrant
     else chain (acall (InsertSpentRefreshHash (og_id g) hash now)) (\<lambda>_.
       chain (IssueOAuthAccess cf (og_user g) (og_id g) AccessTokenTTL) (\<lambda>access.
       give (tokenResponse access raw)))))"

definition refresh :: "acfg \<Rightarrow> token_request \<Rightarrow> token_response act" where
  "refresh cf req =
     (if tq_client req = [] then refuse errBadClient
      else if tq_refresh req = [] then refuse (missingParam ''refresh_token'')
      else chain (authenticateClient cf (tq_client req) (tq_secret req)) (\<lambda>c.
        if \<not> resourceOK cf (tq_resource req) then refuse errBadTarget
        else chain read_clock (\<lambda>now.
          let hash = ac_hash cf (tq_refresh req)
          in chain (acall (GetGrantByRefreshHash hash)) (\<lambda>found.
               case found of None \<Rightarrow> handleRotatedRefresh hash (cl_id c) now
               | Some g \<Rightarrow>
                   if og_client g \<noteq> cl_id c \<or> \<not> grant_live g now then refuse errInvalidGrant
                   else chain (WithTx (refresh_body cf g hash now)) (\<lambda>resp.
                     chain (housekeeping now) (\<lambda>_. give resp))))))"

definition Token :: "acfg \<Rightarrow> token_request \<Rightarrow> token_response act" where
  "Token cf req =
     (if \<not> Enabled cf then refuse errDisabled
      else if tq_type req = ''authorization_code'' then exchange cf req
      else if tq_type req = ''refresh_token'' then refresh cf req
      else refuse (OAuthError 400 ''unsupported_grant_type'' ''unsupported grant_type''))"

subsection \<open>Connected apps (grants.go)\<close>

record connected_app =
  ca_grant :: string
  ca_client :: string
  ca_host :: string
  ca_loopback :: bool
  ca_created :: time
  ca_used :: time

definition connected_app_of :: "acfg \<Rightarrow> oauth_grant \<times> string \<times> string list \<Rightarrow> connected_app" where
  "connected_app_of cf = (\<lambda>(g, name, uris).
     (let (host, loopback) = (case uris of [] \<Rightarrow> ([], False) | u # _ \<Rightarrow> RedirectHost cf u)
      in \<lparr>ca_grant = og_id g, ca_client = name, ca_host = host, ca_loopback = loopback,
          ca_created = og_created g, ca_used = og_used g\<rparr>))"

definition ListConnectedApps :: "acfg \<Rightarrow> string \<Rightarrow> connected_app list act" where
  "ListConnectedApps cf u = chain (acall (ListUnrevokedGrants u)) (\<lambda>rows. chain read_clock (\<lambda>now.
     give (map (connected_app_of cf) (filter (\<lambda>r. grant_live (fst r) now) rows))))"

definition RevokeConnectedApp :: "string \<Rightarrow> string \<Rightarrow> unit act" where
  "RevokeConnectedApp u i = chain (acall (GetGrant i)) (\<lambda>found.
     case found of None \<Rightarrow> refuse ErrGrantNotFound
     | Some g \<Rightarrow>
         if og_user g \<noteq> u \<or> og_revoked g \<noteq> None then refuse ErrGrantNotFound
         else chain read_clock (\<lambda>now. revokeGrant i now))"

end
