(* ===== verification/Auth_Sound.thy ===== *)
theory Auth_Sound
  imports Auth_Server
begin

text \<open>
  The use cases change the database through the operations of \<open>auth_op\<close> only: whatever an instance does,
  the database it leaves is the one it found after some of the others' operations and its own, and its
  own operations issue the hashes of secrets it drew and open grants under ids it drew (\<open>guar\<close>). So a
  fact that no such operation undoes holds after every use case, at every interleaving: what the
  environment of one request is assumed to do is exactly what every request is shown to do.
\<close>

definition shrinks :: "ax \<Rightarrow> ax \<Rightarrow> bool" where
  "shrinks x x' \<longleftrightarrow> ax_tx x' = ax_tx x \<and> set (ax_env x') \<subseteq> set (ax_env x) \<and> set (ax_rand x') \<subseteq> set (ax_rand x) \<and>
     set (ax_ids x') \<subseteq> set (ax_ids x)"

definition env_ops :: "ax \<Rightarrow> auth_op list" where
  "env_ops x = concat (map tn_ops (ax_env x))"

definition token_prefixes :: "string list" where
  "token_prefixes = [[], refreshPrefix, prefixes TokenSession, prefixes TokenPAT, prefixes TokenOAuth]"

definition secrets :: "acfg \<Rightarrow> ax \<Rightarrow> string set" where
  "secrets cf x = {ac_hash cf (p @ r) | p r. p \<in> set token_prefixes \<and> Some r \<in> set (ax_rand x)}"

text \<open>An operation of the environment, or one of the instance's own.\<close>

definition fits :: "acfg \<Rightarrow> ax \<Rightarrow> auth_op \<Rightarrow> bool" where
  "fits cf x op \<longleftrightarrow> op \<in> set (env_ops x) \<or> op_ok op \<and> op_hashes op \<subseteq> secrets cf x \<and> op_opens op \<subseteq> set (ax_ids x)"

definition guar :: "acfg \<Rightarrow> ax \<Rightarrow> ax \<Rightarrow> bool" where
  "guar cf x x' \<longleftrightarrow> shrinks x x' \<and> (\<exists>ops. ax_db x' = fold auth_exec ops (ax_db x) \<and> (\<forall>op \<in> set ops. fits cf x op))"

definition sound :: "acfg \<Rightarrow> 'a act \<Rightarrow> bool" where
  "sound cf f \<longleftrightarrow> (\<forall>x. \<not> ax_tx x \<longrightarrow> [] \<notin> set (ax_ids x) \<longrightarrow> guar cf x (snd (f x)))"

definition frugal :: "'a act \<Rightarrow> bool" where
  "frugal f \<longleftrightarrow> (\<forall>x. shrinks x (snd (f x)))"

lemma shrinks_refl [simp]: "shrinks x x"
  by (simp add: shrinks_def)

lemma shrinks_trans: "shrinks x y \<Longrightarrow> shrinks y z \<Longrightarrow> shrinks x z"
  by (auto simp: shrinks_def)

lemma fits_mono: "shrinks x y \<Longrightarrow> fits cf y op \<Longrightarrow> fits cf x op"
proof -
  assume s: "shrinks x y" and f: "fits cf y op"
  have "set (env_ops y) \<subseteq> set (env_ops x)" using s by (auto simp: shrinks_def env_ops_def)
  moreover have "secrets cf y \<subseteq> secrets cf x" using s unfolding shrinks_def secrets_def by blast
  ultimately show ?thesis using f s unfolding fits_def shrinks_def by blast
qed

lemma guar_refl [simp]: "guar cf x x"
proof -
  have "ax_db x = fold auth_exec [] (ax_db x) \<and> (\<forall>op \<in> set []. fits cf x op)" by simp
  then show ?thesis unfolding guar_def using shrinks_refl by blast
qed

lemma guar_trans:
  assumes "guar cf x y" "guar cf y z"
  shows "guar cf x z"
proof -
  obtain a where a: "ax_db y = fold auth_exec a (ax_db x)" "\<forall>op \<in> set a. fits cf x op" "shrinks x y"
    using assms(1) by (auto simp: guar_def)
  obtain b where b: "ax_db z = fold auth_exec b (ax_db y)" "\<forall>op \<in> set b. fits cf y op" "shrinks y z"
    using assms(2) by (auto simp: guar_def)
  have "ax_db z = fold auth_exec (a @ b) (ax_db x)" using a(1) b(1) by simp
  moreover have "\<forall>op \<in> set (a @ b). fits cf x op" using a(2) b(2) fits_mono [OF a(3)] by auto
  ultimately show ?thesis using shrinks_trans [OF a(3) b(3)] unfolding guar_def by blast
qed

lemma guar_tx: "guar cf x y \<Longrightarrow> ax_tx y = ax_tx x" "guar cf x y \<Longrightarrow> set (ax_ids y) \<subseteq> set (ax_ids x)"
  by (simp_all add: guar_def shrinks_def)

subsection \<open>Composition\<close>

named_theorems acts \<open>sound and frugal actions\<close>

lemma frugal_chain [acts]: "frugal m \<Longrightarrow> (\<And>v. frugal (f v)) \<Longrightarrow> frugal (chain m f)"
  unfolding frugal_def chain_def by (auto split: prod.split sum.split) (metis shrinks_trans snd_conv)+

lemma sound_chain [acts]:
  assumes "sound cf m" "\<And>v. sound cf (f v)"
  shows "sound cf (chain m f)"
  unfolding sound_def
proof (intro allI impI)
  fix x :: ax assume x: "\<not> ax_tx x" "[] \<notin> set (ax_ids x)"
  have m: "guar cf x (snd (m x))" using assms(1) x by (simp add: sound_def)
  then have y: "\<not> ax_tx (snd (m x))" "[] \<notin> set (ax_ids (snd (m x)))" using x guar_tx by (auto, blast)
  show "guar cf x (snd (chain m f x))"
  proof (cases "fst (m x)")
    case (Inl e)
    then show ?thesis using m by (simp add: chain_def split_beta)
  next
    case (Inr v)
    have "guar cf (snd (m x)) (snd (f v (snd (m x))))" using assms(2) y by (simp add: sound_def)
    then show ?thesis using Inr guar_trans [OF m] by (simp add: chain_def split_beta)
  qed
qed

lemma split_act [acts]:
  "(\<And>a b. frugal (f a b)) \<Longrightarrow> frugal (case p of (a, b) \<Rightarrow> f a b)"
  "(\<And>a b. sound cf (g a b)) \<Longrightarrow> sound cf (case p of (a, b) \<Rightarrow> g a b)"
  by (cases p; simp)+

lemma if_act [acts]:
  "frugal f \<Longrightarrow> frugal g \<Longrightarrow> frugal (if b then f else g)"
  "sound cf f \<Longrightarrow> sound cf g \<Longrightarrow> sound cf (if b then f else g)"
  by simp_all

lemma option_act [acts]:
  "frugal f \<Longrightarrow> (\<And>v. frugal (g v)) \<Longrightarrow> frugal (case r of None \<Rightarrow> f | Some v \<Rightarrow> g v)"
  "sound cf f \<Longrightarrow> (\<And>v. sound cf (g v)) \<Longrightarrow> sound cf (case r of None \<Rightarrow> f | Some v \<Rightarrow> g v)"
  by (cases r; simp)+

lemma give_act [acts]: "frugal (give v)" "sound cf (give v)"
  by (simp_all add: frugal_def sound_def give_def)

lemma refuse_act [acts]: "frugal (refuse e)" "sound cf (refuse e)"
  by (simp_all add: frugal_def sound_def refuse_def)

lemma ignoring_act [acts]: "frugal m \<Longrightarrow> frugal (ignoring m)" "sound cf m \<Longrightarrow> sound cf (ignoring m)"
  by (simp_all add: frugal_def sound_def ignoring_def)

lemma supplies_frugal [acts]: "frugal read_clock" "frugal random_text" "frugal GenerateID"
  by (auto simp: frugal_def read_clock_def random_text_def GenerateID_def shrinks_def split: list.split)

lemma due_frugal [acts]: "frugal (housekeepingDue now)"
  by (simp add: frugal_def housekeepingDue_def shrinks_def)

lemma sound_quiet:
  assumes "frugal f" "\<And>x. ax_db (snd (f x)) = ax_db x"
  shows "sound cf f"
proof -
  have "ax_db (snd (f x)) = fold auth_exec [] (ax_db x) \<and> (\<forall>op \<in> set []. fits cf x op)" for x using assms(2) by simp
  then show ?thesis unfolding sound_def guar_def using assms(1) unfolding frugal_def by blast
qed

lemma supplies_sound [acts]: "sound cf read_clock" "sound cf random_text" "sound cf GenerateID" "sound cf (housekeepingDue now)"
  by (rule sound_quiet; simp add: acts read_clock_def random_text_def GenerateID_def housekeepingDue_def split: list.split)+

lemma tl_subset: "set (tl xs) \<subseteq> set xs"
  by (cases xs) auto

lemma tlD: "a \<in> set (tl xs) \<Longrightarrow> a \<in> set xs"
  by (cases xs) auto

lemma acall_shrinks [simp]: "shrinks x (snd (acall m x))"
proof -
  obtain res db where "attempt (tn_fault (next_turn x)) m (seen x) = (res, db)" by fastforce
  then have "snd (acall m x) = x\<lparr>ax_db := db, ax_env := tl (ax_env x)\<rparr>"
    unfolding acall_def by (simp only: Let_def prod.case snd_conv)
  then show ?thesis using tl_subset [of "ax_env x"] by (simp add: shrinks_def)
qed

lemma acall_frugal [acts]: "frugal (acall m)"
  by (simp add: frugal_def)

text \<open>The others' operations a call sees first.\<close>

lemma seen_ops:
  assumes "\<not> ax_tx x"
  shows "seen x = fold auth_exec (tn_ops (next_turn x)) (ax_db x)" "\<forall>op \<in> set (tn_ops (next_turn x)). fits cf x op"
  using assms by (auto simp: seen_def next_turn_def quiet_turn_def fits_def env_ops_def split: list.splits)

lemma guar_intro:
  assumes "\<not> ax_tx x" "shrinks x x'" "ax_db x' = seen x \<or> (\<exists>op. fits cf x op \<and> ax_db x' = auth_exec op (seen x))"
  shows "guar cf x x'"
proof -
  let ?ops = "tn_ops (next_turn x)"
  from assms(3) show ?thesis
  proof
    assume "ax_db x' = seen x"
    then show ?thesis using seen_ops [OF assms(1)] assms(2) unfolding guar_def by metis
  next
    assume "\<exists>op. fits cf x op \<and> ax_db x' = auth_exec op (seen x)"
    then obtain op where op: "fits cf x op" "ax_db x' = auth_exec op (seen x)" by blast
    then have "ax_db x' = fold auth_exec (?ops @ [op]) (ax_db x)" "\<forall>o' \<in> set (?ops @ [op]). fits cf x o'"
      using seen_ops [OF assms(1)] by auto
    then show ?thesis using assms(2) unfolding guar_def by blast
  qed
qed

lemma acall_db: "ax_db (snd (acall m x)) \<in> {seen x, snd (m (seen x))}"
  using attempt_state [of "tn_fault (next_turn x)" m "seen x"] by (simp add: acall_def Let_def split_beta)

lemma guar_acall:
  assumes x: "\<not> ax_tx x" and op: "fits cf x op" and m: "\<And>db. snd (m db) = db \<or> snd (m db) = auth_exec op db"
  shows "guar cf x (snd (acall m x))"
proof (rule guar_intro [OF x])
  show "shrinks x (snd (acall m x))" by simp
  show "ax_db (snd (acall m x)) = seen x \<or> (\<exists>op. fits cf x op \<and> ax_db (snd (acall m x)) = auth_exec op (seen x))"
    using acall_db [of m x] m [of "seen x"] op by auto
qed

lemma sound_read [acts]:
  assumes "\<And>db. snd (m db) = db"
  shows "sound cf (acall m)"
  unfolding sound_def
proof (intro allI impI)
  fix x :: ax assume x: "\<not> ax_tx x"
  show "guar cf x (snd (acall m x))"
    using acall_db [of m x] assms [of "seen x"] by (intro guar_intro [OF x]) auto
qed

lemma sound_write:
  assumes "\<And>db. snd (m db) = db \<or> snd (m db) = auth_exec op db" "op_ok op" "op_hashes op = {}" "op_opens op = {}"
  shows "sound cf (acall m)"
  unfolding sound_def using assms by (intro allI impI guar_acall [where op = op]) (auto simp: fits_def)

text \<open>A transaction: what it leaves is what it found, or what its body made of that.\<close>

definition tx_start :: "ax \<Rightarrow> ax" where
  "tx_start x = x\<lparr>ax_db := seen x, ax_env := tl (ax_env x), ax_tx := True\<rparr>"

lemma WithTx_alt:
  "WithTx body x =
     (if tn_fault (next_turn x) \<noteq> NoFault then (Inl AuthStore, x\<lparr>ax_db := seen x, ax_env := tl (ax_env x)\<rparr>)
      else (case body (tx_start x) of
          (Inl e, x1) \<Rightarrow> (Inl e, x1\<lparr>ax_db := seen x, ax_tx := False\<rparr>)
        | (Inr v, x1) \<Rightarrow>
            (let x2 = x1\<lparr>ax_env := tl (ax_env x1), ax_tx := False\<rparr>
             in case tn_fault (next_turn x1) of NoFault \<Rightarrow> (Inr v, x2)
                | FailBefore \<Rightarrow> (Inl AuthStore, x2\<lparr>ax_db := seen x\<rparr>)
                | FailAfter \<Rightarrow> (Inl AuthStore, x2))))"
  by (simp add: WithTx_def tx_start_def Let_def)

lemma tx_start [simp]:
  "ax_tx (tx_start x)" "ax_db (tx_start x) = seen x" "ax_rand (tx_start x) = ax_rand x" "ax_ids (tx_start x) = ax_ids x"
  "ax_env (tx_start x) = tl (ax_env x)" "ax_now (tx_start x) = ax_now x" "ax_clock (tx_start x) = ax_clock x"
  by (simp_all add: tx_start_def)

lemma WithTx_cases:
  obtains "snd (WithTx body x) = x\<lparr>ax_db := seen x, ax_env := tl (ax_env x)\<rparr>" "fst (WithTx body x) = Inl AuthStore"
  | e x1 where "body (tx_start x) = (Inl e, x1)" "WithTx body x = (Inl e, x1\<lparr>ax_db := seen x, ax_tx := False\<rparr>)"
  | v x1 where "body (tx_start x) = (Inr v, x1)" "fst (WithTx body x) \<in> {Inr v, Inl AuthStore}"
      "\<exists>d. snd (WithTx body x) = x1\<lparr>ax_db := d, ax_env := tl (ax_env x1), ax_tx := False\<rparr> \<and> (d = ax_db x1 \<or> d = seen x) \<and>
         (fst (WithTx body x) = Inr v \<longrightarrow> d = ax_db x1)"
proof (cases "tn_fault (next_turn x) = NoFault")
  case True
  obtain r x1 where b: "body (tx_start x) = (r, x1)" by fastforce
  show ?thesis
  proof (cases r)
    case (Inl e)
    have "WithTx body x = (Inl e, x1\<lparr>ax_db := seen x, ax_tx := False\<rparr>)" using True b Inl by (simp add: WithTx_alt)
    then show ?thesis using that(2) b Inl by blast
  next
    case (Inr v)
    have f: "fst (WithTx body x) \<in> {Inr v, Inl AuthStore}"
      using True b Inr by (simp add: WithTx_alt Let_def split: fault.split)
    have "snd (WithTx body x) = x1\<lparr>ax_env := tl (ax_env x1), ax_tx := False\<rparr> \<or>
        snd (WithTx body x) = x1\<lparr>ax_env := tl (ax_env x1), ax_tx := False, ax_db := seen x\<rparr> \<and> fst (WithTx body x) \<noteq> Inr v"
      using True b Inr by (simp add: WithTx_alt Let_def split: fault.split)
    then have "\<exists>d. snd (WithTx body x) = x1\<lparr>ax_db := d, ax_env := tl (ax_env x1), ax_tx := False\<rparr> \<and> (d = ax_db x1 \<or> d = seen x) \<and>
         (fst (WithTx body x) = Inr v \<longrightarrow> d = ax_db x1)"
    proof
      assume "snd (WithTx body x) = x1\<lparr>ax_env := tl (ax_env x1), ax_tx := False\<rparr>"
      then show ?thesis by (intro exI [of _ "ax_db x1"]) simp
    next
      assume "snd (WithTx body x) = x1\<lparr>ax_env := tl (ax_env x1), ax_tx := False, ax_db := seen x\<rparr> \<and> fst (WithTx body x) \<noteq> Inr v"
      then show ?thesis by (intro exI [of _ "seen x"]) (simp add: ax.equality)
    qed
    then show ?thesis using that(3) b Inr f by blast
  qed
next
  case False
  then show ?thesis using that(1) by (simp add: WithTx_alt)
qed

lemma WithTx_shrinks:
  assumes "frugal body" "\<not> ax_tx x"
  shows "shrinks x (snd (WithTx body x))"
proof -
  have s: "shrinks (tx_start x) (snd (body (tx_start x)))" using assms(1) by (simp add: frugal_def)
  show ?thesis
  proof (cases rule: WithTx_cases [where body = body and x = x])
    case 1
    then show ?thesis using tl_subset [of "ax_env x"] by (simp add: shrinks_def)
  next
    case (2 e x1)
    then show ?thesis using s assms(2) tl_subset [of "ax_env x"] by (auto simp: shrinks_def dest: tlD)
  next
    case (3 v x1)
    then obtain d where "snd (WithTx body x) = x1\<lparr>ax_db := d, ax_env := tl (ax_env x1), ax_tx := False\<rparr>" by blast
    moreover have "shrinks (tx_start x) x1" using s 3(1) by simp
    then have "set (tl (ax_env x1)) \<subseteq> set (ax_env x)"
      using tl_subset [of "ax_env x1"] tl_subset [of "ax_env x"] unfolding shrinks_def tx_start(5) by (meson subset_trans)
    ultimately show ?thesis using \<open>shrinks (tx_start x) x1\<close> assms(2) by (simp add: shrinks_def)
  qed
qed

lemma WithTx_db:
  assumes "\<And>v y1. body (tx_start x) = (Inr v, y1) \<Longrightarrow> P (ax_db y1)"
  shows "ax_db (snd (WithTx body x)) = seen x \<or> P (ax_db (snd (WithTx body x)))"
  by (cases rule: WithTx_cases [where body = body and x = x]) (use assms in auto)

lemma WithTx_Inr:
  assumes "WithTx body x = (Inr v, x1)"
  obtains y1 where "body (tx_start x) = (Inr v, y1)" "x1 = y1\<lparr>ax_env := tl (ax_env y1), ax_tx := False\<rparr>"
  using assms by (auto simp: WithTx_alt Let_def split: if_splits prod.splits sum.splits fault.splits)

lemma guar_WithTx:
  assumes "\<not> ax_tx x" "frugal body"
    "\<And>y v y1. ax_tx y \<Longrightarrow> ax_rand y = ax_rand x \<Longrightarrow> ax_ids y = ax_ids x \<Longrightarrow> body y = (Inr v, y1) \<Longrightarrow>
       \<exists>op. fits cf x op \<and> ax_db y1 = auth_exec op (ax_db y)"
  shows "guar cf x (snd (WithTx body x))"
proof (rule guar_intro [OF assms(1)])
  show "shrinks x (snd (WithTx body x))" by (rule WithTx_shrinks [OF assms(2,1)])
  show "ax_db (snd (WithTx body x)) = seen x \<or> (\<exists>op. fits cf x op \<and> ax_db (snd (WithTx body x)) = auth_exec op (seen x))"
  proof (rule WithTx_db)
    fix v y1 assume "body (tx_start x) = (Inr v, y1)"
    then show "\<exists>op. fits cf x op \<and> ax_db y1 = auth_exec op (seen x)" using assms(3) [of "tx_start x" v y1] by simp
  qed
qed

subsection \<open>What a successful action did\<close>

lemma chain_Inr: "chain m f x = (Inr v, x2) \<longleftrightarrow> (\<exists>u x1. m x = (Inr u, x1) \<and> f u x1 = (Inr v, x2))"
  by (auto simp: chain_def split: prod.splits sum.splits)

lemma acall_Inr:
  assumes "acall m x = (Inr v, x1)"
  shows "m (seen x) = (Some v, ax_db x1)" "x1 = x\<lparr>ax_db := ax_db x1, ax_env := tl (ax_env x)\<rparr>" "tn_fault (next_turn x) = NoFault"
proof -
  obtain res db where r: "attempt (tn_fault (next_turn x)) m (seen x) = (res, db)" by fastforce
  have f: "(case res of Some (Some w) \<Rightarrow> Inr w | _ \<Rightarrow> Inl AuthStore) = (Inr v :: auth_err + 'a)"
    and x1: "x1 = x\<lparr>ax_db := db, ax_env := tl (ax_env x)\<rparr>"
    using assms unfolding acall_def by (simp_all only: r Let_def prod.case prod.inject)
  have res: "res = Some (Some v)" using f by (auto split: option.splits)
  show "m (seen x) = (Some v, ax_db x1)" using attempt_Some [of "tn_fault (next_turn x)" m "seen x" "Some v" db] r res x1 by simp
  show "x1 = x\<lparr>ax_db := ax_db x1, ax_env := tl (ax_env x)\<rparr>" using x1 by simp
  show "tn_fault (next_turn x) = NoFault" using r res by (cases "tn_fault (next_turn x)") (auto simp: attempt_def)
qed

lemma random_Inr: "random_text x = (Inr s, x1) \<Longrightarrow> \<exists>rs. ax_rand x = Some s # rs \<and> x1 = x\<lparr>ax_rand := rs\<rparr>"
  by (auto simp: random_text_def split: list.splits option.splits)

lemma GenerateID_Inr: "GenerateID x = (Inr i, x1) \<Longrightarrow> \<exists>r. ax_ids x = i # r \<and> x1 = x\<lparr>ax_ids := r\<rparr>"
  by (auto simp: GenerateID_def split: list.splits)

lemma newSecret_Inr:
  "newSecret cf p x = (Inr (raw, h), x1) \<Longrightarrow>
   \<exists>b rs. ax_rand x = Some b # rs \<and> x1 = x\<lparr>ax_rand := rs\<rparr> \<and> raw = p @ b \<and> h = ac_hash cf raw"
  unfolding newSecret_def chain_Inr give_def by (auto dest: random_Inr)

text \<open>The readings of the clock still to come, the last one included.\<close>

definition readings :: "ax \<Rightarrow> time set" where
  "readings x = insert (ax_now x) (set (ax_clock x))"

lemma read_clock_Inr:
  assumes "read_clock x = (Inr t, x1)"
  shows "x1 = x\<lparr>ax_now := t, ax_clock := tl (ax_clock x)\<rparr>" "t \<in> readings x" "readings x1 \<subseteq> readings x"
  using assms by (auto simp: read_clock_def readings_def split: list.splits)

lemma seen_tx [simp]: "ax_tx x \<Longrightarrow> seen x = ax_db x"
  by (simp add: seen_def)

lemma seen_frame [simp]:
  "seen (x\<lparr>ax_rand := r\<rparr>) = seen x" "seen (x\<lparr>ax_ids := i\<rparr>) = seen x" "seen (x\<lparr>ax_now := t, ax_clock := c\<rparr>) = seen x"
  "seen (x\<lparr>ax_hk := t\<rparr>) = seen x"
  by (simp_all add: seen_def next_turn_def)

lemma issue_Inr:
  assumes "issue cf t x = (Inr (t', raw), x1)"
  shows "\<exists>b i rs is env. ax_rand x = Some b # rs \<and> ax_ids x = i # is \<and> raw = prefixes (at_kind t) @ b \<and>
     t' = t\<lparr>at_id := i, at_prefix := (if at_kind t = TokenPAT then take PrefixLen raw else at_prefix t)\<rparr> \<and>
     InsertToken t' (ac_hash cf raw) (seen x) = (Some (), ax_db x1) \<and>
     x1 = x\<lparr>ax_rand := rs, ax_ids := is, ax_db := ax_db x1, ax_env := env\<rparr>"
proof -
  obtain b x2 where b: "random_text x = (Inr b, x2)" and r1: "chain GenerateID (\<lambda>i.
      let raw = prefixes (at_kind t) @ b;
          t' = t\<lparr>at_id := i, at_prefix := (if at_kind t = TokenPAT then take PrefixLen raw else at_prefix t)\<rparr>
      in chain (acall (InsertToken t' (ac_hash cf raw))) (\<lambda>_. give (t', raw))) x2 = (Inr (t', raw), x1)"
    using assms unfolding issue_def chain_Inr by blast
  obtain i x3 where i: "GenerateID x2 = (Inr i, x3)" and r2:
      "(let raw = prefixes (at_kind t) @ b;
          t' = t\<lparr>at_id := i, at_prefix := (if at_kind t = TokenPAT then take PrefixLen raw else at_prefix t)\<rparr>
      in chain (acall (InsertToken t' (ac_hash cf raw))) (\<lambda>_. give (t', raw))) x3 = (Inr (t', raw), x1)"
    using r1 unfolding chain_Inr by blast
  obtain rs where rs: "ax_rand x = Some b # rs" "x2 = x\<lparr>ax_rand := rs\<rparr>" using random_Inr [OF b] by blast
  obtain "is" where "is": "ax_ids x = i # is" "x3 = x\<lparr>ax_rand := rs, ax_ids := is\<rparr>"
    using GenerateID_Inr [OF i] rs(2) by auto
  have raw: "raw = prefixes (at_kind t) @ b"
    and t': "t' = t\<lparr>at_id := i, at_prefix := (if at_kind t = TokenPAT then take PrefixLen raw else at_prefix t)\<rparr>"
    and c: "acall (InsertToken t' (ac_hash cf raw)) x3 = (Inr (), x1)"
    using r2 by (auto simp: Let_def chain_Inr give_def)
  have "InsertToken t' (ac_hash cf raw) (seen x) = (Some (), ax_db x1)" using acall_Inr(1) [OF c] "is"(2) by simp
  moreover have "x1 = x\<lparr>ax_rand := rs, ax_ids := is, ax_db := ax_db x1, ax_env := tl (ax_env x)\<rparr>"
    using acall_Inr(2) [OF c] "is"(2) by simp
  ultimately show ?thesis using rs(1) "is"(1) raw t' by blast
qed

lemma issue_OAuth_Inr:
  assumes "IssueOAuthAccess cf u g ttl x = (Inr raw, x1)"
  shows "\<exists>b i now rs is env. ax_rand x = Some b # rs \<and> ax_ids x = i # is \<and> raw = prefixes TokenOAuth @ b \<and> now \<in> readings x \<and>
     InsertToken ((oauth_token u g ttl now)\<lparr>at_id := i\<rparr>) (ac_hash cf raw) (seen x) = (Some (), ax_db x1) \<and>
     x1 = x\<lparr>ax_now := now, ax_clock := tl (ax_clock x), ax_rand := rs, ax_ids := is, ax_db := ax_db x1, ax_env := env\<rparr>"
proof -
  obtain now x2 t' where now: "read_clock x = (Inr now, x2)" and i: "issue cf (oauth_token u g ttl now) x2 = (Inr (t', raw), x1)"
    using assms unfolding IssueOAuthAccess_def chain_Inr give_def by auto
  have x2: "x2 = x\<lparr>ax_now := now, ax_clock := tl (ax_clock x)\<rparr>" using read_clock_Inr(1) [OF now] .
  have "at_kind (oauth_token u g ttl now) = TokenOAuth" "at_prefix (oauth_token u g ttl now) = []"
    by (simp_all add: oauth_token_def new_token_def)
  then obtain b j rs "is" env where *: "ax_rand x2 = Some b # rs" "ax_ids x2 = j # is" "raw = prefixes TokenOAuth @ b"
      "t' = (oauth_token u g ttl now)\<lparr>at_id := j, at_prefix := []\<rparr>"
      "InsertToken t' (ac_hash cf raw) (seen x2) = (Some (), ax_db x1)"
      "x1 = x2\<lparr>ax_rand := rs, ax_ids := is, ax_db := ax_db x1, ax_env := env\<rparr>"
    using issue_Inr [OF i] by auto
  have "t' = (oauth_token u g ttl now)\<lparr>at_id := j\<rparr>" using *(4) by (simp add: oauth_token_def new_token_def)
  moreover have "x1 = x\<lparr>ax_now := now, ax_clock := tl (ax_clock x), ax_rand := rs, ax_ids := is, ax_db := ax_db x1, ax_env := env\<rparr>"
    using *(6) x2 by simp
  ultimately show ?thesis using * x2 read_clock_Inr(2) [OF now] by auto
qed


subsection \<open>Transaction bodies\<close>

lemma acall_tx:
  assumes "acall m x = (Inr v, x1)" "ax_tx x"
  shows "m (ax_db x) = (Some v, ax_db x1)" "ax_tx x1" "readings x1 = readings x" "ax_rand x1 = ax_rand x" "ax_ids x1 = ax_ids x"
proof -
  obtain d e where x1: "x1 = x\<lparr>ax_db := d, ax_env := e\<rparr>" using acall_Inr(2) [OF assms(1)] by blast
  then show "ax_tx x1" "readings x1 = readings x" "ax_rand x1 = ax_rand x" "ax_ids x1 = ax_ids x"
    using assms(2) by (simp_all add: readings_def)
  show "m (ax_db x) = (Some v, ax_db x1)" using acall_Inr(1) [OF assms(1)] assms(2) by simp
qed

lemma RevokeGrantTokens_tx:
  assumes "RevokeGrantTokens i x = (Inr u, x1)" "ax_tx x"
  shows "\<exists>now \<in> readings x. RevokeByGrant i now (ax_db x) = (Some (), ax_db x1)" "ax_tx x1" "readings x1 \<subseteq> readings x"
proof -
  obtain now y where now: "read_clock x = (Inr now, y)" and c: "acall (RevokeByGrant i now) y = (Inr u, x1)"
    using assms(1) unfolding RevokeGrantTokens_def chain_Inr by blast
  have y: "ax_tx y" "ax_db y = ax_db x" using read_clock_Inr(1) [OF now] assms(2) by simp_all
  show "\<exists>now \<in> readings x. RevokeByGrant i now (ax_db x) = (Some (), ax_db x1)"
    using acall_tx(1) [OF c y(1)] y(2) read_clock_Inr(2) [OF now] by auto
  show "ax_tx x1" "readings x1 \<subseteq> readings x" using acall_tx(2,3) [OF c y(1)] read_clock_Inr(3) [OF now] by simp_all
qed

lemma revoke_replaced_tx:
  "revoke_replaced is x = (Inr u, x1) \<Longrightarrow> ax_tx x \<Longrightarrow>
   \<exists>clk. (\<forall>n. clk n \<in> readings x) \<and> revoke_each clk is (ax_db x) = (Some (), ax_db x1)"
proof (induction "is" arbitrary: x)
  case Nil
  then have "ax_db x1 = ax_db x" "ax_now x \<in> readings x" by (auto simp: give_def readings_def)
  then show ?case by auto
next
  case (Cons i "is")
  obtain w y where r: "RevokeGrantTokens i x = (Inr w, y)" and rest: "revoke_replaced is y = (Inr u, x1)"
    using Cons.prems(1) unfolding revoke_replaced.simps chain_Inr by blast
  note t = RevokeGrantTokens_tx [OF r Cons.prems(2)]
  obtain clk where clk: "\<forall>n. clk n \<in> readings y" "revoke_each clk is (ax_db y) = (Some (), ax_db x1)"
    using Cons.IH [OF rest t(2)] by blast
  obtain now where now: "now \<in> readings x" "RevokeByGrant i now (ax_db x) = (Some (), ax_db y)" using t(1) by blast
  have "revoke_each (case_nat now clk) (i # is) (ax_db x) = (Some (), ax_db x1)"
    using now(2) clk(2) by (simp add: and_then_def)
  moreover have "\<forall>n. case_nat now clk n \<in> readings x" using now(1) clk(1) t(3) by (auto split: nat.split)
  ultimately show ?case by blast
qed

text \<open>What the body of an exchange did.\<close>

lemma exchange_body_Inr:
  assumes "exchange_body cf code c now x = (Inr resp, x1)" "ax_tx x"
  shows "\<exists>b b' i j later clk.
     Some b \<in> set (ax_rand x) \<and> Some b' \<in> set (ax_rand x) \<and> i \<in> set (ax_ids x) \<and> later \<in> readings x \<and> (\<forall>n. clk n \<in> readings x) \<and>
     resp = tokenResponse (prefixes TokenOAuth @ b') (refreshPrefix @ b) \<and>
     exchange_tx (fresh_grant i (oc_user code) (cl_id c) (ac_hash cf (refreshPrefix @ b)) now)
       ((oauth_token (oc_user code) i AccessTokenTTL later)\<lparr>at_id := j\<rparr>) (ac_hash cf (prefixes TokenOAuth @ b')) now clk (ax_db x)
     = (Some (), ax_db x1)"
proof -
  obtain raw h x2 where s2: "newSecret cf refreshPrefix x = (Inr (raw, h), x2)"
    and r2: "chain (acall (LockUserGrants (oc_user code))) (\<lambda>found.
     if \<not> found then refuse errInvalidGrant
     else chain GenerateID (\<lambda>i.
       chain (acall (InsertGrant (fresh_grant i (oc_user code) (cl_id c) h now))) (\<lambda>_.
       chain (IssueOAuthAccess cf (oc_user code) i AccessTokenTTL) (\<lambda>access.
       chain (acall (RevokeOtherGrants (oc_user code) (cl_id c) i now)) (\<lambda>replaced.
       chain (revoke_replaced replaced) (\<lambda>_. give (tokenResponse access raw))))))) x2 = (Inr resp, x1)"
    using assms(1) unfolding exchange_body_def chain_Inr [of "newSecret cf refreshPrefix"] by auto
  obtain b rs where b: "ax_rand x = Some b # rs" "x2 = x\<lparr>ax_rand := rs\<rparr>" "raw = refreshPrefix @ b" "h = ac_hash cf raw"
    using newSecret_Inr [OF s2] by blast
  obtain found x3 where l: "acall (LockUserGrants (oc_user code)) x2 = (Inr found, x3)"
    and r3: "(if \<not> found then refuse errInvalidGrant
     else chain GenerateID (\<lambda>i.
       chain (acall (InsertGrant (fresh_grant i (oc_user code) (cl_id c) h now))) (\<lambda>_.
       chain (IssueOAuthAccess cf (oc_user code) i AccessTokenTTL) (\<lambda>access.
       chain (acall (RevokeOtherGrants (oc_user code) (cl_id c) i now)) (\<lambda>replaced.
       chain (revoke_replaced replaced) (\<lambda>_. give (tokenResponse access raw))))))) x3 = (Inr resp, x1)"
    using r2 unfolding chain_Inr [of "acall (LockUserGrants (oc_user code))"] by blast
  have x3: "ax_tx x3" "ax_db x3 = ax_db x" "readings x3 = readings x" "ax_rand x3 = rs" "ax_ids x3 = ax_ids x"
    using acall_tx [OF l] assms(2) b(2) by (simp_all add: LockUserGrants_def readings_def)
  have found: found using r3 by (auto simp: refuse_def split: if_splits)
  obtain i x4 where i: "GenerateID x3 = (Inr i, x4)" and
    r4: "chain (acall (InsertGrant (fresh_grant i (oc_user code) (cl_id c) h now))) (\<lambda>_.
       chain (IssueOAuthAccess cf (oc_user code) i AccessTokenTTL) (\<lambda>access.
       chain (acall (RevokeOtherGrants (oc_user code) (cl_id c) i now)) (\<lambda>replaced.
       chain (revoke_replaced replaced) (\<lambda>_. give (tokenResponse access raw))))) x4 = (Inr resp, x1)"
    using r3 found by (auto simp: chain_Inr [of GenerateID])
  obtain ids where ids: "ax_ids x3 = i # ids" "x4 = x3\<lparr>ax_ids := ids\<rparr>" using GenerateID_Inr [OF i] by blast
  let ?g = "fresh_grant i (oc_user code) (cl_id c) h now"
  obtain u5 x5 where g: "acall (InsertGrant ?g) x4 = (Inr u5, x5)" and
    r5: "chain (IssueOAuthAccess cf (oc_user code) i AccessTokenTTL) (\<lambda>access.
       chain (acall (RevokeOtherGrants (oc_user code) (cl_id c) i now)) (\<lambda>replaced.
       chain (revoke_replaced replaced) (\<lambda>_. give (tokenResponse access raw)))) x5 = (Inr resp, x1)"
    using r4 unfolding chain_Inr [of "acall (InsertGrant ?g)"] by blast
  have x4: "ax_tx x4" "ax_db x4 = ax_db x" "readings x4 = readings x" "ax_rand x4 = rs" using x3 ids(2) by (simp_all add: readings_def)
  note x5 = acall_tx [OF g x4(1)]
  obtain access x6 where a: "IssueOAuthAccess cf (oc_user code) i AccessTokenTTL x5 = (Inr access, x6)" and
    r6: "chain (acall (RevokeOtherGrants (oc_user code) (cl_id c) i now)) (\<lambda>replaced.
       chain (revoke_replaced replaced) (\<lambda>_. give (tokenResponse access raw))) x6 = (Inr resp, x1)"
    using r5 unfolding chain_Inr [of "IssueOAuthAccess cf (oc_user code) i AccessTokenTTL"] by blast
  obtain b' j later rs' is' env where t: "ax_rand x5 = Some b' # rs'" "access = prefixes TokenOAuth @ b'" "later \<in> readings x5"
      "InsertToken ((oauth_token (oc_user code) i AccessTokenTTL later)\<lparr>at_id := j\<rparr>) (ac_hash cf access) (seen x5) = (Some (), ax_db x6)"
      "x6 = x5\<lparr>ax_now := later, ax_clock := tl (ax_clock x5), ax_rand := rs', ax_ids := is', ax_db := ax_db x6, ax_env := env\<rparr>"
    using issue_OAuth_Inr [OF a] by blast
  have x6: "ax_tx x6" "readings x6 \<subseteq> readings x"
  proof -
    obtain r q d e where "x6 = x5\<lparr>ax_now := later, ax_clock := tl (ax_clock x5), ax_rand := r, ax_ids := q, ax_db := d, ax_env := e\<rparr>"
      using t(5) by blast
    then show "ax_tx x6" "readings x6 \<subseteq> readings x"
      using x5(2,3) x4(3) t(3) tlD [of _ "ax_clock x5"] by (auto simp: readings_def)
  qed
  obtain ids' x7 u7 where o: "acall (RevokeOtherGrants (oc_user code) (cl_id c) i now) x6 = (Inr ids', x7)"
    and rr: "revoke_replaced ids' x7 = (Inr u7, x1)" and resp: "resp = tokenResponse access raw"
    using r6 unfolding chain_Inr give_def by auto
  note x7 = acall_tx [OF o x6(1)]
  obtain clk where clk: "\<forall>n. clk n \<in> readings x7" "revoke_each clk ids' (ax_db x7) = (Some (), ax_db x1)"
    using revoke_replaced_tx [OF rr x7(2)] by blast
  let ?t = "(oauth_token (oc_user code) i AccessTokenTTL later)\<lparr>at_id := j\<rparr>"
  have "InsertGrant ?g (ax_db x) = (Some u5, ax_db x5)" using x5(1) x4(2) by simp
  moreover have "InsertToken ?t (ac_hash cf access) (ax_db x5) = (Some (), ax_db x6)" using t(4) x5(2) by simp
  moreover have "og_user ?g = oc_user code" "og_client ?g = cl_id c" "og_id ?g = i" by (simp_all add: fresh_grant_def)
  ultimately have "exchange_tx ?g ?t (ac_hash cf access) now clk (ax_db x) = (Some (), ax_db x1)"
    using x7(1) clk(2) unfolding exchange_tx_def and_then_Some by metis
  moreover have "Some b' \<in> set (ax_rand x)" using t(1) x5(4) x4(4) b(1) by (metis list.set_intros(1,2))
  moreover have "later \<in> readings x" "\<forall>n. clk n \<in> readings x" using t(3) x5(3) x4(3) clk(1) x7(3) x6(2) by auto
  moreover have "i \<in> set (ax_ids x)" using ids(1) x3(5) by (metis list.set_intros(1))
  ultimately show ?thesis using b resp t(2) by (metis list.set_intros(1))
qed

text \<open>What the body of a refresh did.\<close>

lemma refresh_body_Inr:
  assumes "refresh_body cf g hash now x = (Inr resp, x1)" "ax_tx x"
  shows "\<exists>b b' j later.
     Some b \<in> set (ax_rand x) \<and> Some b' \<in> set (ax_rand x) \<and> later \<in> readings x \<and>
     resp = tokenResponse (prefixes TokenOAuth @ b') (refreshPrefix @ b) \<and>
     refresh_tx (og_id g) hash (ac_hash cf (refreshPrefix @ b)) now (now + GrantIdleTTL)
       ((oauth_token (og_user g) (og_id g) AccessTokenTTL later)\<lparr>at_id := j\<rparr>) (ac_hash cf (prefixes TokenOAuth @ b')) (ax_db x)
     = (Some (), ax_db x1)"
proof -
  obtain raw h x2 where s2: "newSecret cf refreshPrefix x = (Inr (raw, h), x2)"
    and r2: "chain (acall (RotateGrant (og_id g) hash h now (now + GrantIdleTTL))) (\<lambda>n.
     if n = 0 then refuse errInvalidGrant
     else chain (acall (InsertSpentRefreshHash (og_id g) hash now)) (\<lambda>_.
       chain (IssueOAuthAccess cf (og_user g) (og_id g) AccessTokenTTL) (\<lambda>access.
       give (tokenResponse access raw)))) x2 = (Inr resp, x1)"
    using assms(1) unfolding refresh_body_def chain_Inr [of "newSecret cf refreshPrefix"] by auto
  obtain b rs where b: "ax_rand x = Some b # rs" "x2 = x\<lparr>ax_rand := rs\<rparr>" "raw = refreshPrefix @ b" "h = ac_hash cf raw"
    using newSecret_Inr [OF s2] by blast
  obtain n x3 where n: "acall (RotateGrant (og_id g) hash h now (now + GrantIdleTTL)) x2 = (Inr n, x3)" and r3:
    "(if n = 0 then refuse errInvalidGrant
     else chain (acall (InsertSpentRefreshHash (og_id g) hash now)) (\<lambda>_.
       chain (IssueOAuthAccess cf (og_user g) (og_id g) AccessTokenTTL) (\<lambda>access.
       give (tokenResponse access raw)))) x3 = (Inr resp, x1)"
    using r2 unfolding chain_Inr [of "acall (RotateGrant (og_id g) hash h now (now + GrantIdleTTL))"] by blast
  have x2: "ax_tx x2" "ax_db x2 = ax_db x" "readings x2 = readings x" using b(2) assms(2) by (simp_all add: readings_def)
  note x3 = acall_tx [OF n x2(1)]
  have n0: "n \<noteq> 0" using r3 by (auto simp: refuse_def split: if_splits)
  obtain u4 x4 access where sp: "acall (InsertSpentRefreshHash (og_id g) hash now) x3 = (Inr u4, x4)"
    and a: "IssueOAuthAccess cf (og_user g) (og_id g) AccessTokenTTL x4 = (Inr access, x1)"
    and resp: "resp = tokenResponse access raw"
    using r3 n0 by (auto simp: chain_Inr give_def)
  note x4 = acall_tx [OF sp x3(2)]
  obtain b' j later where t: "Some b' \<in> set (ax_rand x4)" "access = prefixes TokenOAuth @ b'" "later \<in> readings x4"
      "InsertToken ((oauth_token (og_user g) (og_id g) AccessTokenTTL later)\<lparr>at_id := j\<rparr>) (ac_hash cf access) (ax_db x4) = (Some (), ax_db x1)"
    using issue_OAuth_Inr [OF a] x4(2) by fastforce
  have "refresh_tx (og_id g) hash h now (now + GrantIdleTTL) ((oauth_token (og_user g) (og_id g) AccessTokenTTL later)\<lparr>at_id := j\<rparr>)
      (ac_hash cf access) (ax_db x) = (Some (), ax_db x1)"
    using x3(1) x4(1) t(4) x2(2) n0 by (simp add: refresh_tx_def and_then_def)
  moreover have "Some b' \<in> set (ax_rand x)" using t(1) x4(4) x3(4) b(1,2) by simp
  moreover have "later \<in> readings x" using t(3) x4(3) x3(3) x2(3) by simp
  ultimately show ?thesis using b resp t(2) by (metis list.set_intros(1))
qed

subsection \<open>The use cases\<close>

lemma commit_Some: "(\<exists>v. fst (m db) = Some v) \<Longrightarrow> commit m db = snd (m db)"
  by (auto simp: commit_def split: prod.splits option.splits)

lemma revoke_replaced_frugal [acts]: "frugal (revoke_replaced is)"
  by (induction "is") (simp_all add: acts RevokeGrantTokens_def)

lemma issue_frugal [acts]: "frugal (issue cf t)"
  unfolding issue_def Let_def by (intro acts)

lemma bodies_frugal [acts]: "frugal (exchange_body cf code c now)" "frugal (refresh_body cf g hash now)"
  "frugal (RevokeGrantTokens i)" "frugal (newSecret cf p)"
  unfolding exchange_body_def refresh_body_def RevokeGrantTokens_def newSecret_def IssueOAuthAccess_def by (intro acts)+

lemma newSecret_sound [acts]: "sound cf (newSecret cf p)"
  unfolding newSecret_def by (intro acts)

lemma secretsI: "Some b \<in> set (ax_rand x) \<Longrightarrow> p \<in> set token_prefixes \<Longrightarrow> ac_hash cf (p @ b) \<in> secrets cf x"
  by (auto simp: secrets_def)

lemma prefixes_listed [simp]: "prefixes k \<in> set token_prefixes" "refreshPrefix \<in> set token_prefixes" "[] \<in> set token_prefixes"
  by (cases k; simp add: token_prefixes_def)+

lemma sound_exchange_tx [acts]: "sound cf (WithTx (exchange_body cf code c now))"
  unfolding sound_def
proof (intro allI impI guar_WithTx)
  fix x y y1 :: ax and v
  assume x: "[] \<notin> set (ax_ids x)" and y: "ax_tx y" "ax_rand y = ax_rand x" "ax_ids y = ax_ids x" "exchange_body cf code c now y = (Inr v, y1)"
  obtain b b' i j later clk where e: "Some b \<in> set (ax_rand y)" "Some b' \<in> set (ax_rand y)" "i \<in> set (ax_ids y)"
    "exchange_tx (fresh_grant i (oc_user code) (cl_id c) (ac_hash cf (refreshPrefix @ b)) now)
       ((oauth_token (oc_user code) i AccessTokenTTL later)\<lparr>at_id := j\<rparr>) (ac_hash cf (prefixes TokenOAuth @ b')) now clk (ax_db y)
     = (Some (), ax_db y1)" (is "exchange_tx ?g ?t ?h now clk _ = _")
    using exchange_body_Inr [OF y(4,1)] by blast
  have "fits cf x (OpExchange ?g ?t ?h now clk)"
    using e(1-3) x y(2,3) by (auto simp: fits_def fresh_grant_def oauth_token_def new_token_def secretsI simp del: prefixes.simps)
  moreover have "ax_db y1 = auth_exec (OpExchange ?g ?t ?h now clk) (ax_db y)" using e(4) by (simp add: commit_def)
  ultimately show "\<exists>op. fits cf x op \<and> ax_db y1 = auth_exec op (ax_db y)" by blast
qed (simp_all add: acts)

lemma sound_refresh_tx [acts]: "sound cf (WithTx (refresh_body cf g hash now))"
  unfolding sound_def
proof (intro allI impI guar_WithTx)
  fix x y y1 :: ax and v
  assume y: "ax_tx y" "ax_rand y = ax_rand x" "refresh_body cf g hash now y = (Inr v, y1)"
  obtain b b' j later where e: "Some b \<in> set (ax_rand y)" "Some b' \<in> set (ax_rand y)"
    "refresh_tx (og_id g) hash (ac_hash cf (refreshPrefix @ b)) now (now + GrantIdleTTL)
       ((oauth_token (og_user g) (og_id g) AccessTokenTTL later)\<lparr>at_id := j\<rparr>) (ac_hash cf (prefixes TokenOAuth @ b')) (ax_db y)
     = (Some (), ax_db y1)" (is "refresh_tx _ _ ?n _ _ ?t ?h _ = _")
    using refresh_body_Inr [OF y(3,1)] by blast
  have "fits cf x (OpRefresh (og_id g) hash ?n now (now + GrantIdleTTL) ?t ?h)"
    using e(1,2) y(2) by (auto simp: fits_def oauth_token_def new_token_def secretsI simp del: prefixes.simps)
  moreover have "ax_db y1 = auth_exec (OpRefresh (og_id g) hash ?n now (now + GrantIdleTTL) ?t ?h) (ax_db y)"
    using e(3) by (simp add: commit_def)
  ultimately show "\<exists>op. fits cf x op \<and> ax_db y1 = auth_exec op (ax_db y)" by blast
qed (simp_all add: acts)

lemma sound_revokeGrant [acts]: "sound cf (revokeGrant i now)"
  unfolding sound_def revokeGrant_def
proof (intro allI impI guar_WithTx)
  fix x y y1 :: ax and v
  assume y: "ax_tx y" "chain (acall (RevokeGrant i now)) (\<lambda>_. RevokeGrantTokens i) y = (Inr v, y1)"
  obtain n y2 where n: "acall (RevokeGrant i now) y = (Inr n, y2)" and t: "RevokeGrantTokens i y2 = (Inr v, y1)"
    using y(2) unfolding chain_Inr by blast
  note y2 = acall_tx [OF n y(1)]
  obtain later where "RevokeByGrant i later (ax_db y2) = (Some (), ax_db y1)" using RevokeGrantTokens_tx(1) [OF t y2(2)] by blast
  then have "revoke_tx i now later (ax_db y) = (Some (), ax_db y1)" using y2(1) by (simp add: revoke_tx_def and_then_def)
  then have "ax_db y1 = auth_exec (OpRevokeGrant i now later) (ax_db y)" by (simp add: commit_def)
  moreover have "fits cf x (OpRevokeGrant i now later)" by (simp add: fits_def)
  ultimately show "\<exists>op. fits cf x op \<and> ax_db y1 = auth_exec op (ax_db y)" by blast
qed (simp_all add: acts)

lemma writes_sound [acts]:
  "sound cf (acall (ConsumeCode h))" "sound cf (acall (PurgeExpiredCodes t))" "sound cf (acall (DeleteDeadGrants t))"
  "sound cf (acall (PurgeUnusedClients t))" "sound cf (acall (InsertClient c))" "sound cf (acall (Touch i t e))"
  "sound cf (acall (Revoke i t))" "sound cf (acall (RevokeUserToken u k i t))" "sound cf (acall (RevokeAllOfKind u k t))"
  "sound cf (acall (RevokeUserGrants u t))" "sound cf (acall (DeleteDead t))"
proof -
  show "sound cf (acall (ConsumeCode h))" by (rule sound_write [of _ "OpConsume h"]) (simp_all add: commit_Some ConsumeCode_def)
  show "sound cf (acall (PurgeExpiredCodes t))"
    by (rule sound_write [of _ "OpPurgeCodes t"]) (simp_all add: commit_Some PurgeExpiredCodes_def)
  show "sound cf (acall (DeleteDeadGrants t))"
    by (rule sound_write [of _ "OpDeadGrants t"]) (simp_all add: commit_Some DeleteDeadGrants_def)
  show "sound cf (acall (PurgeUnusedClients t))"
    by (rule sound_write [of _ "OpPurgeClients t"]) (simp_all add: commit_Some PurgeUnusedClients_def)
  show "sound cf (acall (InsertClient c))" by (rule sound_write [of _ "OpClient c"]) (auto simp: commit_def InsertClient_def)
  show "sound cf (acall (Touch i t e))"
    by (rule sound_write [of _ "OpTouch i t e"]) (simp_all add: commit_Some Touch_def)
  show "sound cf (acall (Revoke i t))" by (rule sound_write [of _ "OpRevokeToken i t"]) (simp_all add: commit_Some Revoke_def)
  show "sound cf (acall (RevokeUserToken u k i t))"
    by (rule sound_write [of _ "OpRevokeUserToken u k i t"]) (simp_all add: commit_Some RevokeUserToken_def)
  show "sound cf (acall (RevokeAllOfKind u k t))"
    by (rule sound_write [of _ "OpRevokeKind u k t"]) (simp_all add: commit_Some RevokeAllOfKind_def)
  show "sound cf (acall (RevokeUserGrants u t))"
    by (rule sound_write [of _ "OpRevokeUserGrants u t"]) (simp_all add: commit_Some RevokeUserGrants_def)
  show "sound cf (acall (DeleteDead t))" by (rule sound_write [of _ "OpDeadTokens t"]) (simp_all add: commit_Some DeleteDead_def)
qed

lemma reads_sound [acts]:
  "sound cf (acall (GetClient i))" "sound cf (acall CountUnusedClients)" "sound cf (acall (GetGrant i))"
  "sound cf (acall (GetGrantByRefreshHash h))" "sound cf (acall (GetGrantBySpentRefreshHash h))"
  "sound cf (acall (ListUnrevokedGrants u))" "sound cf (acall (GetByHash h))" "sound cf (acall (ListByUser u k))"
  by (rule sound_read; simp add: GetClient_def CountUnusedClients_def GetGrant_def GetGrantByRefreshHash_def
      GetGrantBySpentRefreshHash_def ListUnrevokedGrants_def GetByHash_def ListByUser_def)+


lemma issue_sound [acts]:
  assumes "at_grant t = []"
  shows "sound cf (issue cf t)"
  unfolding sound_def
proof (intro allI impI)
  fix x :: ax assume x: "\<not> ax_tx x"
  have quiet: "guar cf x x'" if "shrinks x x'" "ax_db x' = ax_db x" for x'
    using that unfolding guar_def by (metis empty_iff fold_simps(1) list.set(1))
  consider e x2 where "random_text x = (Inl e, x2)" | b x2 where "random_text x = (Inr b, x2)" by (metis old.sum.exhaust surj_pair)
  then show "guar cf x (snd (issue cf t x))"
  proof cases
    case 1
    moreover have "shrinks x x2" "ax_db x2 = ax_db x"
      using 1 by (auto simp: random_text_def shrinks_def split: list.splits option.splits)
    ultimately show ?thesis using quiet by (simp add: issue_def chain_def)
  next
    case (2 b)
    obtain rs where rs: "ax_rand x = Some b # rs" "x2 = x\<lparr>ax_rand := rs\<rparr>" using random_Inr [OF 2] by blast
    show ?thesis
    proof (cases "ax_ids x")
      case Nil
      then have "issue cf t x = (Inl Panics, x2)" using 2 rs(2) by (simp add: issue_def chain_def GenerateID_def)
      moreover have "shrinks x x2" "ax_db x2 = ax_db x" using rs by (auto simp: shrinks_def)
      ultimately show ?thesis using quiet by simp
    next
      case (Cons i "is")
      let ?x3 = "x\<lparr>ax_rand := rs, ax_ids := is\<rparr>"
      let ?raw = "prefixes (at_kind t) @ b"
      let ?t = "t\<lparr>at_id := i, at_prefix := (if at_kind t = TokenPAT then take PrefixLen ?raw else at_prefix t)\<rparr>"
      let ?m = "InsertToken ?t (ac_hash cf ?raw)"
      have w: "snd (issue cf t x) = snd (acall ?m ?x3)"
        using 2 rs(2) Cons by (simp add: issue_def chain_def GenerateID_def Let_def give_def split_beta split: sum.split)
      have "shrinks x ?x3" using rs Cons by (auto simp: shrinks_def)
      then have s: "shrinks x (snd (acall ?m ?x3))" by (rule shrinks_trans) simp
      have db: "ax_db (snd (acall ?m ?x3)) \<in> {seen x, snd (?m (seen x))}" using acall_db [of ?m ?x3] by simp
      have "fits cf x (OpToken ?t (ac_hash cf ?raw))"
        using rs(1) assms by (simp add: fits_def secretsI del: prefixes.simps)
      moreover have "snd (?m (seen x)) = seen x \<or> snd (?m (seen x)) = auth_exec (OpToken ?t (ac_hash cf ?raw)) (seen x)"
        by (auto simp: commit_def InsertToken_def)
      ultimately show ?thesis unfolding w using s db by (intro guar_intro [OF x]) auto
    qed
  qed
qed

lemma approve_sound [acts]:
  "sound cf (chain (newSecret cf []) (\<lambda>(raw, hash). chain read_clock (\<lambda>now.
     chain (WithTx (chain (acall (InsertCode (approved_code cf u c hash req now))) (\<lambda>_. acall (MarkClientUsed (cl_id c) now))))
       (\<lambda>_. give (code_redirect cf req raw)))))"
  unfolding sound_def
proof (intro allI impI)
  fix x :: ax assume x: "\<not> ax_tx x"
  let ?body = "\<lambda>hash now. chain (acall (InsertCode (approved_code cf u c hash req now))) (\<lambda>_. acall (MarkClientUsed (cl_id c) now))"
  let ?act = "chain (newSecret cf []) (\<lambda>(raw, hash). chain read_clock (\<lambda>now.
     chain (WithTx (?body hash now)) (\<lambda>_. give (code_redirect cf req raw))))"
  show "guar cf x (snd (?act x))"
  proof (cases "fst (newSecret cf [] x)")
    case (Inl e)
    then have "snd (?act x) = snd (newSecret cf [] x)" by (auto simp: chain_def split_beta)
    moreover have "shrinks x (snd (newSecret cf [] x))" using bodies_frugal(4) by (simp add: frugal_def)
    moreover have "ax_db (snd (newSecret cf [] x)) = ax_db x"
      by (auto simp: newSecret_def chain_def random_text_def give_def split: list.split option.split)
    ultimately show ?thesis unfolding guar_def by (metis empty_iff fold_simps(1) list.set(1))
  next
    case (Inr rh)
    then obtain raw h x2 where n: "newSecret cf [] x = (Inr (raw, h), x2)" by (metis prod.collapse)
    obtain b rs where b: "ax_rand x = Some b # rs" "x2 = x\<lparr>ax_rand := rs\<rparr>" "h = ac_hash cf ([] @ b)"
      using newSecret_Inr [OF n] by auto
    obtain now x3 where now: "read_clock x2 = (Inr now, x3)" by (cases "ax_clock x2") (auto simp: read_clock_def)
    have x3: "x3 = x\<lparr>ax_rand := rs, ax_now := now, ax_clock := tl (ax_clock x)\<rparr>" using read_clock_Inr(1) [OF now] b(2) by simp
    have w: "snd (?act x) = snd (WithTx (?body h now) x3)"
      using n now by (simp add: chain_def give_def split_beta split: sum.split)
    have frugal: "frugal (?body h now)" by (intro acts)
    have "shrinks x x3" using x3 b(1) by (auto simp: shrinks_def)
    then have s: "shrinks x (snd (WithTx (?body h now) x3))"
      by (rule shrinks_trans) (rule WithTx_shrinks [OF frugal], use x x3 in simp)
    let ?op = "OpApprove (approved_code cf u c h req now) now"
    have db: "ax_db (snd (WithTx (?body h now) x3)) = seen x3 \<or> ax_db (snd (WithTx (?body h now) x3)) = auth_exec ?op (seen x3)"
    proof (rule WithTx_db)
      fix v y1 assume "?body h now (tx_start x3) = (Inr v, y1)"
      then obtain w y where 1: "acall (InsertCode (approved_code cf u c h req now)) (tx_start x3) = (Inr w, y)"
        and 2: "acall (MarkClientUsed (cl_id c) now) y = (Inr v, y1)" unfolding chain_Inr by blast
      note y = acall_tx [OF 1, simplified]
      show "ax_db y1 = auth_exec ?op (seen x3)" using y(1) acall_tx(1) [OF 2 y(2)]
        by (simp add: approve_tx_def and_then_def commit_def approved_code_def)
    qed
    have "seen x3 = seen x" unfolding x3 by (simp add: seen_def next_turn_def)
    moreover have "fits cf x ?op" using b(1,3) secretsI [of b x "[]" cf] by (simp add: fits_def approved_code_def)
    ultimately show ?thesis unfolding w using s db by (intro guar_intro [OF x]) auto
  qed
qed

text \<open>Every use case, at every interleaving, keeps to the operations.\<close>

lemma use_token_sound [acts]: "sound cf (use_token found)"
  unfolding use_token_def Let_def by (intro acts)

lemma authn_sound [acts]:
  "sound cf (Authenticate cf raw)" "sound cf (IssueSession cf u agent)" "sound cf (CreatePAT cf u name expires)"
  "sound cf (RevokeToken i)" "sound cf (RevokeSessions u)" "sound cf (ListPATs u)" "sound cf (DeletePAT cf u i)"
  "sound cf Prune" "sound cf (RevokeAllGrants u)" "sound cf (RevokeAllForUser cf u)"
  unfolding Authenticate_def IssueSession_def CreatePAT_def RevokeToken_def RevokeSessions_def ListPATs_def DeletePAT_def
    Prune_def RevokeAllForUser_def RevokeAllGrants_def Let_def
  by (intro acts; simp add: session_token_def pat_token_def new_token_def)+

lemma authenticateClient_sound [acts]: "sound cf (authenticateClient cf i secret)"
  unfolding authenticateClient_def by (intro acts)

lemma validate_sound [acts]: "sound cf (validate_request cf req)"
  unfolding validate_request_def by (intro acts)

lemma housekeeping_sound [acts]: "sound cf (housekeeping now)"
  unfolding housekeeping_def by (intro acts)

lemma rotated_sound [acts]: "sound cf (handleRotatedRefresh hash c now)"
  unfolding handleRotatedRefresh_def by (intro acts)

lemma token_sound [acts]: "sound cf (Token cf req)"
  unfolding Token_def exchange_def refresh_def Let_def by (intro acts)

lemma authserver_sound [acts]:
  "sound cf (Register cf reg)" "sound cf (DescribeAuthorization cf req)" "sound cf (ApproveAuthorization cf u req)"
  "sound cf (DeclineAuthorization cf req)" "sound cf (ListConnectedApps cf u)" "sound cf (RevokeConnectedApp u i)"
  unfolding Register_def DescribeAuthorization_def ApproveAuthorization_def DeclineAuthorization_def ListConnectedApps_def
    RevokeConnectedApp_def Let_def
  by (intro acts)+

end
