(* ===== verification/Auth_Once.thy ===== *)
theory Auth_Once
  imports Auth_Sound
begin

text \<open>
  What the authorization server promises about its secrets: an authorization code is exchanged at most
  once, a refresh token is accepted at most once, and a refresh token presented again outside the grace
  window ends the connection for good. The locale \<open>kept\<close> is the contract between the operations and a
  fact about the tables: a fact that no admissible operation undoes survives every use case and
  everything others do meanwhile.
\<close>

locale kept =
  fixes P :: "auth_db \<Rightarrow> bool" and A :: "auth_op \<Rightarrow> bool"
  assumes kept: "A op \<Longrightarrow> P db \<Longrightarrow> P (auth_exec op db)"
begin

lemma after: "\<forall>op \<in> set ops. A op \<Longrightarrow> P db \<Longrightarrow> P (fold auth_exec ops db)"
  by (rule fold_invariant) (auto intro: kept)

lemma in_view:
  assumes "P (ax_db x)" "\<forall>op \<in> set (env_ops x). A op"
  shows "P (seen x)"
proof -
  have "\<forall>op \<in> set (tn_ops (next_turn x)). A op"
    using assms(2) by (auto simp: next_turn_def quiet_turn_def env_ops_def split: list.split)
  then show ?thesis using assms(1) by (simp add: seen_def after)
qed

lemma through:
  assumes "guar cf x x'" "\<And>op. fits cf x op \<Longrightarrow> A op" "P (ax_db x)"
  shows "P (ax_db x')"
  using assms after unfolding guar_def by metis

end

interpretation closed_kept: kept "closed i" "\<lambda>op. op_ok op \<and> i \<notin> op_opens op" for i
  by unfold_locales (simp add: exec_closed)

interpretation unheld_kept: kept "unheld h" "\<lambda>op. h \<notin> op_hashes op" for h
  by unfold_locales (erule unheld_step [OF _ exec_evolves])

interpretation no_code_kept: kept "no_code h" "\<lambda>op. h \<notin> op_hashes op" for h
  by unfold_locales (erule no_code_step [OF _ exec_evolves])

interpretation tables_kept: kept auth_ok op_ok
  by unfold_locales (metis (no_types, lifting) auth_exec_ok empty_iff empty_set fold_simps list.set_cases set_ConsD)

text \<open>A world of which one request makes use: it is in no transaction, its ids are not empty, and no one
  issues the secret's hash again.\<close>

definition idle :: "ax \<Rightarrow> bool" where
  "idle x \<longleftrightarrow> \<not> ax_tx x \<and> [] \<notin> set (ax_ids x) \<and> (\<forall>op \<in> set (env_ops x). op_ok op)"

definition unissued :: "acfg \<Rightarrow> string \<Rightarrow> ax \<Rightarrow> bool" where
  "unissued cf h x \<longleftrightarrow> h \<notin> secrets cf x \<and> (\<forall>op \<in> set (env_ops x). h \<notin> op_hashes op)"

lemma fits_unissued: "unissued cf h x \<Longrightarrow> fits cf x op \<Longrightarrow> h \<notin> op_hashes op"
  unfolding unissued_def fits_def by blast

lemma fits_ok: "idle x \<Longrightarrow> fits cf x op \<Longrightarrow> op_ok op"
  by (auto simp: fits_def idle_def)

lemma later_world:
  assumes "guar cf x x'"
  shows "idle x \<Longrightarrow> idle x'" "unissued cf h x \<Longrightarrow> unissued cf h x'"
proof -
  have s: "shrinks x x'" using assms by (simp add: guar_def)
  have e: "set (env_ops x') \<subseteq> set (env_ops x)" using s by (auto simp: shrinks_def env_ops_def)
  show "idle x \<Longrightarrow> idle x'" using s e unfolding idle_def shrinks_def by blast
  have "secrets cf x' \<subseteq> secrets cf x" using s unfolding shrinks_def secrets_def by blast
  then show "unissued cf h x \<Longrightarrow> unissued cf h x'" using e unfolding unissued_def by blast
qed

lemma soundD: "sound cf f \<Longrightarrow> idle x \<Longrightarrow> guar cf x (snd (f x))"
  by (simp add: sound_def idle_def)

lemma unheld_in_view: "unheld h (ax_db x) \<Longrightarrow> unissued cf h x \<Longrightarrow> unheld h (seen x)"
  by (rule unheld_kept.in_view) (simp_all add: unissued_def)

lemma no_code_in_view: "no_code h (ax_db x) \<Longrightarrow> unissued cf h x \<Longrightarrow> no_code h (seen x)"
  by (rule no_code_kept.in_view) (simp_all add: unissued_def)

text \<open>A small instance on which the theorems are tried: digests that only mark what they digest, one
  client with a pending code and a connection.\<close>

definition demo_cf :: acfg where
  "demo_cf = \<lparr>ac_issuer = ''i'', ac_hash = (\<lambda>s. CHR ''h'' # s), ac_challenge = (\<lambda>s. s), ac_parse = (\<lambda>s.
     Some \<lparr>ur_scheme = ''https'', ur_host = ''a'', ur_path = [], ur_query = [], ur_fragment = [], ur_user = False, ur_values = []\<rparr>),
     ac_render = (\<lambda>u q. ''r''), ac_uuid = (\<lambda>s. True), ac_visible = (\<lambda>s. s), ac_grants = True\<rparr>"

definition demo_verifier :: string where "demo_verifier = replicate 43 (CHR ''v'')"

definition demo_db :: auth_db where
  "demo_db = \<lparr>ad_users = [''u''],
     ad_clients = [\<lparr>cl_id = ''c'', cl_name = ''app'', cl_uris = [''r''], cl_secret = None, cl_created = 0, cl_used = Some 1\<rparr>],
     ad_codes = [\<lparr>oc_hash = ''hk'', oc_client = ''c'', oc_user = ''u'', oc_redirect = ''r'', oc_challenge = demo_verifier,
       oc_resource = ''i/mcp'', oc_created = 1, oc_expires = 121\<rparr>],
     ad_grants = [\<lparr>og_id = ''g'', og_user = ''u'', og_client = ''c'', og_hash = ''hf'', og_prev = None, og_rotated = None,
       og_created = 1, og_used = 1, og_expires = 1000, og_revoked = None\<rparr>], ad_spent = [], ad_tokens = []\<rparr>"

definition demo_world :: "auth_db \<Rightarrow> ax" where
  "demo_world db = \<lparr>ax_db = db, ax_env = [], ax_now = 2 * second, ax_clock = [], ax_rand = [Some ''1'', Some ''2'', Some ''3''],
     ax_ids = [''i'', ''j''], ax_tx = False, ax_hk = 0\<rparr>"

definition demo_code_request :: token_request where
  "demo_code_request = \<lparr>tq_type = ''authorization_code'', tq_code = ''k'', tq_redirect = ''r'', tq_verifier = demo_verifier,
     tq_refresh = [], tq_resource = [], tq_scope = [], tq_client = ''c'', tq_secret = []\<rparr>"
definition demo_refresh_request :: token_request where
  "demo_refresh_request = \<lparr>tq_type = ''refresh_token'', tq_code = [], tq_redirect = [], tq_verifier = [],
     tq_refresh = ''f'', tq_resource = [], tq_scope = [], tq_client = ''c'', tq_secret = []\<rparr>"


lemma demo_runs:
  "fst (Token demo_cf demo_code_request (demo_world demo_db)) = Inr (tokenResponse ''wfo_2'' ''wfr_1'')"
  "fst (Token demo_cf demo_refresh_request (demo_world demo_db)) = Inr (tokenResponse ''wfo_2'' ''wfr_1'')"
  by code_simp+

lemma demo_ok: "auth_ok demo_db"
  by (simp add: auth_ok_def keys_unique_def refs_ok_def code_ref_def grant_ref_def single_grants_def prev_spent_def demo_db_def)

lemma idle_easy: "\<not> ax_tx x \<Longrightarrow> [] \<notin> set (ax_ids x) \<Longrightarrow> ax_env x = [] \<Longrightarrow> idle x"
  by (simp add: idle_def env_ops_def)

lemma unissued_easy: "ax_env x = [] \<Longrightarrow> h \<notin> set (concat (map (\<lambda>r. case r of None \<Rightarrow> [] | Some s \<Rightarrow> map (\<lambda>p. ac_hash cf (p @ s)) token_prefixes) (ax_rand x))) \<Longrightarrow> unissued cf h x"
  by (force simp: unissued_def env_ops_def secrets_def split: option.splits)

section \<open>Codes\<close>

lemma find_no_code: "no_code h db \<Longrightarrow> fst (ConsumeCode h db) = Some None"
proof -
  assume "no_code h db"
  then have "find (\<lambda>c. oc_hash c = h) (ad_codes db) = None"
    unfolding find_None_iff no_code_def by blast
  then show ?thesis by (simp add: ConsumeCode_def)
qed

text \<open>What follows the consumption of the code.\<close>

definition after_code :: "acfg \<Rightarrow> token_request \<Rightarrow> oauth_client \<Rightarrow> time \<Rightarrow> oauth_code option \<Rightarrow> token_response act" where
  "after_code cf req c now found =
     (case found of None \<Rightarrow> refuse errInvalidGrant
      | Some code \<Rightarrow>
          if \<not> code_fits cf req c code now then refuse errInvalidGrant
          else if \<not> resourceOK cf (tq_resource req) then refuse errBadTarget
          else chain (WithTx (exchange_body cf code c now)) (\<lambda>resp. chain (housekeeping now) (\<lambda>_. give resp)))"

lemma exchange_alt:
  assumes "tq_client req \<noteq> []" "tq_code req \<noteq> []" "tq_redirect req \<noteq> []" "tq_verifier req \<noteq> []"
  shows "exchange cf req = chain (authenticateClient cf (tq_client req) (tq_secret req)) (\<lambda>c. chain read_clock (\<lambda>now.
     chain (acall (ConsumeCode (ac_hash cf (tq_code req)))) (after_code cf req c now)))"
  using assms unfolding exchange_def after_code_def [abs_def] by simp

lemma after_code_sound: "sound cf (after_code cf req c now found)"
  unfolding after_code_def by (intro acts)

lemma client_error: "authenticateClient cf i s x = (Inl e, x1) \<Longrightarrow> e \<in> {errBadClient, AuthStore}"
  by (auto simp: authenticateClient_def chain_def refuse_def give_def acall_def Let_def split_beta
      split: if_splits option.splits sum.splits)

lemma acall_error: "acall m x = (Inl e, x1) \<Longrightarrow> e = AuthStore"
  by (auto simp: acall_def Let_def split_beta split: option.splits)

lemma no_code_consumed: "no_code h (snd (ConsumeCode h db))"
  by (auto simp: no_code_def ConsumeCode_def)

text \<open>An exchange that gets past its client and its parameters burns the code, whatever it answers.\<close>

lemma exchange_burns:
  assumes "exchange cf req x = (r, x1)" "idle x" "unissued cf (ac_hash cf (tq_code req)) x"
    "r \<notin> {Inl AuthStore, Inl errBadClient}" "tq_code req \<noteq> []" "tq_redirect req \<noteq> []" "tq_verifier req \<noteq> []"
  shows "no_code (ac_hash cf (tq_code req)) (ax_db x1)"
proof -
  let ?h = "ac_hash cf (tq_code req)"
  have client: "tq_client req \<noteq> []" using assms(1,4) by (auto simp: exchange_def refuse_def)
  note ex = exchange_alt [OF client assms(5-7), of cf]
  obtain c x2 where a: "authenticateClient cf (tq_client req) (tq_secret req) x = (Inr c, x2)"
    using assms(1,4) client_error unfolding ex chain_def by (cases "authenticateClient cf (tq_client req) (tq_secret req) x")
      (auto split: sum.splits dest: client_error)
  obtain now x3 where n: "read_clock x2 = (Inr now, x3)" by (cases "ax_clock x2") (auto simp: read_clock_def)
  have r: "chain (acall (ConsumeCode ?h)) (after_code cf req c now) x3 = (r, x1)"
    using assms(1) a n unfolding ex by (simp add: chain_def)
  obtain found x4 where c: "acall (ConsumeCode ?h) x3 = (Inr found, x4)"
    using r assms(4) acall_error by (cases "acall (ConsumeCode ?h) x3") (auto simp: chain_def split: sum.splits dest: acall_error)
  have rest: "after_code cf req c now found x4 = (r, x1)" using r c by (simp add: chain_def)
  have g2: "guar cf x x2" using soundD [OF authenticateClient_sound assms(2)] a by (metis snd_conv)
  have g3: "guar cf x2 x3" using soundD [OF supplies_sound(1) later_world(1) [OF g2 assms(2)]] n by (metis snd_conv)
  note w3 = later_world [OF guar_trans [OF g2 g3]]
  have g4: "guar cf x3 x4" using soundD [OF writes_sound(1) w3(1) [OF assms(2)]] c by (metis snd_conv)
  note w4 = later_world [OF guar_trans [OF guar_trans [OF g2 g3] g4]]
  have "ConsumeCode ?h (seen x3) = (Some found, ax_db x4)" using acall_Inr(1) [OF c] .
  then have "no_code ?h (ax_db x4)" using no_code_consumed by (metis snd_conv)
  moreover have "guar cf x4 x1" using soundD [OF after_code_sound w4(1) [OF assms(2)]] rest by (metis snd_conv)
  ultimately show ?thesis using no_code_kept.through fits_unissued [OF w4(2) [OF assms(3)]] by metis
qed

lemma no_code_refused:
  assumes "no_code (ac_hash cf (tq_code req)) (ax_db x)" "idle x" "unissued cf (ac_hash cf (tq_code req)) x"
  shows "exchange cf req x \<noteq> (Inr resp, x1)"
proof
  let ?h = "ac_hash cf (tq_code req)"
  assume e: "exchange cf req x = (Inr resp, x1)"
  then have p: "tq_client req \<noteq> []" "tq_code req \<noteq> []" "tq_redirect req \<noteq> []" "tq_verifier req \<noteq> []"
    by (auto simp: exchange_def refuse_def split: if_splits)
  obtain c x2 now x3 found x4 where a: "authenticateClient cf (tq_client req) (tq_secret req) x = (Inr c, x2)"
      and n: "read_clock x2 = (Inr now, x3)" and c: "acall (ConsumeCode ?h) x3 = (Inr found, x4)"
      and rest: "after_code cf req c now found x4 = (Inr resp, x1)"
    using e unfolding exchange_alt [OF p] chain_Inr by blast
  have g2: "guar cf x x2" using soundD [OF authenticateClient_sound assms(2)] a by (metis snd_conv)
  have g3: "guar cf x2 x3" using soundD [OF supplies_sound(1) later_world(1) [OF g2 assms(2)]] n by (metis snd_conv)
  note g = guar_trans [OF g2 g3]
  have "no_code ?h (ax_db x3)" using no_code_kept.through [OF g] fits_unissued [OF assms(3)] assms(1) by blast
  then have "no_code ?h (seen x3)" using no_code_in_view later_world(2) [OF g assms(3)] by blast
  then have "found = None" using acall_Inr(1) [OF c] find_no_code by (metis fst_conv option.inject)
  then show False using rest by (simp add: after_code_def refuse_def)
qed


text \<open>C4. An authorization code yields tokens at most once. However a token request that presents the code
  ends, once it got past its client and its parameters without a store error, no later token request
  presenting that code is ever answered with tokens: whatever others do in between and during either
  request, as long as no other secret is drawn with the same hash.\<close>

theorem code_exchanged_once:
  assumes "Token cf req x = (r, x1)" "tq_type req = ''authorization_code''" "idle x"
    "unissued cf (ac_hash cf (tq_code req)) x" "r \<notin> {Inl AuthStore, Inl errBadClient, Inl errDisabled}"
    "tq_code req \<noteq> []" "tq_redirect req \<noteq> []" "tq_verifier req \<noteq> []"
    "ax_db x2 = fold auth_exec ops (ax_db x1)" "\<forall>op \<in> set ops. ac_hash cf (tq_code req) \<notin> op_hashes op"
    "idle x2" "unissued cf (ac_hash cf (tq_code req)) x2"
    "tq_code req2 = tq_code req" "tq_type req2 = ''authorization_code''"
  shows "\<exists>e. fst (Token cf req2 x2) = Inl e"
proof -
  let ?h = "ac_hash cf (tq_code req)"
  have on: "Enabled cf" using assms(1,5) by (auto simp: Token_def refuse_def split: if_splits)
  then have "exchange cf req x = (r, x1)" using assms(1,2) by (simp add: Token_def)
  then have "no_code ?h (ax_db x1)" using assms(3-8) by (intro exchange_burns) auto
  then have "no_code ?h (ax_db x2)" using no_code_kept.after assms(9,10) by metis
  then have "exchange cf req2 x2 \<noteq> (Inr resp, x3)" for resp x3
    using no_code_refused [of cf req2 x2] assms(11-13) by simp
  then have "\<exists>e. fst (exchange cf req2 x2) = Inl e" by (metis old.sum.exhaust prod.collapse)
  then show ?thesis using on assms(14) by (simp add: Token_def)
qed

lemma code_exchanged_once_witness:
  "\<exists>e. fst (Token demo_cf demo_code_request (snd (Token demo_cf demo_code_request (demo_world demo_db)))) = Inl e"
proof (rule code_exchanged_once [OF prod.collapse [symmetric], where ops = "[]"])
  let ?x = "demo_world demo_db" and ?x1 = "snd (Token demo_cf demo_code_request (demo_world demo_db))"
  show "idle ?x" "idle ?x1" by (rule idle_easy; code_simp)+
  show "unissued demo_cf (ac_hash demo_cf (tq_code demo_code_request)) ?x"
    "unissued demo_cf (ac_hash demo_cf (tq_code demo_code_request)) ?x1" by (rule unissued_easy; code_simp)+
  show "fst (Token demo_cf demo_code_request ?x) \<notin> {Inl AuthStore, Inl errBadClient, Inl errDisabled}"
    unfolding demo_runs by simp
qed (simp_all add: demo_code_request_def demo_verifier_def)

section \<open>Refresh tokens\<close>

lemma find_hash: "unheld h db \<Longrightarrow> GetGrantByRefreshHash h db = (Some None, db)"
proof -
  assume "unheld h db"
  then have "find (\<lambda>g. og_hash g = h) (ad_grants db) = None" unfolding find_None_iff unheld_def by blast
  then show ?thesis by (simp add: GetGrantByRefreshHash_def)
qed

lemma rotated_refuses: "handleRotatedRefresh h c now x \<noteq> (Inr v, x1)"
  by (auto simp: handleRotatedRefresh_def chain_def refuse_def split: prod.splits sum.splits option.splits if_splits)

definition after_grant :: "acfg \<Rightarrow> string \<Rightarrow> oauth_client \<Rightarrow> time \<Rightarrow> oauth_grant option \<Rightarrow> token_response act" where
  "after_grant cf hash c now found =
     (case found of None \<Rightarrow> handleRotatedRefresh hash (cl_id c) now
      | Some g \<Rightarrow>
          if og_client g \<noteq> cl_id c \<or> \<not> grant_live g now then refuse errInvalidGrant
          else chain (WithTx (refresh_body cf g hash now)) (\<lambda>resp. chain (housekeeping now) (\<lambda>_. give resp)))"

lemma refresh_Inr:
  assumes "refresh cf req x = (Inr resp, x1)" "idle x"
  obtains c now found y where "guar cf x y"
    "acall (GetGrantByRefreshHash (ac_hash cf (tq_refresh req))) y = (Inr found, y\<lparr>ax_db := seen y, ax_env := tl (ax_env y)\<rparr>)"
    "after_grant cf (ac_hash cf (tq_refresh req)) c now found (y\<lparr>ax_db := seen y, ax_env := tl (ax_env y)\<rparr>) = (Inr resp, x1)"
    "found = map_option hydrateGrant (find (\<lambda>g. og_hash g = ac_hash cf (tq_refresh req)) (ad_grants (seen y)))"
proof -
  let ?h = "ac_hash cf (tq_refresh req)"
  have p: "tq_client req \<noteq> []" "tq_refresh req \<noteq> []" using assms(1) by (auto simp: refresh_def refuse_def split: if_splits)
  have alt: "refresh cf req = chain (authenticateClient cf (tq_client req) (tq_secret req)) (\<lambda>c.
      if \<not> resourceOK cf (tq_resource req) then refuse errBadTarget
      else chain read_clock (\<lambda>now. chain (acall (GetGrantByRefreshHash ?h)) (after_grant cf ?h c now)))"
    using p unfolding refresh_def after_grant_def [abs_def] Let_def by simp
  obtain c x2 where a: "authenticateClient cf (tq_client req) (tq_secret req) x = (Inr c, x2)"
    and r2: "(if \<not> resourceOK cf (tq_resource req) then refuse errBadTarget
      else chain read_clock (\<lambda>now. chain (acall (GetGrantByRefreshHash ?h)) (after_grant cf ?h c now))) x2 = (Inr resp, x1)"
    using assms(1) unfolding alt chain_Inr [of "authenticateClient cf (tq_client req) (tq_secret req)"] by blast
  have "resourceOK cf (tq_resource req)" using r2 by (auto simp: refuse_def split: if_splits)
  then obtain now y found z where n: "read_clock x2 = (Inr now, y)" and g: "acall (GetGrantByRefreshHash ?h) y = (Inr found, z)"
    and rest: "after_grant cf ?h c now found z = (Inr resp, x1)"
    using r2 by (auto simp: chain_Inr)
  have g2: "guar cf x x2" using soundD [OF authenticateClient_sound assms(2)] a by (metis snd_conv)
  have g3: "guar cf x2 y" using soundD [OF supplies_sound(1) later_world(1) [OF g2 assms(2)]] n by (metis snd_conv)
  have z: "z = y\<lparr>ax_db := seen y, ax_env := tl (ax_env y)\<rparr>" "found = map_option hydrateGrant (find (\<lambda>g. og_hash g = ?h) (ad_grants (seen y)))"
    using acall_Inr(1,2) [OF g] by (auto simp: GetGrantByRefreshHash_def)
  show ?thesis using that [OF guar_trans [OF g2 g3]] g rest z by blast
qed

lemma unheld_refused:
  assumes "unheld (ac_hash cf (tq_refresh req)) (ax_db x)" "idle x" "unissued cf (ac_hash cf (tq_refresh req)) x"
  shows "refresh cf req x \<noteq> (Inr resp, x1)"
proof
  let ?h = "ac_hash cf (tq_refresh req)"
  assume "refresh cf req x = (Inr resp, x1)"
  then obtain c now found y where g: "guar cf x y"
    and r: "after_grant cf ?h c now found (y\<lparr>ax_db := seen y, ax_env := tl (ax_env y)\<rparr>) = (Inr resp, x1)"
    and f: "found = map_option hydrateGrant (find (\<lambda>g. og_hash g = ?h) (ad_grants (seen y)))"
    using refresh_Inr assms(2) by metis
  have "unheld ?h (ax_db y)" using unheld_kept.through [OF g] fits_unissued [OF assms(3)] assms(1) by blast
  then have "unheld ?h (seen y)" using unheld_in_view later_world(2) [OF g assms(3)] by blast
  then have "found = None" using find_hash f unfolding GetGrantByRefreshHash_def by (metis fst_conv option.inject)
  then show False using r by (simp add: after_grant_def rotated_refuses)
qed

text \<open>A rotation leaves the hash it rotates away with nobody.\<close>

lemma rotation_frees:
  assumes ok: "auth_ok db" and tx: "refresh_tx i h new now ex t th db = (Some v, d)" and n: "new \<noteq> h"
  shows "unheld h d"
proof -
  obtain g where g: "g \<in> set (ad_grants db)" "holds_hash i h g" using refresh_Some(1) [OF tx] by (auto simp: list_ex_iff)
  have gs: "ad_grants d = snd (sql_update (holds_hash i h) (rotate_to new now ex) (ad_grants db))"
    using refresh_Some(4) [OF tx] by (simp add: InsertToken_Some)
  have "og_hash x \<noteq> h" if x: "x \<in> set (ad_grants d)" for x
    using x unfolding gs
  proof (rule updatedE)
    fix q assume "x = rotate_to new now ex q"
    then show ?thesis using n by (simp add: rotate_to_def)
  next
    assume x: "x \<in> set (ad_grants db)" "\<not> holds_hash i h x"
    show ?thesis
    proof
      assume "og_hash x = h"
      then have "x = g" using same_hash [OF auth_okD(1) [OF ok] x(1) g(1)] g(2) by (simp add: holds_hash_def)
      then show False using x(2) g(2) by simp
    qed
  qed
  then show ?thesis by (auto simp: unheld_def)
qed

lemma refresh_frees:
  assumes "refresh cf req x = (Inr resp, x1)" "idle x" "unissued cf (ac_hash cf (tq_refresh req)) x" "auth_ok (ax_db x)"
  shows "unheld (ac_hash cf (tq_refresh req)) (ax_db x1)"
proof -
  let ?h = "ac_hash cf (tq_refresh req)"
  obtain c now found y where g: "guar cf x y"
    and call: "acall (GetGrantByRefreshHash ?h) y = (Inr found, y\<lparr>ax_db := seen y, ax_env := tl (ax_env y)\<rparr>)"
    and r: "after_grant cf ?h c now found (y\<lparr>ax_db := seen y, ax_env := tl (ax_env y)\<rparr>) = (Inr resp, x1)"
    using refresh_Inr [OF assms(1,2)] by metis
  let ?z = "y\<lparr>ax_db := seen y, ax_env := tl (ax_env y)\<rparr>"
  have gz: "guar cf y ?z" using soundD [OF reads_sound(4) later_world(1) [OF g assms(2)]] call by (metis snd_conv)
  note gxz = guar_trans [OF g gz]
  note wz = later_world(1) [OF gxz assms(2)] later_world(2) [OF gxz assms(3)]
  obtain gr where "found = Some gr" using r by (cases found) (auto simp: after_grant_def rotated_refuses)
  then obtain w where tx: "WithTx (refresh_body cf gr ?h now) ?z = (Inr resp, w)"
    and hk: "chain (housekeeping now) (\<lambda>_. give resp) w = (Inr resp, x1)"
    using r by (auto simp: after_grant_def refuse_def chain_Inr give_def split: if_splits)
  obtain w1 where w1: "refresh_body cf gr ?h now (tx_start ?z) = (Inr resp, w1)" "w = w1\<lparr>ax_env := tl (ax_env w1), ax_tx := False\<rparr>"
    using WithTx_Inr [OF tx] by blast
  obtain b b' j later where e: "Some b \<in> set (ax_rand (tx_start ?z))"
     "refresh_tx (og_id gr) ?h (ac_hash cf (refreshPrefix @ b)) now (now + GrantIdleTTL)
       ((oauth_token (og_user gr) (og_id gr) AccessTokenTTL later)\<lparr>at_id := j\<rparr>) (ac_hash cf (prefixes TokenOAuth @ b')) (ax_db (tx_start ?z))
     = (Some (), ax_db w1)"
    using refresh_body_Inr [OF w1(1)] by auto
  have "ac_hash cf (refreshPrefix @ b) \<in> secrets cf ?z" using e(1) by (intro secretsI) simp_all
  then have "ac_hash cf (refreshPrefix @ b) \<noteq> ?h" using wz(2) unfolding unissued_def by metis
  moreover have "auth_ok (ax_db ?z)" using tables_kept.through [OF gxz _ assms(4)] fits_ok [OF assms(2)] by blast
  then have "auth_ok (seen ?z)" by (rule tables_kept.in_view) (use wz(1) in \<open>simp add: idle_def\<close>)
  ultimately have freed: "unheld ?h (ax_db w1)" by (intro rotation_frees [OF _ e(2) [unfolded tx_start(2)]])
  then have "unheld ?h (ax_db w)" unfolding w1(2) by simp
  have gw: "guar cf ?z w" using soundD [OF sound_refresh_tx wz(1), of cf gr ?h now] tx by simp
  have iw: "idle w" "unissued cf ?h w" using later_world [OF gw] wz by blast+
  have "sound cf (chain (housekeeping now) (\<lambda>_. give resp))" by (intro acts)
  then have "guar cf w x1" using soundD iw(1) hk by fastforce
  then show ?thesis using unheld_kept.through [of cf w x1 ?h] fits_unissued [OF iw(2)] \<open>unheld ?h (ax_db w)\<close> by blast
qed

text \<open>C5. A refresh token is accepted at most once: after a token request that presented it was answered
  with tokens, none that presents it again ever is, whatever others do in between and during either
  request, as long as no other secret is drawn with the same hash.\<close>

theorem refresh_token_once:
  assumes "Token cf req x = (Inr resp, x1)" "tq_type req = ''refresh_token''" "idle x" "auth_ok (ax_db x)"
    "unissued cf (ac_hash cf (tq_refresh req)) x"
    "ax_db x2 = fold auth_exec ops (ax_db x1)" "\<forall>op \<in> set ops. ac_hash cf (tq_refresh req) \<notin> op_hashes op"
    "idle x2" "unissued cf (ac_hash cf (tq_refresh req)) x2"
    "tq_refresh req2 = tq_refresh req" "tq_type req2 = ''refresh_token''"
  shows "\<exists>e. fst (Token cf req2 x2) = Inl e"
proof -
  let ?h = "ac_hash cf (tq_refresh req)"
  have on: "Enabled cf" using assms(1) by (auto simp: Token_def refuse_def split: if_splits)
  then have "refresh cf req x = (Inr resp, x1)" using assms(1,2) by (simp add: Token_def)
  then have "unheld ?h (ax_db x1)" using assms(3-5) by (intro refresh_frees)
  then have "unheld ?h (ax_db x2)" using unheld_kept.after assms(6,7) by metis
  then have "refresh cf req2 x2 \<noteq> (Inr resp', x3)" for resp' x3
    using unheld_refused [of cf req2 x2] assms(8-10) by simp
  then have "\<exists>e. fst (refresh cf req2 x2) = Inl e" by (metis old.sum.exhaust prod.collapse)
  then show ?thesis using on assms(11) by (simp add: Token_def)
qed

lemma refresh_token_once_witness:
  "\<exists>e. fst (Token demo_cf demo_refresh_request (snd (Token demo_cf demo_refresh_request (demo_world demo_db)))) = Inl e"
proof (rule refresh_token_once [where ops = "[]"])
  let ?x = "demo_world demo_db" and ?x1 = "snd (Token demo_cf demo_refresh_request (demo_world demo_db))"
  show "Token demo_cf demo_refresh_request ?x = (Inr (tokenResponse ''wfo_2'' ''wfr_1''), ?x1)" by (metis demo_runs(2) prod.collapse)
  show "idle ?x" "idle ?x1" by (rule idle_easy; code_simp)+
  show "auth_ok (ax_db ?x)" by (simp add: demo_world_def demo_ok)
  show "unissued demo_cf (ac_hash demo_cf (tq_refresh demo_refresh_request)) ?x"
    "unissued demo_cf (ac_hash demo_cf (tq_refresh demo_refresh_request)) ?x1" by (rule unissued_easy; code_simp)+
qed (simp_all add: demo_refresh_request_def)

end
