(* ===== verification/Auth_Revoke.thy ===== *)
theory Auth_Revoke
  imports Auth_Once
begin

text \<open>
  How a connection ends. A refresh token rotated away and presented again outside the grace window
  closes its grant: the grant and every access token issued under it are revoked, nothing revives them,
  and no request authenticates with one of them any more. An exchange replaces the user's earlier
  connection to the client in the same way: it is one atomic change of the tables, and the relation
  \<open>within\<close> says that before, between and after its own steps only others' operations come.
\<close>

lemma revoke_grants_mem:
  assumes "g \<in> set (ad_grants (snd (revoke_grants P now db)))" "P g" "\<And>q t. P (q\<lparr>og_revoked := t\<rparr>) = P q"
  shows "og_revoked g \<noteq> None"
proof -
  have "g \<in> set (snd (sql_update (\<lambda>g. P g \<and> og_revoked g = None) (\<lambda>g. g\<lparr>og_revoked := Some (to_sql now)\<rparr>) (ad_grants db)))"
    using assms(1) by (simp add: revoke_grants_def split_beta Let_def)
  then show ?thesis by (rule updatedE) (use assms(2) in auto)
qed

lemma optTime_set: "t \<noteq> zero_time \<Longrightarrow> optTime t \<noteq> None"
  by (simp add: optTime_def)

lemma by_grant_revokes:
  assumes "RevokeByGrant i t db = (Some u, d)" "t \<noteq> zero_time" "r \<in> set (ad_tokens d)" "tr_grant r = Some i"
  shows "tr_revoked r \<noteq> None"
proof -
  have "r \<in> set (snd (sql_update (\<lambda>r. tr_grant r = Some i \<and> tr_revoked r = None) (\<lambda>r. r\<lparr>tr_revoked := optTime t\<rparr>) (ad_tokens db)))"
    using assms(1,3) by (auto simp: RevokeByGrant_def revoke_tokens_def update_tokens_def split_beta)
  then show ?thesis by (rule updatedE) (use assms(2,4) optTime_set in auto)
qed

lemma by_grant_frame:
  assumes "RevokeByGrant i t db = (Some u, d)"
  shows "ad_grants d = ad_grants db" "r \<in> set (ad_tokens db) \<Longrightarrow> tr_grant r \<noteq> Some i \<Longrightarrow> r \<in> set (ad_tokens d)"
    "r' \<in> set (ad_tokens d) \<Longrightarrow> \<exists>r \<in> set (ad_tokens db). token_succ r r'"
proof -
  have d: "d = db\<lparr>ad_tokens := snd (sql_update (\<lambda>r. tr_grant r = Some i \<and> tr_revoked r = None)
      (\<lambda>r. r\<lparr>tr_revoked := optTime t\<rparr>) (ad_tokens db))\<rparr>"
    using assms by (auto simp: RevokeByGrant_def revoke_tokens_def update_tokens_def split_beta)
  show "ad_grants d = ad_grants db" using d by simp
  show "r \<in> set (ad_tokens db) \<Longrightarrow> tr_grant r \<noteq> Some i \<Longrightarrow> r \<in> set (ad_tokens d)"
    unfolding d by (simp add: sql_update_def)
  assume "r' \<in> set (ad_tokens d)"
  then have "r' \<in> set (snd (sql_update (\<lambda>r. tr_grant r = Some i \<and> tr_revoked r = None)
      (\<lambda>r. r\<lparr>tr_revoked := optTime t\<rparr>) (ad_tokens db)))" using d by simp
  then show "\<exists>r \<in> set (ad_tokens db). token_succ r r'"
  proof (rule updatedE)
    fix q assume "q \<in> set (ad_tokens db)" "tr_grant q = Some i \<and> tr_revoked q = None" "r' = q\<lparr>tr_revoked := optTime t\<rparr>"
    then show ?thesis by (intro bexI [of _ q]) (simp_all add: token_succ_def)
  qed (use token_succ_refl in blast)
qed

lemma revoke_tx_closes:
  assumes "revoke_tx i now later db = (Some u, d)" "later \<noteq> zero_time"
  shows "closed i d"
proof -
  obtain n d1 where g: "RevokeGrant i now db = (Some n, d1)" and t: "RevokeByGrant i later d1 = (Some u, d)"
    using assms(1) unfolding revoke_tx_def and_then_Some by blast
  have d1: "d1 = snd (revoke_grants (\<lambda>g. og_id g = i) now db)" using g by (cases "revoke_grants (\<lambda>g. og_id g = i) now db") (auto simp: RevokeGrant_def)
  have "og_revoked g \<noteq> None" if "g \<in> set (ad_grants d)" "og_id g = i" for g
    using revoke_grants_mem [of g "\<lambda>g. og_id g = i" now db] that by_grant_frame(1) [OF t] d1 by simp
  then show ?thesis using by_grant_revokes [OF t assms(2)] by (auto simp: closed_def)
qed

text \<open>A token of a closed grant authenticates nobody.\<close>

lemma authenticate_row:
  assumes "Authenticate cf raw x = (Inr p, x1)"
  obtains r now where "r \<in> set (ad_tokens (seen x))" "tr_hash r = ac_hash cf raw" "tr_revoked r = None"
    "now \<in> readings x" "token_live (hydrate_token r) now" "p = principal_of (hydrate_token r)"
proof -
  have raw: "raw \<noteq> []" using assms by (auto simp: Authenticate_def refuse_def)
  obtain found y where g: "acall (GetByHash (ac_hash cf raw)) x = (Inr found, y)" and k: "use_token found y = (Inr p, x1)"
    using assms raw unfolding Authenticate_def by (auto simp: chain_Inr)
  obtain t where t: "found = Some t" using k by (cases found) (auto simp: refuse_def use_token_def)
  have y: "readings y = readings x"
  proof -
    obtain d e where "y = x\<lparr>ax_db := d, ax_env := e\<rparr>" using acall_Inr(2) [OF g] by blast
    then show ?thesis by (simp add: readings_def)
  qed
  obtain r where r: "r \<in> set (ad_tokens (seen x))" "tr_hash r = ac_hash cf raw" "t = hydrate_token r"
    using acall_Inr(1) [OF g] t find_SomeD by (auto simp: GetByHash_def dest: find_SomeD)
  obtain now z where n: "read_clock y = (Inr now, z)" and live: "token_live t now" and p: "p = principal_of t"
    using k unfolding t by (auto simp: use_token_def chain_Inr Let_def split_beta refuse_def give_def split: if_splits)
  have "tr_revoked r = None" using live r(3) by (simp add: token_live_def hydrate_token_def)
  then show ?thesis using that r live p read_clock_Inr(2) [OF n] y by blast
qed

text \<open>C6. A refresh token that was rotated away and is presented again: inside the grace window of the
  rotation that replaced it nothing happens to the grant; otherwise the connection ends. The request is
  refused, and from then on, whatever anybody does, the grant is revoked or gone and every request that
  authenticates does so with a token of another grant.\<close>

theorem replay_ends_connection:
  fixes r :: "auth_err + token_response"
  assumes "idle x" "zero_time \<notin> readings x"
    "GetGrantBySpentRefreshHash h (seen x) = (Some (Some g), seen x)" "og_revoked g = None"
    "handleRotatedRefresh h (og_client g) now x = (r, x1)" "r \<noteq> Inl AuthStore"
    "ax_db x2 = fold auth_exec ops (ax_db x1)" "\<forall>op \<in> set (ops @ env_ops x2). op_ok op \<and> og_id g \<notin> op_opens op"
  shows "r = Inl errInvalidGrant \<and>
    (if in_grace g h now then ax_db x1 = seen x
     else (\<forall>g' \<in> set (ad_grants (seen x2)). og_id g' = og_id g \<longrightarrow> og_revoked g' \<noteq> None) \<and>
       (\<forall>raw p x3. Authenticate cf raw x2 = (Inr p, x3) \<longrightarrow>
          (\<exists>t \<in> set (ad_tokens (seen x2)). tr_hash t = ac_hash cf raw \<and> tr_id t = pr_token p \<and> tr_grant t \<noteq> Some (og_id g))))"
proof -
  let ?i = "og_id g"
  obtain f y where call: "acall (GetGrantBySpentRefreshHash h) x = (f, y)" by fastforce
  have "f \<noteq> Inl e" for e
  proof
    assume "f = Inl e"
    then have "handleRotatedRefresh h (og_client g) now x = (Inl AuthStore :: auth_err + token_response, y)"
      using call acall_error by (simp add: handleRotatedRefresh_def chain_def)
    then show False using assms(5,6) by simp
  qed
  then obtain found where found: "f = Inr found" by (cases f) auto
  have y: "found = Some g" "ax_db y = seen x" "ax_env y = tl (ax_env x)" "\<not> ax_tx y" "readings y = readings x"
  proof -
    obtain e where "y = x\<lparr>ax_db := seen x, ax_env := tl (ax_env x)\<rparr>" "found = Some g"
      using acall_Inr(1,2) [OF call [unfolded found]] assms(3) by auto
    then show "found = Some g" "ax_db y = seen x" "ax_env y = tl (ax_env x)" "\<not> ax_tx y" "readings y = readings x"
      using assms(1) by (simp_all add: idle_def readings_def)
  qed
  have rest: "(if in_grace g h now then refuse errInvalidGrant
      else chain (revokeGrant ?i now) (\<lambda>_. refuse errInvalidGrant)) y = (r, x1)"
    using assms(4,5) call found y(1) by (simp add: handleRotatedRefresh_def chain_def)
  show ?thesis
  proof (cases "in_grace g h now")
    case True
    then show ?thesis using rest y(2) by (simp add: refuse_def)
  next
    case False
    then have ch: "chain (revokeGrant ?i now) (\<lambda>_. refuse errInvalidGrant) y = (r, x1)" using rest by simp
    obtain u where rv: "revokeGrant ?i now y = (Inr u, x1)" "r = Inl errInvalidGrant"
    proof (cases "revokeGrant ?i now y")
      case (Pair q z)
      show ?thesis
      proof (cases q)
        case (Inl e)
        have "e = AuthStore"
        proof -
          have body: "\<And>w e w1. chain (acall (RevokeGrant ?i now)) (\<lambda>_. RevokeGrantTokens ?i) w = (Inl e, w1) \<Longrightarrow> e = AuthStore"
            by (auto simp: chain_def RevokeGrantTokens_def read_clock_def split: prod.splits sum.splits list.splits dest: acall_error)
          show ?thesis using Pair Inl body
            by (auto simp: revokeGrant_def WithTx_alt Let_def split: if_splits prod.splits sum.splits fault.splits)
        qed
        then show ?thesis using ch Pair Inl assms(6) by (simp add: chain_def)
      next
        case (Inr u)
        then show ?thesis using that ch Pair by (simp add: chain_def refuse_def)
      qed
    qed
    obtain z1 where z1: "chain (acall (RevokeGrant ?i now)) (\<lambda>_. RevokeGrantTokens ?i) (tx_start y) = (Inr u, z1)"
      "x1 = z1\<lparr>ax_env := tl (ax_env z1), ax_tx := False\<rparr>" using WithTx_Inr [OF rv(1) [unfolded revokeGrant_def]] by blast
    obtain n z where 1: "acall (RevokeGrant ?i now) (tx_start y) = (Inr n, z)" and 2: "RevokeGrantTokens ?i z = (Inr u, z1)"
      using z1(1) unfolding chain_Inr by blast
    note z = acall_tx [OF 1 tx_start(1)]
    obtain later where later: "later \<in> readings z" "RevokeByGrant ?i later (ax_db z) = (Some (), ax_db z1)"
      using RevokeGrantTokens_tx(1) [OF 2 z(2)] by blast
    have "readings (tx_start y) = readings y" by (simp add: readings_def)
    then have "later \<noteq> zero_time" using later(1) z(3) y(5) assms(2) by auto
    moreover have "revoke_tx ?i now later (ax_db (tx_start y)) = (Some (), ax_db z1)"
      using z(1) later(2) by (simp add: revoke_tx_def and_then_def)
    ultimately have "closed ?i (ax_db x1)" using revoke_tx_closes z1(2) by simp
    then have "closed ?i (ax_db x2)" using closed_kept.after assms(7,8) by (metis Un_iff set_append)
    then have c: "closed ?i (seen x2)" using closed_kept.in_view assms(8) by (metis Un_iff set_append)
    have "\<exists>t \<in> set (ad_tokens (seen x2)). tr_hash t = ac_hash cf raw \<and> tr_id t = pr_token p \<and> tr_grant t \<noteq> Some ?i"
      if a: "Authenticate cf raw x2 = (Inr p, x3)" for raw p x3
    proof -
      obtain t nw where t: "t \<in> set (ad_tokens (seen x2))" "tr_hash t = ac_hash cf raw" "tr_revoked t = None"
          "p = principal_of (hydrate_token t)"
        using authenticate_row [OF a] by metis
      then have "tr_grant t \<noteq> Some ?i" using c by (auto simp: closed_def)
      moreover have "tr_id t = pr_token p" using t(4) by (simp add: principal_of_def hydrate_token_def)
      ultimately show ?thesis using t(1,2) by blast
    qed
    then show ?thesis using False rv(2) c by (auto simp: closed_def)
  qed
qed

text \<open>A grant whose first refresh token was rotated away long ago.\<close>
definition demo_replayed :: auth_db where
  "demo_replayed = demo_db\<lparr>ad_spent := [\<lparr>sp_hash = ''ho'', sp_grant = ''g'', sp_at = 1\<rparr>]\<rparr>"

lemma replay_ends_connection_witness:
  "fst (handleRotatedRefresh ''ho'' ''c'' (2 * second) (demo_world demo_replayed)) = (Inl errInvalidGrant :: auth_err + token_response) \<and>
   \<not> list_ex (\<lambda>g. og_id g = ''g'' \<and> og_revoked g = None)
     (ad_grants (seen (snd (handleRotatedRefresh ''ho'' ''c'' (2 * second) (demo_world demo_replayed) :: (auth_err + token_response) \<times> ax))))"
proof -
  let ?x = "demo_world demo_replayed" let ?g = "hydrateGrant (hd (ad_grants demo_replayed))"
  let ?run = "handleRotatedRefresh ''ho'' ''c'' (2 * second) ?x :: (auth_err + token_response) \<times> ax"
  have "idle ?x" by (rule idle_easy; code_simp)
  moreover have "zero_time \<notin> readings ?x" by code_simp
  moreover have "GetGrantBySpentRefreshHash ''ho'' (seen ?x) = (Some (Some ?g), seen ?x)" by code_simp
  moreover have g: "og_revoked ?g = None" "og_client ?g = ''c''" "og_id ?g = ''g''" "\<not> in_grace ?g ''ho'' (2 * second)" by code_simp+
  moreover have "fst ?run \<noteq> Inl AuthStore" by code_simp
  moreover have "env_ops (snd ?run) = []" by code_simp
  ultimately show ?thesis
    using replay_ends_connection [of ?x "''ho''" ?g "2 * second" "fst ?run" "snd ?run" "snd ?run" "[]"]
    by (simp add: list_ex_iff)
qed


section \<open>Exchanges\<close>

lemma revoke_each_effect:
  "revoke_each clk is db = (Some u, d) \<Longrightarrow> \<forall>n. clk n \<noteq> zero_time \<Longrightarrow>
   ad_grants d = ad_grants db \<and>
   (\<forall>r \<in> set (ad_tokens d). tr_grant r \<in> Some ` set is \<longrightarrow> tr_revoked r \<noteq> None) \<and>
   (\<forall>r \<in> set (ad_tokens db). tr_grant r \<notin> Some ` set is \<longrightarrow> r \<in> set (ad_tokens d)) \<and>
   (\<forall>r' \<in> set (ad_tokens d). \<exists>r \<in> set (ad_tokens db). token_succ r r')"
proof (induction "is" arbitrary: clk db)
  case Nil
  have "\<exists>r \<in> set (ad_tokens db). token_succ r r'" if "r' \<in> set (ad_tokens db)" for r'
    using that token_succ_refl by blast
  then show ?case using Nil by auto
next
  case (Cons i "is")
  obtain d1 where 1: "RevokeByGrant i (clk 0) db = (Some (), d1)"
      and 2: "revoke_each (\<lambda>n. clk (Suc n)) is d1 = (Some u, d)"
    using Cons.prems(1) by (auto simp: and_then_Some)
  note ih = Cons.IH [OF 2] Cons.prems(2)
  note f = by_grant_frame [OF 1]
  have ih: "ad_grants d = ad_grants d1" "\<forall>r \<in> set (ad_tokens d). tr_grant r \<in> Some ` set is \<longrightarrow> tr_revoked r \<noteq> None"
    "\<forall>r \<in> set (ad_tokens d1). tr_grant r \<notin> Some ` set is \<longrightarrow> r \<in> set (ad_tokens d)"
    "\<forall>r' \<in> set (ad_tokens d). \<exists>r \<in> set (ad_tokens d1). token_succ r r'"
    using Cons.IH [OF 2] Cons.prems(2) by blast+
  have "tr_revoked r \<noteq> None" if r: "r \<in> set (ad_tokens d)" "tr_grant r = Some i" for r
  proof -
    obtain q where q: "q \<in> set (ad_tokens d1)" "token_succ q r" using ih(4) r(1) by blast
    have "tr_grant q = Some i" using q(2) r(2) by (simp add: token_succ_def)
    then have "tr_revoked q \<noteq> None" using by_grant_revokes [OF 1 _ q(1)] Cons.prems(2) by blast
    then show ?thesis using q(2) by (simp add: token_succ_def)
  qed
  moreover have "\<exists>q \<in> set (ad_tokens db). token_succ q r" if "r \<in> set (ad_tokens d)" for r
    using ih(4) f(3) token_succ_trans that by meson
  ultimately show ?case using f(1,2) ih(1-3) by auto
qed

lemma exchange_effect:
  assumes ok: "auth_ok db" and x: "exchange_tx g t h now clk db = (Some v, d)" and clk: "\<forall>n. clk n \<noteq> zero_time"
    and t: "at_grant t = og_id g" "og_id g \<noteq> []" and g: "og_revoked g = None"
  shows "ad_grants d = replace_grants g now (ad_grants db)" "grant_row g \<in> set (ad_grants d)"
    "insert_token_row t h \<in> set (ad_tokens d)"
    "\<And>g'. g' \<in> set (ad_grants db) \<Longrightarrow> og_user g' = og_user g \<Longrightarrow> og_client g' = og_client g \<Longrightarrow> og_revoked g' = None \<Longrightarrow>
       closed (og_id g') d"
proof -
  obtain e where e: "InsertToken t h (db\<lparr>ad_grants := replace_grants g now (ad_grants db)\<rparr>) = (Some (), e)"
    and rv: "revoke_each clk (replaced_ids g (ad_grants db)) e = (Some (), d)"
    using exchange_Some(5) [OF x] by blast
  note eff = revoke_each_effect [OF rv clk]
  have eg: "ad_grants e = replace_grants g now (ad_grants db)" "ad_tokens e = ad_tokens db @ [insert_token_row t h]"
    using e by (auto simp: InsertToken_Some)
  show gs: "ad_grants d = replace_grants g now (ad_grants db)" using eff eg by simp
  have own: "og_id g \<notin> set (replaced_ids g (ad_grants db))"
    by (auto simp: replaced_ids_def other_grant_def grant_row_def)
  have "grant_row g \<in> set (replace_grants g now (ad_grants db))"
    unfolding replace_grants_def sql_update_mem by (auto simp: other_grant_def grant_row_def g intro!: bexI [of _ "grant_row g"])
  then show "grant_row g \<in> set (ad_grants d)" using gs by simp
  have "tr_grant (insert_token_row t h) = Some (og_id g)" using t by (simp add: insert_token_row_def)
  then show "insert_token_row t h \<in> set (ad_tokens d)" using eff eg(2) own by auto
  fix g' assume g': "g' \<in> set (ad_grants db)" "og_user g' = og_user g" "og_client g' = og_client g" "og_revoked g' = None"
  have ne: "og_id g' \<noteq> og_id g" using exchange_Some(1) [OF x] g'(1) by (metis image_eqI)
  then have "og_id g' \<in> set (replaced_ids g (ad_grants db))" using g' by (auto simp: replaced_ids_def other_grant_def)
  then have "\<forall>r \<in> set (ad_tokens d). tr_grant r = Some (og_id g') \<longrightarrow> tr_revoked r \<noteq> None" using eff by auto
  moreover have "og_revoked y \<noteq> None" if y: "y \<in> set (ad_grants d)" "og_id y = og_id g'" for y
  proof
    assume live: "og_revoked y = None"
    have m: "(y \<in> set (ad_grants db) \<or> y = grant_row g) \<and> \<not> other_grant (og_user g) (og_client g) (og_id g) y"
      using replace_mem [OF _ live] y(1) gs by simp
    then have "y \<in> set (ad_grants db)" using ne y(2) by (auto simp: grant_row_def)
    then have "y = g'" using same_id [OF auth_okD(1) [OF ok]] g'(1) y(2) by blast
    then show False using m g' ne by (simp add: other_grant_def)
  qed
  ultimately show "closed (og_id g') d" by (simp add: closed_def)
qed

lemma client_Inr:
  assumes "authenticateClient cf i s x = (Inr c, x1)"
  shows "cl_id c = i" "readings x1 = readings x" "\<exists>found. acall (GetClient i) x = (Inr found, x1)"
proof -
  obtain found y where g: "acall (GetClient i) x = (Inr found, y)" and k: "(case found of None \<Rightarrow> refuse errBadClient
        | Some c \<Rightarrow> (case cl_secret c of Some h \<Rightarrow> if ac_hash cf s \<noteq> h then refuse errBadClient else give c
             | None \<Rightarrow> give c)) y = (Inr c, x1)"
    using assms unfolding authenticateClient_def by (auto simp: chain_Inr refuse_def split: if_splits)
  have f: "found = Some c" "x1 = y" using k by (auto simp: refuse_def give_def split: option.splits if_splits)
  obtain q where q: "find (\<lambda>c. cl_id c = i) (ad_clients (seen x)) = Some q" "c = hydrate_client q"
    using acall_Inr(1) [OF g] f(1) by (auto simp: GetClient_def)
  have "cl_id q = i" using find_SomeD [OF q(1)] by simp
  then show "cl_id c = i" using q(2) by (simp add: hydrate_client_def)
  obtain d e where "y = x\<lparr>ax_db := d, ax_env := e\<rparr>" using acall_Inr(2) [OF g] by blast
  then show "readings x1 = readings x" using f(2) by (simp add: readings_def)
  show "\<exists>found. acall (GetClient i) x = (Inr found, x1)" using g f by blast
qed

text \<open>What the database underwent between two states of one request: operations of the others, and those of
  \<open>S\<close>.\<close>

definition within :: "auth_op set \<Rightarrow> ax \<Rightarrow> ax \<Rightarrow> bool" where
  "within S x x' \<longleftrightarrow> (\<exists>ops. ax_db x' = fold auth_exec ops (ax_db x) \<and> set ops \<subseteq> set (env_ops x) \<union> S)"

lemma within_refl: "ax_db x' = ax_db x \<Longrightarrow> within S x x'"
  unfolding within_def by (rule exI [of _ "[]"]) simp

lemma env_ops_shrink: "shrinks x y \<Longrightarrow> set (env_ops y) \<subseteq> set (env_ops x)"
  by (auto simp: shrinks_def env_ops_def)

lemma within_trans:
  assumes "within S x y" "shrinks x y" "within S y z"
  shows "within S x z"
proof -
  obtain a where a: "ax_db y = fold auth_exec a (ax_db x)" "set a \<subseteq> set (env_ops x) \<union> S"
    using assms(1) by (auto simp: within_def)
  obtain b where b: "ax_db z = fold auth_exec b (ax_db y)" "set b \<subseteq> set (env_ops y) \<union> S"
    using assms(3) by (auto simp: within_def)
  have "set (a @ b) \<subseteq> set (env_ops x) \<union> S" using a(2) b(2) env_ops_shrink [OF assms(2)] by auto
  moreover have "ax_db z = fold auth_exec (a @ b) (ax_db x)" using a(1) b(1) by simp
  ultimately show ?thesis unfolding within_def by blast
qed

lemma turn_of_env: "set (tn_ops (next_turn x)) \<subseteq> set (env_ops x)"
  by (auto simp: next_turn_def quiet_turn_def env_ops_def split: list.splits)

lemma within_acall:
  assumes "\<not> ax_tx x" "snd (m (seen x)) = seen x \<or> (\<exists>op \<in> S. snd (m (seen x)) = auth_exec op (seen x))"
  shows "within S x (snd (acall m x))"
proof -
  have s: "seen x = fold auth_exec (tn_ops (next_turn x)) (ax_db x)" using assms(1) by (simp add: seen_def)
  consider "ax_db (snd (acall m x)) = seen x" | op where "op \<in> S" "ax_db (snd (acall m x)) = auth_exec op (seen x)"
    using acall_db [of m x] assms(2) by auto
  then show ?thesis
  proof cases
    case 1
    then show ?thesis unfolding within_def using s turn_of_env [of x] by (intro exI [of _ "tn_ops (next_turn x)"]) auto
  next
    case 2
    then show ?thesis unfolding within_def using s turn_of_env [of x]
      by (intro exI [of _ "tn_ops (next_turn x) @ [op]"]) auto
  qed
qed

lemma within_seen:
  assumes "within S x y" "shrinks x y" "\<not> ax_tx y"
  shows "\<exists>ops. seen y = fold auth_exec ops (ax_db x) \<and> set ops \<subseteq> set (env_ops x) \<union> S"
proof -
  obtain ops where "ax_db y = fold auth_exec ops (ax_db x)" "set ops \<subseteq> set (env_ops x) \<union> S"
    using assms(1) by (auto simp: within_def)
  then show ?thesis using assms(3) turn_of_env [of y] env_ops_shrink [OF assms(2)]
    by (intro exI [of _ "ops @ tn_ops (next_turn y)"]) (auto simp: seen_def)
qed

definition cleanup_ops :: "time \<Rightarrow> auth_op set" where
  "cleanup_ops now = {OpPurgeCodes now, OpDeadGrants (now - DeadRetention)}"

lemma housekeeping_within:
  assumes "\<not> ax_tx x"
  shows "within (cleanup_ops now) x (snd (housekeeping now x))"
proof (cases "fst (housekeepingDue now x) = Inr True")
  case True
  define x1 where "x1 = snd (housekeepingDue now x)"
  define x2 where "x2 = snd (acall (PurgeExpiredCodes now) x1)"
  have h: "snd (housekeeping now x) = snd (acall (DeleteDeadGrants (now - DeadRetention)) x2)"
    using True by (simp add: housekeeping_def chain_def ignoring_def split_beta x1_def x2_def)
  have s1: "shrinks x x1" "ax_db x1 = ax_db x" by (simp_all add: x1_def housekeepingDue_def shrinks_def)
  have s2: "shrinks x1 x2" by (simp add: x2_def)
  have t: "\<not> ax_tx x1" "\<not> ax_tx x2" using assms s1 s2 by (simp_all add: shrinks_def)
  have "within (cleanup_ops now) x1 x2"
    unfolding x2_def by (rule within_acall [OF t(1)]) (simp add: PurgeExpiredCodes_def cleanup_ops_def commit_def)
  moreover have "within (cleanup_ops now) x2 (snd (housekeeping now x))"
    unfolding h by (rule within_acall [OF t(2)]) (simp add: DeleteDeadGrants_def cleanup_ops_def commit_def)
  ultimately show ?thesis using within_trans s1 s2 within_refl shrinks_trans by metis
next
  case False
  then have "housekeeping now x = (Inr (), x)"
    by (simp add: housekeeping_def housekeepingDue_def chain_def give_def split: if_splits)
  then show ?thesis by (simp add: within_refl)
qed

text \<open>C7. A code exchanged for tokens leaves one connection of the user to the client. The request takes the
  code where the others' operations left it, then makes one atomic change to the tables, with nothing but
  others' operations before it and nothing but others' operations and its own clean-up after it. In the
  tables this change leaves, the answered refresh token is the current one of an unrevoked grant, of the
  user who approved the code and of the client that asked; the answered access token is an unrevoked token
  of that grant with scope mcp; every other grant of the same user and client is revoked, and those that
  were live when the change was made are closed, with every access token issued under them revoked.\<close>

theorem exchange_replaces:
  assumes "Token cf req x = (Inr resp, x1)" "tq_type req = ''authorization_code''" "idle x" "auth_ok (ax_db x)"
    "zero_time \<notin> readings x"
  shows "\<exists>pre code taken now mid new issued h clk d post.
     let before = fold auth_exec mid taken; g = grant_row new; t = insert_token_row issued h in
     set pre \<subseteq> set (env_ops x) \<and>
     ConsumeCode (ac_hash cf (tq_code req)) (fold auth_exec pre (ax_db x)) = (Some (Some code), taken) \<and>
     oc_client code = tq_client req \<and> now < oc_expires code \<and> VerifyPKCE cf (tq_verifier req) (oc_challenge code) \<and>
     set mid \<subseteq> set (env_ops x) \<and> exchange_tx new issued h now clk before = (Some (), d) \<and>
     ax_db x1 = fold auth_exec post d \<and>
     set post \<subseteq> set (env_ops x) \<union> {OpPurgeCodes now, OpDeadGrants (now - DeadRetention)} \<and>
     g \<in> set (ad_grants d) \<and> og_hash g = ac_hash cf (ts_refresh resp) \<and> og_client g = tq_client req \<and>
     og_user g = oc_user code \<and> og_revoked g = None \<and>
     t \<in> set (ad_tokens d) \<and> tr_hash t = ac_hash cf (ts_access resp) \<and> tr_grant t = Some (og_id g) \<and>
     tr_user t = og_user g \<and> tr_kind t = TokenOAuth \<and> tr_scope t = ScopeMCP \<and> tr_revoked t = None \<and>
     (\<forall>g' \<in> set (ad_grants d). og_user g' = og_user g \<longrightarrow> og_client g' = og_client g \<longrightarrow> og_id g' \<noteq> og_id g \<longrightarrow> og_revoked g' \<noteq> None) \<and>
     (\<forall>g' \<in> set (ad_grants before). og_user g' = og_user g \<longrightarrow> og_client g' = og_client g \<longrightarrow> og_revoked g' = None \<longrightarrow> closed (og_id g') d)"
proof -
  have "exchange cf req x = (Inr resp, x1)" using assms(1,2) by (auto simp: Token_def refuse_def split: if_splits)
  moreover from this have p: "tq_client req \<noteq> []" "tq_code req \<noteq> []" "tq_redirect req \<noteq> []" "tq_verifier req \<noteq> []"
    by (auto simp: exchange_def refuse_def split: if_splits)
  ultimately obtain c x2 now x3 found x4 where a: "authenticateClient cf (tq_client req) (tq_secret req) x = (Inr c, x2)"
      and n: "read_clock x2 = (Inr now, x3)" and co: "acall (ConsumeCode (ac_hash cf (tq_code req))) x3 = (Inr found, x4)"
      and rest: "after_code cf req c now found x4 = (Inr resp, x1)"
    unfolding exchange_alt [OF p] chain_Inr by blast
  have g2: "guar cf x x2" using soundD [OF authenticateClient_sound assms(3), of cf "tq_client req" "tq_secret req"] a by simp
  have g3: "guar cf x2 x3" using soundD [OF supplies_sound(1) later_world(1) [OF g2 assms(3)], of cf] n by simp
  note i3 = later_world(1) [OF guar_trans [OF g2 g3] assms(3)]
  have g4: "guar cf x3 x4" using soundD [OF writes_sound(1) i3, of cf "ac_hash cf (tq_code req)"] co by simp
  note gx4 = guar_trans [OF guar_trans [OF g2 g3] g4]
  note i4 = later_world(1) [OF gx4 assms(3)]
  obtain d4 e4 where "x4 = x3\<lparr>ax_db := d4, ax_env := e4\<rparr>" using acall_Inr(2) [OF co] by blast
  then have rd: "readings x4 \<subseteq> readings x"
    using client_Inr(2) [OF a] read_clock_Inr(3) [OF n] by (simp add: readings_def)
  obtain code where code: "found = Some code" using rest by (cases found) (auto simp: after_code_def refuse_def)
  obtain w where tx: "WithTx (exchange_body cf code c now) x4 = (Inr resp, w)"
    and hk: "chain (housekeeping now) (\<lambda>_. give resp) w = (Inr resp, x1)"
    using rest code by (auto simp: after_code_def refuse_def chain_Inr give_def split: if_splits)
  obtain w1 where w1: "exchange_body cf code c now (tx_start x4) = (Inr resp, w1)" "w = w1\<lparr>ax_env := tl (ax_env w1), ax_tx := False\<rparr>"
    using WithTx_Inr [OF tx] by blast
  obtain b b' i j later clk where e: "i \<in> set (ax_ids x4)" "\<forall>n. clk n \<in> readings (tx_start x4)"
     "resp = tokenResponse (prefixes TokenOAuth @ b') (refreshPrefix @ b)"
     "exchange_tx (fresh_grant i (oc_user code) (cl_id c) (ac_hash cf (refreshPrefix @ b)) now)
       ((oauth_token (oc_user code) i AccessTokenTTL later)\<lparr>at_id := j\<rparr>) (ac_hash cf (prefixes TokenOAuth @ b')) now clk (seen x4)
     = (Some (), ax_db w1)" (is "exchange_tx ?g ?t ?h now clk _ = _")
    using exchange_body_Inr [OF w1(1) tx_start(1)] by auto
  have clk: "\<forall>n. clk n \<noteq> zero_time"
  proof -
    have "readings (tx_start x4) = readings x4" by (simp add: readings_def)
    then show ?thesis using e(2) rd assms(5) by (metis subsetD)
  qed
  have "auth_ok (ax_db x4)" using tables_kept.through [OF gx4 _ assms(4)] fits_ok [OF assms(3)] by blast
  then have ok: "auth_ok (seen x4)" by (rule tables_kept.in_view) (use i4 in \<open>simp add: idle_def\<close>)
  have i: "i \<noteq> []" using e(1) i4 by (auto simp: idle_def)
  have g: "at_grant ?t = og_id ?g" "og_id ?g \<noteq> []" "og_revoked ?g = None" "og_user ?g = oc_user code" "og_client ?g = cl_id c"
    "og_hash ?g = ac_hash cf (ts_refresh resp)" "og_prev ?g = None"
    using i e(3) by (simp_all add: fresh_grant_def oauth_token_def new_token_def tokenResponse_def)
  note eff = exchange_effect [OF ok e(4) clk g(1-3)]
  let ?row = "grant_row ?g"
  have row: "og_id ?row = i" "og_user ?row = oc_user code" "og_client ?row = cl_id c" "og_revoked ?row = None"
    "og_hash ?row = ac_hash cf (ts_refresh resp)"
    using g by (simp_all add: grant_row_def fresh_grant_def)
  have d: "auth_ok (ax_db w1)"
    using ok_exchange [OF ok g(7), of ?t ?h now clk] e(4) by (simp add: commit_def)
  have single: "og_revoked g' \<noteq> None" if q: "g' \<in> set (ad_grants (ax_db w1))" "og_user g' = og_user ?row" "og_client g' = og_client ?row"
      "og_id g' \<noteq> og_id ?row" for g'
    using single_grantsD [OF auth_okD(3) [OF d] q(1) eff(2)] q(2-4) row(4) by blast
  have closed: "closed (og_id g') (ax_db w1)" if "g' \<in> set (ad_grants (seen x4))" "og_user g' = og_user ?row"
      "og_client g' = og_client ?row" "og_revoked g' = None" for g'
    using eff(4) that g(4,5) row(2,3) by simp
  have x2: "within {} x x2" "shrinks x x2"
  proof -
    obtain r where r: "acall (GetClient (tq_client req)) x = (Inr r, x2)" using client_Inr(3) [OF a] by blast
    show "within {} x x2" using within_acall [of x "GetClient (tq_client req)" "{}"] assms(3) r by (simp add: GetClient_def idle_def)
    show "shrinks x x2" using acall_shrinks [of x "GetClient (tq_client req)"] r by simp
  qed
  have x3: "within {} x x3" "shrinks x x3" "\<not> ax_tx x3"
  proof -
    have "ax_db x3 = ax_db x2" using arg_cong [OF n, of "\<lambda>p. ax_db (snd p)"] by (simp add: read_clock_def split: list.splits)
    then show "within {} x x3" by (intro within_trans [OF x2] within_refl)
    show "shrinks x x3" using shrinks_trans [OF x2(2)] g3 by (simp add: guar_def)
    show "\<not> ax_tx x3" using i3 by (simp add: idle_def)
  qed
  from within_seen [OF x3] obtain pre where pre: "seen x3 = fold auth_exec pre (ax_db x)" "set pre \<subseteq> set (env_ops x)" by auto
  have taken: "ConsumeCode (ac_hash cf (tq_code req)) (seen x3) = (Some (Some code), ax_db x4)" "shrinks x3 x4"
    using acall_Inr(1) [OF co] acall_shrinks [of x3 "ConsumeCode (ac_hash cf (tq_code req))"] co code by simp_all
  have fits: "oc_client code = cl_id c" "now < oc_expires code" "VerifyPKCE cf (tq_verifier req) (oc_challenge code)"
    using rest code by (auto simp: after_code_def refuse_def code_fits_def split: if_splits)
  define mid where "mid = tn_ops (next_turn x4)"
  have mid: "seen x4 = fold auth_exec mid (ax_db x4)" "set mid \<subseteq> set (env_ops x)"
    using i4 turn_of_env [of x4] env_ops_shrink [OF shrinks_trans [OF x3(2) taken(2)]]
    by (auto simp: seen_def idle_def mid_def)
  have gw: "guar cf x4 w" using soundD [OF sound_exchange_tx i4, of cf code c now] tx by simp
  have sw: "shrinks x w" using shrinks_trans [OF shrinks_trans [OF x3(2) taken(2)]] gw by (simp add: guar_def)
  have wtx: "\<not> ax_tx w" using later_world(1) [OF gw i4] by (simp add: idle_def)
  obtain post where post: "ax_db x1 = fold auth_exec post (ax_db w)" "set post \<subseteq> set (env_ops w) \<union> cleanup_ops now"
  proof -
    have "snd (housekeeping now w) = x1" using hk by (auto simp: chain_Inr give_def)
    then show ?thesis using housekeeping_within [OF wtx, of now] that by (auto simp: within_def)
  qed
  have post2: "set post \<subseteq> set (env_ops x) \<union> {OpPurgeCodes now, OpDeadGrants (now - DeadRetention)}"
    using post(2) env_ops_shrink [OF sw] by (auto simp: cleanup_ops_def)
  have post1: "ax_db x1 = fold auth_exec post (ax_db w1)" using post(1) w1(2) by simp
  have tok: "tr_hash (insert_token_row ?t ?h) = ac_hash cf (ts_access resp)" "tr_grant (insert_token_row ?t ?h) = Some (og_id ?row)"
    "tr_user (insert_token_row ?t ?h) = og_user ?row" "tr_kind (insert_token_row ?t ?h) = TokenOAuth"
    "tr_scope (insert_token_row ?t ?h) = ScopeMCP" "tr_revoked (insert_token_row ?t ?h) = None"
    using e(3) i row by (simp_all add: insert_token_row_def oauth_token_def new_token_def tokenResponse_def)
  show ?thesis
    unfolding Let_def
    by (intro exI [of _ pre] exI [of _ code] exI [of _ "ax_db x4"] exI [of _ now] exI [of _ mid] exI [of _ ?g] exI [of _ ?t]
        exI [of _ ?h] exI [of _ clk] exI [of _ "ax_db w1"] exI [of _ post] conjI ballI impI)
      (use pre taken(1) fits mid e(4) post1 post2 eff(2,3) row tok client_Inr(1) [OF a] single closed in simp_all)
qed

lemma exchange_replaces_witness:
  "\<exists>code taken now new issued h clk d.
     ConsumeCode (ac_hash demo_cf (tq_code demo_code_request)) demo_db = (Some (Some code), taken) \<and>
     exchange_tx new issued h now clk taken = (Some (), d) \<and> og_user (grant_row new) = oc_user code \<and>
     grant_row new \<in> set (ad_grants d) \<and> og_hash (grant_row new) = ac_hash demo_cf ''wfr_1'' \<and>
     insert_token_row issued h \<in> set (ad_tokens d) \<and> tr_hash (insert_token_row issued h) = ac_hash demo_cf ''wfo_2''"
proof -
  let ?x = "demo_world demo_db" and ?x1 = "snd (Token demo_cf demo_code_request (demo_world demo_db))"
  have run: "Token demo_cf demo_code_request ?x = (Inr (tokenResponse ''wfo_2'' ''wfr_1''), ?x1)" by (metis demo_runs(1) prod.collapse)
  have k: "tq_type demo_code_request = ''authorization_code''" by (simp add: demo_code_request_def)
  have i: "idle ?x" by (rule idle_easy; code_simp)
  have o: "auth_ok (ax_db ?x)" by (simp add: demo_world_def demo_ok)
  have z: "zero_time \<notin> readings ?x" by code_simp
  have alone: "env_ops ?x = []" "ax_db ?x = demo_db" by (simp_all add: demo_world_def env_ops_def)
  show ?thesis
    using exchange_replaces [OF run k i o z] unfolding Let_def alone by (simp add: tokenResponse_def) metis
qed

end
