(* ===== verification/Auth_Sessions.thy ===== *)
theory Auth_Sessions
  imports Auth_Revoke
begin

text \<open>
  How long a session lasts. \<open>org\<close> says of every token id what kind of token it names and when that token
  was created, so that a token read before and written after somebody else's work is the same token; a
  session's stored expiry never passes its creation by more than \<open>SessionMaxAge\<close>, however often it is
  used and whoever uses it at the same time.
\<close>

type_synonym origins = "string \<Rightarrow> token_kind \<times> time"

definition row_capped :: "origins \<Rightarrow> token_row \<Rightarrow> bool" where
  "row_capped org r \<longleftrightarrow> org (tr_id r) = (tr_kind r, from_sql (tr_created r)) \<and> 0 \<le> tr_created r \<and>
     (tr_kind r = TokenSession \<longrightarrow> (\<exists>e. tr_expires r = Some e \<and> 0 < e \<and> from_sql e \<le> from_sql (tr_created r) + SessionMaxAge))"

definition capped :: "origins \<Rightarrow> auth_db \<Rightarrow> bool" where
  "capped org db \<longleftrightarrow> (\<forall>r \<in> set (ad_tokens db). row_capped org r)"

definition expiry_fits :: "time \<Rightarrow> time option \<Rightarrow> bool" where
  "expiry_fits born expires \<longleftrightarrow>
     (case expires of None \<Rightarrow> False | Some e \<Rightarrow> second \<le> e \<and> from_sql (to_sql e) \<le> born + SessionMaxAge)"

definition token_fits :: "origins \<Rightarrow> access_token \<Rightarrow> bool" where
  "token_fits org t \<longleftrightarrow> org (at_id t) = (at_kind t, from_sql (to_sql (at_created t))) \<and> 0 \<le> at_created t \<and>
     (at_kind t = TokenSession \<longrightarrow> expiry_fits (from_sql (to_sql (at_created t))) (at_expires t))"

fun session_op :: "origins \<Rightarrow> auth_op \<Rightarrow> bool" where
  "session_op org (OpToken t h) = token_fits org t"
| "session_op org (OpExchange g t h now clk) = token_fits org t"
| "session_op org (OpRefresh i old new now expires t h) = token_fits org t"
| "session_op org (OpTouch i used expires) =
     (fst (org i) = TokenSession \<longrightarrow> expiry_fits (snd (org i)) expires)"
| "session_op org _ = True"

lemma to_sql_pos: "second \<le> e \<Longrightarrow> 0 < to_sql e"
  by (simp add: to_sql_def second_def)

lemma to_sql_zero: "to_sql 0 = 0"
  by (simp add: to_sql_def)

lemma expiry_fits_row:
  assumes "expiry_fits born expires"
  obtains e where "ptrTime expires = Some e" "0 < e" "from_sql e \<le> born + SessionMaxAge"
proof -
  obtain e where e: "expires = Some e" "second \<le> e" "from_sql (to_sql e) \<le> born + SessionMaxAge"
    using assms by (auto simp: expiry_fits_def split: option.splits)
  then have "e \<noteq> zero_time" by (auto simp: second_def zero_time_def)
  then show ?thesis using that [of "to_sql e"] e to_sql_pos by (simp add: ptrTime_def optTime_def)
qed

lemma inserted_capped: "token_fits org t \<Longrightarrow> row_capped org (insert_token_row t h)"
  using to_sql_mono [of 0 "at_created t"] to_sql_zero
  by (auto simp: token_fits_def row_capped_def insert_token_row_def elim: expiry_fits_row)

lemma capped_fewer: "capped org db \<Longrightarrow> set (ad_tokens db') \<subseteq> set (ad_tokens db) \<Longrightarrow> capped org db'"
  by (auto simp: capped_def)

lemma capped_insert: "capped org db \<Longrightarrow> token_fits org t \<Longrightarrow> capped org (snd (InsertToken t h db))"
  by (auto simp: InsertToken_def capped_def inserted_capped)

lemma capped_update:
  assumes "capped org db" "\<And>r. r \<in> set (ad_tokens db) \<Longrightarrow> P r \<Longrightarrow> row_capped org r \<Longrightarrow> row_capped org (f r)"
  shows "capped org (snd (update_tokens P f db))"
proof -
  have "row_capped org r" if "r \<in> set (snd (sql_update (\<lambda>r. P r \<and> tr_revoked r = None) f (ad_tokens db)))" for r
    using that by (rule updatedE) (use assms in \<open>auto simp: capped_def\<close>)
  then show ?thesis by (simp add: capped_def update_tokens_def split_beta)
qed

lemma capped_revoke: "capped org db \<Longrightarrow> capped org (snd (revoke_tokens P t db))"
  unfolding revoke_tokens_def by (rule capped_update) (simp_all add: row_capped_def)

lemma capped_touch:
  assumes "capped org db" "session_op org (OpTouch i used expires)"
  shows "capped org (snd (Touch i used expires db))"
  unfolding Touch_def snd_map_prod id_apply
proof (rule capped_update [OF assms(1)])
  fix r assume r: "tr_id r = i" "row_capped org r"
  show "row_capped org (r\<lparr>tr_used := optTime used, tr_expires := ptrTime expires\<rparr>)"
    using r assms(2) by (auto simp: row_capped_def elim: expiry_fits_row)
qed

lemma capped_revoke_each: "capped org db \<Longrightarrow> capped org (snd (revoke_each clk is db))"
proof (induction "is" arbitrary: db clk)
  case (Cons i "is")
  show ?case using Cons.IH [OF capped_revoke [OF Cons.prems]] by (simp add: and_then_def RevokeByGrant_def)
qed simp

lemma capped_commit: "capped org db \<Longrightarrow> (\<And>v. m db = (Some v, commit m db) \<Longrightarrow> capped org (commit m db)) \<Longrightarrow> capped org (commit m db)"
  using commit_cases [of m db] by metis

lemma commit_in: "commit m db \<in> {db, snd (m db)}"
  by (auto simp: commit_def split: prod.split option.split)

lemma capped_exchange:
  assumes c: "capped org db" and t: "token_fits org t" and x: "exchange_tx g t h now clk db = (Some v, d)"
  shows "capped org d"
proof -
  obtain e where e: "InsertToken t h (db\<lparr>ad_grants := replace_grants g now (ad_grants db)\<rparr>) = (Some (), e)"
    "revoke_each clk (replaced_ids g (ad_grants db)) e = (Some (), d)" using exchange_Some(5) [OF x] by blast
  have "capped org (db\<lparr>ad_grants := replace_grants g now (ad_grants db)\<rparr>)" using c by (simp add: capped_def)
  then have "capped org e" using capped_insert [OF _ t, of _ h] e(1) by (metis snd_conv)
  then show ?thesis using capped_revoke_each e(2) by (metis snd_conv)
qed

lemma capped_refresh:
  assumes c: "capped org db" and t: "token_fits org t" and x: "refresh_tx i old new now ex t h db = (Some v, d)"
  shows "capped org d"
proof -
  have "capped org (db\<lparr>ad_spent := ad_spent db @ [\<lparr>sp_hash = old, sp_grant = i, sp_at = to_sql now\<rparr>],
       ad_grants := snd (sql_update (holds_hash i old) (rotate_to new now ex) (ad_grants db))\<rparr>)"
    using c by (simp add: capped_def)
  then show ?thesis using capped_insert [OF _ t, of _ h] refresh_Some(4) [OF x] by (metis snd_conv)
qed

lemma capped_exec:
  assumes op: "session_op org op" and c: "capped org db"
  shows "capped org (auth_exec op db)"
proof -
  have few: "capped org (auth_exec op db)" if "set (ad_tokens (auth_exec op db)) \<subseteq> set (ad_tokens db)"
    using capped_fewer [OF c that] .
  have rv: "row_capped org r" if "r \<in> set (ad_tokens (snd (revoke_tokens P t db)))" for P t r
    using capped_revoke [OF c, of P t] that by (simp add: capped_def)
  show ?thesis
  proof (cases op)
    case (OpExchange g t h now clk)
    then show ?thesis using capped_exchange [OF c] op by (auto intro: capped_commit [OF c])
  next
    case (OpRefresh i old new now ex t h)
    then show ?thesis using capped_refresh [OF c] op by (auto intro: capped_commit [OF c])
  next
    case (OpToken t h)
    then show ?thesis using capped_insert [OF c, of t h] op c commit_in [of "InsertToken t h" db] by auto
  next
    case (OpTouch i used ex)
    have "commit (Touch i used ex) db = snd (Touch i used ex db)" by (simp add: commit_Some Touch_def)
    then show ?thesis using capped_touch [OF c] op OpTouch by simp
  next
    case (OpApprove c' now)
    then show ?thesis by (intro few) (auto simp: commit_def approve_tx_def and_then_def InsertCode_def MarkClientUsed_def)
  next
    case (OpRevokeGrant i now later)
    have "revoke_tx i now later db = (Some (), snd (revoke_tokens (\<lambda>r. tr_grant r = Some i) later (snd (revoke_grants (\<lambda>g. og_id g = i) now db))))"
      by (simp add: revoke_tx_def and_then_def RevokeGrant_def RevokeByGrant_def split_beta)
    moreover have "capped org (snd (revoke_grants (\<lambda>g. og_id g = i) now db))"
      using c by (simp add: capped_def revoke_grants_def split_beta)
    ultimately show ?thesis using OpRevokeGrant capped_revoke by (simp add: commit_def)
  qed (use c in \<open>auto simp: commit_def capped_revoke Revoke_def RevokeAllOfKind_def RevokeUserToken_def split_beta
      InsertClient_def PurgeUnusedClients_def keep_clients_alt ConsumeCode_def PurgeExpiredCodes_def DeleteDeadGrants_def
      DeleteDead_def RevokeUserGrants_def revoke_grants_def drop_user_def Let_def capped_def intro: rv\<close>)
qed

interpretation capped_kept: kept "capped org" "session_op org" for org
  by unfold_locales (rule capped_exec)

text \<open>The expiry a use writes.\<close>

lemma slide_fits:
  assumes "row_capped org r" "tr_kind r = TokenSession" "0 < now"
  shows "expiry_fits (from_sql (tr_created r)) (fst (slideSession (hydrate_token r) now))"
proof -
  obtain e where e: "tr_expires r = Some e" "0 < e" "from_sql e \<le> from_sql (tr_created r) + SessionMaxAge"
    using assms(1,2) by (auto simp: row_capped_def)
  let ?born = "from_sql (tr_created r)"
  let ?n = "if ?born + SessionMaxAge < now + SessionTTL then ?born + SessionMaxAge else now + SessionTTL"
  have old: "expiry_fits ?born (Some (from_sql e))"
    using e(2,3) by (simp add: expiry_fits_def) (simp add: from_sql_def second_def)
  have "0 \<le> ?born" using assms(1) by (simp add: row_capped_def from_sql_def second_def)
  then have "second \<le> ?n" using assms(3) by (simp add: SessionMaxAge_def SessionTTL_def hour_def second_def)
  moreover have "from_sql (to_sql ?n) \<le> ?born + SessionMaxAge" using from_to_sql_le [of ?n] by (simp split: if_splits)
  ultimately have "expiry_fits ?born (Some ?n)" by (simp add: expiry_fits_def)
  then show ?thesis using old e(1) by (simp add: slideSession_def hydrate_token_def Let_def)
qed

lemma touch_fits:
  assumes "row_capped org r" "0 < now"
  shows "session_op org (OpTouch (at_id (hydrate_token r)) now (fst (touch_plan (hydrate_token r) now)))"
proof -
  have "org (tr_id r) = (tr_kind r, from_sql (tr_created r))" using assms(1) by (simp add: row_capped_def)
  moreover have "at_id (hydrate_token r) = tr_id r" "at_kind (hydrate_token r) = tr_kind r" by (simp_all add: hydrate_token_def)
  ultimately show ?thesis using slide_fits [OF assms(1) _ assms(2)] by (simp add: touch_plan_def)
qed


text \<open>A use of a token keeps every session within its bound.\<close>

definition well_timed :: "origins \<Rightarrow> ax \<Rightarrow> bool" where
  "well_timed org x \<longleftrightarrow> \<not> ax_tx x \<and> (\<forall>op \<in> set (env_ops x). session_op org op) \<and> (\<forall>t \<in> readings x. 0 < t) \<and> capped org (ax_db x)"

lemma env_tl: "set (env_ops (x\<lparr>ax_db := d, ax_env := tl (ax_env x)\<rparr>)) \<subseteq> set (env_ops x)"
  by (cases "ax_env x") (auto simp: env_ops_def)

lemma well_timed_call:
  assumes w: "well_timed org x" and c: "capped org d"
  shows "well_timed org (x\<lparr>ax_db := d, ax_env := tl (ax_env x)\<rparr>)"
  using w c env_tl [of x d] by (auto simp: well_timed_def readings_def)

lemma acall_world: "\<exists>d. snd (acall m x) = x\<lparr>ax_db := d, ax_env := tl (ax_env x)\<rparr> \<and> d \<in> {seen x, snd (m (seen x))}"
proof -
  obtain res d where r: "attempt (tn_fault (next_turn x)) m (seen x) = (res, d)" by fastforce
  then have "snd (acall m x) = x\<lparr>ax_db := d, ax_env := tl (ax_env x)\<rparr>"
    unfolding acall_def by (simp only: Let_def prod.case snd_conv)
  moreover have "d \<in> {seen x, snd (m (seen x))}" using attempt_state [of "tn_fault (next_turn x)" m "seen x"] r by simp
  ultimately show ?thesis by blast
qed

lemma capped_seen: "well_timed org x \<Longrightarrow> capped org (seen x)"
  by (rule capped_kept.in_view) (simp_all add: well_timed_def)

lemma clock_timed: "well_timed org x \<Longrightarrow> read_clock x = (Inr now, y) \<Longrightarrow> well_timed org y \<and> 0 < now"
proof -
  assume w: "well_timed org x" and n: "read_clock x = (Inr now, y)"
  have "y = x\<lparr>ax_now := now, ax_clock := tl (ax_clock x)\<rparr>" using read_clock_Inr(1) [OF n] .
  then have "ax_tx y = ax_tx x" "env_ops y = env_ops x" "ax_db y = ax_db x" by (simp_all add: env_ops_def)
  then show ?thesis using w read_clock_Inr(2,3) [OF n] by (auto simp: well_timed_def)
qed

lemma Authenticate_timed:
  assumes w: "well_timed org x"
  shows "well_timed org (snd (Authenticate cf raw x))"
proof (cases "raw = []")
  case False
  let ?h = "ac_hash cf raw"
  obtain f y where g: "acall (GetByHash ?h) x = (f, y)" by fastforce
  have y: "well_timed org y" "ax_db y = seen x"
  proof -
    obtain d where "y = x\<lparr>ax_db := d, ax_env := tl (ax_env x)\<rparr>" "d = seen x"
      using acall_world [of "GetByHash ?h" x] g by (auto simp: GetByHash_def)
    then show "well_timed org y" "ax_db y = seen x" using well_timed_call [OF w capped_seen [OF w]] by simp_all
  qed
  show ?thesis
  proof (cases f)
    case (Inl e)
    then show ?thesis using False g y by (simp add: Authenticate_def chain_def)
  next
    case (Inr found)
    have a: "snd (Authenticate cf raw x) = snd (use_token found y)" using False g Inr by (simp add: Authenticate_def chain_def)
    show ?thesis
    proof (cases found)
      case None
      then show ?thesis using a y by (simp add: use_token_def refuse_def)
    next
      case (Some t)
      obtain r where r: "r \<in> set (ad_tokens (seen x))" "t = hydrate_token r"
        using acall_Inr(1) [OF g [unfolded Inr]] Some find_SomeD by (auto simp: GetByHash_def dest: find_SomeD)
      obtain now z where n: "read_clock y = (Inr now, z)" by (cases "ax_clock y") (auto simp: read_clock_def)
      note z = clock_timed [OF y(1) n]
      have rc: "row_capped org r" using capped_seen [OF w] r(1) by (simp add: capped_def)
      let ?op = "OpTouch (at_id t) now (fst (touch_plan t now))"
      have fit: "session_op org ?op" using touch_fits [OF rc] z r(2) by blast
      have touched: "well_timed org (snd (acall (Touch (at_id t) now (fst (touch_plan t now))) z))"
      proof -
        obtain d where d: "snd (acall (Touch (at_id t) now (fst (touch_plan t now))) z) = z\<lparr>ax_db := d, ax_env := tl (ax_env z)\<rparr>"
          "d \<in> {seen z, snd (Touch (at_id t) now (fst (touch_plan t now)) (seen z))}" using acall_world by blast
        have s: "capped org (seen z)" using capped_seen z by blast
        then have "capped org d" using d(2) capped_touch [OF s fit] by blast
        then show ?thesis using d(1) well_timed_call z by simp
      qed
      have "snd (use_token found y) \<in> {z, snd (acall (Touch (at_id t) now (fst (touch_plan t now))) z)}"
        using Some n by (simp add: use_token_def chain_def refuse_def give_def Let_def split_beta split: sum.split)
      then show ?thesis using a z touched by auto
    qed
  qed
qed (use w in \<open>simp add: Authenticate_def refuse_def\<close>)

lemma Authenticates_timed: "well_timed org x \<Longrightarrow> well_timed org (fold (\<lambda>raw x. snd (Authenticate cf raw x)) raws x)"
  by (rule fold_invariant) (auto intro: Authenticate_timed)

text \<open>C8. No session outlives ninety days: however often and with whatever tokens requests authenticate,
  and whatever others sign in, touch or revoke in between and meanwhile, a request that authenticates
  with a session token does so at an instant less than \<open>SessionMaxAge\<close> after that token was created.\<close>

theorem session_ends:
  assumes "well_timed org x" "y = fold (\<lambda>raw x. snd (Authenticate cf raw x)) raws x"
    "Authenticate cf raw y = (Inr p, z)" "pr_kind p = TokenSession"
  shows "\<exists>now \<in> readings y. now < snd (org (pr_token p)) + SessionMaxAge"
proof -
  have y: "well_timed org y" using Authenticates_timed [OF assms(1)] assms(2) by simp
  obtain r now where r: "r \<in> set (ad_tokens (seen y))" "now \<in> readings y" "token_live (hydrate_token r) now"
      "p = principal_of (hydrate_token r)"
    using authenticate_row [OF assms(3)] by metis
  have rc: "row_capped org r" using capped_seen [OF y] r(1) by (simp add: capped_def)
  have k: "tr_kind r = TokenSession" "pr_token p = tr_id r" using r(4) assms(4) by (auto simp: principal_of_def hydrate_token_def)
  then obtain e where "tr_expires r = Some e" "from_sql e \<le> from_sql (tr_created r) + SessionMaxAge"
    using rc by (auto simp: row_capped_def)
  moreover have "now < from_sql e" using r(3) calculation(1) by (simp add: token_live_def hydrate_token_def)
  ultimately show ?thesis using r(2) rc k(2) by (intro bexI [of _ now]) (auto simp: row_capped_def)
qed

definition demo_session :: token_row where
  "demo_session = \<lparr>tr_id = ''s'', tr_user = ''u'', tr_kind = TokenSession, tr_hash = ''ht'', tr_scope = ScopeFull, tr_name = None,
     tr_prefix = None, tr_agent = None, tr_grant = None, tr_created = 1, tr_used = Some 1, tr_expires = Some 2592001, tr_revoked = None\<rparr>"

lemma session_ends_witness: "\<exists>now \<in> readings (demo_world (demo_db\<lparr>ad_tokens := [demo_session]\<rparr>)). now < second + SessionMaxAge"
proof -
  let ?x = "demo_world (demo_db\<lparr>ad_tokens := [demo_session]\<rparr>)" and ?p = "principal_of (hydrate_token demo_session)"
  have "fst (Authenticate demo_cf ''t'' ?x) = Inr ?p" by code_simp
  then have "Authenticate demo_cf ''t'' ?x = (Inr ?p, snd (Authenticate demo_cf ''t'' ?x))" by (metis prod.collapse)
  moreover have "pr_kind ?p = TokenSession" by code_simp
  moreover have "well_timed (\<lambda>_. (TokenSession, second)) ?x"
    by (simp add: well_timed_def demo_world_def env_ops_def readings_def capped_def row_capped_def demo_session_def from_sql_def
      second_def SessionMaxAge_def hour_def minute_def)
  ultimately show ?thesis using session_ends [of "\<lambda>_. (TokenSession, second)" ?x ?x demo_cf "[]" "''t''" ?p] by simp
qed

end
