(* ===== verification/Auth_Signin.thy ===== *)
theory Auth_Signin
  imports Auth_Sessions
begin

text \<open>
  Signing in, end to end: what a client gets that follows the protocol while nobody interferes and no
  call fails. The clock stands still during a request and moves between them.
\<close>

definition still :: "ax \<Rightarrow> bool" where
  "still x \<longleftrightarrow> ax_env x = [] \<and> ax_clock x = []"

lemma still_clock [simp]: "still x \<Longrightarrow> read_clock x = (Inr (ax_now x), x)"
  by (simp add: still_def read_clock_def)

lemma still_frame [simp]:
  "still (x\<lparr>ax_db := d\<rparr>) = still x" "still (x\<lparr>ax_rand := r\<rparr>) = still x" "still (x\<lparr>ax_ids := i\<rparr>) = still x"
  "still (x\<lparr>ax_tx := b\<rparr>) = still x" "still (x\<lparr>ax_now := t\<rparr>) = still x" "still (x\<lparr>ax_hk := t\<rparr>) = still x"
  by (simp_all add: still_def)

lemma still_turn [simp]: "still x \<Longrightarrow> next_turn x = quiet_turn" "still x \<Longrightarrow> seen x = ax_db x" "still x \<Longrightarrow> x\<lparr>ax_env := tl (ax_env x)\<rparr> = x"
  by (simp_all add: still_def next_turn_def seen_def quiet_turn_def)

lemma still_call:
  assumes "still x" "m (ax_db x) = (Some v, d)"
  shows "acall m x = (Inr v, x\<lparr>ax_db := d\<rparr>)"
proof -
  have "x\<lparr>ax_db := d, ax_env := tl (ax_env x)\<rparr> = x\<lparr>ax_db := d\<rparr>" using assms(1) by (simp add: still_def)
  then show ?thesis using assms by (simp add: acall_def attempt_def quiet_turn_def)
qed

lemma chain_rule: "m x = (Inr v, y) \<Longrightarrow> f v y = r \<Longrightarrow> chain m f x = r"
  by (simp add: chain_def)

lemma still_tx:
  assumes "still x" "\<not> ax_tx x" "body (x\<lparr>ax_tx := True\<rparr>) = (Inr v, y)" "still y"
  shows "WithTx body x = (Inr v, y\<lparr>ax_tx := False\<rparr>)"
proof -
  have "tx_start x = x\<lparr>ax_tx := True\<rparr>" using assms(1) by (simp add: tx_start_def still_def seen_def next_turn_def quiet_turn_def)
  moreover have "y\<lparr>ax_env := tl (ax_env y), ax_tx := False\<rparr> = y\<lparr>ax_tx := False\<rparr>" using assms(4) by (simp add: still_def)
  ultimately show ?thesis using assms by (simp add: WithTx_alt quiet_turn_def)
qed

lemma still_revoke_replaced:
  "still x \<Longrightarrow> revoke_replaced is x = (Inr (), x\<lparr>ax_db := snd (revoke_each (\<lambda>_. ax_now x) is (ax_db x))\<rparr>)"
proof (induction "is" arbitrary: x)
  case (Cons i "is")
  let ?d = "snd (revoke_tokens (\<lambda>r. tr_grant r = Some i) (ax_now x) (ax_db x))"
  have "acall (RevokeByGrant i (ax_now x)) x = (Inr (), x\<lparr>ax_db := ?d\<rparr>)"
    by (rule still_call) (use Cons.prems in \<open>simp_all add: RevokeByGrant_def\<close>)
  then have "RevokeGrantTokens i x = (Inr (), x\<lparr>ax_db := ?d\<rparr>)" using Cons.prems by (simp add: RevokeGrantTokens_def chain_def)
  then have "revoke_replaced (i # is) x = revoke_replaced is (x\<lparr>ax_db := ?d\<rparr>)" by (simp add: chain_def)
  then show ?case using Cons.IH [of "x\<lparr>ax_db := ?d\<rparr>"] Cons.prems by (simp add: and_then_def RevokeByGrant_def)
qed (simp add: give_def)

subsection \<open>Approval\<close>

text \<open>A request the consent page may approve: a known client, a redirect registered for it and good
  parameters.\<close>

definition approvable :: "acfg \<Rightarrow> string \<Rightarrow> authorization_request \<Rightarrow> oauth_client \<Rightarrow> auth_db \<Rightarrow> bool" where
  "approvable cf u req c db \<longleftrightarrow> Enabled cf \<and> ac_uuid cf (rq_client req) \<and> c \<in> set (ad_clients db) \<and> cl_id c = rq_client req \<and>
     MatchRedirectURI cf (cl_uris c) (rq_redirect req) \<and> bad_parameter cf req = None \<and> u \<in> set (ad_users db)"

lemma find_unique:
  assumes "distinct (map f xs)" "x \<in> set xs" "f x = k"
  shows "find (\<lambda>y. f y = k) xs = Some x"
proof (cases "find (\<lambda>y. f y = k) xs")
  case None
  then show ?thesis using assms(2,3) by (auto simp: find_None_iff)
next
  case (Some y)
  then have "y \<in> set xs" "f y = f x" using find_SomeD [OF Some] assms(3) by auto
  then have "y = x" using assms(1,2) by (metis distinct_map inj_onD)
  then show ?thesis using Some by simp
qed

lemma still_approve:
  assumes x: "still x" "\<not> ax_tx x" and ok: "auth_ok (ax_db x)" and a: "approvable cf u req c (ax_db x)"
    and rand: "ax_rand x = Some raw # rs" and new: "ac_hash cf raw \<notin> oc_hash ` set (ad_codes (ax_db x))"
  shows "ApproveAuthorization cf u req x =
     (Inr (code_redirect cf req raw), x\<lparr>ax_rand := rs,
        ax_db := (ax_db x)\<lparr>ad_codes := ad_codes (ax_db x) @ [code_row (approved_code cf u c (ac_hash cf raw) req (ax_now x))],
          ad_clients := snd (sql_update (\<lambda>k. cl_id k = cl_id c) (\<lambda>k. k\<lparr>cl_used := Some (to_sql (ax_now x))\<rparr>) (ad_clients (ax_db x)))\<rparr>\<rparr>)"
proof -
  let ?db = "ax_db x" and ?h = "ac_hash cf raw" and ?x1 = "x\<lparr>ax_rand := rs\<rparr>"
  let ?code = "approved_code cf u (hydrate_client c) ?h req (ax_now x)"
  have cid: "cl_id (hydrate_client c) = cl_id c" "cl_uris (hydrate_client c) = cl_uris c" by (simp_all add: hydrate_client_def)
  have same: "?code = approved_code cf u c ?h req (ax_now x)" by (simp add: approved_code_def cid)
  have get: "acall (GetClient (rq_client req)) x = (Inr (Some (hydrate_client c)), x)"
    using still_call [OF x(1), of "GetClient (rq_client req)" "Some (hydrate_client c)" ?db] a ok find_unique [of cl_id "ad_clients ?db" c]
    by (simp add: GetClient_def approvable_def auth_ok_def keys_unique_def)
  have v: "validate_request cf req x = (Inr (hydrate_client c, None), x)"
    using a get by (simp add: validate_request_def approvable_def chain_def give_def cid)
  have sec: "newSecret cf [] x = (Inr (raw, ?h), ?x1)" using rand by (simp add: newSecret_def chain_def random_text_def give_def)
  let ?d1 = "?db\<lparr>ad_codes := ad_codes ?db @ [code_row ?code]\<rparr>"
  have ins: "InsertCode ?code ?db = (Some (), ?d1)"
    using a new imageI [of c "set (ad_clients ?db)" cl_id] by (simp add: InsertCode_Some approvable_def approved_code_def cid)
  have mark: "MarkClientUsed (cl_id c) (ax_now x) ?d1 = (Some (), ?d1\<lparr>ad_clients :=
      snd (sql_update (\<lambda>k. cl_id k = cl_id c) (\<lambda>k. k\<lparr>cl_used := Some (to_sql (ax_now x))\<rparr>) (ad_clients ?db))\<rparr>)" (is "_ = (_, ?d2)")
    by (simp add: MarkClientUsed_def)
  let ?y = "?x1\<lparr>ax_tx := True\<rparr>"
  have body: "chain (acall (InsertCode ?code)) (\<lambda>_. acall (MarkClientUsed (cl_id c) (ax_now x))) ?y = (Inr (), ?y\<lparr>ax_db := ?d2\<rparr>)"
    using still_call [of ?y "InsertCode ?code" "()" ?d1] still_call [of "?y\<lparr>ax_db := ?d1\<rparr>" "MarkClientUsed (cl_id c) (ax_now x)" "()" ?d2]
      x ins mark by (simp add: chain_def)
  have tx: "WithTx (chain (acall (InsertCode ?code)) (\<lambda>_. acall (MarkClientUsed (cl_id c) (ax_now x)))) ?x1 = (Inr (), ?x1\<lparr>ax_db := ?d2\<rparr>)"
    using still_tx [of ?x1 "chain (acall (InsertCode ?code)) (\<lambda>_. acall (MarkClientUsed (cl_id c) (ax_now x)))" "()" "?y\<lparr>ax_db := ?d2\<rparr>"]
      x body by simp
  have "ApproveAuthorization cf u req x = (Inr (code_redirect cf req raw), ?x1\<lparr>ax_db := ?d2\<rparr>)"
    unfolding ApproveAuthorization_def
    by (rule chain_rule, rule v, simp only: prod.case option.case, rule chain_rule, rule sec, simp only: prod.case)
      (use tx x in \<open>simp add: chain_def give_def cid\<close>)
  then show ?thesis by (simp add: same)
qed


subsection \<open>Exchange\<close>

lemma revoke_each_total: "revoke_each clk is db = (Some (), snd (revoke_each clk is db))"
  using revoke_each_Some [of clk "is" db] by (metis snd_conv)

text \<open>The statements of an exchange succeed for a fresh grant and a fresh token.\<close>

lemma exchange_runs:
  assumes "og_id g \<notin> og_id ` set (ad_grants db)" "og_hash g \<notin> og_hash ` set (ad_grants db)" "og_user g \<in> set (ad_users db)"
    "og_client g \<in> cl_id ` set (ad_clients db)" "at_id t \<notin> tr_id ` set (ad_tokens db)" "h \<notin> tr_hash ` set (ad_tokens db)"
    "at_user t \<in> set (ad_users db)"
  obtains d1 d2 d3 ids d where "InsertGrant g db = (Some (), d1)" "InsertToken t h d1 = (Some (), d2)"
    "RevokeOtherGrants (og_user g) (og_client g) (og_id g) now d2 = (Some ids, d3)" "revoke_each clk ids d3 = (Some (), d)"
    "exchange_tx g t h now clk db = (Some (), d)"
proof -
  let ?d1 = "db\<lparr>ad_grants := ad_grants db @ [grant_row g]\<rparr>"
  let ?d2 = "?d1\<lparr>ad_tokens := ad_tokens db @ [insert_token_row t h]\<rparr>"
  obtain ids d3 where o: "RevokeOtherGrants (og_user g) (og_client g) (og_id g) now ?d2 = (Some ids, d3)"
    by (simp add: RevokeOtherGrants_def)
  have 1: "InsertGrant g db = (Some (), ?d1)" "InsertToken t h ?d1 = (Some (), ?d2)"
    using assms by (simp_all add: InsertGrant_Some InsertToken_Some)
  let ?d = "snd (revoke_each clk ids d3)"
  have r: "revoke_each clk ids d3 = (Some (), ?d)" by (rule revoke_each_total)
  have "exchange_tx g t h now clk db = (Some (), ?d)"
    using 1 o r by (simp add: exchange_tx_def and_then_def)
  then show ?thesis using that 1 o r by blast
qed

lemma still_issue:
  assumes "still x" "ax_rand x = Some b # rs" "ax_ids x = j # is"
    "InsertToken ((oauth_token u g ttl (ax_now x))\<lparr>at_id := j\<rparr>) (ac_hash cf (prefixes TokenOAuth @ b)) (ax_db x) = (Some (), d)"
  shows "IssueOAuthAccess cf u g ttl x = (Inr (prefixes TokenOAuth @ b), x\<lparr>ax_rand := rs, ax_ids := is, ax_db := d\<rparr>)"
proof -
  let ?t = "oauth_token u g ttl (ax_now x)"
  let ?t' = "?t\<lparr>at_id := j, at_prefix := []\<rparr>"
  have k: "at_kind ?t = TokenOAuth" "at_prefix ?t = []" by (simp_all add: oauth_token_def new_token_def)
  have t': "?t' = ?t\<lparr>at_id := j\<rparr>" by (simp add: oauth_token_def new_token_def)
  have c: "acall (InsertToken ?t' (ac_hash cf (prefixes TokenOAuth @ b))) (x\<lparr>ax_rand := rs, ax_ids := is\<rparr>)
      = (Inr (), x\<lparr>ax_rand := rs, ax_ids := is, ax_db := d\<rparr>)"
    unfolding t' by (rule still_call) (use assms in simp_all)
  have "issue cf ?t x = (Inr (?t', prefixes TokenOAuth @ b), x\<lparr>ax_rand := rs, ax_ids := is, ax_db := d\<rparr>)"
    using assms(2,3) k c by (simp add: issue_def chain_def random_text_def GenerateID_def Let_def give_def del: prefixes.simps)
  then show ?thesis using assms(1) by (simp add: IssueOAuthAccess_def chain_def give_def)
qed

lemma still_exchange_body:
  assumes x: "still x" "ax_tx x"
    and rand: "ax_rand x = Some b # Some b' # rs" and ids: "ax_ids x = i # j # is"
    and run: "og_id g \<notin> og_id ` set (ad_grants (ax_db x))" "og_hash g \<notin> og_hash ` set (ad_grants (ax_db x))"
      "oc_user code \<in> set (ad_users (ax_db x))" "cl_id c \<in> cl_id ` set (ad_clients (ax_db x))"
      "j \<notin> tr_id ` set (ad_tokens (ax_db x))" "ac_hash cf (prefixes TokenOAuth @ b') \<notin> tr_hash ` set (ad_tokens (ax_db x))"
    and g: "g = fresh_grant i (oc_user code) (cl_id c) (ac_hash cf (refreshPrefix @ b)) now"
  shows "\<exists>d. exchange_body cf code c now x = (Inr (tokenResponse (prefixes TokenOAuth @ b') (refreshPrefix @ b)),
       x\<lparr>ax_rand := rs, ax_ids := is, ax_db := d\<rparr>) \<and>
     exchange_tx g ((oauth_token (oc_user code) i AccessTokenTTL (ax_now x))\<lparr>at_id := j\<rparr>) (ac_hash cf (prefixes TokenOAuth @ b')) now
       (\<lambda>_. ax_now x) (ax_db x) = (Some (), d)"
proof -
  let ?t = "(oauth_token (oc_user code) i AccessTokenTTL (ax_now x))\<lparr>at_id := j\<rparr>" and ?h = "ac_hash cf (prefixes TokenOAuth @ b')"
  have gf: "og_user g = oc_user code" "og_client g = cl_id c" "og_id g = i" using g by (simp_all add: fresh_grant_def)
  have tf: "at_id ?t = j" "at_user ?t = oc_user code" by (simp_all add: oauth_token_def new_token_def)
  have pr: "og_user g \<in> set (ad_users (ax_db x))" "og_client g \<in> cl_id ` set (ad_clients (ax_db x))"
    "at_id ?t \<notin> tr_id ` set (ad_tokens (ax_db x))" "at_user ?t \<in> set (ad_users (ax_db x))"
    unfolding gf tf using run by blast+
  obtain d1 d2 d3 rids d where s: "InsertGrant g (ax_db x) = (Some (), d1)" "InsertToken ?t ?h d1 = (Some (), d2)"
      "RevokeOtherGrants (oc_user code) (cl_id c) i now d2 = (Some rids, d3)" "revoke_each (\<lambda>_. ax_now x) rids d3 = (Some (), d)"
      "exchange_tx g ?t ?h now (\<lambda>_. ax_now x) (ax_db x) = (Some (), d)"
    using exchange_runs [OF run(1,2) pr(1-3) run(6) pr(4), of now "\<lambda>_. ax_now x"] gf by metis
  let ?x1 = "x\<lparr>ax_rand := Some b' # rs\<rparr>"
  let ?x2 = "?x1\<lparr>ax_ids := j # is\<rparr>"
  have sec: "newSecret cf refreshPrefix x = (Inr (refreshPrefix @ b, ac_hash cf (refreshPrefix @ b)), ?x1)"
    using rand by (simp add: newSecret_def chain_def random_text_def give_def)
  have lock: "acall (LockUserGrants (oc_user code)) ?x1 = (Inr True, ?x1)"
    using still_call [of ?x1 "LockUserGrants (oc_user code)" True "ax_db x"] x run(3) by (simp add: LockUserGrants_def)
  have gid: "GenerateID ?x1 = (Inr i, ?x2)" using ids by (simp add: GenerateID_def)
  have ins: "acall (InsertGrant g) ?x2 = (Inr (), ?x2\<lparr>ax_db := d1\<rparr>)" by (rule still_call) (use x s(1) in simp_all)
  have iss: "IssueOAuthAccess cf (oc_user code) i AccessTokenTTL (?x2\<lparr>ax_db := d1\<rparr>)
      = (Inr (prefixes TokenOAuth @ b'), ?x2\<lparr>ax_db := d1, ax_rand := rs, ax_ids := is, ax_db := d2\<rparr>)"
    by (rule still_issue) (use x s(2) in simp_all)
  let ?x3 = "x\<lparr>ax_rand := rs, ax_ids := is, ax_db := d2\<rparr>"
  have x3: "?x2\<lparr>ax_db := d1, ax_rand := rs, ax_ids := is, ax_db := d2\<rparr> = ?x3" by simp
  have oth: "acall (RevokeOtherGrants (oc_user code) (cl_id c) i now) ?x3 = (Inr rids, x\<lparr>ax_rand := rs, ax_ids := is, ax_db := d3\<rparr>)"
    using still_call [of ?x3 "RevokeOtherGrants (oc_user code) (cl_id c) i now" rids d3] x s(3) by simp
  have rep: "revoke_replaced rids (x\<lparr>ax_rand := rs, ax_ids := is, ax_db := d3\<rparr>) = (Inr (), x\<lparr>ax_rand := rs, ax_ids := is, ax_db := d\<rparr>)"
    using still_revoke_replaced [of "x\<lparr>ax_rand := rs, ax_ids := is, ax_db := d3\<rparr>" rids] x s(4) by simp
  have "exchange_body cf code c now x = (Inr (tokenResponse (prefixes TokenOAuth @ b') (refreshPrefix @ b)), x\<lparr>ax_rand := rs, ax_ids := is, ax_db := d\<rparr>)"
    unfolding exchange_body_def
    by (rule chain_rule, rule sec, simp only: prod.case, rule chain_rule, rule lock, simp only: simp_thms if_False,
        rule chain_rule, rule gid, simp only: g [symmetric], rule chain_rule, rule ins, rule chain_rule, rule iss, simp only: x3,
        rule chain_rule, rule oth, rule chain_rule, rule rep) (simp add: give_def)
  then show ?thesis using s(5) by blast
qed

lemma still_housekeeping:
  assumes "still x"
  shows "\<exists>y. housekeeping now x = (Inr (), y) \<and> still y \<and> ad_tokens (ax_db y) = ad_tokens (ax_db x)"
proof (cases "\<not> is_zero (ax_hk x) \<and> \<not> now < ax_hk x \<and> time_sub now (ax_hk x) < HousekeepingInterval")
  case True
  then show ?thesis using assms by (simp add: housekeeping_def housekeepingDue_def chain_def give_def)
next
  case False
  let ?x1 = "x\<lparr>ax_hk := now\<rparr>"
  let ?d1 = "snd (PurgeExpiredCodes now (ax_db x))"
  obtain n d2 where del: "DeleteDeadGrants (now - DeadRetention) ?d1 = (Some n, d2)" by (simp add: DeleteDeadGrants_def)
  have due: "housekeepingDue now x = (Inr True, ?x1)" using False by (simp add: housekeepingDue_def)
  have 1: "ignoring (acall (PurgeExpiredCodes now)) ?x1 = (Inr (), ?x1\<lparr>ax_db := ?d1\<rparr>)"
    using still_call [of ?x1 "PurgeExpiredCodes now" "()" ?d1] assms by (simp add: ignoring_def PurgeExpiredCodes_def)
  have 2: "ignoring (acall (DeleteDeadGrants (now - DeadRetention))) (?x1\<lparr>ax_db := ?d1\<rparr>) = (Inr (), ?x1\<lparr>ax_db := d2\<rparr>)"
    using still_call [of "?x1\<lparr>ax_db := ?d1\<rparr>" "DeleteDeadGrants (now - DeadRetention)" n d2] del assms by (simp add: ignoring_def)
  have "housekeeping now x = (Inr (), ?x1\<lparr>ax_db := d2\<rparr>)"
    unfolding housekeeping_def by (rule chain_rule, rule due, simp only: simp_thms if_False, rule chain_rule, rule 1, rule 2)
  moreover have "ad_tokens d2 = ad_tokens (ax_db x)" using del by (auto simp: DeleteDeadGrants_def keep_grants_def PurgeExpiredCodes_def)
  ultimately show ?thesis using assms by simp
qed

lemma filter_unique:
  assumes "distinct (map f xs)" "x \<in> set xs" "P x"
  shows "filter (\<lambda>y. f y = f x \<and> P y) xs = [x]"
  using assms
proof (induction xs)
  case (Cons a xs)
  have e: "filter (\<lambda>y. f y = f a \<and> P y) xs = []" using Cons.prems(1) by (auto simp: filter_empty_conv) (metis image_eqI)
  show ?case
  proof (cases "x = a")
    case True
    then show ?thesis using e Cons.prems(3) by simp
  next
    case False
    then have "f a \<noteq> f x" using Cons.prems(1,2) by (auto dest: imageI [of _ _ f])
    then show ?thesis using Cons False by auto
  qed
qed simp

lemma still_authenticate:
  assumes x: "still x" and u: "distinct (map tr_id (ad_tokens (ax_db x)))" "distinct (map tr_hash (ad_tokens (ax_db x)))"
    and r: "r \<in> set (ad_tokens (ax_db x))" "tr_hash r = ac_hash cf raw" "raw \<noteq> []" "tr_kind r \<noteq> TokenSession"
      "token_live (hydrate_token r) (ax_now x)"
  shows "fst (Authenticate cf raw x) = Inr (principal_of (hydrate_token r))"
proof -
  let ?t = "hydrate_token r"
  have g: "acall (GetByHash (ac_hash cf raw)) x = (Inr (Some ?t), x)"
    using still_call [OF x, of "GetByHash (ac_hash cf raw)" "Some ?t" "ax_db x"] find_unique [OF u(2) r(1,2)]
    by (simp add: GetByHash_def)
  have k: "touch_plan ?t (ax_now x) = (at_expires ?t, False)" using r(4) by (simp add: touch_plan_def hydrate_token_def)
  have rev: "tr_revoked r = None" using r(5) by (simp add: token_live_def hydrate_token_def)
  have i: "at_id ?t = tr_id r" by (simp add: hydrate_token_def)
  have one: "filter (\<lambda>q. tr_id q = tr_id r \<and> tr_revoked q = None) (ad_tokens (ax_db x)) = [r]"
    by (rule filter_unique) (use u(1) r(1) rev in simp_all)
  obtain d where "Touch (at_id ?t) (ax_now x) (at_expires ?t) (ax_db x) = (Some True, d)"
    using one by (simp add: Touch_def update_tokens_def sql_update_def i)
  then have "acall (Touch (at_id ?t) (ax_now x) (at_expires ?t)) x = (Inr True, x\<lparr>ax_db := d\<rparr>)" by (rule still_call [OF x])
  then show ?thesis using g x r(3,5) k by (simp add: Authenticate_def chain_def use_token_def give_def)
qed


text \<open>A client that redeems the code of its approved request: its own identity, the request's redirect and
  the verifier of the request's challenge.\<close>

definition redeems :: "acfg \<Rightarrow> string \<Rightarrow> authorization_request \<Rightarrow> oauth_client \<Rightarrow> token_request \<Rightarrow> bool" where
  "redeems cf raw req c tok \<longleftrightarrow> tq_type tok = ''authorization_code'' \<and> tq_code tok = raw \<and> raw \<noteq> [] \<and>
     tq_client tok = rq_client req \<and> rq_client req \<noteq> [] \<and> tq_redirect tok = rq_redirect req \<and> rq_redirect req \<noteq> [] \<and>
     VerifyPKCE cf (tq_verifier tok) (rq_challenge req) \<and> resourceOK cf (tq_resource tok) \<and>
     (case cl_secret c of None \<Rightarrow> True | Some h \<Rightarrow> ac_hash cf (tq_secret tok) = h)"

text \<open>The secrets and ids the two requests draw are new.\<close>

definition fresh_secrets :: "acfg \<Rightarrow> string \<Rightarrow> string \<Rightarrow> string \<Rightarrow> string \<Rightarrow> auth_db \<Rightarrow> bool" where
  "fresh_secrets cf b b' i j db \<longleftrightarrow> ac_hash cf (refreshPrefix @ b) \<notin> og_hash ` set (ad_grants db) \<and>
     ac_hash cf (prefixes TokenOAuth @ b') \<notin> tr_hash ` set (ad_tokens db) \<and> i \<notin> og_id ` set (ad_grants db) \<and> i \<noteq> [] \<and>
     j \<notin> tr_id ` set (ad_tokens db)"

lemma still_client:
  assumes x: "still x" and u: "keys_unique (ax_db x)" and c: "c \<in> set (ad_clients (ax_db x))" "cl_id c = i" "ac_uuid cf i"
    "case cl_secret c of None \<Rightarrow> True | Some h \<Rightarrow> ac_hash cf secret = h"
  shows "authenticateClient cf i secret x = (Inr (hydrate_client c), x)"
proof -
  have "acall (GetClient i) x = (Inr (Some (hydrate_client c)), x)"
    using still_call [OF x, of "GetClient i" "Some (hydrate_client c)" "ax_db x"] find_unique [of cl_id "ad_clients (ax_db x)" c i] u c
    by (simp add: GetClient_def keys_unique_def)
  then show ?thesis using c(3,4) by (auto simp: authenticateClient_def chain_def give_def hydrate_client_def split: option.splits)
qed

lemma still_exchange:
  assumes x: "still x" "\<not> ax_tx x" "ax_now x \<noteq> zero_time" and ok: "auth_ok (ax_db x)" and on: "Enabled cf"
    and c: "c \<in> set (ad_clients (ax_db x))" "cl_id c = rq_client req" "ac_uuid cf (rq_client req)"
    and k: "k \<in> set (ad_codes (ax_db x))" "oc_hash k = ac_hash cf raw" "oc_client k = rq_client req" "oc_redirect k = rq_redirect req"
      "oc_challenge k = rq_challenge req" "to_sql (ax_now x) < oc_expires k"
    and tok: "redeems cf raw req c tok" and fresh: "fresh_secrets cf b b' i j (ax_db x)"
    and rand: "ax_rand x = Some b # Some b' # rs" and ids: "ax_ids x = i # j # is"
  shows "\<exists>y. Token cf tok x = (Inr (tokenResponse (prefixes TokenOAuth @ b') (refreshPrefix @ b)), y) \<and> still y \<and>
     insert_token_row ((oauth_token (oc_user k) i AccessTokenTTL (ax_now x))\<lparr>at_id := j\<rparr>) (ac_hash cf (prefixes TokenOAuth @ b'))
       \<in> set (ad_tokens (ax_db y)) \<and>
     distinct (map tr_id (ad_tokens (ax_db y))) \<and> distinct (map tr_hash (ad_tokens (ax_db y)))"
proof -
  let ?c = "hydrate_client c" and ?k = "hydrate_code k" and ?now = "ax_now x"
  let ?resp = "tokenResponse (prefixes TokenOAuth @ b') (refreshPrefix @ b)"
  let ?t = "(oauth_token (oc_user k) i AccessTokenTTL ?now)\<lparr>at_id := j\<rparr>" and ?h = "ac_hash cf (prefixes TokenOAuth @ b')"
  let ?d1 = "(ax_db x)\<lparr>ad_codes := filter (\<lambda>q. oc_hash q \<noteq> ac_hash cf raw) (ad_codes (ax_db x))\<rparr>"
  let ?x1 = "x\<lparr>ax_db := ?d1\<rparr>"
  have hc: "cl_id ?c = rq_client req" by (simp add: hydrate_client_def c(2))
  have hk: "oc_user ?k = oc_user k" "oc_client ?k = rq_client req" by (simp_all add: hydrate_code_def k(3))
  have u: "keys_unique (ax_db x)" "refs_ok (ax_db x)" using auth_okD [OF ok] by simp_all
  have user: "oc_user k \<in> set (ad_users (ax_db x))" using u(2) k(1) by (auto simp: refs_ok_def code_ref_def)
  have known: "rq_client req \<in> cl_id ` set (ad_clients (ax_db x))" using c(1,2) by (metis image_eqI)
  have cl: "authenticateClient cf (tq_client tok) (tq_secret tok) x = (Inr ?c, x)"
    by (rule still_client) (use x u c tok in \<open>simp_all add: redeems_def\<close>)
  have co: "acall (ConsumeCode (ac_hash cf (tq_code tok))) x = (Inr (Some ?k), ?x1)"
    using still_call [OF x(1), of "ConsumeCode (ac_hash cf raw)" "Some ?k" ?d1] find_unique [of oc_hash "ad_codes (ax_db x)" k] u(1) k(1,2) tok
    by (simp add: ConsumeCode_def keys_unique_def redeems_def)
  have fits: "code_fits cf tok ?c ?k ?now" "resourceOK cf (tq_resource tok)"
    using tok k(4-6) hk hc by (simp_all add: code_fits_def redeems_def hydrate_code_def less_from_sql)
  define g where "g = fresh_grant i (oc_user ?k) (cl_id ?c) (ac_hash cf (refreshPrefix @ b)) ?now"
  have gf: "og_id g = i" "og_hash g = ac_hash cf (refreshPrefix @ b)" "og_prev g = None" "og_revoked g = None" by (simp_all add: g_def fresh_grant_def)
  let ?y1 = "?x1\<lparr>ax_tx := True\<rparr>"
  have "\<exists>d. exchange_body cf ?k ?c ?now ?y1 = (Inr ?resp, ?y1\<lparr>ax_rand := rs, ax_ids := is, ax_db := d\<rparr>) \<and>
     exchange_tx g ((oauth_token (oc_user ?k) i AccessTokenTTL (ax_now ?y1))\<lparr>at_id := j\<rparr>) ?h ?now (\<lambda>_. ax_now ?y1) (ax_db ?y1) = (Some (), d)"
    by (rule still_exchange_body [OF _ _ _ _ _ _ _ _ _ _ g_def])
      (use x fresh rand ids known user gf hc hk in \<open>simp_all add: fresh_secrets_def\<close>)
  then obtain d where body: "exchange_body cf ?k ?c ?now ?y1 = (Inr ?resp, ?y1\<lparr>ax_rand := rs, ax_ids := is, ax_db := d\<rparr>)"
    and tx: "exchange_tx g ?t ?h ?now (\<lambda>_. ?now) ?d1 = (Some (), d)" using hk by auto
  have wt: "WithTx (exchange_body cf ?k ?c ?now) ?x1 = (Inr ?resp, ?y1\<lparr>ax_rand := rs, ax_ids := is, ax_db := d\<rparr>\<lparr>ax_tx := False\<rparr>)"
    by (rule still_tx) (use x body in simp_all)
  have ok1: "auth_ok ?d1" using ok by (rule ok_filter_codes)
  have okd: "auth_ok d" using ok_exchange [OF ok1 gf(3), of ?t ?h ?now "\<lambda>_. ?now"] tx by (simp add: commit_def)
  have row: "insert_token_row ?t ?h \<in> set (ad_tokens d)"
    by (rule exchange_effect(3) [OF ok1 tx]) (use x(3) gf fresh in \<open>simp_all add: oauth_token_def fresh_secrets_def\<close>)
  have "still (?y1\<lparr>ax_rand := rs, ax_ids := is, ax_db := d\<rparr>\<lparr>ax_tx := False\<rparr>)" using x(1) by simp
  then obtain y where hs: "housekeeping ?now (?y1\<lparr>ax_rand := rs, ax_ids := is, ax_db := d\<rparr>\<lparr>ax_tx := False\<rparr>) = (Inr (), y)"
    and y: "still y" "ad_tokens (ax_db y) = ad_tokens d" using still_housekeeping [of _ ?now] by fastforce
  have pars: "tq_client tok \<noteq> []" "tq_code tok \<noteq> []" "tq_redirect tok \<noteq> []" "tq_verifier tok \<noteq> []"
    using tok by (auto simp: redeems_def VerifyPKCE_def)
  have "exchange cf tok x = (Inr ?resp, y)"
    unfolding exchange_def using pars
    apply (simp only: if_False)
    apply (rule chain_rule, rule cl, rule chain_rule, rule still_clock, rule x(1), rule chain_rule, rule co)
    apply (simp only: option.case fits simp_thms if_False)
    apply (rule chain_rule, rule wt, rule chain_rule, rule hs)
    by (simp add: give_def)
  then have "Token cf tok x = (Inr ?resp, y)" using on tok by (simp add: Token_def redeems_def)
  then show ?thesis using y row auth_okD(1) [OF okd] by (auto simp: keys_unique_def)
qed


text \<open>C10. Signing in works end to end. While nobody interferes and no call fails, a registered client whose
  request the user approves gets a redirect with a code; redeeming it within the code's two minutes
  answers an access token and a refresh token; and a request with that access token, for nearly an hour,
  is authenticated as that user with an OAuth token of scope mcp. A stored instant loses its fraction
  of a second, hence the second less.\<close>

theorem sign_in_roundtrip:
  assumes "still x" "\<not> ax_tx x" "auth_ok (ax_db x)" "approvable cf u req c (ax_db x)" "redeems cf raw req c tok"
    "ac_hash cf raw \<notin> oc_hash ` set (ad_codes (ax_db x))" "fresh_secrets cf b b' i j (ax_db x)"
    "ax_rand x = Some raw # Some b # Some b' # rs" "ax_ids x = i # j # is"
    "t1 \<noteq> zero_time" "t1 + second \<le> ax_now x + CodeTTL" "t2 + second \<le> t1 + AccessTokenTTL"
  shows "\<exists>x1 resp x2. ApproveAuthorization cf u req x = (Inr (code_redirect cf req raw), x1) \<and>
     Token cf tok (x1\<lparr>ax_now := t1\<rparr>) = (Inr resp, x2) \<and> ts_scope resp = ScopeMCP \<and>
     fst (Authenticate cf (ts_access resp) (x2\<lparr>ax_now := t2\<rparr>)) =
       Inr \<lparr>pr_user = u, pr_token = j, pr_kind = TokenOAuth, pr_scope = ScopeMCP\<rparr>"
proof -
  let ?k = "code_row (approved_code cf u c (ac_hash cf raw) req (ax_now x))"
  let ?cs = "snd (sql_update (\<lambda>k. cl_id k = cl_id c) (\<lambda>k. k\<lparr>cl_used := Some (to_sql (ax_now x))\<rparr>) (ad_clients (ax_db x)))"
  let ?d = "(ax_db x)\<lparr>ad_codes := ad_codes (ax_db x) @ [?k], ad_clients := ?cs\<rparr>"
  let ?x1 = "x\<lparr>ax_rand := Some b # Some b' # rs, ax_db := ?d\<rparr>"
  let ?w = "?x1\<lparr>ax_now := t1\<rparr>" and ?c = "c\<lparr>cl_used := Some (to_sql (ax_now x))\<rparr>"
  have a: "ApproveAuthorization cf u req x = (Inr (code_redirect cf req raw), ?x1)"
    by (rule still_approve [OF assms(1-4) assms(8,6)])
  have cid: "cl_id c = rq_client req" "c \<in> set (ad_clients (ax_db x))" "Enabled cf" "ac_uuid cf (rq_client req)" "u \<in> set (ad_users (ax_db x))"
    using assms(4) by (simp_all add: approvable_def)
  have approve: "approve_tx (approved_code cf u c (ac_hash cf raw) req (ax_now x)) (ax_now x) (ax_db x) = (Some (), ?d)"
    using assms(6) cid(5) imageI [OF cid(2), of cl_id]
    by (simp add: approve_tx_def and_then_def InsertCode_Some [THEN iffD2] MarkClientUsed_def approved_code_def InsertCode_def)
  have "auth_ok ?d" using ok_approve [OF assms(3), of "approved_code cf u c (ac_hash cf raw) req (ax_now x)" "ax_now x"] approve
    by (simp add: commit_def)
  moreover have "?c \<in> set ?cs" unfolding sql_update_mem using cid(2) by (intro bexI [of _ c]) simp_all
  moreover have "redeems cf raw req ?c tok" using assms(5) by (simp add: redeems_def)
  moreover have "fresh_secrets cf b b' i j ?d" using assms(7) by (simp add: fresh_secrets_def)
  moreover have "to_sql t1 < to_sql (ax_now x + CodeTTL)"
    using to_sql_mono [OF assms(11)] by (simp add: to_sql_def second_def)
  ultimately obtain y where t: "Token cf tok ?w = (Inr (tokenResponse (prefixes TokenOAuth @ b') (refreshPrefix @ b)), y)" "still y"
    and row: "insert_token_row ((oauth_token u i AccessTokenTTL t1)\<lparr>at_id := j\<rparr>) (ac_hash cf (prefixes TokenOAuth @ b')) \<in> set (ad_tokens (ax_db y))"
    and u: "distinct (map tr_id (ad_tokens (ax_db y)))" "distinct (map tr_hash (ad_tokens (ax_db y)))"
    using still_exchange [of ?w cf ?c req ?k raw tok b b' i j rs "is"] assms(1,2,9,10) cid
    by (simp add: code_row_def approved_code_def del: prefixes.simps) blast
  let ?r = "insert_token_row ((oauth_token u i AccessTokenTTL t1)\<lparr>at_id := j\<rparr>) (ac_hash cf (prefixes TokenOAuth @ b'))"
  have "to_sql t2 < to_sql (t1 + AccessTokenTTL)" using to_sql_mono [OF assms(12)] by (simp add: to_sql_def second_def)
  then have live: "token_live (hydrate_token ?r) t2"
    by (simp add: token_live_def hydrate_token_def insert_token_row_def oauth_token_def ptrTime_def optTime_def less_from_sql)
  have "fst (Authenticate cf (prefixes TokenOAuth @ b') (y\<lparr>ax_now := t2\<rparr>)) = Inr (principal_of (hydrate_token ?r))"
    by (rule still_authenticate) (use t(2) u row live in \<open>simp_all add: insert_token_row_def oauth_token_def\<close>)
  moreover have "principal_of (hydrate_token ?r) = \<lparr>pr_user = u, pr_token = j, pr_kind = TokenOAuth, pr_scope = ScopeMCP\<rparr>"
    by (simp add: principal_of_def hydrate_token_def insert_token_row_def oauth_token_def)
  ultimately show ?thesis using a t(1) by (intro exI [of _ ?x1] exI [of _ "tokenResponse (prefixes TokenOAuth @ b') (refreshPrefix @ b)"] exI [of _ y])
    (simp add: tokenResponse_def del: prefixes.simps)
qed

definition demo_request :: authorization_request where
  "demo_request = \<lparr>rq_client = ''c'', rq_redirect = ''r'', rq_type = ''code'', rq_challenge = demo_verifier, rq_method = ''S256'',
     rq_resource = [], rq_scope = [], rq_state = ''s''\<rparr>"

lemma sign_in_roundtrip_witness:
  "\<exists>x1 resp x2. ApproveAuthorization demo_cf ''u'' demo_request (demo_world demo_db) = (Inr ''r'', x1) \<and>
     Token demo_cf (demo_code_request\<lparr>tq_code := ''1''\<rparr>) (x1\<lparr>ax_now := 3 * second\<rparr>) = (Inr resp, x2) \<and> ts_scope resp = ScopeMCP \<and>
     fst (Authenticate demo_cf (ts_access resp) (x2\<lparr>ax_now := 100 * second\<rparr>)) =
       Inr \<lparr>pr_user = ''u'', pr_token = ''j'', pr_kind = TokenOAuth, pr_scope = ScopeMCP\<rparr>"
proof -
  let ?x = "demo_world demo_db" and ?c = "hd (ad_clients demo_db)"
  have r: "code_redirect demo_cf demo_request ''1'' = ''r''" by code_simp
  have "still ?x" "\<not> ax_tx ?x" "auth_ok (ax_db ?x)" by (simp_all add: still_def demo_world_def demo_ok)
  moreover have "approvable demo_cf ''u'' demo_request ?c (ax_db ?x)" "redeems demo_cf ''1'' demo_request ?c (demo_code_request\<lparr>tq_code := ''1''\<rparr>)"
    "ac_hash demo_cf ''1'' \<notin> oc_hash ` set (ad_codes (ax_db ?x))" "fresh_secrets demo_cf ''2'' ''3'' ''i'' ''j'' (ax_db ?x)"
    "3 * second \<noteq> zero_time" "3 * second + second \<le> ax_now ?x + CodeTTL" "100 * second + second \<le> 3 * second + AccessTokenTTL" by code_simp+
  ultimately show ?thesis
    using sign_in_roundtrip [of ?x demo_cf "''u''" demo_request ?c "''1''" _ "''2''" "''3''" "''i''" "''j''" "[]" "[]" "3 * second" "100 * second"]
    unfolding r by (simp add: demo_world_def)
qed

end
