(* ===== verification/Spec2Isabelle.thy ===== *)
theory Spec2Isabelle
  imports Evaluator_Props Notifier Rollout_Props Recipe_Props
    Scheduler_Props Scheduler_Answers Scheduler_Ends Scheduler_Choice Scheduler_Forget Auth_Signin
begin

text \<open>
  Winterflow manages self-hosted applications on several servers. A hub (the web application) keeps
  organizations, servers, applications, templates, alerts and pending work in a relational database; an
  agent on each server runs the applications with Docker Compose and reports status and metrics back.
  Several hub processes (replicas) may share one database. This library models the hub's own logic where
  it is stateful and concurrent: alerting, requests for secrets, rollouts, what these read from the
  agents' reports, and the authorization server with its access tokens; and the agent's scheduler of
  backups with the recipes it follows.

  \<^bold>\<open>Conventions.\<close> Theory \<open>Prelude\<close> holds what every component shares. A Go \<open>time.Time\<close> is an integer of
  nanoseconds with a distinguished zero time, a \<open>time.Duration\<close> an integer of nanoseconds; columns of
  type \<open>types.DateTime\<close> hold whole seconds (\<open>to_sql\<close>, \<open>from_sql\<close>). A Go map is an association list with
  one entry per key (\<open>mget\<close>, \<open>mput\<close>, \<open>mdel\<close>), whose iteration order no property uses. A table is the
  list of its rows, a statement a function from the table to its row count and the new table
  (\<open>sql_update\<close>); the two drivers' statements are the same, the SQLite ones are those mapped. Errors are
  values: \<open>Inl\<close>, \<open>None\<close> or an error datatype. Calls of the store take the next entry of a list of faults
  or of environment steps: a call may fail before it has an effect, or take effect and lose its reply,
  and between two calls any other process may run any operations of the table. Go \<open>float64\<close> is modelled
  in \<open>Float64\<close> as finite rationals rounded to 53 bits plus infinities and NaN. Strings are byte lists;
  \<open>Utf8\<close> models Go's UTF-8 validity and \<open>strings.ToValidUTF8\<close>.

  \<^bold>\<open>Metrics\<close> (theory \<open>Metrics\<close>; \<open>internal/domain/metrics\<close>): tiers and buckets, the samples agents send,
  the values taken from them, roll-up of rows into a coarser tier and the latest-sample store. Lemmas: a
  roll-up is per field the mean weighted by sample counts and the largest peak; buckets of consecutive tiers nest; stored values are
  finite.

  \<^bold>\<open>Alerts.\<close> \<open>Alert_Rules\<close> (\<open>internal/domain/alert\<close>: catalog, rules, overrides, effective settings,
  values, channels, routing), \<open>Alert_Window\<close> (the sliding window and its average), \<open>Alert_Message\<close> (titles
  and bodies), \<open>Alert_Store\<close> (\<open>internal/infra/db/repository/alert\<close>: states and events, pagination and
  pruning), \<open>Evaluator\<close> (\<open>internal/domain/service/alerting/evaluator.go\<close>: the evaluator's in-memory state
  and every handler of it), \<open>Evaluator_Rules\<close> and \<open>Evaluator_Props\<close> (its lemmas), \<open>Notifier\<close>
  (\<open>notifier.go\<close> and the channel repository). A report or a tick enters the evaluator, which reads the
  directory and rules through the repository, writes a transition and, when its own write won, hands a
  job to the notifier, which sends it to the routed channels and stores the outcomes on the event.
  Lemmas: the beginnings and ends of each alert's firings take turns whatever replicas, the notifier and
  the pruning write, an end being a recorded resolution or a silent clear; a notification is handed out
  only for an event one's own write added; threshold, down and heartbeat rules decide as configured when
  the store answers and nobody else writes (a down alert that another replica fired is resolved by the one
  that holds it); pruning and pages lose nothing; each delivery tells what its channel's sender answered.

  \<^bold>\<open>Requests for secrets.\<close> \<open>Secret_Requests\<close> (\<open>model/secret_request.go\<close>, \<open>repository/secretreq\<close>: the
  status machine and its guarded statements) and \<open>Secret_Usecase\<close> (\<open>usecase/secretreq\<close>: create, open,
  submit, consume, dispatch, commit, sweep, and the check of a ciphertext's shape). Lemmas: a row's
  columns fit its status; a request is dispatched at most once over any interleaving and never released after that (two comments of
  the source still say a failed send releases it); Go's status and the
  statements' guards agree; each use case on each branch.

  \<^bold>\<open>Status cache.\<close> \<open>Status_Cache\<close> (\<open>service/status/cache.go\<close>): liveness and app status per server. Each
  method holds the cache's mutex throughout and is one function.

  \<^bold>\<open>Rollouts.\<close> \<open>Rollout_Scope\<close> (\<open>model/rollout.go\<close>: scopes, merging, what a scope wants),
  \<open>Rollout_Store\<close> (\<open>repository/rollout\<close>: leases, steps, ends, pruning as statements; the locale
  \<open>leased_rows\<close> is what a statement guarded by a row's lease keeps, interpreted on the table),
  \<open>Rollout_Wait\<close> (\<open>usecase/rollouts/wait.go\<close>: judging an app's containers and waiting for it to settle),
  \<open>Rollouts\<close> (\<open>usecase.go\<close>, \<open>upgrade.go\<close>, \<open>reload.go\<close>, \<open>worker.go\<close>: queue, extend, stop, list, and a
  worker's turn) and \<open>Rollout_Props\<close>. A worker claims a rollout by a lease, reads it, picks the next app,
  runs the step through an agent, waits for the app, counts the step; others may extend the scope, ask it
  to stop or take the lease over between any two calls, which the model writes as the environment's
  operations on the table. Lemmas: one active rollout per scope; its history only moves forward; a step
  counts once and only for the lease holder; an accepted reload made one
  change, after which an active rollout covered it, and no extension is lost at the end; an answered stop
  is in the table it leaves and stays; the wait succeeds only on evidence.

  \<^bold>\<open>Backup recipes.\<close> \<open>Recipe\<close> (\<open>internal/domain/backup/recipe\<close>, \<open>recipe.go\<close> and \<open>effective.go\<close>):
  validation of a backup's settings, an app's overrides of a recipe, the effective backups and what is
  stored of an override; \<open>Recipe_Props\<close> its lemmas. It reads durations and paths as Go does: \<open>Durations\<close>
  (\<open>time.ParseDuration\<close>, \<open>Duration.String\<close> and their round trip) and \<open>Go_Path\<close> (\<open>path.Clean\<close>, the syntax of
  \<open>filepath.Match\<close> patterns). Lemmas: storing only the differences changes no effective backup; effective
  backups can run as they are; no path leaves the place it is resolved in.

  \<^bold>\<open>Backup scheduler.\<close> \<open>Scheduler\<close> (\<open>internal/app/agent/backup/scheduler.go\<close>): the state and every section
  that runs under the mutex, as functions on the record \<open>sched\<close>. \<open>Scheduler_Run\<close>: the goroutines as one
  transition system; \<open>Run\<close>'s goroutine has a program counter, each engine call is a goroutine of its own,
  and an event is one section or something outside (a call returns, a deadline passes, the agent is told to
  stop), so a property of every list of events is one of every interleaving. The locale \<open>blind\<close> collects what
  sections leave alone. \<open>Scheduler_Slots\<close> has the abstract machine of one running and, per app, one hung
  call, the locale \<open>slot_server\<close> of what implements it, and the invariant; \<open>Scheduler_Props\<close> the simulation and
  that calls of one app do not overlap; \<open>Scheduler_Answers\<close> that requests are answered exactly once;
  \<open>Scheduler_Forget\<close> that a deleted app stays gone; \<open>Scheduler_Ends\<close> that \<open>Run\<close> returns (eight turns bound the
  rank of the program counter); \<open>Scheduler_Choice\<close> that sleeping misses nothing.

  \<^bold>\<open>Authorization server and access tokens.\<close> The web application lets MCP clients sign in by OAuth: a
  client registers, its user approves a request and gets a code, the client exchanges the code for an
  access token and a refresh token, and refreshes. \<open>Auth_Store\<close> (\<open>repository/authserver\<close>,
  \<open>repository/accesstoken\<close>, their statements and schema): rows, statements, and the units of work that are
  committed (\<open>auth_op\<close>); \<open>Auth_History\<close>: what rows can become under any of them; \<open>Auth_Tables\<close>: the
  tables' invariant. \<open>Access_Tokens\<close> (\<open>usecase/authn\<close>): use cases as actions on one instance's world, in
  which every call of the store is a turn where others' operations may come first and which may fail before
  or after its effect, while a transaction sees nobody else (\<open>WithTx\<close>, \<open>backend/tx.go\<close> on the one SQLite
  connection); issuing, authenticating, sliding and revoking tokens. \<open>Auth_Server\<close>
  (\<open>usecase/authserver\<close>): registration, the consent page, the token endpoint, connected apps. \<open>Auth_Sound\<close>
  shows that every use case changes the tables through \<open>auth_op\<close> only, with secrets and ids it drew: what a
  request assumes of the others is what each request guarantees. The locale \<open>kept\<close> is a fact about the
  tables that no such operation undoes, interpreted on five of them. \<open>Auth_Once\<close>: a code and a
  refresh token are good for one answer; \<open>Auth_Revoke\<close>: a replayed refresh token ends its connection, an
  exchange replaces the earlier ones; \<open>Auth_Sessions\<close>: no session passes ninety days; \<open>Auth_Signin\<close>:
  signing in succeeds when nothing interferes.

  \<^bold>\<open>Interfaces.\<close> A locale stands where one part relies on another's contract: the tables under guarded
  statements, the evaluator's store, the loops over environment steps; each is interpreted on the model's
  own definitions in the theory that provides them, and the properties rest on those facts.

  \<^bold>\<open>Bounds and fuel.\<close> Loops of the source that are bounded are structural: the retries of a commit
  (\<open>commitTries\<close>) and of a reload (\<open>extendTries\<close>), pages and pruning. Loops that wait for the outside
  world (a rollout's wait, a worker's loop) recurse on the list of what happens outside, poll by poll or
  turn by turn, so a property about them speaks of every finite history, and termination is that of the
  list. Go's \<open>int\<close> and \<open>time.Duration\<close> are unbounded integers where the source keeps them far from
  \<open>2 ^ 63\<close>: the total of sample counts in a roll-up, the minutes of an effective window (validated to
  at most an hour before it is multiplied by \<open>time.Minute\<close>), counters and revisions.

  \<^bold>\<open>History variables.\<close> The evaluator's record also lists, for the statements only, the store calls that
  changed the database with what each found and left (\<open>e_writes\<close>); no definition reads it.

  \<^bold>\<open>Parameters.\<close> Random ids and tokens, hashing, the text of a foreign error, \<open>%g\<close> formatting, the senders
  and agents, the template use case a rollout calls, and, for the authorization server, the parsing and
  rendering of URLs, the canonical form of a UUID and the runes dropped from a client's name are arguments
  of the definitions.

  \<^bold>\<open>Not modelled.\<close> Network and process I/O (gRPC, HTTP, Docker, Caddy, the file system), generated code
  other than the statements named above, cryptography, database drivers (a unit of work is applied as a
  whole or not at all), the errors of decoding a stored event's JSON columns, which only the hub writes, logging, the web client; of the hub's logic so far: apps, templates, shared
  variables and catalog use cases, enrollment, hub joins and sign-in through other providers, command
  results, the reading of compose files and the archives of backups, and the statement splitter of the
  migrations. The transactions of the authorization server are those of SQLite; what Postgres' row locks
  and isolation add is not modelled.
\<close>

end
